(* ===== verification/Prelude.thy ===== *)
theory Prelude
  imports Main "HOL-Library.Word" "HOL-Library.Monad_Syntax"
begin

text \<open>
  What every component of the development shares: the machine types of the i386 target,
  the status codes and configuration constants of the kernel (\<^verbatim>\<open>src/status.h\<close>,
  \<^verbatim>\<open>src/config.h\<close>), bounds-checked access to C arrays, the byte-addressed physical
  memory, and the generic lemmas about them.

  Conventions. A C expression whose behaviour is undefined or leaves the object it was
  given (a read or a write outside an array, a NULL dereference) has the value
  \<^term>\<open>None\<close>; a computation that returns has the value \<^term>\<open>Some r\<close>. Error codes of
  the kernel are ordinary results inside \<^term>\<open>Some\<close>. A C \<open>int\<close> that counts or indexes is
  an \<^typ>\<open>int\<close> or \<^typ>\<open>nat\<close>; where its width matters it is a 32-bit word or is
  reduced with \<open>i32\<close>.
\<close>

unbundle bit_operations_syntax

subsection \<open>Machine types\<close>

type_synonym byte = "8 word"
type_synonym u16 = "16 word"
type_synonym u32 = "32 word"
type_synonym addr = "32 word"

named_theorems array_simps "bounds-checked array access"
named_theorems status_simps "numeric values of status codes and configuration constants"
named_theorems mem_simps "reads after writes in physical memory"

subsection \<open>Status codes and configuration constants\<close>

definition BENOS_ALL_OK :: int where [status_simps]: "BENOS_ALL_OK = 0"
definition EIO :: int where [status_simps]: "EIO = 1"
definition EINVARG :: int where [status_simps]: "EINVARG = 2"
definition ENOMEM :: int where [status_simps]: "ENOMEM = 3"
definition EBADPATH :: int where [status_simps]: "EBADPATH = 4"
definition EFSNOTUS :: int where [status_simps]: "EFSNOTUS = 5"
definition EREADONLY :: int where [status_simps]: "EREADONLY = 6"
definition EUNIMP :: int where [status_simps]: "EUNIMP = 7"
definition EISTKN :: int where [status_simps]: "EISTKN = 8"
definition EINFORMAT :: int where [status_simps]: "EINFORMAT = 9"

definition BENOS_HEAP_SIZE_BYTES :: u32 where [status_simps]: "BENOS_HEAP_SIZE_BYTES = 104857600"
definition BENOS_HEAP_BLOCK_SIZE :: u32 where [status_simps]: "BENOS_HEAP_BLOCK_SIZE = 4096"
definition BENOS_HEAD_ADDRESS :: addr where [status_simps]: "BENOS_HEAD_ADDRESS = 0x01000000"
definition BENOS_SECTOR_SIZE :: int where [status_simps]: "BENOS_SECTOR_SIZE = 512"
definition BENOS_MAX_FILE_DESCRIPTORS :: nat where [status_simps]: "BENOS_MAX_FILE_DESCRIPTORS = 512"
definition BENOS_MAX_PATH :: nat where [status_simps]: "BENOS_MAX_PATH = 108"
definition BENOS_PROGRAM_VIRTUAL_ADDRESS :: addr where [status_simps]:
  "BENOS_PROGRAM_VIRTUAL_ADDRESS = 0x400000"
definition BENOS_USER_PROGRAM_STACK_SIZE :: u32 where [status_simps]:
  "BENOS_USER_PROGRAM_STACK_SIZE = 1024 * 16"
definition BENOS_PROGRAM_VIRTUAL_STACK_ADDRESS_START :: addr where [status_simps]:
  "BENOS_PROGRAM_VIRTUAL_STACK_ADDRESS_START = 0x3FF000"
definition BENOS_PROGRAM_VIRTUAL_STACK_ADDRESS_END :: addr where [status_simps]:
  "BENOS_PROGRAM_VIRTUAL_STACK_ADDRESS_END =
     BENOS_PROGRAM_VIRTUAL_STACK_ADDRESS_START - BENOS_USER_PROGRAM_STACK_SIZE"
definition BENOS_MAX_PROGRAM_ALLOCATIONS :: nat where [status_simps]:
  "BENOS_MAX_PROGRAM_ALLOCATIONS = 1024"
definition BENOS_MAX_PROCESSES :: nat where [status_simps]: "BENOS_MAX_PROCESSES = 12"
definition BENOS_KEYBOARD_BUFFER_SIZE :: nat where [status_simps]:
  "BENOS_KEYBOARD_BUFFER_SIZE = 1024"

text \<open>The value a C \<open>int\<close> holds after being assigned a mathematical integer.\<close>

definition i32 :: "int \<Rightarrow> int" where
  "i32 x = signed_take_bit 31 x"

lemma i32_id [simp]: "- (2 ^ 31) \<le> x \<Longrightarrow> x < 2 ^ 31 \<Longrightarrow> i32 x = x"
  unfolding i32_def by (rule signed_take_bit_int_eq_self) simp_all

lemma i32_range: "- (2 ^ 31) \<le> i32 x \<and> i32 x < 2 ^ 31"
  using signed_take_bit_int_greater_eq_minus_exp [of 31 x] signed_take_bit_int_less_exp [of 31 x]
  by (simp add: i32_def)

text \<open>C's integer division and remainder round towards zero.\<close>

definition cdiv :: "int \<Rightarrow> int \<Rightarrow> int" where
  "cdiv a b = sgn a * sgn b * (\<bar>a\<bar> div \<bar>b\<bar>)"

definition cmod :: "int \<Rightarrow> int \<Rightarrow> int" where
  "cmod a b = a - cdiv a b * b"

lemma cdiv_nonneg [simp]: "0 \<le> a \<Longrightarrow> 0 < b \<Longrightarrow> cdiv a b = a div b"
  by (cases "a = 0") (auto simp: cdiv_def)

lemma cmod_nonneg [simp]: "0 \<le> a \<Longrightarrow> 0 < b \<Longrightarrow> cmod a b = a mod b"
  by (simp add: cmod_def minus_div_mult_eq_mod)

text \<open>
  \<open>panic\<close> prints its message and never returns. A routine that may panic has a result in
  \<open>panic + 'a\<close>.
\<close>

datatype panic = Panic (panic_message: string)

subsection \<open>Reading words\<close>

lemma int_unat: "int (unat w) = uint w" for w :: "'a::len word"
  by simp

lemma u32_lt [simp]: "unat (w :: u32) < 4294967296"
proof -
  have "int (unat w) < 4294967296" unfolding int_unat using uint_lt2p [of w] by simp
  then show ?thesis by linarith
qed

lemma sint_small:
  assumes "unat (w :: u32) < 2147483648"
  shows "sint w = int (unat w)"
proof -
  have "uint w < 2147483648" using assms unfolding int_unat [symmetric] by linarith
  moreover have "- 2147483648 \<le> uint w" using uint_ge_0 [of w] by linarith
  ultimately have "signed_take_bit 31 (uint w) = uint w"
    by (intro signed_take_bit_int_eq_self) simp_all
  then show ?thesis unfolding int_unat by (simp add: sint_uint)
qed

lemma unat_of_nat_u32: "m < 4294967296 \<Longrightarrow> unat (of_nat m :: u32) = m"
  by (simp add: unsigned_of_nat take_bit_nat_eq_self)

lemma unat_add_u32: "unat a + unat b < 4294967296 \<Longrightarrow> unat (a + b) = unat a + unat b" for a b :: u32
  by (simp add: unat_word_ariths)

lemma unat_mod_u32: "unat (a mod b) = unat a mod unat b"
  and unat_div_u32: "unat (a div b) = unat a div unat b" for a b :: u32
  by (simp_all add: unat_mod_distrib unat_div_distrib)

subsection \<open>Bounds-checked arrays\<close>

text \<open>
  \<open>rd xs i\<close> and \<open>wr xs i v\<close> are \<open>xs[i]\<close> and \<open>xs[i] = v\<close> in C on an object of
  \<^term>\<open>length xs\<close> elements: \<^term>\<open>None\<close> outside it.
\<close>

definition rd :: "'a list \<Rightarrow> int \<Rightarrow> 'a option" where
  "rd xs i = (if 0 \<le> i \<and> i < int (length xs) then Some (xs ! nat i) else None)"

definition wr :: "'a list \<Rightarrow> int \<Rightarrow> 'a \<Rightarrow> 'a list option" where
  "wr xs i v = (if 0 \<le> i \<and> i < int (length xs) then Some (xs[nat i := v]) else None)"

lemma rd_nat [array_simps]: "rd xs (int i) = (if i < length xs then Some (xs ! i) else None)"
  by (simp add: rd_def)

lemma wr_nat [array_simps]: "wr xs (int i) v = (if i < length xs then Some (xs[i := v]) else None)"
  by (simp add: wr_def)

lemma rd_Some_iff: "rd xs i = Some v \<longleftrightarrow> 0 \<le> i \<and> i < int (length xs) \<and> v = xs ! nat i"
  by (auto simp: rd_def)

lemma rd_neg [array_simps]: "i < 0 \<Longrightarrow> rd xs i = None"
  by (simp add: rd_def)

lemma wr_neg [array_simps]: "i < 0 \<Longrightarrow> wr xs i v = None"
  by (simp add: wr_def)

lemma wr_length: "wr xs i v = Some ys \<Longrightarrow> length ys = length xs"
  by (auto simp: wr_def split: if_splits)

lemma rd_wr_same: "wr xs i v = Some ys \<Longrightarrow> rd ys i = Some v"
  by (auto simp: wr_def rd_def split: if_splits)

lemma rd_wr_other: "wr xs i v = Some ys \<Longrightarrow> j \<noteq> i \<Longrightarrow> rd ys j = rd xs j"
  by (auto simp: wr_def rd_def nat_eq_iff split: if_splits)

text \<open>
  \<open>find_up lo hi P\<close> is the loop \<open>for (i = lo; i < hi; i++) if (P i) return i;\<close> over an
  array that is long enough: the first index of \<open>[lo, hi)\<close> with the property.
\<close>

function find_up :: "nat \<Rightarrow> nat \<Rightarrow> (nat \<Rightarrow> bool) \<Rightarrow> nat option" where
  "find_up lo hi P = (if lo < hi then (if P lo then Some lo else find_up (Suc lo) hi P) else None)"
  by pat_completeness auto
termination
  by (relation "measure (\<lambda>(lo, hi, P). hi - lo)") auto

declare find_up.simps [simp del]

lemma find_up_Some:
  "find_up lo hi P = Some i \<Longrightarrow> lo \<le> i \<and> i < hi \<and> P i \<and> (\<forall>j. lo \<le> j \<and> j < i \<longrightarrow> \<not> P j)"
proof (induction lo hi P rule: find_up.induct)
  case (1 lo hi P)
  show ?case
  proof (cases "lo < hi \<and> \<not> P lo")
    case True
    with "1.prems" have "find_up (Suc lo) hi P = Some i"
      by (simp add: find_up.simps [of lo hi P])
    with "1.IH" True show ?thesis
      by (metis Suc_leD Suc_leI le_neq_implies_less)
  next
    case False
    with "1.prems" show ?thesis
      by (auto simp: find_up.simps [of lo hi P] split: if_splits)
  qed
qed

lemma find_up_None: "find_up lo hi P = None \<longleftrightarrow> (\<forall>j. lo \<le> j \<and> j < hi \<longrightarrow> \<not> P j)"
proof (induction lo hi P rule: find_up.induct)
  case (1 lo hi P)
  show ?case
  proof (cases "lo < hi \<and> \<not> P lo")
    case True
    with "1.IH" show ?thesis
      by (simp add: find_up.simps [of lo hi P]) (metis Suc_leI le_neq_implies_less Suc_leD)
  next
    case False
    then show ?thesis by (auto simp: find_up.simps [of lo hi P])
  qed
qed

lemma find_up_first:
  "lo \<le> i \<Longrightarrow> i < hi \<Longrightarrow> P i \<Longrightarrow> (\<And>j. lo \<le> j \<Longrightarrow> j < i \<Longrightarrow> \<not> P j) \<Longrightarrow> find_up lo hi P = Some i"
  by (metis find_up_Some find_up_None linorder_neqE_nat not_None_eq)

end
