(* ===== verification/CString.thy ===== *)
theory CString
  imports Prelude
begin

text \<open>
  The string and memory routines of the kernel (\<^verbatim>\<open>src/string/string.c\<close> and
  \<^verbatim>\<open>src/memory/memory.c\<close>). A \<open>char*\<close> argument is the list of the bytes from the pointer
  to the end of the object it points into, so a routine that runs past its object (an
  unterminated string, a destination that is too small) has the value \<^term>\<open>None\<close>. A
  routine that writes returns the new contents of its destination.
  \<open>char\<close> is signed on this target: comparisons go through \<^const>\<open>sint\<close>.
\<close>

subsection \<open>The routines\<close>

definition tolower :: "byte \<Rightarrow> byte" where
  "tolower c = (if sint c \<ge> 65 \<and> sint c \<le> 90 then c + 32 else c)"

fun strlen_loop :: "byte list \<Rightarrow> int \<Rightarrow> int option" where
  "strlen_loop [] i = None"
| "strlen_loop (c # ptr) i = (if c \<noteq> 0 then strlen_loop ptr (i + 1) else Some i)"

definition strlen :: "byte list \<Rightarrow> int option" where
  "strlen ptr = strlen_loop ptr 0"

function strnlen_loop :: "byte list \<Rightarrow> int \<Rightarrow> int \<Rightarrow> int option" where
  "strnlen_loop ptr maxlen i =
     (if i < maxlen then do { c \<leftarrow> rd ptr i; if c = 0 then Some i else strnlen_loop ptr maxlen (i + 1) }
      else Some i)"
  by pat_completeness auto
termination by (relation "measure (\<lambda>(ptr, maxlen, i). nat (maxlen - i))") auto

declare strnlen_loop.simps [simp del]

definition strnlen :: "byte list \<Rightarrow> int \<Rightarrow> int option" where
  "strnlen ptr maxlen = strnlen_loop ptr maxlen 0"

function strnlen_terminator_loop :: "byte list \<Rightarrow> int \<Rightarrow> byte \<Rightarrow> int \<Rightarrow> int option" where
  "strnlen_terminator_loop str maxlen terminator i =
     (if i < maxlen then
        do { c \<leftarrow> rd str i;
             if c = terminator \<or> c = 0 then Some i
             else strnlen_terminator_loop str maxlen terminator (i + 1) }
      else Some i)"
  by pat_completeness auto
termination by (relation "measure (\<lambda>(str, maxlen, t, i). nat (maxlen - i))") auto

declare strnlen_terminator_loop.simps [simp del]

definition strnlen_terminator :: "byte list \<Rightarrow> int \<Rightarrow> byte \<Rightarrow> int option" where
  "strnlen_terminator str maxlen terminator = strnlen_terminator_loop str maxlen terminator 0"

fun strncmp :: "byte list \<Rightarrow> byte list \<Rightarrow> int \<Rightarrow> int option" where
  "strncmp (u1 # str1) (u2 # str2) len =
     (if len > 0 then
        (if u1 \<noteq> u2 then Some (uint u1 - uint u2)
         else if u1 = 0 then Some 0
         else strncmp str1 str2 (len - 1))
      else Some 0)"
| "strncmp str1 str2 len = (if len > 0 then None else Some 0)"

fun istrncmp :: "byte list \<Rightarrow> byte list \<Rightarrow> int \<Rightarrow> int option" where
  "istrncmp (u1 # str1) (u2 # str2) len =
     (if len > 0 then
        (if u1 \<noteq> u2 \<and> tolower u1 \<noteq> tolower u2 then Some (uint u1 - uint u2)
         else if u1 = 0 then Some 0
         else istrncmp str1 str2 (len - 1))
      else Some 0)"
| "istrncmp str1 str2 len = (if len > 0 then None else Some 0)"

text \<open>The routine called \<open>strcmp\<close> copies, and does not write a terminator.\<close>

fun strcmp :: "byte list \<Rightarrow> byte list \<Rightarrow> byte list option" where
  "strcmp dest [] = None"
| "strcmp [] (c # src) = (if c \<noteq> 0 then None else Some [])"
| "strcmp (d # dest) (c # src) =
     (if c \<noteq> 0 then map_option ((#) c) (strcmp dest src) else Some (d # dest))"

fun strcpy :: "byte list \<Rightarrow> byte list \<Rightarrow> byte list option" where
  "strcpy dest [] = None"
| "strcpy [] (c # src) = None"
| "strcpy (d # dest) (c # src) =
     (if c \<noteq> 0 then map_option ((#) c) (strcpy dest src) else Some (0 # dest))"

function strncpy_loop :: "byte list \<Rightarrow> byte list \<Rightarrow> int \<Rightarrow> int \<Rightarrow> (int \<times> byte list) option" where
  "strncpy_loop dest src count i =
     (if i < count - 1 then
        do { c \<leftarrow> rd src i;
             if c = 0 then Some (i, dest)
             else do { dest' \<leftarrow> wr dest i c; strncpy_loop dest' src count (i + 1) } }
      else Some (i, dest))"
  by pat_completeness auto
termination by (relation "measure (\<lambda>(dest, src, count, i). nat (count - i))") auto

declare strncpy_loop.simps [simp del]

definition strncpy :: "byte list \<Rightarrow> byte list \<Rightarrow> int \<Rightarrow> byte list option" where
  "strncpy dest src count = do { (i, dest') \<leftarrow> strncpy_loop dest src count 0; wr dest' i 0 }"

definition isdigit :: "byte \<Rightarrow> bool" where
  "isdigit c = (sint c \<ge> 48 \<and> sint c \<le> 57)"

definition tonum :: "byte \<Rightarrow> int" where
  "tonum c = sint c - 48"

fun memset_loop :: "byte list \<Rightarrow> byte \<Rightarrow> nat \<Rightarrow> byte list option" where
  "memset_loop ptr c 0 = Some ptr"
| "memset_loop [] c (Suc n) = None"
| "memset_loop (x # ptr) c (Suc n) = map_option ((#) c) (memset_loop ptr c n)"

definition memset :: "byte list \<Rightarrow> int \<Rightarrow> u32 \<Rightarrow> byte list option" where
  "memset ptr c sz = memset_loop ptr (word_of_int c) (unat sz)"

fun memcmp :: "byte list \<Rightarrow> byte list \<Rightarrow> int \<Rightarrow> int option" where
  "memcmp (a # c1) (b # c2) count =
     (if count > 0 then
        (if a \<noteq> b then Some (if sint a < sint b then -1 else 1) else memcmp c1 c2 (count - 1))
      else Some 0)"
| "memcmp c1 c2 count = (if count > 0 then None else Some 0)"

text \<open>
  \<open>while (len--)\<close> stops only when \<open>len\<close> is 0: a negative length runs through memory until
  it leaves the two objects.
\<close>

fun memcpy :: "byte list \<Rightarrow> byte list \<Rightarrow> int \<Rightarrow> byte list option" where
  "memcpy (d # dest) (s # src) len =
     (if len \<noteq> 0 then map_option ((#) s) (memcpy dest src (len - 1)) else Some (d # dest))"
| "memcpy dest src len = (if len \<noteq> 0 then None else Some dest)"

subsection \<open>C strings\<close>

text \<open>
  \<open>cstr\<close> is the text of a C string, \<open>terminated\<close> says that its object holds a terminator.
\<close>

definition cstr :: "byte list \<Rightarrow> byte list" where
  "cstr xs = takeWhile (\<lambda>c. c \<noteq> 0) xs"

definition terminated :: "byte list \<Rightarrow> bool" where
  "terminated xs \<longleftrightarrow> 0 \<in> set xs"

named_theorems cstring_simps "C string routines as functions of the text of the string"

lemma cstr_Nil [simp]: "cstr [] = []"
  and cstr_Cons [simp]: "cstr (c # xs) = (if c \<noteq> 0 then c # cstr xs else [])"
  by (simp_all add: cstr_def)

lemma terminated_Nil [simp]: "\<not> terminated []"
  and terminated_Cons [simp]: "terminated (c # xs) \<longleftrightarrow> c = 0 \<or> terminated xs"
  by (auto simp: terminated_def)

lemma zero_notin_cstr [simp]: "0 \<notin> set (cstr xs)"
  by (induction xs) auto

lemma cstr_append_zero [simp]: "0 \<notin> set cs \<Longrightarrow> cstr (cs @ 0 # xs) = cs"
  by (induction cs) auto

lemma terminated_append_zero [simp]: "terminated (cs @ 0 # xs)"
  by (simp add: terminated_def)

lemma terminated_split: "terminated xs \<Longrightarrow> \<exists>rest. xs = cstr xs @ 0 # rest"
  by (induction xs) auto

lemma length_cstr_less: "terminated xs \<Longrightarrow> length (cstr xs) < length xs"
  by (induction xs) auto

lemma nth_cstr: "i < length (cstr xs) \<Longrightarrow> cstr xs ! i = xs ! i \<and> xs ! i \<noteq> 0"
  by (metis cstr_def nth_mem takeWhile_nth zero_notin_cstr)

lemma nth_cstr_end: "terminated xs \<Longrightarrow> xs ! length (cstr xs) = 0"
  by (induction xs) auto

lemma length_cstr_le: "length (cstr xs) \<le> length xs"
  by (simp add: cstr_def length_takeWhile_le)

lemma strlen_loop_eq:
  "strlen_loop xs i = (if terminated xs then Some (i + int (length (cstr xs))) else None)"
  by (induction xs arbitrary: i) auto

lemma strlen_eq [cstring_simps]:
  "strlen xs = (if terminated xs then Some (int (length (cstr xs))) else None)"
  by (simp add: strlen_def strlen_loop_eq)

lemma strnlen_loop_eq:
  assumes "terminated xs" "k \<le> length (cstr xs)" "int k \<le> maxlen"
  shows "strnlen_loop xs maxlen (int k) = Some (min maxlen (int (length (cstr xs))))"
  using assms(2,3)
proof (induction "length (cstr xs) - k" arbitrary: k)
  case 0
  then have "k = length (cstr xs)" by simp
  with assms(1) "0.prems" show ?case
    by (subst strnlen_loop.simps) (simp add: rd_nat length_cstr_less nth_cstr_end)
next
  case (Suc d)
  then have k: "k < length (cstr xs)" by simp
  have "strnlen_loop xs maxlen (int (Suc k)) = Some (min maxlen (int (length (cstr xs))))"
    if "int k < maxlen" using Suc.hyps(1) [of "Suc k"] Suc.hyps(2) k that by simp
  moreover have "k < length xs" using k length_cstr_le [of xs] by linarith
  ultimately show ?case
    using k nth_cstr [OF k] Suc.prems
    by (subst strnlen_loop.simps) (auto simp: rd_nat add.commute)
qed

lemma strnlen_eq [cstring_simps]:
  "terminated xs \<Longrightarrow> 0 \<le> maxlen \<Longrightarrow> strnlen xs maxlen = Some (min maxlen (int (length (cstr xs))))"
  using strnlen_loop_eq [of xs 0 maxlen] by (simp add: strnlen_def)

subsection \<open>Copying\<close>

lemma strcpy_eq [cstring_simps]:
  "strcpy dest src =
     (if terminated src \<and> length (cstr src) < length dest
      then Some (cstr src @ 0 # drop (Suc (length (cstr src))) dest) else None)"
  by (induction dest src rule: strcpy.induct) auto

text \<open>The bytes \<open>strncpy\<close> copies.\<close>

definition strncpy_text :: "byte list \<Rightarrow> int \<Rightarrow> byte list" where
  "strncpy_text src count = take (nat (count - 1)) (cstr src)"

lemma strncpy_loop_eq:
  assumes src: "terminated src" and k: "k \<le> length (strncpy_text src count)"
  shows "strncpy_loop dest src count (int k) =
    (if length (strncpy_text src count) \<le> length dest \<or> k = length (strncpy_text src count)
     then Some (int (length (strncpy_text src count)),
       take k dest @ drop k (strncpy_text src count) @ drop (length (strncpy_text src count)) dest)
     else None)"
  using k
proof (induction "length (strncpy_text src count) - k" arbitrary: k dest)
  case 0
  let ?t = "strncpy_text src count"
  have k: "k = length ?t" using 0 by simp
  have "\<not> int k < count - 1 \<or> k = length (cstr src)"
    using k by (auto simp: strncpy_text_def)
  then show ?case
    using k src by (subst strncpy_loop.simps) (auto simp: rd_nat length_cstr_less nth_cstr_end)
next
  case (Suc d)
  let ?t = "strncpy_text src count"
  have k: "k < length ?t" using Suc by simp
  then have lt: "int k < count - 1" "k < length (cstr src)" by (auto simp: strncpy_text_def)
  then have src: "rd src (int k) = Some (?t ! k)" "?t ! k \<noteq> 0"
    using nth_cstr [of k src] length_cstr_le [of src] k by (auto simp: rd_nat strncpy_text_def)
  have IH: "strncpy_loop dest' src count (int (Suc k)) =
    (if length ?t \<le> length dest' \<or> Suc k = length ?t
     then Some (int (length ?t), take (Suc k) dest' @ drop (Suc k) ?t @ drop (length ?t) dest')
     else None)" for dest'
    using Suc.hyps(1) [of "Suc k" dest'] Suc.hyps(2) k by simp
  have t: "drop k ?t = ?t ! k # drop (Suc k) ?t"
    using k by (simp add: Cons_nth_drop_Suc)
  show ?case
  proof (cases "k < length dest")
    case True
    then have "take (Suc k) (dest[k := ?t ! k]) = take k dest @ [?t ! k]"
      by (simp add: take_Suc_conv_app_nth)
    then show ?thesis
      using True lt src IH [of "dest[k := ?t ! k]"] k t
      by (subst strncpy_loop.simps) (auto simp: wr_nat add.commute drop_update_cancel)
  next
    case False
    then show ?thesis
      using lt src k by (subst strncpy_loop.simps) (simp add: wr_nat)
  qed
qed

lemma strncpy_eq [cstring_simps]:
  assumes "terminated src"
  shows "strncpy dest src count =
    (let t = strncpy_text src count
     in if length t < length dest then Some (t @ 0 # drop (Suc (length t)) dest) else None)"
  using strncpy_loop_eq [OF assms, of 0 count dest]
  by (auto simp: strncpy_def Let_def wr_nat list_update_append Cons_nth_drop_Suc [symmetric]
      split: list.splits)

lemma memset_loop_eq:
  "memset_loop xs c n = (if n \<le> length xs then Some (replicate n c @ drop n xs) else None)"
  by (induction xs c n rule: memset_loop.induct) auto

lemma memset_eq [cstring_simps]:
  "memset xs c n = (if unat n \<le> length xs
     then Some (replicate (unat n) (word_of_int c) @ drop (unat n) xs) else None)"
  by (simp add: memset_def memset_loop_eq)

lemma memcpy_eq [cstring_simps]:
  "memcpy dest src n =
     (if 0 \<le> n \<and> nat n \<le> length dest \<and> nat n \<le> length src
      then Some (take (nat n) src @ drop (nat n) dest) else None)"
proof (induction dest src n rule: memcpy.induct)
  case (1 d dest s src n)
  show ?case
  proof (cases "0 < n")
    case True
    then obtain m where "nat n = Suc m" "nat (n - 1) = m" by (metis Suc_diff_1 nat_diff_distrib'
          nat_0_le One_nat_def nat_one_as_int zero_less_nat_eq diff_Suc_1 less_imp_le zle_add1_eq_le
          diff_add_cancel le_add_diff_inverse2 of_nat_Suc nat_int int_ops(2) zero_le_one)
    with 1 True show ?thesis by simp
  next
    case False
    with 1 show ?thesis by auto
  qed
qed auto

subsection \<open>Comparison\<close>

lemma memcmp_eq_0:
  assumes "nat n \<le> length xs" "nat n \<le> length ys"
  shows "memcmp xs ys n = Some 0 \<longleftrightarrow> take (nat n) xs = take (nat n) ys"
  using assms
proof (induction xs ys n rule: memcmp.induct)
  case (1 a xs b ys n)
  show ?case
  proof (cases "0 < n")
    case True
    then have "nat n = Suc (nat (n - 1))" by simp
    with 1 True show ?thesis by auto
  next
    case False
    with 1 show ?thesis by auto
  qed
qed auto

lemma tolower_eq_0 [simp]: "tolower c = 0 \<longleftrightarrow> c = 0"
  by (auto simp: tolower_def add_eq_0_iff2)

lemma tolower_0 [simp]: "tolower 0 = 0"
  by simp

lemma tolower_eq_0' [simp]: "0 = tolower c \<longleftrightarrow> c = 0"
  by (metis tolower_eq_0)

lemma uint_diff_0 [simp]: "uint a = uint b \<longleftrightarrow> a = b" for a b :: byte
  by (rule word_uint_eq_iff [symmetric])

lemma istrncmp_eq_0:
  assumes "terminated xs" "terminated ys"
  shows "istrncmp xs ys n = Some 0 \<longleftrightarrow>
    map tolower (take (nat n) (cstr xs)) = map tolower (take (nat n) (cstr ys))"
  using assms
proof (induction xs ys n rule: istrncmp.induct)
  case (1 a xs b ys n)
  show ?case
  proof (cases "0 < n")
    case True
    then have "nat n = Suc (nat (n - 1))" by simp
    with 1 True show ?thesis by (cases "a = 0"; cases "b = 0") (auto simp: uint_0_iff)
  next
    case False
    with 1 show ?thesis by auto
  qed
qed auto

lemma strncmp_eq_0:
  assumes "terminated xs" "terminated ys"
  shows "strncmp xs ys n = Some 0 \<longleftrightarrow> take (nat n) (cstr xs) = take (nat n) (cstr ys)"
  using assms
proof (induction xs ys n rule: strncmp.induct)
  case (1 a xs b ys n)
  show ?case
  proof (cases "0 < n")
    case True
    then have "nat n = Suc (nat (n - 1))" by simp
    with 1 True show ?thesis by (cases "a = 0"; cases "b = 0") (auto simp: uint_0_iff)
  next
    case False
    with 1 show ?thesis by auto
  qed
qed auto

lemma istrncmp_returns: "terminated xs \<Longrightarrow> terminated ys \<Longrightarrow> istrncmp xs ys n \<noteq> None"
  by (induction xs ys n rule: istrncmp.induct) auto

lemma strncmp_returns: "terminated xs \<Longrightarrow> terminated ys \<Longrightarrow> strncmp xs ys n \<noteq> None"
  by (induction xs ys n rule: strncmp.induct) auto

text \<open>\<open>isdigit\<close> and \<open>tonum\<close> agree on the ten ASCII digits.\<close>

lemma isdigit_tonum: "isdigit c \<Longrightarrow> 0 \<le> tonum c \<and> tonum c \<le> 9"
  by (simp add: isdigit_def tonum_def)

end
