(* ===== verification/Terminal.thy ===== *)
theory Terminal
  imports CString
begin

text \<open>
  The text terminal (\<^verbatim>\<open>src/kernel.c\<close>: \<open>ter_init\<close>, \<open>ter_putchar\<close>, \<open>ter_writechar\<close>,
  \<open>terminal_backspace\<close>, \<open>print\<close>). The state is the array of VGA text cells and the 16-bit
  cursor. A store outside the cells is \<^term>\<open>None\<close>; the hardware window at 0xB8000 has 16384
  cells.
\<close>

record terminal =
  video_memory :: "u16 list"
  ter_row :: u16
  ter_column :: u16

definition VGA_WIDTH :: int where [status_simps]: "VGA_WIDTH = 80"
definition VGA_HEIGHT :: int where [status_simps]: "VGA_HEIGHT = 20"

definition ter_make_character :: "byte \<Rightarrow> byte \<Rightarrow> u16" where
  "ter_make_character character color = push_bit 8 (scast color) OR scast character"

definition ter_putchar :: "terminal \<Rightarrow> int \<Rightarrow> int \<Rightarrow> byte \<Rightarrow> byte \<Rightarrow> terminal option" where
  "ter_putchar t x y character color =
     do { vm \<leftarrow> wr (video_memory t) (y * VGA_WIDTH + x) (ter_make_character character color);
          Some (t\<lparr>video_memory := vm\<rparr>) }"

text \<open>\<open>ter_writechar\<close> on a character other than newline and backspace.\<close>

definition ter_writeplain :: "terminal \<Rightarrow> byte \<Rightarrow> byte \<Rightarrow> terminal option" where
  "ter_writeplain t character color =
     do {
       t1 \<leftarrow> ter_putchar t (uint (ter_column t)) (uint (ter_row t)) character color;
       let t2 = t1\<lparr>ter_column := ter_column t1 + 1\<rparr>;
       Some (if uint (ter_column t2) \<ge> VGA_WIDTH then t2\<lparr>ter_column := 0, ter_row := ter_row t2 + 1\<rparr>
             else t2) }"

text \<open>\<open>terminal_backspace\<close> and \<open>ter_writechar\<close> call each other; the inner call writes a blank.\<close>

definition terminal_backspace :: "terminal \<Rightarrow> terminal option" where
  "terminal_backspace t =
     (if ter_row t = 0 \<and> ter_column t = 0 then Some t
      else do {
        let t1 = (if ter_column t = 0
                  then t\<lparr>ter_column := word_of_int VGA_WIDTH, ter_row := ter_row t - 1\<rparr> else t);
        let t2 = t1\<lparr>ter_column := ter_column t1 - 1\<rparr>;
        t3 \<leftarrow> ter_writeplain t2 0x20 15;
        Some (t3\<lparr>ter_column := ter_column t3 - 1\<rparr>) })"

definition ter_writechar :: "terminal \<Rightarrow> byte \<Rightarrow> byte \<Rightarrow> terminal option" where
  "ter_writechar t character color =
     (if character = 0x0A then Some (t\<lparr>ter_column := 0, ter_row := ter_row t + 1\<rparr>)
      else if character = 0x08 then terminal_backspace t
      else ter_writeplain t character color)"

text \<open>The two loops of \<open>ter_init\<close>, \<open>n\<close> columns or rows to go.\<close>

fun ter_clear_row :: "nat \<Rightarrow> int \<Rightarrow> int \<Rightarrow> terminal \<Rightarrow> terminal option" where
  "ter_clear_row 0 x y t = Some t"
| "ter_clear_row (Suc n) x y t = do { t' \<leftarrow> ter_putchar t x y 0x20 0; ter_clear_row n (x + 1) y t' }"

fun ter_clear :: "nat \<Rightarrow> int \<Rightarrow> terminal \<Rightarrow> terminal option" where
  "ter_clear 0 y t = Some t"
| "ter_clear (Suc n) y t = do { t' \<leftarrow> ter_clear_row (nat VGA_WIDTH) 0 y t; ter_clear n (y + 1) t' }"

definition ter_init :: "terminal \<Rightarrow> terminal option" where
  "ter_init t = ter_clear (nat VGA_HEIGHT) 0 (t\<lparr>ter_column := 0, ter_row := 0\<rparr>)"

text \<open>\<open>print\<close> asks for the length again at every step.\<close>

function print_loop :: "terminal \<Rightarrow> byte list \<Rightarrow> nat \<Rightarrow> terminal option" where
  "print_loop t str i =
     do {
       len \<leftarrow> strlen str;
       if int i < len then do {
         c \<leftarrow> rd str (int i);
         t' \<leftarrow> ter_writechar t c 0x0F;
         print_loop t' str (i + 1) }
       else Some t }"
  by pat_completeness auto
termination
  by (relation "measure (\<lambda>(t, str, i). nat (the (strlen str)) - i)") auto

declare print_loop.simps [simp del]

definition print :: "terminal \<Rightarrow> byte list \<Rightarrow> terminal option" where
  "print t str = print_loop t str 0"

subsection \<open>The cursor as a position\<close>

lemma numeral_le_uint: "numeral k \<le> uint w \<longleftrightarrow> numeral k \<le> unat w" for w :: "'a::len word"
proof -
  have "numeral k \<le> uint w \<longleftrightarrow> int (numeral k) \<le> int (unat w)" by (simp only: int_unat of_nat_numeral)
  then show ?thesis by (simp only: of_nat_le_iff)
qed

definition cursor :: "terminal \<Rightarrow> nat" where
  "cursor t = unat (ter_row t) * 80 + unat (ter_column t)"

text \<open>A terminal whose cursor is on the screen.\<close>

definition ter_ok :: "terminal \<Rightarrow> bool" where
  "ter_ok t \<longleftrightarrow> length (video_memory t) \<le> 16384 \<and> unat (ter_column t) < 80 \<and>
     cursor t \<le> length (video_memory t)"

lemma u16_lt [simp]: "unat (w :: u16) < 65536"
proof -
  have "int (unat w) < 65536" unfolding int_unat using uint_lt2p [of w] by simp
  then show ?thesis by linarith
qed

lemma unat_suc_u16: "unat (w :: u16) < 65535 \<Longrightarrow> unat (w + 1) = Suc (unat w)"
  by (simp add: unat_word_ariths)

lemma unat_pred_u16: "0 < unat (w :: u16) \<Longrightarrow> unat (w - 1) = unat w - 1"
  by (metis One_nat_def Suc_pred' diff_Suc_1 less_eq_Suc_le unat_1 unat_sub word_le_nat_alt)

lemma ter_writeplain_eq:
  assumes "ter_ok t" "cursor t < length (video_memory t)"
  shows "\<exists>t'. ter_writeplain t c a = Some t' \<and> ter_ok t' \<and> cursor t' = Suc (cursor t) \<and>
    video_memory t' = (video_memory t)[cursor t := ter_make_character c a]"
proof -
  let ?r = "unat (ter_row t)" and ?c = "unat (ter_column t)"
  have b: "?c < 80" "?r * 80 + ?c < 16384" using assms by (auto simp: ter_ok_def cursor_def)
  have c1: "unat (ter_column t + 1) = Suc ?c" using b by (simp add: unat_suc_u16)
  have r1: "unat (ter_row t + 1) = Suc ?r" using b by (intro unat_suc_u16) linarith
  have w: "wr (video_memory t) (uint (ter_row t) * 80 + uint (ter_column t)) v =
      Some ((video_memory t)[cursor t := v])" for v
    using wr_nat [of "video_memory t" "cursor t" v] assms(2) by (simp add: cursor_def)
  have ge: "uint (ter_column t + 1) \<ge> 80 \<longleftrightarrow> ?c = 79"
    unfolding numeral_le_uint c1 using b(1) by linarith
  show ?thesis
    using assms w b c1 r1 ge
    by (auto simp: ter_writeplain_def ter_putchar_def status_simps Let_def ter_ok_def cursor_def)
qed

text \<open>Plain text: no control characters of the terminal and no terminator.\<close>

definition plain :: "byte list \<Rightarrow> bool" where
  "plain cs \<longleftrightarrow> 0x0A \<notin> set cs \<and> 0x08 \<notin> set cs"

definition write_cells :: "u16 list \<Rightarrow> nat \<Rightarrow> byte list \<Rightarrow> u16 list" where
  "write_cells vm p cs = take p vm @ map (\<lambda>c. ter_make_character c 0x0F) cs @ drop (p + length cs) vm"

lemma write_cells_Cons:
  "p < length vm \<Longrightarrow>
   write_cells (vm[p := ter_make_character c 0x0F]) (Suc p) cs = write_cells vm p (c # cs)"
  by (simp add: write_cells_def take_Suc_conv_app_nth)

lemma print_loop_eq:
  assumes "terminated str" "i \<le> length (cstr str)" "plain (cstr str)" "ter_ok t"
    "cursor t + (length (cstr str) - i) \<le> length (video_memory t)"
  shows "\<exists>t'. print_loop t str i = Some t' \<and> ter_ok t' \<and>
    cursor t' = cursor t + (length (cstr str) - i) \<and>
    video_memory t' = write_cells (video_memory t) (cursor t) (drop i (cstr str))"
  using assms(2,4,5)
proof (induction "length (cstr str) - i" arbitrary: i t)
  case 0
  then show ?case
    using assms(1) by (subst print_loop.simps) (simp add: strlen_eq write_cells_def)
next
  case (Suc d)
  let ?cs = "cstr str"
  have i: "i < length ?cs" using Suc.hyps(2) by simp
  then have c: "rd str (int i) = Some (?cs ! i)"
    using nth_cstr [OF i] length_cstr_less [OF assms(1)] by (simp add: rd_nat)
  have "?cs ! i \<noteq> 0x0A" "?cs ! i \<noteq> 0x08"
    using assms(3) nth_mem [OF i] by (auto simp: plain_def)
  moreover have "cursor t < length (video_memory t)" using Suc.prems(3) i by linarith
  ultimately obtain t1 where t1: "ter_writechar t (?cs ! i) 0x0F = Some t1" "ter_ok t1" "cursor t1 = Suc (cursor t)"
      "video_memory t1 = (video_memory t)[cursor t := ter_make_character (?cs ! i) 0x0F]"
    using ter_writeplain_eq [of t "?cs ! i" "0x0F"] Suc.prems(2) by (auto simp: ter_writechar_def)
  have "d = length ?cs - Suc i" "Suc i \<le> length ?cs"
      "cursor t1 + (length ?cs - Suc i) \<le> length (video_memory t1)"
    using Suc.hyps(2) Suc.prems(3) t1(3,4) i by auto
  then obtain t' where t': "print_loop t1 str (Suc i) = Some t'" "ter_ok t'"
      "cursor t' = cursor t1 + (length ?cs - Suc i)"
      "video_memory t' = write_cells (video_memory t1) (cursor t1) (drop (Suc i) ?cs)"
    using Suc.hyps(1) [of "Suc i" t1] t1(2) by blast
  have "print_loop t str i = Some t'"
    using assms(1) i c t1(1) t'(1) by (subst print_loop.simps) (simp add: strlen_eq)
  moreover have "write_cells (video_memory t1) (cursor t1) (drop (Suc i) ?cs) =
      write_cells (video_memory t) (cursor t) (drop i ?cs)"
    using write_cells_Cons [of "cursor t" "video_memory t" "?cs ! i" "drop (Suc i) ?cs"] t1(3,4)
      Suc.prems(3) i by (simp add: Cons_nth_drop_Suc)
  ultimately show ?case using t' t1 i by auto
qed

text \<open>
  The cell of a character: the character below its attribute, white on black for ASCII. A character from 0x80 on
  is negative, and the bits of its sign fill the attribute.
\<close>

definition cell_of :: "byte \<Rightarrow> u16" where
  "cell_of c = (if c < 0x80 then 0x0F00 + ucast c else 0xFF00 + ucast c)"

lemma cell_of: "ter_make_character c 0x0F = cell_of c"
proof -
  have "list_all (\<lambda>n. ter_make_character (word_of_nat n) 0x0F = cell_of (word_of_nat n)) [0..<256]" by code_simp
  then have "\<forall>n \<in> {0..<256}. ter_make_character (word_of_nat n) 0x0F = cell_of (word_of_nat n)"
    by (simp only: list_all_iff set_upt)
  moreover have "unat c \<in> {0..<256}" using unsigned_less [of c] by simp
  ultimately have "ter_make_character (word_of_nat (unat c)) 0x0F = cell_of (word_of_nat (unat c))" by (rule bspec)
  then show ?thesis by simp
qed

text \<open>
  C36. \<open>print\<close> of a string without newline and backspace, when its cells fit into the video memory, puts its
  characters into consecutive cells from the cursor on, line by line, ASCII characters white on black (attribute
  0x0F) and the others with the attribute 0xFF; it moves the cursor behind them and leaves every other cell as it was.
\<close>

theorem print_text:
  assumes "ter_ok t" "terminated str" "plain (cstr str)"
    "cursor t + length (cstr str) \<le> length (video_memory t)"
  shows "\<exists>t'. print t str = Some t' \<and> ter_ok t' \<and> cursor t' = cursor t + length (cstr str) \<and>
    video_memory t' = take (cursor t) (video_memory t) @
      map cell_of (cstr str) @ drop (cursor t + length (cstr str)) (video_memory t)"
  using print_loop_eq [OF assms(2) _ assms(3,1), of 0] assms(4) by (simp add: print_def write_cells_def cell_of)

text \<open>
  A backspace after a plain character takes the cursor back to where it was and leaves a
  blank there, unless the character was written into the last column.
\<close>

theorem backspace_undoes:
  assumes "ter_ok t" "cursor t < length (video_memory t)" "unat (ter_column t) < 79" "c \<noteq> 0x0A" "c \<noteq> 0x08"
  shows "\<exists>t1. ter_writechar t c a = Some t1 \<and>
    ter_writechar t1 0x08 a = Some (t\<lparr>video_memory := (video_memory t)[cursor t := 0x0F20]\<rparr>)"
proof -
  have c1: "unat (ter_column t + 1) = Suc (unat (ter_column t))"
    using assms(3) by (simp add: unat_suc_u16)
  have w: "wr vm (uint (ter_row t) * 80 + uint (ter_column t)) v = Some (vm[cursor t := v])"
    if "length vm = length (video_memory t)" for v and vm :: "u16 list"
    using wr_nat [of vm "cursor t" v] assms(2) that by (simp add: cursor_def)
  have lt: "\<not> 80 \<le> uint (ter_column t + 1)" 
    unfolding numeral_le_uint c1 using assms(3) by linarith
  have nz: "ter_column t + 1 \<noteq> 0" using c1 by (metis nat.distinct(1) unat_0)
  have m: "ter_make_character 0x20 15 = 0x0F20" by code_simp
  show ?thesis
    using assms(4,5) w lt nz m
    by (simp add: ter_writechar_def terminal_backspace_def ter_writeplain_def ter_putchar_def
        status_simps Let_def)
qed

text \<open>
  A backspace at the start of a line other than the first blanks the last cell of the line
  above but does not move up: the row stays and the column becomes 65535, far outside the line.
\<close>

theorem backspace_at_line_start:
  assumes "ter_ok t" "ter_column t = 0" "ter_row t \<noteq> 0"
  shows "terminal_backspace t =
    Some (t\<lparr>video_memory := (video_memory t)[cursor t - 1 := 0x0F20], ter_column := 0xFFFF\<rparr>)"
proof -
  let ?r = "unat (ter_row t)"
  have r: "0 < ?r" using assms(3) by (simp add: unat_gt_0)
  then have r1: "unat (ter_row t - 1) = ?r - 1" by (rule unat_pred_u16)
  have cu: "cursor t = ?r * 80" using assms(2) by (simp add: cursor_def)
  have "(?r - 1) * 80 + 79 = cursor t - 1" using r cu by (cases ?r) simp_all
  then have i: "uint (ter_row t - 1) * 80 + 79 = int (cursor t - 1)"
    using r1 unfolding int_unat [symmetric] by simp
  have "cursor t - 1 < length (video_memory t)" using assms(1) r cu by (auto simp: ter_ok_def)
  then have w: "wr (video_memory t) (uint (ter_row t - 1) * 80 + 79) v = Some ((video_memory t)[cursor t - 1 := v])" for v
    unfolding i by (simp add: wr_nat)
  have m: "ter_make_character 0x20 15 = 0x0F20" by code_simp
  show ?thesis
    using assms(2,3) w m
    by (simp add: terminal_backspace_def ter_writeplain_def ter_putchar_def status_simps Let_def)
qed

subsection \<open>Clearing the screen\<close>

lemma ter_clear_row_eq:
  assumes "p + n \<le> length (video_memory t)" "int p = y * 80 + x"
  shows "ter_clear_row n x y t =
    Some (t\<lparr>video_memory := take p (video_memory t) @ replicate n 0x20 @ drop (p + n) (video_memory t)\<rparr>)"
  using assms
proof (induction n arbitrary: p x t)
  case (Suc n)
  have m: "ter_make_character 0x20 0 = 0x20" by code_simp
  have "wr (video_memory t) (y * 80 + x) 0x20 = Some ((video_memory t)[p := 0x20])"
    using Suc.prems wr_nat [of "video_memory t" p "0x20"] by simp
  moreover have "ter_clear_row n (x + 1) y (t\<lparr>video_memory := (video_memory t)[p := 0x20]\<rparr>) =
      Some (t\<lparr>video_memory := take p (video_memory t) @ 0x20 # replicate n 0x20 @
        drop (Suc p + n) (video_memory t)\<rparr>)"
    using Suc.IH [of "Suc p" "t\<lparr>video_memory := (video_memory t)[p := 0x20]\<rparr>" "x + 1"] Suc.prems
    by (simp add: take_Suc_conv_app_nth)
  ultimately show ?case by (simp add: ter_putchar_def status_simps m)
qed simp

lemma ter_clear_eq:
  assumes "(k + n) * 80 \<le> length (video_memory t)"
  shows "ter_clear n (int k) t =
    Some (t\<lparr>video_memory := take (k * 80) (video_memory t) @ replicate (n * 80) 0x20 @
      drop ((k + n) * 80) (video_memory t)\<rparr>)"
  using assms
proof (induction n arbitrary: k t)
  case (Suc n)
  let ?vm = "video_memory t"
  let ?t1 = "t\<lparr>video_memory := take (k * 80) ?vm @ replicate 80 0x20 @ drop (k * 80 + 80) ?vm\<rparr>"
  have r: "ter_clear_row 80 0 (int k) t = Some ?t1"
    by (rule ter_clear_row_eq) (use Suc.prems in simp_all)
  have l: "k * 80 \<le> length ?vm" "k * 80 + 80 \<le> length ?vm" using Suc.prems by simp_all
  have "ter_clear n (int (Suc k)) ?t1 = Some (?t1\<lparr>video_memory := take (Suc k * 80) (video_memory ?t1) @
      replicate (n * 80) 0x20 @ drop ((Suc k + n) * 80) (video_memory ?t1)\<rparr>)"
    by (rule Suc.IH) (use Suc.prems in simp)
  moreover have "take (Suc k * 80) (video_memory ?t1) = take (k * 80) ?vm @ replicate 80 0x20"
    using l by simp
  moreover have "drop ((Suc k + n) * 80) (video_memory ?t1) = drop ((k + Suc n) * 80) ?vm"
    using l by (simp add: algebra_simps)
  moreover have "replicate 80 0x20 @ replicate (n * 80) 0x20 = replicate (Suc n * 80) (0x20 :: u16)"
    by (simp add: replicate_add)
  ultimately have "ter_clear n (int (Suc k)) ?t1 = Some (t\<lparr>video_memory := take (k * 80) ?vm @
      replicate (Suc n * 80) 0x20 @ drop ((k + Suc n) * 80) ?vm\<rparr>)"
    by (simp only: append_assoc) simp
  then show ?case using r by (simp add: status_simps add.commute)
qed simp

text \<open>\<open>ter_init\<close> blanks the 20 visible lines and homes the cursor.\<close>

theorem ter_init_clears:
  assumes "1600 \<le> length (video_memory t)"
  shows "ter_init t = Some \<lparr>video_memory = replicate 1600 0x20 @ drop 1600 (video_memory t),
    ter_row = 0, ter_column = 0\<rparr>"
  using ter_clear_eq [of 0 20 "t\<lparr>ter_column := 0, ter_row := 0\<rparr>"] assms
  by (cases t) (simp add: ter_init_def status_simps)


text \<open>A terminal of two lines.\<close>

definition small_terminal :: "u16 \<Rightarrow> u16 \<Rightarrow> terminal" where
  "small_terminal r c = \<lparr>video_memory = replicate 160 0x20, ter_row = r, ter_column = c\<rparr>"

lemma small_terminal_ok: "ter_ok (small_terminal 0 78)" "ter_ok (small_terminal 0 3)" "ter_ok (small_terminal 1 0)"
  by (simp_all add: small_terminal_def ter_ok_def cursor_def)

theorem print_text_witness:
  "\<exists>t'. print (small_terminal 0 78) [0x48, 0x65, 0x79, 0] = Some t' \<and> cursor t' = 81 \<and>
     take 3 (drop 78 (video_memory t')) = [0x0F48, 0x0F65, 0x0F79]"
proof -
  have t: "terminated [0x48, 0x65, 0x79, 0]" "plain (cstr [0x48, 0x65, 0x79, 0])"
    "cstr [0x48, 0x65, 0x79, 0] = [0x48, 0x65, 0x79]"
    by (simp_all add: terminated_def plain_def)
  have m: "map cell_of [0x48, 0x65, 0x79] = [0x0F48, 0x0F65, 0x0F79]" by code_simp
  have c: "cursor (small_terminal 0 78) = 78" "length (video_memory (small_terminal 0 78)) = 160"
    by (simp_all add: small_terminal_def cursor_def)
  then show ?thesis
    using print_text [OF small_terminal_ok(1) t(1,2)] t(3) m by auto
qed

theorem backspace_undoes_witness:
  "\<exists>t1. ter_writechar (small_terminal 0 3) 0x41 15 = Some t1 \<and>
     ter_writechar t1 0x08 15 =
       Some (small_terminal 0 3\<lparr>video_memory := (video_memory (small_terminal 0 3))[3 := 0x0F20]\<rparr>)"
  using backspace_undoes [OF small_terminal_ok(2), of "0x41" 15] by (simp add: small_terminal_def cursor_def)

theorem backspace_at_line_start_witness:
  "\<exists>t'. terminal_backspace (small_terminal 1 0) = Some t' \<and> ter_row t' = 1 \<and> ter_column t' = 65535"
  using backspace_at_line_start [OF small_terminal_ok(3)] by (simp add: small_terminal_def)

theorem ter_init_clears_witness:
  "ter_init \<lparr>video_memory = replicate 2000 7, ter_row = 9, ter_column = 9\<rparr> =
     Some \<lparr>video_memory = replicate 1600 0x20 @ replicate 400 7, ter_row = 0, ter_column = 0\<rparr>"
  using ter_init_clears [of "\<lparr>video_memory = replicate 2000 7, ter_row = 9, ter_column = 9\<rparr>"] by simp

end
