(* ===== verification/Keyboard.thy ===== *)
theory Keyboard
  imports CString
begin

text \<open>
  The keyboard layer (\<^verbatim>\<open>src/keyboard/keyboard.c\<close>): the ring buffer of characters that every process owns (\<open>struct keyboard_buffer\<close> in
  \<^verbatim>\<open>src/task/process.h\<close>). \<open>tail\<close> and \<open>head\<close> are C \<open>int\<close>s that only grow; stepping one past
  its largest value is \<^term>\<open>None\<close>. They are converted to \<open>size_t\<close> by the remainder with the
  size of the buffer. \<open>proc\<close> is the buffer of the process at hand, \<^term>\<open>None\<close> for a NULL process.
\<close>

record keyboard_buffer =
  buffer :: "byte list"
  tail :: int
  head :: int

definition ring_index :: "int \<Rightarrow> int" where
  "ring_index i = uint (word_of_int i :: u32) mod int BENOS_KEYBOARD_BUFFER_SIZE"

definition keyboard_get_tail_index :: "keyboard_buffer \<Rightarrow> int" where
  "keyboard_get_tail_index kb = ring_index (tail kb)"

definition int_inc :: "int \<Rightarrow> int option" where
  "int_inc x = (if x < 2147483647 then Some (x + 1) else None)"

definition int_dec :: "int \<Rightarrow> int option" where
  "int_dec x = (if - 2147483648 < x then Some (x - 1) else None)"

definition keyboard_backspace :: "keyboard_buffer \<Rightarrow> keyboard_buffer option" where
  "keyboard_backspace kb =
     do {
       t \<leftarrow> int_dec (tail kb);
       let kb1 = kb\<lparr>tail := t\<rparr>;
       b \<leftarrow> wr (buffer kb1) (keyboard_get_tail_index kb1) 0;
       Some (kb1\<lparr>buffer := b\<rparr>) }"

definition keyboard_push :: "keyboard_buffer option \<Rightarrow> byte \<Rightarrow> keyboard_buffer option option" where
  "keyboard_push proc c =
     (case proc of
        None \<Rightarrow> Some None
      | Some kb \<Rightarrow>
          if c = 0 then Some (Some kb)
          else do {
            b \<leftarrow> wr (buffer kb) (keyboard_get_tail_index kb) c;
            t \<leftarrow> int_inc (tail kb);
            Some (Some (kb\<lparr>buffer := b, tail := t\<rparr>)) })"

definition keyboard_pop :: "keyboard_buffer option \<Rightarrow> (byte \<times> keyboard_buffer option) option" where
  "keyboard_pop proc =
     (case proc of
        None \<Rightarrow> Some (0, None)
      | Some kb \<Rightarrow>
          do {
            let real_i = ring_index (head kb);
            c \<leftarrow> rd (buffer kb) real_i;
            if c = 0 then Some (0, Some kb)
            else do {
              b \<leftarrow> wr (buffer kb) real_i 0;
              h \<leftarrow> int_inc (head kb);
              Some (c, Some (kb\<lparr>buffer := b, head := h\<rparr>)) } })"

subsection \<open>First in, first out\<close>

text \<open>
  A bounded queue of characters in which 0 stands for \<open>nothing there\<close>.
\<close>

locale fifo =
  fixes push :: "'q \<Rightarrow> byte \<Rightarrow> 'q option"
    and pop :: "'q \<Rightarrow> (byte \<times> 'q) option"
    and contents :: "'q \<Rightarrow> byte list"
    and room :: "'q \<Rightarrow> nat"
    and ok :: "'q \<Rightarrow> bool"
  assumes push_ok: "ok q \<Longrightarrow> c \<noteq> 0 \<Longrightarrow> 0 < room q \<Longrightarrow>
      \<exists>q'. push q c = Some q' \<and> ok q' \<and> contents q' = contents q @ [c] \<and> room q' = room q - 1"
    and pop_empty: "ok q \<Longrightarrow> contents q = [] \<Longrightarrow> pop q = Some (0, q)"
    and pop_ok: "ok q \<Longrightarrow> contents q = c # cs \<Longrightarrow> \<exists>q'. pop q = Some (c, q') \<and> ok q' \<and> contents q' = cs"
    and contents_nonzero: "ok q \<Longrightarrow> 0 \<notin> set (contents q)"

fun push_all :: "('q \<Rightarrow> byte \<Rightarrow> 'q option) \<Rightarrow> 'q \<Rightarrow> byte list \<Rightarrow> 'q option" where
  "push_all push q [] = Some q"
| "push_all push q (c # cs) = do { q' \<leftarrow> push q c; push_all push q' cs }"

fun pop_n :: "('q \<Rightarrow> (byte \<times> 'q) option) \<Rightarrow> 'q \<Rightarrow> nat \<Rightarrow> (byte list \<times> 'q) option" where
  "pop_n pop q 0 = Some ([], q)"
| "pop_n pop q (Suc n) = do { (c, q') \<leftarrow> pop q; (cs, q'') \<leftarrow> pop_n pop q' n; Some (c # cs, q'') }"

context fifo
begin

lemma push_all_ok:
  "ok q \<Longrightarrow> 0 \<notin> set cs \<Longrightarrow> length cs \<le> room q \<Longrightarrow>
   \<exists>q'. push_all push q cs = Some q' \<and> ok q' \<and> contents q' = contents q @ cs \<and> room q' = room q - length cs"
proof (induction cs arbitrary: q)
  case (Cons c cs)
  then obtain q' where "push q c = Some q'" "ok q'" "contents q' = contents q @ [c]" "room q' = room q - 1"
    using push_ok [of q c] by auto
  then show ?case using Cons.IH [of q'] Cons.prems by auto
qed simp

lemma pop_n_ok:
  "ok q \<Longrightarrow> n \<le> length (contents q) \<Longrightarrow>
   \<exists>q'. pop_n pop q n = Some (take n (contents q), q') \<and> ok q' \<and> contents q' = drop n (contents q)"
proof (induction n arbitrary: q)
  case (Suc n)
  then obtain c cs where cs: "contents q = c # cs" by (cases "contents q") auto
  then obtain q' where "pop q = Some (c, q')" "ok q'" "contents q' = cs"
    using pop_ok Suc.prems by blast
  then show ?case using Suc.IH [of q'] Suc.prems cs by auto
qed simp

lemma push_pop:
  assumes "ok q" "contents q = []" "0 \<notin> set cs" "length cs \<le> room q"
  shows "\<exists>q' q''. push_all push q cs = Some q' \<and> pop_n pop q' (length cs) = Some (cs, q'') \<and>
    ok q'' \<and> contents q'' = []"
proof -
  obtain q' where q': "push_all push q cs = Some q'" "ok q'" "contents q' = cs"
    using push_all_ok [OF assms(1,3,4)] assms(2) by auto
  then show ?thesis using pop_n_ok [of q' "length cs"] by auto
qed

end

subsection \<open>The ring buffer is one\<close>

abbreviation cell :: "keyboard_buffer \<Rightarrow> nat \<Rightarrow> byte" where
  "cell kb i \<equiv> buffer kb ! (i mod 1024)"

definition kb_ok :: "keyboard_buffer \<Rightarrow> bool" where
  "kb_ok kb \<longleftrightarrow> length (buffer kb) = 1024 \<and> 0 \<le> head kb \<and> head kb \<le> tail kb \<and>
     tail kb - head kb \<le> 1024 \<and> tail kb \<le> 2147483647 \<and>
     (\<forall>i. nat (head kb) \<le> i \<and> i < nat (tail kb) \<longrightarrow> cell kb i \<noteq> 0) \<and>
     (\<forall>i. nat (tail kb) \<le> i \<and> i < nat (head kb) + 1024 \<longrightarrow> cell kb i = 0)"

definition kb_contents :: "keyboard_buffer \<Rightarrow> byte list" where
  "kb_contents kb = map (cell kb) [nat (head kb)..<nat (tail kb)]"

definition kb_room :: "keyboard_buffer \<Rightarrow> nat" where
  "kb_room kb = min (1024 - nat (tail kb - head kb)) (nat (2147483647 - tail kb))"

text \<open>The operations on the buffer of a process that exists.\<close>

definition kb_push :: "keyboard_buffer \<Rightarrow> byte \<Rightarrow> keyboard_buffer option" where
  "kb_push kb c = map_option the (keyboard_push (Some kb) c)"

definition kb_pop :: "keyboard_buffer \<Rightarrow> (byte \<times> keyboard_buffer) option" where
  "kb_pop kb = map_option (\<lambda>(c, p). (c, the p)) (keyboard_pop (Some kb))"

lemma kb_okI:
  assumes "length (buffer kb) = 1024" "head kb = int h" "tail kb = int t" "h \<le> t" "t - h \<le> 1024"
    "t \<le> 2147483647" "\<And>i. h \<le> i \<Longrightarrow> i < t \<Longrightarrow> cell kb i \<noteq> 0"
    "\<And>i. t \<le> i \<Longrightarrow> i < h + 1024 \<Longrightarrow> cell kb i = 0"
  shows "kb_ok kb"
proof -
  have "int t - int h \<le> 1024" "int t \<le> 2147483647" using assms(4,5,6) by linarith+
  then show ?thesis using assms by (simp add: kb_ok_def)
qed

lemma ring_index_nat: "t < 2147483648 \<Longrightarrow> ring_index (int t) = int (t mod 1024)"
  by (simp add: ring_index_def status_simps unsigned_of_nat take_bit_nat_eq_self zmod_int
      flip: uint_nat)

lemma mod_1024_neq: "i < j \<Longrightarrow> j < i + 1024 \<Longrightarrow> i mod 1024 \<noteq> j mod (1024 :: nat)"
proof
  assume a: "i < j" "j < i + 1024" "i mod 1024 = j mod 1024"
  then have "1024 dvd j - i" using mod_eq_dvd_iff_nat [of i j 1024] by simp
  then show False using a nat_dvd_not_less [of "j - i" 1024] by simp
qed

lemma kb_push_eq:
  assumes "kb_ok kb" "c \<noteq> 0" "tail kb < 2147483647"
  shows "kb_push kb c = Some (kb\<lparr>buffer := (buffer kb)[nat (tail kb) mod 1024 := c], tail := tail kb + 1\<rparr>)"
proof -
  have "ring_index (tail kb) = int (nat (tail kb) mod 1024)"
    using ring_index_nat [of "nat (tail kb)"] assms by (auto simp: kb_ok_def)
  then show ?thesis
    using assms
    by (simp add: kb_push_def keyboard_push_def keyboard_get_tail_index_def wr_nat kb_ok_def int_inc_def)
qed

lemma kb_pop_eq:
  assumes "kb_ok kb"
  shows "kb_pop kb = Some (if head kb = tail kb then (0, kb) else
    (cell kb (nat (head kb)), kb\<lparr>buffer := (buffer kb)[nat (head kb) mod 1024 := 0], head := head kb + 1\<rparr>))"
proof -
  have "ring_index (head kb) = int (nat (head kb) mod 1024)"
    using ring_index_nat [of "nat (head kb)"] assms by (auto simp: kb_ok_def)
  moreover have "cell kb (nat (head kb)) = 0 \<longleftrightarrow> head kb = tail kb"
    using assms by (auto simp: kb_ok_def)
  ultimately show ?thesis
    using assms by (auto simp: kb_pop_def keyboard_pop_def rd_nat wr_nat kb_ok_def int_inc_def)
qed

interpretation kbq: fifo kb_push kb_pop kb_contents kb_room kb_ok
proof
  fix kb and c :: byte and cs
  assume ok: "kb_ok kb"
  define h t where "h = nat (head kb)" and "t = nat (tail kb)"
  have ht: "head kb = int h" "tail kb = int t" "h \<le> t" "t - h \<le> 1024" "length (buffer kb) = 1024"
      "\<And>i. h \<le> i \<Longrightarrow> i < t \<Longrightarrow> cell kb i \<noteq> 0" "\<And>i. t \<le> i \<Longrightarrow> i < h + 1024 \<Longrightarrow> cell kb i = 0"
    using ok by (auto simp: kb_ok_def h_def t_def)
  show "0 \<notin> set (kb_contents kb)"
    using ht by (auto simp: kb_contents_def)
  {
    assume c: "c \<noteq> 0" and r: "0 < kb_room kb"
    then have t: "t - h < 1024" "t < 2147483647" using ht by (auto simp: kb_room_def)
    let ?kb = "kb\<lparr>buffer := (buffer kb)[t mod 1024 := c], tail := int (Suc t)\<rparr>"
    have same: "cell ?kb i = cell kb i" if "i \<noteq> t" "h \<le> i" "i < h + 1024" for i
    proof -
      have "i < t \<and> t < i + 1024 \<or> t < i \<and> i < t + 1024" using that t(1) ht(3) by linarith
      then have "t mod 1024 \<noteq> i mod 1024" using mod_1024_neq by metis
      then show ?thesis by simp
    qed
    have new: "cell ?kb t = c" using ht by simp
    have "kb_contents ?kb = kb_contents kb @ [c]"
      using ht t same new
      by (auto simp: kb_contents_def upt_Suc_append nat_add_distrib Suc_eq_plus1_left [symmetric])
    moreover have "cell ?kb i \<noteq> 0" if "h \<le> i" "i < Suc t" for i
      using that same [of i] new c ht t by (cases "i = t") auto
    moreover have "cell ?kb i = 0" if "Suc t \<le> i" "i < h + 1024" for i
      using that same [of i] ht by auto
    moreover have "kb_room ?kb = kb_room kb - 1"
    proof -
      have n: "nat (int t - int h) = t - h" "nat (int (Suc t) - int h) = Suc t - h"
        "nat (2147483647 - int t) = 2147483647 - t" "nat (2147483647 - int (Suc t)) = 2147483647 - Suc t"
        using ht(3) t(2) by (simp_all add: nat_diff_distrib)
      have "kb_room ?kb = min (1024 - (Suc t - h)) (2147483647 - Suc t)"
        "kb_room kb = min (1024 - (t - h)) (2147483647 - t)"
        unfolding kb_room_def using n ht(1,2) by (simp_all del: of_nat_Suc)
      moreover have "1024 - (Suc t - h) = (1024 - (t - h)) - 1" "2147483647 - Suc t = (2147483647 - t) - 1"
        using ht(3) by simp_all
      ultimately show ?thesis by (simp only: min_diff)
    qed
    moreover from calculation have "kb_ok ?kb"
      by (intro kb_okI [of _ h "Suc t"]) (use ht(1,3,5) t in simp_all)
    ultimately show "\<exists>kb'. kb_push kb c = Some kb' \<and> kb_ok kb' \<and> kb_contents kb' = kb_contents kb @ [c] \<and>
        kb_room kb' = kb_room kb - 1"
      using kb_push_eq [OF ok c] ht(2) t(2) by (intro exI [of _ ?kb]) (simp add: add.commute)
  }
  {
    assume "kb_contents kb = []"
    then show "kb_pop kb = Some (0, kb)"
      using kb_pop_eq [OF ok] ht by (auto simp: kb_contents_def)
  }
  {
    assume cs: "kb_contents kb = c # cs"
    then have lt: "h < t" using ht by (cases "h < t") (simp_all add: kb_contents_def)
    then have c: "c = cell kb h" "cs = map (cell kb) [Suc h..<t]"
      using cs ht by (simp_all add: kb_contents_def upt_conv_Cons)
    let ?kb = "kb\<lparr>buffer := (buffer kb)[h mod 1024 := 0], head := int (Suc h)\<rparr>"
    have same: "cell ?kb i = cell kb i" if "h < i" "i < h + 1024" for i
      using mod_1024_neq [OF that] by simp
    have wrap: "cell ?kb (h + 1024) = 0" using ht by simp
    have "cell ?kb i = 0" if "t \<le> i" "i < Suc h + 1024" for i
      using that same [of i] wrap ht lt by (cases "i = h + 1024") auto
    moreover have "cell ?kb i \<noteq> 0" if "Suc h \<le> i" "i < t" for i
      using that same [of i] ht by auto
    moreover have "kb_contents ?kb = cs"
      using c same ht by (auto simp: kb_contents_def nat_add_distrib)
    moreover from calculation have "kb_ok ?kb"
      by (intro kb_okI [of _ "Suc h" t]) (use ht(2-5) lt ok in \<open>simp_all add: kb_ok_def\<close>)
    ultimately show "\<exists>kb'. kb_pop kb = Some (c, kb') \<and> kb_ok kb' \<and> kb_contents kb' = cs"
      using kb_pop_eq [OF ok] ht(1,2) lt c(1) by (intro exI [of _ ?kb]) (simp add: add.commute)
  }
qed

text \<open>
  C29. The keyboard buffer is first in, first out: what is typed into an empty buffer, up to its
  1024 characters, is read back in the same order, and the buffer is empty again.
\<close>

theorem keyboard_fifo:
  assumes "kb_ok kb" "kb_contents kb = []" "0 \<notin> set cs" "length cs \<le> kb_room kb"
  shows "\<exists>kb' kb''. push_all kb_push kb cs = Some kb' \<and> pop_n kb_pop kb' (length cs) = Some (cs, kb'') \<and>
    kb_ok kb'' \<and> kb_contents kb'' = []"
  using assms by (rule kbq.push_pop)

text \<open>
  A push into a full buffer is not refused: it overwrites the oldest character, and the next
  pop returns the newest one in its place.
\<close>

theorem keyboard_overrun:
  assumes "kb_ok kb" "tail kb - head kb = 1024" "tail kb < 2147483647" "c \<noteq> 0"
  shows "\<exists>kb' kb''. kb_push kb c = Some kb' \<and> kb_pop kb' = Some (c, kb'')"
proof -
  define h where "h = nat (head kb)"
  have h: "head kb = int h" "tail kb = int (h + 1024)" "length (buffer kb) = 1024"
    using assms(1,2) by (auto simp: kb_ok_def h_def)
  let ?kb = "kb\<lparr>buffer := (buffer kb)[h mod 1024 := c], tail := tail kb + 1\<rparr>"
  have p: "kb_push kb c = Some ?kb"
  proof -
    have "nat (tail kb) mod 1024 = h mod 1024" unfolding h(2) nat_int by simp
    then show ?thesis using kb_push_eq [OF assms(1,4,3)] by simp
  qed
  have i: "ring_index (head kb) = int (h mod 1024)"
    using ring_index_nat [of h] h assms(3) by simp
  have "kb_pop ?kb = Some (c, ?kb\<lparr>buffer := (buffer ?kb)[h mod 1024 := 0], head := head kb + 1\<rparr>)"
    using i h assms(3,4) by (simp add: kb_pop_def keyboard_pop_def rd_nat wr_nat int_inc_def)
  then show ?thesis using p by blast
qed

definition empty_keyboard :: keyboard_buffer where
  "empty_keyboard = \<lparr>buffer = replicate 1024 0, tail = 0, head = 0\<rparr>"

lemma empty_keyboard: "kb_ok empty_keyboard" "kb_contents empty_keyboard = []" "kb_room empty_keyboard = 1024"
  by (simp_all add: empty_keyboard_def kb_ok_def kb_contents_def kb_room_def)

theorem keyboard_fifo_witness:
  "\<exists>kb' kb''. push_all kb_push empty_keyboard [0x6C, 0x73, 0x0D] = Some kb' \<and>
     pop_n kb_pop kb' 3 = Some ([0x6C, 0x73, 0x0D], kb'')"
  using keyboard_fifo [OF empty_keyboard(1,2), of "[0x6C, 0x73, 0x0D]"] empty_keyboard(3)
  by (auto simp: numeral_3_eq_3)

theorem keyboard_overrun_witness:
  "\<exists>kb' kb''. kb_push \<lparr>buffer = replicate 1024 0x61, tail = 1024, head = 0\<rparr> 0x62 = Some kb' \<and>
     kb_pop kb' = Some (0x62, kb'')"
  by (rule keyboard_overrun) (simp_all add: kb_ok_def)

end
