(* ===== verification/Gdt.thy ===== *)
theory Gdt
  imports Prelude
begin

text \<open>
  The global descriptor table (\<^verbatim>\<open>src/gdt/gdt.c\<close>, \<^verbatim>\<open>gdt.h\<close>, the table of \<^verbatim>\<open>src/kernel.c\<close>). An
  entry of the table is the eight bytes of the packed \<open>struct gdt\<close>. \<open>decode_gdt_entry\<close> is how
  the processor reads them back.
\<close>

record gdt_structured =
  base :: u32
  limit :: u32
  type :: byte

text \<open>The argument check of \<open>encoded_gdt_entry\<close>; failing it is a kernel panic.\<close>

definition gdt_entry_panics :: "gdt_structured \<Rightarrow> bool" where
  "gdt_entry_panics source \<longleftrightarrow> limit source > 65536 \<and> limit source AND 0xFFF \<noteq> 0xFFF"

definition encoded_gdt_entry :: "gdt_structured \<Rightarrow> panic + byte list" where
  "encoded_gdt_entry source =
     (if gdt_entry_panics source then Inl (Panic ''Kernel Panic: encodedGdtEntry: Invalid argument'')
      else
        (let big = limit source > 65536;
             lim = (if big then drop_bit 12 (limit source) else limit source);
             flags = (if big then 0xC0 else 0x40 :: byte)
         in Inr [
           ucast (lim AND 0xFF),
           ucast (drop_bit 8 lim AND 0xFF),
           ucast (base source AND 0xFF),
           ucast (drop_bit 8 (base source) AND 0xFF),
           ucast (drop_bit 16 (base source) AND 0xFF),
           type source,
           flags OR ucast (drop_bit 16 lim AND 0xF),
           ucast (drop_bit 24 (base source) AND 0xFF)]))"

fun gdt_structured_to_gdt :: "gdt_structured list \<Rightarrow> panic + byte list list" where
  "gdt_structured_to_gdt [] = Inr []"
| "gdt_structured_to_gdt (e # es) =
     (case encoded_gdt_entry e of
        Inl p \<Rightarrow> Inl p
      | Inr bs \<Rightarrow> (case gdt_structured_to_gdt es of Inl p \<Rightarrow> Inl p | Inr bss \<Rightarrow> Inr (bs # bss)))"

text \<open>The table of \<open>kernel.c\<close>, given the address of the task state segment.\<close>

definition sizeof_tss :: u32 where "sizeof_tss = 25 * 4"

definition kernel_gdt :: "u32 \<Rightarrow> gdt_structured list" where
  "kernel_gdt tss = [
     \<lparr>base = 0x00, limit = 0x00, type = 0x00\<rparr>,
     \<lparr>base = 0x00, limit = 0xFFFFFFFF, type = 0x9A\<rparr>,
     \<lparr>base = 0x00, limit = 0xFFFFFFFF, type = 0x92\<rparr>,
     \<lparr>base = 0x00, limit = 0xFFFFFFFF, type = 0xF8\<rparr>,
     \<lparr>base = 0x00, limit = 0xFFFFFFFF, type = 0xF2\<rparr>,
     \<lparr>base = tss, limit = sizeof_tss, type = 0xE9\<rparr>]"

subsection \<open>What the processor reads\<close>

definition decode_gdt_entry :: "byte list \<Rightarrow> gdt_structured" where
  "decode_gdt_entry bs =
     (let lim = (ucast (bs ! 0) :: u32) OR push_bit 8 (ucast (bs ! 1)) OR push_bit 16 (ucast (bs ! 6) AND 0xF);
          granular = bs ! 6 AND 0x80 \<noteq> 0
      in \<lparr>base = ucast (bs ! 2) OR push_bit 8 (ucast (bs ! 3)) OR push_bit 16 (ucast (bs ! 4)) OR
            push_bit 24 (ucast (bs ! 7)),
          limit = (if granular then push_bit 12 lim OR 0xFFF else lim),
          type = bs ! 5\<rparr>)"

lemma bytes_of_u32:
  "(ucast (ucast (b AND 0xFF) :: byte) :: u32) OR push_bit 8 (ucast (ucast (drop_bit 8 b AND 0xFF) :: byte)) OR
   push_bit 16 (ucast (ucast (drop_bit 16 b AND 0xFF) :: byte)) OR
   push_bit 24 (ucast (ucast (drop_bit 24 b AND 0xFF) :: byte)) = (b :: u32)"
  (is "?w = b")
proof (rule bit_word_eqI)
  have m: "(0xFF :: u32) = mask 8" by (simp add: mask_eq_exp_minus_1)
  fix n assume "n < LENGTH(32)"
  then show "bit ?w n \<longleftrightarrow> bit b n"
    unfolding m
    by (cases "n < 8"; cases "n < 16"; cases "n < 24") (auto simp: bit_simps)
qed

lemma limit_bytes:
  assumes "l < 0x100000" "f AND 0xF = 0"
  shows "(ucast (ucast (l AND 0xFF) :: byte) :: u32) OR push_bit 8 (ucast (ucast (drop_bit 8 l AND 0xFF) :: byte)) OR
   push_bit 16 (ucast (f OR (ucast (drop_bit 16 l AND 0xF) :: byte)) AND 0xF) = (l :: u32)"
proof -
  have m: "(0xFF :: u32) = mask 8" "(0xF :: u32) = mask 4" "(0xF :: byte) = mask 4"
    by (simp_all add: mask_eq_exp_minus_1)
  have l: "\<not> bit l n" if "20 \<le> n" for n
  proof -
    have "l = take_bit 20 l" using assms by (simp add: take_bit_eq_mod mod_word_less)
    then show ?thesis using that by (metis bit_take_bit_iff not_le)
  qed
  have f: "\<not> bit f n" if "n < 4" for n
    using arg_cong [OF assms(2), of "\<lambda>w. bit w n"] that unfolding m by (simp add: bit_simps)
  show ?thesis
  proof (rule bit_word_eqI)
    fix n assume "n < LENGTH(32)"
    then show "bit ((ucast (ucast (l AND 0xFF) :: byte) :: u32) OR
        push_bit 8 (ucast (ucast (drop_bit 8 l AND 0xFF) :: byte)) OR
        push_bit 16 (ucast (f OR (ucast (drop_bit 16 l AND 0xF) :: byte)) AND 0xF)) n \<longleftrightarrow> bit l n"
      unfolding m using l [of n] f [of "n - 16"]
      by (cases "n < 8"; cases "n < 16"; cases "n < 20") (auto simp: bit_simps)
  qed
qed


lemma low_ones:
  assumes "l AND 0xFFF = 0xFFF"
  shows "push_bit 12 (drop_bit 12 l) OR 0xFFF = (l :: u32)"
proof -
  have m: "(0xFFF :: u32) = mask 12" by (simp add: mask_eq_exp_minus_1)
  have b: "bit l n" if "n < 12" for n
    using arg_cong [OF assms, of "\<lambda>w. bit w n"] that unfolding m by (simp add: bit_simps)
  show ?thesis
    unfolding m by (rule bit_word_eqI) (use b in \<open>auto simp: bit_simps\<close>)
qed

lemma drop_12_less: "drop_bit 12 (l :: u32) < 0x100000"
proof -
  have "unat (drop_bit 12 l) = unat l div 4096"
    by (simp only: unat_drop_bit_eq) (simp add: drop_bit_eq_div)
  also have "\<dots> < 1048576" using u32_lt [of l] by (simp add: less_mult_imp_div_less)
  finally show ?thesis by (simp add: word_less_nat_alt)
qed

lemma nibble: "(ucast ((z :: u32) AND 0xF) :: byte) AND 0x80 = 0"
  by (simp add: unsigned_and_eq and.assoc)

lemma gdt_roundtrip:
  assumes "\<not> gdt_entry_panics src"
  shows "\<exists>bs. encoded_gdt_entry src = Inr bs \<and> length bs = 8 \<and> decode_gdt_entry bs = src"
proof (cases "limit src > 65536")
  case True
  let ?l = "drop_bit 12 (limit src)"
  have "limit src AND 0xFFF = 0xFFF" using assms True by (simp add: gdt_entry_panics_def)
  moreover have "(0xC0 OR ucast (drop_bit 16 ?l AND 0xF)) AND (0x80 :: byte) \<noteq> 0"
    by (simp add: bit.conj_disj_distrib2 nibble)
  ultimately show ?thesis
    using assms True limit_bytes [OF drop_12_less [of "limit src"], of "0xC0"] bytes_of_u32 [of "base src"]
      low_ones
    by (cases src) (simp add: encoded_gdt_entry_def decode_gdt_entry_def Let_def)
next
  case False
  have "limit src < 0x100000" using False by (simp add: not_less word_le_nat_alt word_less_nat_alt)
  moreover have "(0x40 OR ucast (drop_bit 16 (limit src) AND 0xF)) AND (0x80 :: byte) = 0"
    by (simp add: bit.conj_disj_distrib2 nibble)
  ultimately show ?thesis
    using assms False limit_bytes [of "limit src" "0x40"] bytes_of_u32 [of "base src"]
    by (cases src) (simp add: encoded_gdt_entry_def decode_gdt_entry_def Let_def)
qed


text \<open>
  C35. An entry whose limit can be expressed is encoded in eight bytes from which the processor
  reads back exactly the base, limit and type it was made from.
\<close>

theorem gdt_encode_decode:
  assumes "\<not> gdt_entry_panics src"
  shows "\<exists>bs. encoded_gdt_entry src = Inr bs \<and> length bs = 8 \<and> decode_gdt_entry bs = src"
  using assms by (rule gdt_roundtrip)

lemma gdt_table:
  "list_all (\<lambda>e. \<not> gdt_entry_panics e) es \<Longrightarrow>
   \<exists>bss. gdt_structured_to_gdt es = Inr bss \<and> map decode_gdt_entry bss = es \<and> list_all (\<lambda>bs. length bs = 8) bss"
proof (induction es)
  case (Cons e es)
  then obtain bss where "gdt_structured_to_gdt es = Inr bss" "map decode_gdt_entry bss = es"
      "list_all (\<lambda>bs. length bs = 8) bss"
    by auto
  moreover obtain bs where "encoded_gdt_entry e = Inr bs" "length bs = 8" "decode_gdt_entry bs = e"
    using gdt_roundtrip [of e] Cons.prems by auto
  ultimately show ?case by auto
qed simp

text \<open>
  The table of the kernel is encoded without a panic, wherever the task state segment lies,
  and the processor reads back the six segments.
\<close>

theorem kernel_gdt_encodes:
  "\<exists>bss. gdt_structured_to_gdt (kernel_gdt tss) = Inr bss \<and> map decode_gdt_entry bss = kernel_gdt tss"
proof -
  have "list_all (\<lambda>e. \<not> gdt_entry_panics e) (kernel_gdt tss)"
    by (simp add: kernel_gdt_def gdt_entry_panics_def sizeof_tss_def)
  then show ?thesis using gdt_table by blast
qed

theorem gdt_encode_decode_witness:
  "encoded_gdt_entry \<lparr>base = 0x12345678, limit = 0x12FFF, type = 0x9A\<rparr> =
     Inr [0x12, 0, 0x78, 0x56, 0x34, 0x9A, 0xC0, 0x12] \<and>
   decode_gdt_entry [0x12, 0, 0x78, 0x56, 0x34, 0x9A, 0xC0, 0x12] =
     \<lparr>base = 0x12345678, limit = 0x12FFF, type = 0x9A\<rparr>"
proof -
  have e: "encoded_gdt_entry \<lparr>base = 0x12345678, limit = 0x12FFF, type = 0x9A\<rparr> =
     Inr [0x12, 0, 0x78, 0x56, 0x34, 0x9A, 0xC0, 0x12]"
    and p: "\<not> gdt_entry_panics \<lparr>base = 0x12345678, limit = 0x12FFF, type = 0x9A\<rparr>"
    by code_simp+
  show ?thesis using gdt_encode_decode [OF p] e by auto
qed

end
