(* ===== verification/Heap.thy ===== *)
theory Heap
  imports CString
begin

text \<open>
  The block allocator of the kernel (\<^verbatim>\<open>src/memory/heap/heap.c\<close>, \<^verbatim>\<open>heap.h\<close>) and the kernel
  heap built on it (\<^verbatim>\<open>kheap.c\<close>). The entry table is the list of its bytes: an access outside
  the table is \<^term>\<open>None\<close>. The second half relates the search and the marking to the shape of the table;
  the contract of the allocator is in the theory Allocator.
\<close>

subsection \<open>Data\<close>

type_synonym HEAP_BLOCK_TABLE_ENTRY = byte

definition HEAP_BLOCK_TABLE_ENTRY_TAKEN :: byte where "HEAP_BLOCK_TABLE_ENTRY_TAKEN = 0x01"
definition HEAP_BLOCK_TABLE_ENTRY_FREE :: byte where "HEAP_BLOCK_TABLE_ENTRY_FREE = 0x00"
definition HEAP_BLOCK_HAS_NEXT :: byte where "HEAP_BLOCK_HAS_NEXT = 0b10000000"
definition HEAP_BLOCK_IS_FIRST :: byte where "HEAP_BLOCK_IS_FIRST = 0b01000000"

lemmas entry_flags = HEAP_BLOCK_TABLE_ENTRY_TAKEN_def HEAP_BLOCK_TABLE_ENTRY_FREE_def
  HEAP_BLOCK_HAS_NEXT_def HEAP_BLOCK_IS_FIRST_def

record heap_table =
  entries :: "HEAP_BLOCK_TABLE_ENTRY list"
  total :: u32

record heap =
  table :: heap_table
  saddr :: addr

subsection \<open>heap.c\<close>

definition heap_validate_table :: "addr \<Rightarrow> addr \<Rightarrow> heap_table \<Rightarrow> int" where
  "heap_validate_table ptr end_ptr t =
     (let table_size = end_ptr - ptr;
          total_blocks = table_size div BENOS_HEAP_BLOCK_SIZE
      in if total t \<noteq> total_blocks then - EINVARG else 0)"

definition heap_validate_alignment :: "addr \<Rightarrow> bool" where
  "heap_validate_alignment ptr = (ptr mod BENOS_HEAP_BLOCK_SIZE = 0)"

definition heap_create :: "heap \<Rightarrow> addr \<Rightarrow> addr \<Rightarrow> heap_table \<Rightarrow> (int \<times> heap) option" where
  "heap_create h ptr end_ptr t =
     (if \<not> heap_validate_alignment ptr \<or> \<not> heap_validate_alignment end_ptr
      then Some (- EINVARG, h)
      else
        (let h' = \<lparr>table = t, saddr = ptr\<rparr>;
             res = heap_validate_table ptr end_ptr t
         in if res < 0 then Some (res, h')
            else do {
              es \<leftarrow> memset (entries t) (uint HEAP_BLOCK_TABLE_ENTRY_FREE) (1 * total t);
              Some (res, h'\<lparr>table := t\<lparr>entries := es\<rparr>\<rparr>) }))"

definition heap_align_value_to_upper :: "u32 \<Rightarrow> u32" where
  "heap_align_value_to_upper val =
     (if val mod BENOS_HEAP_BLOCK_SIZE = 0 then val
      else (val - val mod BENOS_HEAP_BLOCK_SIZE) + BENOS_HEAP_BLOCK_SIZE)"

definition heap_get_entry_type :: "HEAP_BLOCK_TABLE_ENTRY \<Rightarrow> byte" where
  "heap_get_entry_type entry = entry AND 0x0f"

text \<open>The loop of \<open>heap_get_start_block\<close>: \<open>bc\<close> free blocks counted, the first of them is \<open>bs\<close>.\<close>

function start_block_loop ::
  "HEAP_BLOCK_TABLE_ENTRY list \<Rightarrow> nat \<Rightarrow> u32 \<Rightarrow> nat \<Rightarrow> int \<Rightarrow> int \<Rightarrow> int option" where
  "start_block_loop es tot total_blocks i bc bs =
     (if i < tot then
        do {
          e \<leftarrow> rd es (int i);
          if heap_get_entry_type e \<noteq> HEAP_BLOCK_TABLE_ENTRY_FREE
          then start_block_loop es tot total_blocks (Suc i) 0 (-1)
          else
            (let bs' = (if bs = -1 then int i else bs);
                 bc' = bc + 1
             in if word_of_int bc' = total_blocks then Some bs'
                else start_block_loop es tot total_blocks (Suc i) bc' bs') }
      else Some bs)"
  by pat_completeness auto
termination by (relation "measure (\<lambda>(es, tot, n, i, bc, bs). tot - i)") auto

declare start_block_loop.simps [simp del]

definition heap_get_start_block :: "heap \<Rightarrow> u32 \<Rightarrow> int option" where
  "heap_get_start_block h total_blocks =
     do {
       bs \<leftarrow> start_block_loop (entries (table h)) (unat (total (table h))) total_blocks 0 0 (-1);
       Some (if bs = -1 then - ENOMEM else bs) }"

definition heap_block_to_address :: "heap \<Rightarrow> int \<Rightarrow> addr" where
  "heap_block_to_address h block = saddr h + word_of_int block * BENOS_HEAP_BLOCK_SIZE"

function mark_taken_loop ::
  "HEAP_BLOCK_TABLE_ENTRY list \<Rightarrow> int \<Rightarrow> int \<Rightarrow> HEAP_BLOCK_TABLE_ENTRY
    \<Rightarrow> HEAP_BLOCK_TABLE_ENTRY list option" where
  "mark_taken_loop es end_block i entry =
     (if i \<le> end_block then
        do {
          es' \<leftarrow> wr es i entry;
          mark_taken_loop es' end_block (i + 1)
            (if i \<noteq> end_block - 1 then HEAP_BLOCK_TABLE_ENTRY_TAKEN OR HEAP_BLOCK_HAS_NEXT
             else HEAP_BLOCK_TABLE_ENTRY_TAKEN) }
      else Some es)"
  by pat_completeness auto
termination by (relation "measure (\<lambda>(es, e, i, x). nat (e + 1 - i))") auto

declare mark_taken_loop.simps [simp del]

definition heap_mark_blocks_taken :: "heap \<Rightarrow> int \<Rightarrow> int \<Rightarrow> heap option" where
  "heap_mark_blocks_taken h start_block total_blocks =
     (let end_block = (start_block + total_blocks) - 1;
          entry = HEAP_BLOCK_TABLE_ENTRY_TAKEN OR HEAP_BLOCK_IS_FIRST;
          entry = (if total_blocks > 1 then entry OR HEAP_BLOCK_HAS_NEXT else entry)
      in do {
        es \<leftarrow> mark_taken_loop (entries (table h)) end_block start_block entry;
        Some (h\<lparr>table := (table h)\<lparr>entries := es\<rparr>\<rparr>) })"

definition heap_malloc_blocks :: "heap \<Rightarrow> u32 \<Rightarrow> (addr \<times> heap) option" where
  "heap_malloc_blocks h total_blocks =
     do {
       start_block \<leftarrow> heap_get_start_block h total_blocks;
       if start_block < 0 then Some (0, h)
       else
         (let address = heap_block_to_address h start_block
          in do {
            h' \<leftarrow> heap_mark_blocks_taken h start_block (sint total_blocks);
            Some (address, h') }) }"

function mark_free_loop ::
  "HEAP_BLOCK_TABLE_ENTRY list \<Rightarrow> int \<Rightarrow> int \<Rightarrow> HEAP_BLOCK_TABLE_ENTRY list option" where
  "mark_free_loop es tot i =
     (if i < tot then
        do {
          entry \<leftarrow> rd es i;
          es' \<leftarrow> wr es i HEAP_BLOCK_TABLE_ENTRY_FREE;
          if entry AND HEAP_BLOCK_HAS_NEXT = 0 then Some es'
          else mark_free_loop es' tot (i + 1) }
      else Some es)"
  by pat_completeness auto
termination by (relation "measure (\<lambda>(es, tot, i). nat (tot - i))") auto

declare mark_free_loop.simps [simp del]

definition heap_mark_blocks_free :: "heap \<Rightarrow> int \<Rightarrow> heap option" where
  "heap_mark_blocks_free h starting_block =
     do {
       es \<leftarrow> mark_free_loop (entries (table h)) (sint (total (table h))) starting_block;
       Some (h\<lparr>table := (table h)\<lparr>entries := es\<rparr>\<rparr>) }"

definition heap_address_to_block :: "heap \<Rightarrow> addr \<Rightarrow> int" where
  "heap_address_to_block h a = cdiv (sint (a - saddr h)) (sint BENOS_HEAP_BLOCK_SIZE)"

definition heap_malloc :: "heap \<Rightarrow> u32 \<Rightarrow> (addr \<times> heap) option" where
  "heap_malloc h sz =
     (let alligned_size = heap_align_value_to_upper sz;
          total_blocks = alligned_size div BENOS_HEAP_BLOCK_SIZE
      in heap_malloc_blocks h total_blocks)"

definition heap_free :: "heap \<Rightarrow> addr \<Rightarrow> heap option" where
  "heap_free h ptr = heap_mark_blocks_free h (heap_address_to_block h ptr)"

subsection \<open>kheap.c\<close>

text \<open>
  The kernel's memory: its heap and the physical memory, one byte per address. The table of
  the kernel heap lives at a fixed address of its own (\<^verbatim>\<open>0x7E00\<close>); \<open>kheap_init\<close> is given the
  bytes that are there.
\<close>

record kmem =
  kernel_heap :: heap
  ram :: "addr \<Rightarrow> byte"

definition ram_fill :: "(addr \<Rightarrow> byte) \<Rightarrow> addr \<Rightarrow> nat \<Rightarrow> byte \<Rightarrow> (addr \<Rightarrow> byte)" where
  "ram_fill m p n c = (\<lambda>a. if unat (a - p) < n then c else m a)"

definition kheap_init :: "'z kmem_scheme \<Rightarrow> byte list \<Rightarrow> (int \<times> 'z kmem_scheme) option" where
  "kheap_init s table_bytes =
     (let total_table_entries = BENOS_HEAP_SIZE_BYTES div BENOS_HEAP_BLOCK_SIZE;
          t = \<lparr>entries = table_bytes, total = total_table_entries\<rparr>;
          end_ptr = BENOS_HEAD_ADDRESS + BENOS_HEAP_SIZE_BYTES
      in do {
        (res, h) \<leftarrow> heap_create (kernel_heap s) BENOS_HEAD_ADDRESS end_ptr t;
        Some (res, s\<lparr>kernel_heap := h\<rparr>) })"

definition kmalloc :: "'z kmem_scheme \<Rightarrow> u32 \<Rightarrow> (addr \<times> 'z kmem_scheme) option" where
  "kmalloc s sz = do { (p, h) \<leftarrow> heap_malloc (kernel_heap s) sz; Some (p, s\<lparr>kernel_heap := h\<rparr>) }"

definition kzalloc :: "'z kmem_scheme \<Rightarrow> u32 \<Rightarrow> (addr \<times> 'z kmem_scheme) option" where
  "kzalloc s sz =
     do {
       (ptr, s') \<leftarrow> kmalloc s sz;
       if ptr = 0 then Some (0, s')
       else Some (ptr, s'\<lparr>ram := ram_fill (ram s') ptr (unat sz) 0\<rparr>) }"

definition kfree :: "'z kmem_scheme \<Rightarrow> addr \<Rightarrow> 'z kmem_scheme option" where
  "kfree s ptr = do { h \<leftarrow> heap_free (kernel_heap s) ptr; Some (s\<lparr>kernel_heap := h\<rparr>) }"

subsection \<open>Marking blocks\<close>

text \<open>The table entries of an allocation of \<open>n\<close> blocks.\<close>

fun tail_entries :: "nat \<Rightarrow> HEAP_BLOCK_TABLE_ENTRY list" where
  "tail_entries 0 = []"
| "tail_entries (Suc 0) = [0x01]"
| "tail_entries (Suc (Suc n)) = 0x81 # tail_entries (Suc n)"

fun alloc_entries :: "nat \<Rightarrow> HEAP_BLOCK_TABLE_ENTRY list" where
  "alloc_entries 0 = []"
| "alloc_entries (Suc 0) = [0x41]"
| "alloc_entries (Suc (Suc n)) = 0xC1 # tail_entries (Suc n)"

lemma length_tail_entries [simp]: "length (tail_entries n) = n"
  by (induction n rule: tail_entries.induct) auto

lemma length_alloc_entries [simp]: "length (alloc_entries n) = n"
  by (cases n rule: alloc_entries.cases) auto

definition tail_entry :: "nat \<Rightarrow> byte" where
  "tail_entry n = (if n = 1 then 0x01 else 0x81)"

lemma tail_entries_Suc: "tail_entries (Suc n) = tail_entry (Suc n) # tail_entries n"
  by (cases n) (simp_all add: tail_entry_def)

lemma mark_taken_loop_tail:
  "int (length xs) = i \<Longrightarrow> length ys = n \<Longrightarrow> e = tail_entry n \<Longrightarrow>
   mark_taken_loop (xs @ ys @ zs) (i + int n - 1) i e = Some (xs @ tail_entries n @ zs)"
proof (induction n arbitrary: xs ys i e)
  case 0
  then show ?case by (simp add: mark_taken_loop.simps)
next
  case (Suc n)
  then obtain y ys' where ys: "ys = y # ys'" "length ys' = n" by (cases ys) auto
  let ?next = "if i \<noteq> i + int (Suc n) - 1 - 1 then HEAP_BLOCK_TABLE_ENTRY_TAKEN OR HEAP_BLOCK_HAS_NEXT
    else HEAP_BLOCK_TABLE_ENTRY_TAKEN"
  have "mark_taken_loop ((xs @ [e]) @ ys' @ zs) ((i + 1) + int n - 1) (i + 1) ?next
      = Some ((xs @ [e]) @ tail_entries n @ zs)" if "n \<noteq> 0"
    by (rule Suc.IH) (use Suc.prems ys that in \<open>auto simp: tail_entry_def entry_flags\<close>)
  moreover have "mark_taken_loop ((xs @ [e]) @ ys' @ zs) ((i + 1) + int n - 1) (i + 1) ?next
      = Some ((xs @ [e]) @ tail_entries n @ zs)" if "n = 0"
    using that ys Suc.prems by (simp add: mark_taken_loop.simps)
  ultimately have "mark_taken_loop (xs @ e # ys' @ zs) (i + int (Suc n) - 1) (i + 1) ?next
      = Some (xs @ e # tail_entries n @ zs)"
    by (cases "n = 0") (simp_all add: algebra_simps)
  moreover have "wr (xs @ ys @ zs) i e = Some (xs @ e # ys' @ zs)"
    using Suc.prems ys by (auto simp: wr_def list_update_append)
  ultimately show ?case
    using Suc.prems by (subst mark_taken_loop.simps) (simp add: tail_entries_Suc)
qed

lemma mark_taken_eq:
  assumes "length ys = n" "0 < n" "entries (table h) = xs @ ys @ zs"
  shows "heap_mark_blocks_taken h (int (length xs)) (int n) =
    Some (h\<lparr>table := (table h)\<lparr>entries := xs @ alloc_entries n @ zs\<rparr>\<rparr>)"
proof -
  obtain y ys' m where ys: "ys = y # ys'" "length ys' = m" "n = Suc m"
    using assms by (cases ys) auto
  let ?i = "int (length xs)" and ?e = "(if m = 0 then 0x41 else 0xC1) :: byte"
  have "mark_taken_loop ((xs @ [?e]) @ ys' @ zs) ((?i + 1) + int m - 1) (?i + 1)
     (if ?i \<noteq> ?i + int n - 1 - 1 then HEAP_BLOCK_TABLE_ENTRY_TAKEN OR HEAP_BLOCK_HAS_NEXT
      else HEAP_BLOCK_TABLE_ENTRY_TAKEN) = Some ((xs @ [?e]) @ tail_entries m @ zs)"
  proof (cases m)
    case 0
    then show ?thesis using ys by (simp add: mark_taken_loop.simps)
  next
    case (Suc k)
    show ?thesis
      by (rule mark_taken_loop_tail) (use Suc ys in \<open>auto simp: tail_entry_def entry_flags\<close>)
  qed
  moreover have "wr (xs @ ys @ zs) ?i ?e = Some (xs @ ?e # ys' @ zs)"
    using ys by (auto simp: wr_def list_update_append)
  ultimately have "mark_taken_loop (xs @ ys @ zs) (?i + int n - 1) ?i ?e =
      Some (xs @ ?e # tail_entries m @ zs)"
    using ys by (subst mark_taken_loop.simps) (simp add: algebra_simps)
  moreover have "alloc_entries n = ?e # tail_entries m"
    using ys by (cases m) auto
  ultimately show ?thesis
    using assms ys by (auto simp: heap_mark_blocks_taken_def entry_flags Let_def)
qed

text \<open>Marking past the end of the table leaves it.\<close>

lemma mark_taken_loop_overrun:
  "0 \<le> i \<Longrightarrow> i \<le> end_block \<Longrightarrow> int (length es) \<le> end_block \<Longrightarrow> mark_taken_loop es end_block i e = None"
proof (induction es end_block i e rule: mark_taken_loop.induct)
  case (1 es end_block i e)
  show ?case
  proof (cases "i < int (length es)")
    case True
    then have w: "wr es i e = Some (es[nat i := e])" using 1 by (simp add: wr_def)
    show ?thesis
      using "1.IH" [OF _ w] "1.prems" True
      by (subst mark_taken_loop.simps) (simp add: w)
  next
    case False
    then show ?thesis using "1.prems" by (subst mark_taken_loop.simps) (simp add: wr_def)
  qed
qed

lemma has_next_tail: "tail_entry n AND HEAP_BLOCK_HAS_NEXT = 0 \<longleftrightarrow> n = 1"
  by (simp add: tail_entry_def entry_flags)

lemma mark_free_loop_tail:
  "int (length xs) = i \<Longrightarrow> 0 < n \<Longrightarrow> i + int n \<le> tot \<Longrightarrow>
   mark_free_loop (xs @ tail_entries n @ zs) tot i = Some (xs @ replicate n 0 @ zs)"
proof (induction n arbitrary: xs i)
  case 0
  then show ?case by simp
next
  case (Suc n)
  let ?es = "xs @ tail_entries (Suc n) @ zs"
  have r: "rd ?es i = Some (tail_entry (Suc n))"
    using Suc.prems by (auto simp: rd_def tail_entries_Suc nth_append)
  have w: "wr ?es i HEAP_BLOCK_TABLE_ENTRY_FREE = Some (xs @ 0 # tail_entries n @ zs)"
    using Suc.prems by (auto simp: wr_def tail_entries_Suc list_update_append entry_flags)
  show ?case
  proof (cases "n = 0")
    case True
    then show ?thesis
      using Suc.prems r w
      by (subst mark_free_loop.simps) (simp add: has_next_tail)
  next
    case False
    then have "mark_free_loop ((xs @ [0]) @ tail_entries n @ zs) tot (i + 1) =
      Some ((xs @ [0]) @ replicate n 0 @ zs)"
      using Suc.prems by (intro Suc.IH) auto
    then show ?thesis
      using Suc.prems r w False
      by (subst mark_free_loop.simps) (simp add: has_next_tail)
  qed
qed

lemma mark_free_eq:
  assumes n: "0 < n" and es: "entries (table h) = xs @ alloc_entries n @ zs"
    and tot: "int (length xs + n) \<le> sint (total (table h))"
  shows "heap_mark_blocks_free h (int (length xs)) =
    Some (h\<lparr>table := (table h)\<lparr>entries := xs @ replicate n 0 @ zs\<rparr>\<rparr>)"
proof -
  let ?tot = "sint (total (table h))" and ?i = "int (length xs)"
  obtain m where m: "n = Suc m" using n by (cases n) auto
  have e: "alloc_entries n = (if m = 0 then 0x41 else 0xC1) # tail_entries m"
    using m by (cases m) auto
  have r: "rd (xs @ alloc_entries n @ zs) ?i = Some (if m = 0 then 0x41 else 0xC1)"
    by (auto simp: rd_def e nth_append)
  have w: "wr (xs @ alloc_entries n @ zs) ?i HEAP_BLOCK_TABLE_ENTRY_FREE = Some (xs @ 0 # tail_entries m @ zs)"
    by (auto simp: wr_def e list_update_append entry_flags)
  have "mark_free_loop ((xs @ [0]) @ tail_entries m @ zs) ?tot (?i + 1) =
      Some ((xs @ [0]) @ replicate m 0 @ zs)" if "m \<noteq> 0"
    by (rule mark_free_loop_tail) (use m tot that in auto)
  then have "mark_free_loop (xs @ alloc_entries n @ zs) ?tot ?i = Some (xs @ replicate n 0 @ zs)"
    using m tot r w
    by (subst mark_free_loop.simps) (auto simp: entry_flags)
  then show ?thesis
    by (simp add: heap_mark_blocks_free_def es)
qed

subsection \<open>Searching for free blocks\<close>

definition free_at :: "HEAP_BLOCK_TABLE_ENTRY list \<Rightarrow> nat \<Rightarrow> bool" where
  "free_at es j \<longleftrightarrow> heap_get_entry_type (es ! j) = HEAP_BLOCK_TABLE_ENTRY_FREE"

text \<open>\<open>n\<close> consecutive free blocks start at \<open>s\<close>, inside the first \<open>tot\<close> entries.\<close>

definition fits :: "HEAP_BLOCK_TABLE_ENTRY list \<Rightarrow> nat \<Rightarrow> nat \<Rightarrow> nat \<Rightarrow> bool" where
  "fits es tot n s \<longleftrightarrow> s + n \<le> tot \<and> (\<forall>j. s \<le> j \<and> j < s + n \<longrightarrow> free_at es j)"

text \<open>The loop state after \<open>i\<close> entries, when the last \<open>k\<close> of them are a maximal free run.\<close>

definition scan_inv :: "HEAP_BLOCK_TABLE_ENTRY list \<Rightarrow> nat \<Rightarrow> nat \<Rightarrow> nat \<Rightarrow> bool" where
  "scan_inv es n i k \<longleftrightarrow> k \<le> i \<and> k < n \<and> (\<forall>j. i - k \<le> j \<and> j < i \<longrightarrow> free_at es j) \<and>
     (k < i \<longrightarrow> \<not> free_at es (i - k - 1)) \<and> (\<forall>s. \<not> fits es i n s)"

definition scan_result :: "HEAP_BLOCK_TABLE_ENTRY list \<Rightarrow> nat \<Rightarrow> nat \<Rightarrow> int \<Rightarrow> bool" where
  "scan_result es tot n r \<longleftrightarrow>
     (0 \<le> r \<and> fits es tot n (nat r) \<and> (\<forall>s. s < nat r \<longrightarrow> \<not> fits es tot n s)) \<or>
     ((\<forall>s. \<not> fits es tot n s) \<and>
       (\<exists>k. scan_inv es n tot k \<and> r = (if k = 0 then -1 else int (tot - k))))"

lemma scan_inv_init: "0 < n \<Longrightarrow> scan_inv es n 0 0"
  by (auto simp: scan_inv_def fits_def)

lemma scan_inv_taken:
  assumes inv: "scan_inv es n i k" and taken: "\<not> free_at es i"
  shows "scan_inv es n (Suc i) 0"
proof -
  have "\<not> fits es (Suc i) n s" for s
  proof
    assume f: "fits es (Suc i) n s"
    show False
    proof (cases "s + n \<le> i")
      case True
      then show False using f inv by (auto simp: fits_def scan_inv_def)
    next
      case False
      then have "s + n = Suc i" using f by (simp add: fits_def)
      then have "free_at es i" using f inv by (auto simp: fits_def scan_inv_def)
      then show False using taken by simp
    qed
  qed
  then show ?thesis using assms by (auto simp: scan_inv_def)
qed

lemma scan_inv_free:
  assumes inv: "scan_inv es n i k" and free: "free_at es i" and n: "Suc k < n"
  shows "scan_inv es n (Suc i) (Suc k)"
proof -
  have "\<not> fits es (Suc i) n s" for s
  proof
    assume f: "fits es (Suc i) n s"
    show False
    proof (cases "s + n \<le> i")
      case True
      then show False using f inv by (auto simp: fits_def scan_inv_def)
    next
      case False
      then have "s + n = Suc i" using f by (simp add: fits_def)
      moreover have "k < i" using \<open>s + n = Suc i\<close> n by linarith
      ultimately have "s \<le> i - k - 1 \<and> i - k - 1 < s + n" using n by linarith
      then have "free_at es (i - k - 1)" using f by (auto simp: fits_def)
      then show False using inv \<open>k < i\<close> by (simp add: scan_inv_def)
    qed
  qed
  then show ?thesis
    using assms by (auto simp: scan_inv_def less_Suc_eq)
qed

lemma scan_inv_found:
  assumes inv: "scan_inv es n i k" and free: "free_at es i" and n: "Suc k = n" and "i < tot"
  shows "fits es tot n (i - k)" "s < i - k \<Longrightarrow> \<not> fits es tot n s"
proof -
  show "fits es tot n (i - k)"
    using assms by (auto simp: fits_def scan_inv_def less_Suc_eq)
  assume s: "s < i - k"
  then have "s + n \<le> i" using n inv by (auto simp: scan_inv_def)
  then show "\<not> fits es tot n s"
    using inv unfolding scan_inv_def fits_def by blast
qed

lemma word_count_eq:
  fixes n :: u32
  assumes "k < 2 ^ 32"
  shows "word_of_int (int k) = n \<longleftrightarrow> k = unat n"
proof -
  have "unat (of_nat k :: u32) = k"
    using assms by (simp add: unsigned_of_nat take_bit_nat_eq_self)
  then show ?thesis by auto
qed

lemma start_block_loop_result:
  assumes tot: "tot \<le> length es" "tot < 2 ^ 32" and n: "n = unat total_blocks"
    and inv: "scan_inv es n i k" and i: "i \<le> tot"
  shows "\<exists>r. start_block_loop es tot total_blocks i (int k) (if k = 0 then -1 else int (i - k)) = Some r
    \<and> scan_result es tot n r"
  using inv i
proof (induction "tot - i" arbitrary: i k)
  case 0
  then have "i = tot" by simp
  with 0 show ?case
    by (subst start_block_loop.simps) (auto simp: scan_result_def scan_inv_def)
next
  case (Suc d)
  then have i: "i < tot" by simp
  then have e: "rd es (int i) = Some (es ! i)" using tot by (simp add: rd_nat)
  have k: "k \<le> i" "k < n" using Suc.prems by (auto simp: scan_inv_def)
  show ?case
  proof (cases "free_at es i")
    case False
    then have "\<exists>r. start_block_loop es tot total_blocks (Suc i) 0 (-1) = Some r \<and> scan_result es tot n r"
      using Suc.hyps(1) [of "Suc i" 0] Suc.hyps(2) scan_inv_taken [OF Suc.prems(1)] i by simp
    then show ?thesis
      using False i e by (subst start_block_loop.simps) (simp add: free_at_def)
  next
    case True
    let ?bs = "int (i - k)"
    have bs: "(if (if k = 0 then -1 else int (i - k)) = -1 then int i
        else if k = 0 then -1 else int (i - k)) = ?bs" by auto
    have wk: "word_of_int (int k + 1) = total_blocks \<longleftrightarrow> Suc k = n"
      using word_count_eq [of "Suc k" total_blocks] i k tot n by (simp add: add.commute)
    show ?thesis
    proof (cases "Suc k = n")
      case True
      then have "scan_result es tot n ?bs"
        using scan_inv_found [OF Suc.prems(1) \<open>free_at es i\<close> True i] by (simp add: scan_result_def)
      then show ?thesis
        using True \<open>free_at es i\<close> i e wk
        by (subst start_block_loop.simps) (simp add: free_at_def bs Let_def)
    next
      case False
      then have "scan_inv es n (Suc i) (Suc k)"
        using scan_inv_free [OF Suc.prems(1) \<open>free_at es i\<close>] k by simp
      then have "\<exists>r. start_block_loop es tot total_blocks (Suc i) (int (Suc k)) ?bs = Some r
          \<and> scan_result es tot n r"
        using Suc.hyps(1) [of "Suc i" "Suc k"] Suc.hyps(2) i by simp
      then show ?thesis
        using False \<open>free_at es i\<close> i e wk
        by (subst start_block_loop.simps) (simp add: free_at_def bs Let_def add.commute)
    qed
  qed
qed

end
