(* ===== verification/Allocator.thy ===== *)
theory Allocator
  imports Heap
begin

text \<open>
  The contract of the block allocator. The table of a well-formed heap is the rendering of a
  sequence of free blocks and allocations (\<open>render\<close>); \<open>live\<close> reads the map of live
  allocations (address to number of blocks) back from the table. The locale \<open>allocator\<close>
  states what the rest of the kernel relies on, and is interpreted on the kernel's own
  \<open>heap_malloc\<close>/\<open>heap_free\<close> and \<open>kzalloc\<close>/\<open>kfree\<close>.
\<close>

subsection \<open>Requests in blocks\<close>

text \<open>The sizes that \<open>heap_align_value_to_upper\<close> does not wrap, and their number of blocks.\<close>

definition ok_size :: "u32 \<Rightarrow> bool" where
  "ok_size sz \<longleftrightarrow> sz \<noteq> 0 \<and> sz \<le> 0xFFFFF000"

definition blocks_of :: "u32 \<Rightarrow> nat" where
  "blocks_of sz = (unat sz + 4095) div 4096"

lemma unat_lower_page: "unat (sz - sz mod 4096) = unat sz - unat sz mod 4096" for sz :: u32
  by (subst unat_sub) (simp_all add: word_le_nat_alt unat_mod_u32)

lemma mod_page_zero: "sz mod 4096 = 0 \<longleftrightarrow> unat sz mod 4096 = 0" for sz :: u32
proof -
  have "sz mod 4096 = 0 \<longleftrightarrow> unat (sz mod 4096) = 0" by (rule unat_eq_0 [symmetric])
  then show ?thesis by (simp only: unat_mod_u32) simp
qed

lemma blocks_of_eq:
  assumes "unat sz = q * 4096 + r" "r < 4096"
  shows "blocks_of sz = (if r = 0 then q else q + 1)"
  unfolding blocks_of_def using assms by (auto intro!: div_nat_eqI)

lemma unat_align_upper:
  assumes "sz \<le> 0xFFFFF000"
  shows "unat (heap_align_value_to_upper sz) = blocks_of sz * 4096"
proof -
  define q r where "q = unat sz div 4096" and "r = unat sz mod 4096"
  have sz: "unat sz = q * 4096 + r" "r < 4096" by (simp_all add: q_def r_def)
  have le: "unat sz \<le> 0xFFFFF000" using assms by (simp add: word_le_nat_alt)
  show ?thesis
  proof (cases "r = 0")
    case True
    then have "sz mod 4096 = 0" by (simp add: mod_page_zero r_def)
    then show ?thesis
      using True sz blocks_of_eq [OF sz] by (simp add: heap_align_value_to_upper_def status_simps)
  next
    case False
    then have nz: "sz mod 4096 \<noteq> 0" by (simp add: mod_page_zero r_def)
    have "unat (sz - sz mod 4096) = q * 4096"
      using sz unat_lower_page [of sz] by (simp add: r_def [symmetric])
    moreover have "q * 4096 + 4096 < 4294967296" using le sz False by linarith
    ultimately have "unat (sz - sz mod 4096 + 4096) = q * 4096 + 4096"
      by (simp add: unat_word_ariths)
    then show ?thesis
      using False nz blocks_of_eq [OF sz] by (simp add: heap_align_value_to_upper_def status_simps)
  qed
qed

lemma align_upper_wraps:
  assumes "0xFFFFF000 < sz"
  shows "heap_align_value_to_upper sz = 0"
proof -
  define q r where "q = unat sz div 4096" and "r = unat sz mod 4096"
  have sz: "unat sz = q * 4096 + r" "r < 4096" by (simp_all add: q_def r_def)
  have gt: "0xFFFFF000 < unat sz" using assms by (simp add: word_less_nat_alt)
  have "unat sz < 4294967296" by simp
  with gt sz have q: "q = 0xFFFFF" by linarith
  with gt sz have r: "r \<noteq> 0" by linarith
  have nz: "sz mod 4096 \<noteq> 0" using r by (simp add: mod_page_zero r_def)
  have "unat (sz - sz mod 4096) = q * 4096"
    using sz unat_lower_page [of sz] by (simp add: r_def [symmetric])
  then have "unat (sz - sz mod 4096 + 4096) = 0"
    using q by (simp add: unat_word_ariths)
  then have "sz - sz mod 4096 + 4096 = 0" by (simp only: unat_eq_0)
  then show ?thesis
    using nz by (simp add: heap_align_value_to_upper_def status_simps)
qed

lemma blocks_of_bounds: "ok_size sz \<Longrightarrow> 0 < blocks_of sz \<and> blocks_of sz \<le> 0xFFFFF"
proof -
  assume "ok_size sz"
  then have "0 < unat sz" "unat sz \<le> 0xFFFFF000"
    by (auto simp: ok_size_def word_le_nat_alt unat_gt_0)
  then show ?thesis by (auto simp: blocks_of_def)
qed

lemma total_blocks_eq:
  assumes "ok_size sz"
  shows "unat (heap_align_value_to_upper sz div BENOS_HEAP_BLOCK_SIZE) = blocks_of sz"
    and "sint (heap_align_value_to_upper sz div BENOS_HEAP_BLOCK_SIZE) = int (blocks_of sz)"
proof -
  let ?n = "heap_align_value_to_upper sz div BENOS_HEAP_BLOCK_SIZE"
  show u: "unat ?n = blocks_of sz"
    using assms by (simp add: unat_div_distrib unat_align_upper ok_size_def status_simps)
  show "sint ?n = int (blocks_of sz)"
    using blocks_of_bounds [OF assms] u by (simp add: sint_small)
qed

subsection \<open>The table as a sequence of allocations\<close>

datatype seg = Free_block | Used nat

fun render :: "seg list \<Rightarrow> HEAP_BLOCK_TABLE_ENTRY list" where
  "render [] = []"
| "render (Free_block # ss) = 0 # render ss"
| "render (Used n # ss) = alloc_entries n @ render ss"

definition seg_ok :: "seg \<Rightarrow> bool" where
  "seg_ok s = (case s of Free_block \<Rightarrow> True | Used n \<Rightarrow> 0 < n)"

lemma seg_ok_simps [simp]: "seg_ok Free_block" "seg_ok (Used n) \<longleftrightarrow> 0 < n"
  by (simp_all add: seg_ok_def)

lemma render_append [simp]: "render (s1 @ s2) = render s1 @ render s2"
  by (induction s1 rule: render.induct) auto

lemma render_free [simp]: "render (replicate n Free_block) = replicate n 0"
  by (induction n) auto

lemma set_tail_entries: "set (tail_entries n) \<subseteq> {0x01, 0x81}"
  by (induction n rule: tail_entries.induct) auto

lemma set_alloc_entries: "set (alloc_entries n) \<subseteq> {0x41, 0xC1, 0x01, 0x81}"
  by (cases n rule: alloc_entries.cases) (use set_tail_entries in auto)

lemma zero_notin_alloc [simp]: "0 \<notin> set (alloc_entries n)"
  using set_alloc_entries [of n] by auto

lemma render_entries: "set (render ss) \<subseteq> {0, 0x41, 0xC1, 0x01, 0x81}"
  by (induction ss rule: render.induct) (use set_alloc_entries in \<open>auto, blast?\<close>)

lemma free_at_render:
  assumes "i < length (render ss)"
  shows "free_at (render ss) i \<longleftrightarrow> render ss ! i = 0"
proof -
  have "render ss ! i \<in> {0, 0x41, 0xC1, 0x01, 0x81}"
    using assms render_entries [of ss] nth_mem by blast
  then show ?thesis by (auto simp: free_at_def heap_get_entry_type_def entry_flags)
qed

lemma render_split_free:
  "list_all seg_ok ss \<Longrightarrow> render ss = xs @ 0 # zs \<Longrightarrow>
   \<exists>s1 s2. ss = s1 @ Free_block # s2 \<and> render s1 = xs \<and> render s2 = zs"
proof (induction ss arbitrary: xs rule: render.induct)
  case 1
  then show ?case by simp
next
  case (2 ss)
  show ?case
  proof (cases xs)
    case Nil
    then show ?thesis using 2 by (intro exI [of _ "[]"] exI [of _ ss]) auto
  next
    case (Cons x xs')
    then obtain s1 s2 where "ss = s1 @ Free_block # s2" "render s1 = xs'" "render s2 = zs"
      using 2 by auto
    then show ?thesis
      using Cons "2.prems"(2) by (intro exI [of _ "Free_block # s1"] exI [of _ s2]) simp
  qed
next
  case (3 n ss)
  then have eq: "alloc_entries n @ render ss = xs @ 0 # zs" by simp
  then have "\<not> length xs < n"
    using zero_notin_alloc [of n] nth_mem [of "length xs" "alloc_entries n"]
    by (metis length_alloc_entries nth_append nth_append_length)
  then have "alloc_entries n = take n xs" "render ss = drop n xs @ 0 # zs"
    using arg_cong [OF eq, of "take n"] arg_cong [OF eq, of "drop n"] by simp_all
  then obtain us where us: "xs = alloc_entries n @ us" "render ss = us @ 0 # zs"
    by (metis append_take_drop_id)
  then obtain s1 s2 where "ss = s1 @ Free_block # s2" "render s1 = us" "render s2 = zs"
    using "3.IH" [of us] "3.prems" by auto
  then show ?case
    using us by (intro exI [of _ "Used n # s1"] exI [of _ s2]) simp
qed

lemma render_Nil: "list_all seg_ok ss \<Longrightarrow> render ss = [] \<longleftrightarrow> ss = []"
  by (cases ss rule: render.cases) (auto simp flip: length_0_conv)

lemma render_prefix_run:
  "list_all seg_ok ss \<Longrightarrow> render ss = replicate n 0 @ zs \<Longrightarrow>
   \<exists>s2. ss = replicate n Free_block @ s2 \<and> render s2 = zs"
proof (induction n arbitrary: ss)
  case 0
  then show ?case by simp
next
  case (Suc n)
  then obtain s1 s2 where s: "ss = s1 @ Free_block # s2" "render s1 = []"
      "render s2 = replicate n 0 @ zs"
    using render_split_free [of ss "[]" "replicate n 0 @ zs"] by auto
  then show ?case using Suc.IH [of s2] Suc.prems render_Nil [of s1] by auto
qed

lemma render_split_run:
  assumes "list_all seg_ok ss" "0 < n" "render ss = xs @ replicate n 0 @ zs"
  shows "\<exists>s1 s2. ss = s1 @ replicate n Free_block @ s2 \<and> render s1 = xs \<and> render s2 = zs"
proof -
  obtain m where m: "n = Suc m" using assms(2) by (cases n) auto
  then obtain s1 s2 where s: "ss = s1 @ Free_block # s2" "render s1 = xs"
      "render s2 = replicate m 0 @ zs"
    using render_split_free [of ss xs "replicate m 0 @ zs"] assms by auto
  then show ?thesis using render_prefix_run [of s2 m zs] assms(1) m by auto
qed

text \<open>The allocations of the table: first block to number of blocks.\<close>

fun seg_map :: "nat \<Rightarrow> seg list \<Rightarrow> (nat \<rightharpoonup> nat)" where
  "seg_map off [] = Map.empty"
| "seg_map off (Free_block # ss) = seg_map (Suc off) ss"
| "seg_map off (Used n # ss) = (seg_map (off + n) ss)(off \<mapsto> n)"

lemma seg_map_bounds:
  "list_all seg_ok ss \<Longrightarrow> seg_map off ss i = Some n \<Longrightarrow>
   off \<le> i \<and> i + n \<le> off + length (render ss) \<and> 0 < n"
  by (induction off ss rule: seg_map.induct) (fastforce split: if_splits)+

lemma seg_map_below: "list_all seg_ok ss \<Longrightarrow> i < off \<Longrightarrow> seg_map off ss i = None"
  using seg_map_bounds [of ss off i] by (cases "seg_map off ss i") auto

lemma seg_map_append:
  "list_all seg_ok s1 \<Longrightarrow> list_all seg_ok s2 \<Longrightarrow>
   seg_map off (s1 @ s2) = seg_map (off + length (render s1)) s2 ++ seg_map off s1"
  by (induction off s1 rule: seg_map.induct) (auto simp: add.assoc)

lemma seg_map_free [simp]: "seg_map off (replicate n Free_block) = Map.empty"
  by (induction n arbitrary: off) auto

lemma list_all_replicate_free [simp]: "list_all seg_ok (replicate n Free_block)"
  by (simp add: list_all_length)

lemma seg_map_used:
  assumes "list_all seg_ok s1" "list_all seg_ok s2" "0 < n"
  shows "seg_map 0 (s1 @ Used n # s2) =
    (seg_map 0 (s1 @ replicate n Free_block @ s2))(length (render s1) \<mapsto> n)"
    and "seg_map 0 (s1 @ replicate n Free_block @ s2) =
    (seg_map 0 (s1 @ Used n # s2))(length (render s1) := None)"
proof -
  let ?k = "length (render s1)"
  have k: "seg_map 0 s1 ?k = None"
    using seg_map_bounds [OF assms(1), of 0 ?k] by (cases "seg_map 0 s1 ?k") auto
  have k2: "seg_map (?k + n) s2 ?k = None"
    by (rule seg_map_below) (use assms in auto)
  have f: "seg_map off (replicate n Free_block @ s2) = seg_map (off + n) s2" for off
    using assms by (simp add: seg_map_append)
  show "seg_map 0 (s1 @ Used n # s2) =
    (seg_map 0 (s1 @ replicate n Free_block @ s2))(?k \<mapsto> n)"
    using assms k f by (auto simp: seg_map_append map_add_def fun_eq_iff split: option.splits)
  show "seg_map 0 (s1 @ replicate n Free_block @ s2) =
    (seg_map 0 (s1 @ Used n # s2))(?k := None)"
    using assms k k2 f by (auto simp: seg_map_append map_add_def fun_eq_iff split: option.splits)
qed

lemma seg_map_split:
  "list_all seg_ok ss \<Longrightarrow> seg_map off ss i = Some n \<Longrightarrow>
   \<exists>s1 s2. ss = s1 @ Used n # s2 \<and> i = off + length (render s1)"
proof (induction off ss rule: seg_map.induct)
  case (1 off)
  then show ?case by simp
next
  case (2 off ss)
  then obtain s1 s2 where "ss = s1 @ Used n # s2" "i = Suc off + length (render s1)" by auto
  then show ?case by (intro exI [of _ "Free_block # s1"] exI [of _ s2]) auto
next
  case (3 off m ss)
  show ?case
  proof (cases "i = off")
    case True
    then show ?thesis using 3 by (intro exI [of _ "[]"] exI [of _ ss]) auto
  next
    case False
    then obtain s1 s2 where "ss = s1 @ Used n # s2" "i = off + m + length (render s1)"
      using 3 by auto
    then show ?thesis by (intro exI [of _ "Used m # s1"] exI [of _ s2]) auto
  qed
qed

lemma seg_map_disjoint:
  "list_all seg_ok ss \<Longrightarrow> seg_map off ss i = Some n \<Longrightarrow> seg_map off ss j = Some m \<Longrightarrow> i < j \<Longrightarrow> i + n \<le> j"
proof (induction off ss rule: seg_map.induct)
  case (3 off k ss)
  then show ?case
    using seg_map_bounds [of ss "off + k" j m] seg_map_bounds [of ss "off + k" i n]
    by (auto split: if_splits)
qed auto

subsection \<open>The same map computed from the table\<close>

fun chain_length :: "HEAP_BLOCK_TABLE_ENTRY list \<Rightarrow> nat" where
  "chain_length [] = 0"
| "chain_length (e # es) = (if e AND HEAP_BLOCK_HAS_NEXT = 0 then 1 else Suc (chain_length es))"

definition allocs :: "HEAP_BLOCK_TABLE_ENTRY list \<Rightarrow> (nat \<rightharpoonup> nat)" where
  "allocs es i = (if i < length es \<and> es ! i AND HEAP_BLOCK_IS_FIRST \<noteq> 0
     then Some (chain_length (drop i es)) else None)"

lemma chain_length_tail: "0 < n \<Longrightarrow> chain_length (tail_entries n @ es) = n"
  by (induction n rule: tail_entries.induct) (auto simp: entry_flags)

lemma chain_length_alloc: "0 < n \<Longrightarrow> chain_length (alloc_entries n @ es) = n"
  by (cases n rule: alloc_entries.cases) (auto simp: entry_flags chain_length_tail)

lemma alloc_first: "0 < n \<Longrightarrow> alloc_entries n ! i AND HEAP_BLOCK_IS_FIRST \<noteq> 0 \<longleftrightarrow> i = 0" if "i < n"
proof (cases n rule: alloc_entries.cases)
  case (3 k)
  show ?thesis
  proof (cases i)
    case (Suc j)
    then have "tail_entries (Suc k) ! j \<in> set (tail_entries (Suc k))"
      using that 3 by (intro nth_mem) simp
    then have "tail_entries (Suc k) ! j \<in> {0x01, 0x81}"
      using set_tail_entries [of "Suc k"] by blast
    then show ?thesis using 3 Suc by (auto simp: entry_flags)
  qed (use 3 in \<open>simp add: entry_flags\<close>)
qed (use that in \<open>auto simp: entry_flags\<close>)

lemma allocs_render: "list_all seg_ok ss \<Longrightarrow> allocs (render ss) i = seg_map off ss (off + i)"
proof (induction off ss arbitrary: i rule: seg_map.induct)
  case (1 off)
  then show ?case by (simp add: allocs_def)
next
  case (2 off ss)
  show ?case
  proof (cases i)
    case 0
    then show ?thesis using 2 by (simp add: allocs_def entry_flags seg_map_below)
  next
    case (Suc k)
    then have "allocs (0 # render ss) i = allocs (render ss) k" by (simp add: allocs_def)
    then show ?thesis using 2 Suc by simp
  qed
next
  case (3 off n ss)
  consider "i = 0" | "0 < i" "i < n" | k where "i = n + k"
    by (metis gr0I le_add_diff_inverse not_less)
  then show ?case
  proof cases
    case 1
    then show ?thesis
      using 3 alloc_first [of 0 n] by (auto simp: allocs_def nth_append chain_length_alloc)
  next
    case 2
    then show ?thesis
      using 3 alloc_first [of i n] by (auto simp: allocs_def nth_append seg_map_below)
  next
    case 3
    then have "allocs (alloc_entries n @ render ss) i = allocs (render ss) k"
      by (simp add: allocs_def nth_append)
    then show ?thesis using "3.IH" [of k] "3.prems" 3 by (simp add: add.assoc)
  qed
qed

subsection \<open>Well-formed heaps and their live allocations\<close>

definition heap_shape :: "heap \<Rightarrow> seg list \<Rightarrow> bool" where
  "heap_shape h ss \<longleftrightarrow>
     list_all seg_ok ss \<and> entries (table h) = render ss \<and>
     length (render ss) = unat (total (table h)) \<and>
     saddr h \<noteq> 0 \<and> unat (saddr h) mod 4096 = 0 \<and>
     unat (total (table h)) * 4096 < 2147483648 \<and>
     unat (saddr h) + unat (total (table h)) * 4096 < 4294967296"

definition heap_inv :: "heap \<Rightarrow> bool" where
  "heap_inv h \<longleftrightarrow> (\<exists>ss. heap_shape h ss)"

definition heap_live :: "heap \<Rightarrow> (addr \<rightharpoonup> nat)" where
  "heap_live h p =
     (if unat (p - saddr h) mod 4096 = 0
      then allocs (entries (table h)) (unat (p - saddr h) div 4096) else None)"

lemma heap_shape_update:
  "heap_shape h ss \<Longrightarrow> list_all seg_ok ss' \<Longrightarrow> length (render ss') = length (render ss) \<Longrightarrow>
   heap_shape (h\<lparr>table := (table h)\<lparr>entries := render ss'\<rparr>\<rparr>) ss'"
  by (simp add: heap_shape_def)

lemma block_offset:
  assumes "heap_shape h ss" "s < length (render ss)"
  shows "unat (heap_block_to_address h (int s) - saddr h) = s * 4096"
    and "unat (heap_block_to_address h (int s)) = unat (saddr h) + s * 4096"
    and "heap_block_to_address h (int s) \<noteq> 0"
    and "heap_address_to_block h (heap_block_to_address h (int s)) = int s"
proof -
  have s: "s * 4096 < 2147483648" "unat (saddr h) + s * 4096 < 4294967296"
    using assms by (auto simp: heap_shape_def)
  have w: "heap_block_to_address h (int s) = saddr h + of_nat (s * 4096)"
    by (simp add: heap_block_to_address_def status_simps)
  have u: "unat (of_nat (s * 4096) :: u32) = s * 4096"
    using s by (intro unat_of_nat_u32) linarith
  show off: "unat (heap_block_to_address h (int s) - saddr h) = s * 4096"
    unfolding w add_diff_cancel_left' by (rule u)
  have "unat (saddr h) + unat (of_nat (s * 4096) :: u32) < 4294967296"
    using s unfolding u by linarith
  then show a: "unat (heap_block_to_address h (int s)) = unat (saddr h) + s * 4096"
    unfolding w using u unat_add_u32 by metis
  have "unat (saddr h) \<noteq> 0" using assms by (simp add: heap_shape_def unat_eq_0)
  then show "heap_block_to_address h (int s) \<noteq> 0"
    using a by (metis add_is_0 unat_eq_0)
  have "sint (heap_block_to_address h (int s) - saddr h) = int (s * 4096)"
    using off s by (simp add: sint_small)
  moreover have "sint BENOS_HEAP_BLOCK_SIZE = 4096" by (simp add: status_simps)
  ultimately show "heap_address_to_block h (heap_block_to_address h (int s)) = int s"
    by (simp add: heap_address_to_block_def)
qed

lemma live_block:
  assumes "heap_shape h ss" "s < length (render ss)"
  shows "heap_live h (heap_block_to_address h (int s)) = seg_map 0 ss s"
  using block_offset [OF assms] assms allocs_render [of ss s 0]
  by (simp add: heap_live_def heap_shape_def)

lemma live_SomeD:
  assumes "heap_shape h ss" "heap_live h p = Some n"
  shows "\<exists>s. s < length (render ss) \<and> p = heap_block_to_address h (int s) \<and> seg_map 0 ss s = Some n"
proof -
  define s where "s = unat (p - saddr h) div 4096"
  have m: "unat (p - saddr h) = s * 4096" and a: "allocs (entries (table h)) s = Some n"
    using assms(2) by (auto simp: heap_live_def s_def split: if_splits)
  have sm: "seg_map 0 ss s = Some n"
    using a assms(1) allocs_render [of ss s 0] by (simp add: heap_shape_def)
  then have s: "s < length (render ss)"
    using assms(1) seg_map_bounds [of ss 0 s n] by (auto simp: heap_shape_def)
  have "unat (p - saddr h) = unat (heap_block_to_address h (int s) - saddr h)"
    unfolding m block_offset(1) [OF assms(1) s] ..
  then have "p - saddr h = heap_block_to_address h (int s) - saddr h"
    by (simp only: word_unat_eq_iff)
  then have "p = heap_block_to_address h (int s)" by simp
  then show ?thesis using s sm by blast
qed

lemma block_address_inj:
  assumes "heap_shape h ss" "s < length (render ss)" "t < length (render ss)"
    and "heap_block_to_address h (int s) = heap_block_to_address h (int t)"
  shows "s = t"
proof -
  have "unat (saddr h) + s * 4096 = unat (saddr h) + t * 4096"
    using block_offset(2) [OF assms(1,2)] block_offset(2) [OF assms(1,3)] assms(4) by metis
  then show ?thesis by linarith
qed

lemma live_update:
  assumes h: "heap_shape h ss" and h': "heap_shape h' ss'"
    and saddr: "saddr h' = saddr h" and len: "length (render ss') = length (render ss)"
    and s: "s < length (render ss)" and m: "seg_map 0 ss' = (seg_map 0 ss)(s := v)"
  shows "heap_live h' = (heap_live h)(heap_block_to_address h (int s) := v)"
proof
  fix p
  have a: "heap_block_to_address h' = heap_block_to_address h"
    by (simp add: heap_block_to_address_def fun_eq_iff saddr)
  show "heap_live h' p = ((heap_live h)(heap_block_to_address h (int s) := v)) p"
  proof (cases "\<exists>t. t < length (render ss) \<and> p = heap_block_to_address h (int t)")
    case True
    then obtain t where t: "t < length (render ss)" "p = heap_block_to_address h (int t)" by blast
    then show ?thesis
      using live_block [OF h t(1)] live_block [OF h', of t] m len a
        block_address_inj [OF h t(1) s] by auto
  next
    case False
    then show ?thesis
      using live_SomeD [OF h, of p] live_SomeD [OF h', of p] len a s
      by (metis (no_types, lifting) fun_upd_apply not_None_eq)
  qed
qed

lemma fits_split:
  assumes "fits es tot n s" "tot \<le> length es"
  shows "es = take s es @ take n (drop s es) @ drop (s + n) es" "length (take s es) = s"
  using assms by (auto simp: fits_def add.commute simp flip: drop_drop)

lemma fits_render:
  assumes ss: "list_all seg_ok ss" and f: "fits (render ss) (length (render ss)) n s" and n: "0 < n"
  shows "\<exists>s1 s2. ss = s1 @ replicate n Free_block @ s2 \<and> length (render s1) = s"
proof -
  let ?es = "render ss"
  have "take n (drop s ?es) = replicate n 0"
  proof (rule nth_equalityI)
    show "length (take n (drop s ?es)) = length (replicate n (0::byte))"
      using f by (auto simp: fits_def)
    fix i assume "i < length (take n (drop s ?es))"
    then have i: "i < n" "s + i < length ?es" using f by (auto simp: fits_def)
    then have "?es ! (s + i) = 0"
      using f free_at_render [of "s + i" ss] by (auto simp: fits_def)
    then show "take n (drop s ?es) ! i = replicate n 0 ! i" using i by simp
  qed
  then have "?es = take s ?es @ replicate n 0 @ drop (s + n) ?es"
    using fits_split(1) [OF f] by simp
  then obtain s1 s2 where "ss = s1 @ replicate n Free_block @ s2" "render s1 = take s ?es"
    using render_split_run [OF ss n] by blast
  then show ?thesis using fits_split(2) [OF f] by auto
qed

lemma heap_start_block:
  assumes h: "heap_shape h ss" and n: "n = unat nb" "0 < n"
  shows "\<exists>r. heap_get_start_block h nb = Some (if r = -1 then - ENOMEM else r)
    \<and> scan_result (render ss) (length (render ss)) n r"
proof -
  have "length (render ss) < 2 ^ 32" using h u32_lt [of "total (table h)"] by (simp add: heap_shape_def)
  then obtain r where "start_block_loop (render ss) (length (render ss)) nb 0 (int 0) (if 0 = 0 then -1 else int (0 - 0)) = Some r"
      "scan_result (render ss) (length (render ss)) n r"
    using start_block_loop_result [of "length (render ss)" "render ss" n nb 0 0] n
      scan_inv_init [of n] by auto
  then show ?thesis using h by (auto simp: heap_get_start_block_def heap_shape_def)
qed

text \<open>The three outcomes of a request: first fit, out of memory, overrun of the table.\<close>

lemma heap_malloc_outcome:
  assumes h: "heap_shape h ss" and sz: "ok_size sz"
  defines "n \<equiv> blocks_of sz" and "es \<equiv> render ss"
  shows "(\<exists>s1 s2. ss = s1 @ replicate n Free_block @ s2 \<and>
      (\<forall>s < length (render s1). \<not> fits es (length es) n s) \<and>
      heap_malloc h sz = Some (heap_block_to_address h (int (length (render s1))),
        h\<lparr>table := (table h)\<lparr>entries := render (s1 @ Used n # s2)\<rparr>\<rparr>)) \<or>
    ((\<forall>s. \<not> fits es (length es) n s) \<and>
      (if es \<noteq> [] \<and> last es = 0 then heap_malloc h sz = None else heap_malloc h sz = Some (0, h)))"
proof -
  let ?nb = "heap_align_value_to_upper sz div BENOS_HEAP_BLOCK_SIZE"
  have n: "n = unat ?nb" "0 < n" "sint ?nb = int n"
    using total_blocks_eq [OF sz] blocks_of_bounds [OF sz] by (simp_all add: n_def)
  obtain r where r: "heap_get_start_block h ?nb = Some (if r = -1 then - ENOMEM else r)"
      "scan_result es (length es) n r"
    using heap_start_block [OF h n(1,2)] by (auto simp: es_def)
  have ent: "entries (table h) = es" using h by (simp add: heap_shape_def es_def)
  have ok: "list_all seg_ok ss" using h by (simp add: heap_shape_def)
  consider (fit) "0 \<le> r" "fits es (length es) n (nat r)" "\<forall>s < nat r. \<not> fits es (length es) n s"
    | (nofit) k where "\<forall>s. \<not> fits es (length es) n s" "scan_inv es n (length es) k"
        "r = (if k = 0 then -1 else int (length es - k))"
    using r(2) by (auto simp: scan_result_def)
  then show ?thesis
  proof cases
    case fit
    obtain s1 s2 where s: "ss = s1 @ replicate n Free_block @ s2" "length (render s1) = nat r"
      using fits_render [OF ok fit(2) [unfolded es_def] n(2)] by blast
    have e: "entries (table h) = render s1 @ replicate n 0 @ render s2"
      using s ent by (simp add: es_def)
    have "heap_mark_blocks_taken h r (int n) =
        Some (h\<lparr>table := (table h)\<lparr>entries := render (s1 @ Used n # s2)\<rparr>\<rparr>)"
      using mark_taken_eq [OF _ n(2) e] s(2) fit(1) by simp
    then have "heap_malloc h sz = Some (heap_block_to_address h r,
        h\<lparr>table := (table h)\<lparr>entries := render (s1 @ Used n # s2)\<rparr>\<rparr>)"
      using r(1) fit(1) n(3) by (simp add: heap_malloc_def heap_malloc_blocks_def Let_def)
    then show ?thesis using s fit(1,3) by (intro disjI1 exI [of _ s1] exI [of _ s2]) simp
  next
    case nofit
    have k: "k \<le> length es" "k < n" using nofit(2) by (auto simp: scan_inv_def)
    show ?thesis
    proof (cases "k = 0")
      case True
      then have "heap_malloc h sz = Some (0, h)"
        using r(1) nofit(3) by (simp add: heap_malloc_def heap_malloc_blocks_def Let_def status_simps)
      moreover have "\<not> (es \<noteq> [] \<and> last es = 0)"
        using nofit(2) True free_at_render [of "length es - 1" ss]
        by (auto simp: scan_inv_def last_conv_nth es_def)
      ultimately show ?thesis using nofit(1) by auto
    next
      case False
      then have ne: "es \<noteq> []" using k by auto
      have "\<forall>j. length es - k \<le> j \<and> j < length es \<longrightarrow> free_at es j"
        using nofit(2) unfolding scan_inv_def by blast
      moreover have "length es - k \<le> length es - 1 \<and> length es - 1 < length es"
        using False k by linarith
      ultimately have "free_at es (length es - 1)" by blast
      then have l: "last es = 0"
        using ne free_at_render [of "length es - 1" ss] by (simp add: last_conv_nth es_def)
      have "mark_taken_loop es (r + int n - 1) r e = None" for e
        by (rule mark_taken_loop_overrun) (use nofit(3) False k in auto)
      then have "heap_malloc h sz = None"
        using r(1) nofit(3) False n(3) ent
        by (simp add: heap_malloc_def heap_malloc_blocks_def heap_mark_blocks_taken_def Let_def)
      then show ?thesis using nofit(1) ne l by auto
    qed
  qed
qed

lemma heap_free_at:
  assumes h: "heap_shape h (s1 @ Used n # s2)"
  shows "heap_free h (heap_block_to_address h (int (length (render s1)))) =
    Some (h\<lparr>table := (table h)\<lparr>entries := render (s1 @ replicate n Free_block @ s2)\<rparr>\<rparr>)"
proof -
  have n: "0 < n" using h by (simp add: heap_shape_def)
  have e: "entries (table h) = render s1 @ alloc_entries n @ render s2"
    using h by (simp add: heap_shape_def)
  have tot: "unat (total (table h)) = length (render (s1 @ Used n # s2))"
      "unat (total (table h)) < 2147483648"
    using h by (auto simp: heap_shape_def)
  then have "int (length (render s1) + n) \<le> sint (total (table h))"
    by (simp add: sint_small del: int_unat)
  from mark_free_eq [OF n e this] show ?thesis
    using block_offset(4) [OF h, of "length (render s1)"] n by (simp add: heap_free_def)
qed

lemma heap_free_live:
  assumes h: "heap_shape h ss" and l: "heap_live h p = Some n"
  shows "\<exists>s1 s2. ss = s1 @ Used n # s2 \<and> p = heap_block_to_address h (int (length (render s1))) \<and>
    heap_free h p = Some (h\<lparr>table := (table h)\<lparr>entries := render (s1 @ replicate n Free_block @ s2)\<rparr>\<rparr>)"
proof -
  obtain s where s: "s < length (render ss)" "p = heap_block_to_address h (int s)" "seg_map 0 ss s = Some n"
    using live_SomeD [OF h l] by blast
  have ok: "list_all seg_ok ss" using h by (simp add: heap_shape_def)
  obtain s1 s2 where ss: "ss = s1 @ Used n # s2" "s = length (render s1)"
    using seg_map_split [OF ok s(3)] by auto
  then show ?thesis using heap_free_at h s by blast
qed

subsection \<open>The allocator interface\<close>

locale allocator =
  fixes alloc :: "'h \<Rightarrow> u32 \<Rightarrow> (addr \<times> 'h) option"
    and release :: "'h \<Rightarrow> addr \<Rightarrow> 'h option"
    and live :: "'h \<Rightarrow> addr \<Rightarrow> nat option"
    and inv :: "'h \<Rightarrow> bool"
  assumes alloc_inv: "inv h \<Longrightarrow> ok_size sz \<Longrightarrow> alloc h sz = Some (p, h') \<Longrightarrow> inv h'"
    and alloc_fresh: "inv h \<Longrightarrow> ok_size sz \<Longrightarrow> alloc h sz = Some (p, h') \<Longrightarrow> p \<noteq> 0 \<Longrightarrow> live h p = None"
    and alloc_live: "inv h \<Longrightarrow> ok_size sz \<Longrightarrow> alloc h sz = Some (p, h') \<Longrightarrow> p \<noteq> 0 \<Longrightarrow>
      live h' = (live h)(p \<mapsto> blocks_of sz)"
    and alloc_null: "inv h \<Longrightarrow> ok_size sz \<Longrightarrow> alloc h sz = Some (0, h') \<Longrightarrow> h' = h"
    and release_live: "inv h \<Longrightarrow> live h p = Some n \<Longrightarrow>
      \<exists>h'. release h p = Some h' \<and> inv h' \<and> live h' = (live h)(p := None)"
    and live_aligned: "inv h \<Longrightarrow> live h p = Some n \<Longrightarrow> p \<noteq> 0 \<and> unat p mod 4096 = 0 \<and> 0 < n \<and>
      unat p + n * 4096 < 4294967296"
    and live_disjoint: "inv h \<Longrightarrow> live h p = Some n \<Longrightarrow> live h q = Some m \<Longrightarrow> unat p < unat q \<Longrightarrow>
      unat p + n * 4096 \<le> unat q"
begin

lemma alloc_after:
  "inv h \<Longrightarrow> ok_size sz \<Longrightarrow> alloc h sz = Some (p, h') \<Longrightarrow> p \<noteq> 0 \<Longrightarrow>
   inv h' \<and> live h p = None \<and> live h' = (live h)(p \<mapsto> blocks_of sz)"
  using alloc_inv alloc_fresh alloc_live by blast

text \<open>An allocation never overlaps one that was live before it.\<close>

lemma alloc_disjoint:
  assumes "inv h" "ok_size sz" "alloc h sz = Some (p, h')" "p \<noteq> 0" "live h q = Some m"
  shows "unat p + blocks_of sz * 4096 \<le> unat q \<or> unat q + m * 4096 \<le> unat p"
proof -
  note a = alloc_after [OF assms(1-4)]
  then have "p \<noteq> q" using assms(5) by auto
  then have "unat p < unat q \<or> unat q < unat p"
    by (metis linorder_neqE_nat word_unat_eq_iff)
  moreover have "live h' p = Some (blocks_of sz)" "live h' q = Some m"
    using a assms(5) \<open>p \<noteq> q\<close> by auto
  ultimately show ?thesis using live_disjoint [of h'] a by blast
qed

lemma alloc_release:
  assumes "inv h" "ok_size sz" "alloc h sz = Some (p, h')" "p \<noteq> 0"
  shows "\<exists>h''. release h' p = Some h'' \<and> inv h'' \<and> live h'' = live h"
proof -
  note a = alloc_after [OF assms]
  obtain h'' where "release h' p = Some h''" "inv h''" "live h'' = (live h')(p := None)"
    using release_live [of h' p "blocks_of sz"] a by auto
  then show ?thesis using a by (auto simp: fun_upd_idem)
qed

end

text \<open>Releasing a list of addresses, as the kernel's clean-up loops do.\<close>

fun release_all :: "('h \<Rightarrow> addr \<Rightarrow> 'h option) \<Rightarrow> 'h \<Rightarrow> addr list \<Rightarrow> 'h option" where
  "release_all release h [] = Some h"
| "release_all release h (p # ps) = do { h' \<leftarrow> release h p; release_all release h' ps }"

lemma release_all_append:
  "release_all r h (xs @ ys) = do { h' \<leftarrow> release_all r h xs; release_all r h' ys }"
  by (induction xs arbitrary: h) (auto intro: Option.bind_cong)

text \<open>\<open>grown live ok h as h'\<close>: from \<open>h\<close> to \<open>h'\<close> the one-block allocations \<open>as\<close> were added.\<close>

definition grown ::
  "('h \<Rightarrow> addr \<Rightarrow> nat option) \<Rightarrow> ('h \<Rightarrow> bool) \<Rightarrow> 'h \<Rightarrow> addr list \<Rightarrow> 'h \<Rightarrow> bool" where
  "grown live ok h ps h' \<longleftrightarrow> ok h' \<and> distinct ps \<and> set ps \<inter> dom (live h) = {} \<and>
     live h' = (\<lambda>p. if p \<in> set ps then Some 1 else live h p)"

lemma grownD:
  assumes "grown live ok h ps h'"
  shows "ok h'" "distinct ps" "p \<in> set ps \<Longrightarrow> live h p = None"
    "live h' p = (if p \<in> set ps then Some 1 else live h p)"
  using assms unfolding grown_def by (auto simp: dom_def)

lemma grown_trans:
  assumes "grown live ok h ps h1" "grown live ok h1 qs h2"
  shows "grown live ok h (ps @ qs) h2"
proof -
  have "live h p = None \<and> p \<notin> set ps" if "p \<in> set qs" for p
    using grownD(3) [OF assms(2) that] grownD(4) [OF assms(1), of p] by (auto split: if_splits)
  then show ?thesis
    using assms unfolding grown_def by (auto simp: fun_eq_iff)
qed

context allocator
begin

lemma release_all_live:
  assumes "inv h" "distinct ps" "set ps \<subseteq> dom (live h)"
  shows "\<exists>h'. release_all release h ps = Some h' \<and> inv h' \<and> live h' = live h |` (- set ps)"
  using assms
proof (induction ps arbitrary: h)
  case Nil
  then show ?case by (auto simp: restrict_map_def)
next
  case (Cons p ps)
  then obtain n where "live h p = Some n" by auto
  then obtain h' where h': "release h p = Some h'" "inv h'" "live h' = (live h)(p := None)"
    using release_live [OF Cons.prems(1)] by blast
  moreover have "set ps \<subseteq> dom (live h')" using Cons.prems h' by auto
  moreover have "distinct ps" using Cons.prems(2) by simp
  ultimately obtain h'' where "release_all release h' ps = Some h''" "inv h''"
      "live h'' = live h' |` (- set ps)"
    using Cons.IH by blast
  then show ?case using h' by (auto simp: restrict_map_def fun_eq_iff)
qed

lemma grown_refl: "inv h \<Longrightarrow> grown live inv h [] h"
  by (simp add: grown_def)

lemma grown_alloc:
  assumes "inv h" "ok_size sz" "blocks_of sz = 1" "alloc h sz = Some (p, h')" "p \<noteq> 0"
  shows "grown live inv h [p] h'"
  using alloc_after [OF assms(1,2,4,5)] assms(3) by (auto simp: grown_def fun_eq_iff)

lemma grown_release:
  assumes "grown live inv h ps h'"
  shows "\<exists>h''. release_all release h' ps = Some h'' \<and> inv h'' \<and> live h'' = live h"
proof -
  have "set ps \<subseteq> dom (live h')" using grownD(4) [OF assms] by auto
  then obtain h'' where h'': "release_all release h' ps = Some h''" "inv h''"
      "live h'' = live h' |` (- set ps)"
    using release_all_live [OF grownD(1,2) [OF assms]] by blast
  moreover have "live h'' = live h"
    using h''(3) grownD(3,4) [OF assms] by (auto simp: restrict_map_def fun_eq_iff)
  ultimately show ?thesis by blast
qed

end

text \<open>An allocator that leaves no trace: releasing a fresh allocation restores the state.\<close>

locale exact_allocator = allocator +
  assumes release_alloc: "inv h \<Longrightarrow> ok_size sz \<Longrightarrow> alloc h sz = Some (p, h') \<Longrightarrow> p \<noteq> 0 \<Longrightarrow> release h' p = Some h"

lemma heap_malloc_Some:
  assumes h: "heap_shape h ss" and sz: "ok_size sz" and m: "heap_malloc h sz = Some (p, h')" and p: "p \<noteq> 0"
  shows "\<exists>s1 s2. ss = s1 @ replicate (blocks_of sz) Free_block @ s2 \<and>
    p = heap_block_to_address h (int (length (render s1))) \<and>
    h' = h\<lparr>table := (table h)\<lparr>entries := render (s1 @ Used (blocks_of sz) # s2)\<rparr>\<rparr>"
  using heap_malloc_outcome [OF h sz] m p by (auto split: if_splits)

lemma heap_malloc_null:
  assumes h: "heap_shape h ss" and sz: "ok_size sz" and m: "heap_malloc h sz = Some (0, h')"
  shows "h' = h"
proof -
  have "heap_block_to_address h (int (length (render s1))) \<noteq> 0"
    if "ss = s1 @ replicate (blocks_of sz) Free_block @ s2" for s1 s2
    by (rule block_offset(3) [OF h]) (use that blocks_of_bounds [OF sz] in auto)
  then show ?thesis
    using heap_malloc_outcome [OF h sz] m by (fastforce split: if_splits)
qed

lemma heap_malloc_after:
  assumes h: "heap_shape h ss" and sz: "ok_size sz" and m: "heap_malloc h sz = Some (p, h')" and p: "p \<noteq> 0"
  shows "heap_inv h' \<and> heap_live h p = None \<and> heap_live h' = (heap_live h)(p \<mapsto> blocks_of sz)"
proof -
  obtain s1 s2 where ss: "ss = s1 @ replicate (blocks_of sz) Free_block @ s2"
    and pp: "p = heap_block_to_address h (int (length (render s1)))"
    and h': "h' = h\<lparr>table := (table h)\<lparr>entries := render (s1 @ Used (blocks_of sz) # s2)\<rparr>\<rparr>"
    using heap_malloc_Some [OF assms] by blast
  note n = blocks_of_bounds [OF sz]
  have ok: "list_all seg_ok s1" "list_all seg_ok s2" using h ss by (auto simp: heap_shape_def)
  have sh: "heap_shape h' (s1 @ Used (blocks_of sz) # s2)"
    unfolding h' by (rule heap_shape_update [OF h]) (use ok n ss in auto)
  have s: "length (render s1) < length (render ss)" using ss n by simp
  note m = seg_map_used [OF ok, of "blocks_of sz"]
  have "heap_live h p = None"
    unfolding pp live_block [OF h s] using m(2) n ss by (metis fun_upd_same)
  moreover have "heap_live h' = (heap_live h)(p \<mapsto> blocks_of sz)"
    unfolding pp by (rule live_update [OF h sh _ _ s]) (use h' ss n m(1) in auto)
  ultimately show ?thesis using sh by (auto simp: heap_inv_def)
qed

lemma heap_release_live:
  assumes h: "heap_shape h ss" and l: "heap_live h p = Some n"
  shows "\<exists>h'. heap_free h p = Some h' \<and> heap_inv h' \<and> heap_live h' = (heap_live h)(p := None)"
proof -
  obtain s1 s2 where ss: "ss = s1 @ Used n # s2"
    and pp: "p = heap_block_to_address h (int (length (render s1)))"
    and f: "heap_free h p = Some (h\<lparr>table := (table h)\<lparr>entries := render (s1 @ replicate n Free_block @ s2)\<rparr>\<rparr>)"
      (is "_ = Some ?h'")
    using heap_free_live [OF assms] by blast
  have ok: "list_all seg_ok s1" "list_all seg_ok s2" "0 < n" using h ss by (auto simp: heap_shape_def)
  have sh: "heap_shape ?h' (s1 @ replicate n Free_block @ s2)"
    by (rule heap_shape_update [OF h]) (use ok ss in auto)
  have s: "length (render s1) < length (render ss)" using ss ok by simp
  have "heap_live ?h' = (heap_live h)(p := None)"
    unfolding pp by (rule live_update [OF h sh _ _ s]) (use ss seg_map_used(2) [OF ok] in auto)
  then show ?thesis using f sh by (auto simp: heap_inv_def)
qed

lemma heap_live_bounds:
  assumes h: "heap_shape h ss" and l: "heap_live h p = Some n"
  shows "p \<noteq> 0 \<and> unat p mod 4096 = 0 \<and> 0 < n \<and> unat p + n * 4096 < 4294967296"
proof -
  obtain s where s: "s < length (render ss)" "p = heap_block_to_address h (int s)" "seg_map 0 ss s = Some n"
    using live_SomeD [OF h l] by blast
  have b: "s + n \<le> length (render ss)" "0 < n"
    using seg_map_bounds [OF _ s(3)] h by (auto simp: heap_shape_def)
  have u: "unat p = unat (saddr h) + s * 4096" "p \<noteq> 0"
    using block_offset(2,3) [OF h s(1)] s(2) by simp_all
  have h1: "unat (saddr h) mod 4096 = 0" "unat (saddr h) + length (render ss) * 4096 < 4294967296"
    using h by (auto simp: heap_shape_def)
  have "unat p mod 4096 = 0" unfolding u(1) using h1(1) by simp
  moreover have "unat p + n * 4096 < 4294967296" unfolding u(1) using b h1(2) by linarith
  ultimately show ?thesis using u b by simp
qed

lemma heap_live_disjoint:
  assumes h: "heap_shape h ss" and l: "heap_live h p = Some n" "heap_live h q = Some m" and lt: "unat p < unat q"
  shows "unat p + n * 4096 \<le> unat q"
proof -
  obtain s where s: "s < length (render ss)" "p = heap_block_to_address h (int s)" "seg_map 0 ss s = Some n"
    using live_SomeD [OF h l(1)] by blast
  obtain t where t: "t < length (render ss)" "q = heap_block_to_address h (int t)" "seg_map 0 ss t = Some m"
    using live_SomeD [OF h l(2)] by blast
  have u: "unat p = unat (saddr h) + s * 4096" "unat q = unat (saddr h) + t * 4096"
    using block_offset(2) [OF h s(1)] block_offset(2) [OF h t(1)] s t by simp_all
  then have "s + n \<le> t"
    using seg_map_disjoint [OF _ s(3) t(3)] h lt by (simp add: heap_shape_def)
  then show ?thesis unfolding u by linarith
qed

lemma heap_free_malloc:
  assumes inv: "heap_inv h" and sz: "ok_size sz" and m: "heap_malloc h sz = Some (p, h')" and p: "p \<noteq> 0"
  shows "heap_free h' p = Some h"
proof -
  obtain ss where h: "heap_shape h ss" using inv by (auto simp: heap_inv_def)
  obtain s1 s2 where ss: "ss = s1 @ replicate (blocks_of sz) Free_block @ s2"
    and pp: "p = heap_block_to_address h (int (length (render s1)))"
    and h': "h' = h\<lparr>table := (table h)\<lparr>entries := render (s1 @ Used (blocks_of sz) # s2)\<rparr>\<rparr>"
    using heap_malloc_Some [OF h sz m p] by blast
  have "heap_shape h' (s1 @ Used (blocks_of sz) # s2)"
    unfolding h' by (rule heap_shape_update [OF h])
      (use h ss blocks_of_bounds [OF sz] in \<open>auto simp: heap_shape_def\<close>)
  from heap_free_at [OF this] have "heap_free h' p =
      Some (h'\<lparr>table := (table h')\<lparr>entries := render ss\<rparr>\<rparr>)"
    using ss by (simp add: pp h' heap_block_to_address_def)
  moreover have "h'\<lparr>table := (table h')\<lparr>entries := render ss\<rparr>\<rparr> = h"
    using h by (simp add: h' heap_shape_def)
  ultimately show ?thesis by simp
qed

interpretation heap_alloc: exact_allocator heap_malloc heap_free heap_live heap_inv
proof
  fix h h' :: heap and sz p q :: u32 and n m :: nat
  {
    assume "heap_inv h" "ok_size sz" "heap_malloc h sz = Some (p, h')"
    then show "heap_inv h'"
      using heap_malloc_after heap_malloc_null unfolding heap_inv_def by metis
  }
  {
    assume a: "heap_inv h" "ok_size sz" "heap_malloc h sz = Some (p, h')" "p \<noteq> 0"
    then show "heap_live h p = None" "heap_live h' = (heap_live h)(p \<mapsto> blocks_of sz)"
      using heap_malloc_after unfolding heap_inv_def by blast+
    show "heap_free h' p = Some h" using a by (rule heap_free_malloc)
  }
  show "heap_inv h \<Longrightarrow> ok_size sz \<Longrightarrow> heap_malloc h sz = Some (0, h') \<Longrightarrow> h' = h"
    using heap_malloc_null unfolding heap_inv_def by blast
  assume "heap_inv h"
  then show "heap_live h p = Some n \<Longrightarrow> \<exists>h'. heap_free h p = Some h' \<and> heap_inv h' \<and> heap_live h' = (heap_live h)(p := None)"
    and "heap_live h p = Some n \<Longrightarrow> p \<noteq> 0 \<and> unat p mod 4096 = 0 \<and> 0 < n \<and> unat p + n * 4096 < 4294967296"
    and "heap_live h p = Some n \<Longrightarrow> heap_live h q = Some m \<Longrightarrow> unat p < unat q \<Longrightarrow> unat p + n * 4096 \<le> unat q"
    using heap_release_live heap_live_bounds heap_live_disjoint unfolding heap_inv_def by blast+
qed

subsection \<open>The kernel heap as an allocator\<close>

definition k_inv :: "'z kmem_scheme \<Rightarrow> bool" where
  "k_inv s \<longleftrightarrow> heap_inv (kernel_heap s)"

definition k_live :: "'z kmem_scheme \<Rightarrow> (addr \<rightharpoonup> nat)" where
  "k_live s = heap_live (kernel_heap s)"

lemma kmalloc_SomeE:
  assumes "kmalloc s sz = Some (p, s')"
  obtains h' where "heap_malloc (kernel_heap s) sz = Some (p, h')" "s' = s\<lparr>kernel_heap := h'\<rparr>"
  using assms by (auto simp: kmalloc_def split: bind_splits)

lemma kzalloc_SomeE:
  assumes "kzalloc s sz = Some (p, s')"
  obtains h' where "heap_malloc (kernel_heap s) sz = Some (p, h')"
    "s' = (if p = 0 then s\<lparr>kernel_heap := h'\<rparr>
           else s\<lparr>kernel_heap := h', ram := ram_fill (ram s) p (unat sz) 0\<rparr>)"
  using assms by (auto simp: kzalloc_def split: bind_splits if_splits elim!: kmalloc_SomeE)

interpretation kmalloc_alloc: allocator kmalloc kfree k_live k_inv
proof
  fix s s' :: "'z kmem_scheme" and sz p q :: u32 and n m :: nat
  assume inv: "k_inv s"
  {
    assume sz: "ok_size sz" and m: "kmalloc s sz = Some (p, s')"
    from m obtain h' where h': "heap_malloc (kernel_heap s) sz = Some (p, h')" "s' = s\<lparr>kernel_heap := h'\<rparr>"
      by (rule kmalloc_SomeE)
    then show "k_inv s'" using heap_alloc.alloc_inv [OF _ sz] inv by (auto simp: k_inv_def)
    assume "p \<noteq> 0"
    then show "k_live s p = None" and "k_live s' = (k_live s)(p \<mapsto> blocks_of sz)"
      using heap_alloc.alloc_after [OF _ sz h'(1)] inv h'(2) by (auto simp: k_inv_def k_live_def)
  }
  {
    assume sz: "ok_size sz" and m: "kmalloc s sz = Some (0, s')"
    then show "s' = s"
      using heap_alloc.alloc_null [OF _ sz] inv by (auto simp: k_inv_def elim!: kmalloc_SomeE)
  }
  {
    assume "k_live s p = Some n"
    then show "\<exists>s'. kfree s p = Some s' \<and> k_inv s' \<and> k_live s' = (k_live s)(p := None)"
      using heap_alloc.release_live [of "kernel_heap s" p n] inv
      by (auto simp: kfree_def k_inv_def k_live_def)
  }
  show "k_live s p = Some n \<Longrightarrow> p \<noteq> 0 \<and> unat p mod 4096 = 0 \<and> 0 < n \<and> unat p + n * 4096 < 4294967296"
    and "k_live s p = Some n \<Longrightarrow> k_live s q = Some m \<Longrightarrow> unat p < unat q \<Longrightarrow> unat p + n * 4096 \<le> unat q"
    using heap_alloc.live_aligned heap_alloc.live_disjoint inv unfolding k_inv_def k_live_def by blast+
qed

lemma kzalloc_kmalloc:
  assumes "kzalloc s sz = Some (p, s')"
  shows "\<exists>s''. kmalloc s sz = Some (p, s'') \<and> kernel_heap s' = kernel_heap s'' \<and> (p = 0 \<longrightarrow> s' = s'')"
  using assms by (auto simp: kmalloc_def elim!: kzalloc_SomeE)

interpretation kz: allocator kzalloc kfree k_live k_inv
proof
  fix s s' :: "'z kmem_scheme" and sz p q :: u32 and n m :: nat
  assume inv: "k_inv s"
  {
    assume sz: "ok_size sz" and z: "kzalloc s sz = Some (p, s')"
    obtain s'' where m: "kmalloc s sz = Some (p, s'')" and eq: "k_inv s' = k_inv s''" "k_live s' = k_live s''"
      using kzalloc_kmalloc [OF z] by (auto simp: k_inv_def k_live_def)
    then show "k_inv s'" using kmalloc_alloc.alloc_inv [OF inv sz m] by simp
    assume "p \<noteq> 0"
    then show "k_live s p = None" and "k_live s' = (k_live s)(p \<mapsto> blocks_of sz)"
      using kmalloc_alloc.alloc_after [OF inv sz m] eq by auto
  }
  {
    assume sz: "ok_size sz" and "kzalloc s sz = Some (0, s')"
    then show "s' = s"
      using kmalloc_alloc.alloc_null [OF inv sz] kzalloc_kmalloc by blast
  }
  show "k_live s p = Some n \<Longrightarrow> \<exists>s'. kfree s p = Some s' \<and> k_inv s' \<and> k_live s' = (k_live s)(p := None)"
    and "k_live s p = Some n \<Longrightarrow> p \<noteq> 0 \<and> unat p mod 4096 = 0 \<and> 0 < n \<and> unat p + n * 4096 < 4294967296"
    and "k_live s p = Some n \<Longrightarrow> k_live s q = Some m \<Longrightarrow> unat p < unat q \<Longrightarrow> unat p + n * 4096 \<le> unat q"
    using kmalloc_alloc.release_live [OF inv] kmalloc_alloc.live_aligned [OF inv]
      kmalloc_alloc.live_disjoint [OF inv] by blast+
qed

text \<open>Memory that is handed out reads as zero, and nothing else changes.\<close>

lemma kzalloc_ram:
  assumes "kzalloc s sz = Some (p, s')" "p \<noteq> 0"
  shows "ram s' a = (if unat (a - p) < unat sz then 0 else ram s a)"
  using assms by (auto simp: ram_fill_def elim!: kzalloc_SomeE)

text \<open>What memory operations leave alone: the place of the pool and everything but the memory.\<close>

definition pool :: "'z kmem_scheme \<Rightarrow> addr \<times> u32" where
  "pool s = (saddr (kernel_heap s), total (table (kernel_heap s)))"

definition kframe :: "'z kmem_scheme \<Rightarrow> (addr \<times> u32) \<times> 'z" where
  "kframe s = (pool s, kmem.more s)"

lemma kframe_more: "kframe s' = kframe s \<Longrightarrow> kmem.more s' = kmem.more s"
  and kframe_pool: "kframe s' = kframe s \<Longrightarrow> pool s' = pool s"
  by (simp_all add: kframe_def)

lemma kframe_ram [simp]: "kframe (s\<lparr>ram := m\<rparr>) = kframe s" "pool (s\<lparr>ram := m\<rparr>) = pool s"
  by (simp_all add: kframe_def pool_def)

lemma heap_malloc_place:
  "heap_malloc h sz = Some (p, h') \<Longrightarrow> saddr h' = saddr h \<and> total (table h') = total (table h)"
  by (auto simp: heap_malloc_def heap_malloc_blocks_def heap_mark_blocks_taken_def Let_def
      split: bind_splits if_splits)

lemma kzalloc_more [simp]: "kzalloc s sz = Some (p, s') \<Longrightarrow> kframe s' = kframe s"
  by (auto simp: kframe_def pool_def elim!: kzalloc_SomeE dest: heap_malloc_place)

lemma kfree_more [simp]: "kfree s p = Some s' \<Longrightarrow> kframe s' = kframe s \<and> ram s' = ram s"
  by (auto simp: kframe_def pool_def kfree_def heap_free_def heap_mark_blocks_free_def split: bind_splits)

subsection \<open>The fresh kernel heap\<close>

lemma kheap_init_result:
  assumes "length tbl = 25600"
  shows "kheap_init s tbl = Some (0, s\<lparr>kernel_heap :=
    \<lparr>table = \<lparr>entries = replicate 25600 0, total = 25600\<rparr>, saddr = BENOS_HEAD_ADDRESS\<rparr>\<rparr>)"
  using assms
  by (simp add: kheap_init_def heap_create_def heap_validate_alignment_def heap_validate_table_def
      status_simps Let_def memset_eq entry_flags)

lemma fresh_heap_shape:
  "heap_shape \<lparr>table = \<lparr>entries = replicate 25600 0, total = 25600\<rparr>, saddr = BENOS_HEAD_ADDRESS\<rparr>
     (replicate 25600 Free_block)"
  by (simp add: heap_shape_def status_simps)

lemma heap_live_free:
  assumes "heap_shape h (replicate n Free_block)"
  shows "heap_live h = Map.empty"
  using live_SomeD [OF assms] by (metis not_None_eq seg_map_free)

lemma heap_malloc_succeeds:
  assumes "heap_inv h" "ok_size sz" "fits (entries (table h)) (unat (total (table h))) (blocks_of sz) s"
  shows "\<exists>p h'. heap_malloc h sz = Some (p, h') \<and> p \<noteq> 0"
proof -
  obtain ss where h: "heap_shape h ss" using assms(1) by (auto simp: heap_inv_def)
  have "fits (render ss) (length (render ss)) (blocks_of sz) s"
    using assms(3) h by (simp add: heap_shape_def)
  then obtain s1 s2 h' where m: "ss = s1 @ replicate (blocks_of sz) Free_block @ s2"
      "heap_malloc h sz = Some (heap_block_to_address h (int (length (render s1))), h')"
    using heap_malloc_outcome [OF h assms(2)] by blast
  have "heap_block_to_address h (int (length (render s1))) \<noteq> 0"
    by (rule block_offset(3) [OF h]) (use m blocks_of_bounds [OF assms(2)] in auto)
  then show ?thesis using m by blast
qed

subsection \<open>Requests of one block\<close>

definition free_blocks :: "'z kmem_scheme \<Rightarrow> nat" where
  "free_blocks s = count_list (entries (table (kernel_heap s))) 0"

lemma count_list_append [simp]: "count_list (xs @ ys) x = count_list xs x + count_list ys x"
  by (induction xs) auto

lemma heap_malloc_one_block:
  assumes h: "heap_inv h" and sz: "ok_size sz" "blocks_of sz = 1"
    and n: "count_list (entries (table h)) 0 = Suc n"
  shows "\<exists>p h'. heap_malloc h sz = Some (p, h') \<and> p \<noteq> 0 \<and> count_list (entries (table h')) 0 = n"
proof -
  obtain ss where ss: "heap_shape h ss" using h by (auto simp: heap_inv_def)
  have e: "entries (table h) = render ss" using ss by (simp add: heap_shape_def)
  have "0 \<in> set (render ss)" using n e by (metis count_notin nat.distinct(1))
  then obtain j where j: "j < length (render ss)" "render ss ! j = 0" by (auto simp: in_set_conv_nth)
  then have "fits (entries (table h)) (unat (total (table h))) (blocks_of sz) j"
    using ss sz free_at_render [of j ss] by (auto simp: fits_def heap_shape_def less_Suc_eq)
  then obtain p h' where m: "heap_malloc h sz = Some (p, h')" "p \<noteq> 0"
    using heap_malloc_succeeds [OF h sz(1)] by blast
  obtain s1 s2 where s: "ss = s1 @ replicate 1 Free_block @ s2"
      "h' = h\<lparr>table := (table h)\<lparr>entries := render (s1 @ Used 1 # s2)\<rparr>\<rparr>"
    using heap_malloc_Some [OF ss sz(1) m] sz(2) by auto
  then show ?thesis using m n e by auto
qed

lemma kzalloc_one_block:
  assumes "k_inv s" "ok_size sz" "blocks_of sz = 1" "0 < free_blocks s"
  shows "\<exists>p s'. kzalloc s sz = Some (p, s') \<and> p \<noteq> 0 \<and> free_blocks s' = free_blocks s - 1"
proof -
  obtain p h' where m: "heap_malloc (kernel_heap s) sz = Some (p, h')" "p \<noteq> 0"
      "count_list (entries (table h')) 0 = free_blocks s - 1"
    using heap_malloc_one_block [of "kernel_heap s" sz "free_blocks s - 1"] assms
    by (auto simp: k_inv_def free_blocks_def)
  then show ?thesis by (auto simp: kzalloc_def kmalloc_def free_blocks_def)
qed

lemma page_request [simp]: "ok_size 4096" "blocks_of 4096 = 1" "ok_size 4" "blocks_of 4 = 1"
  by (simp_all add: ok_size_def blocks_of_def)

text \<open>The kernel's memory after \<open>kheap_init\<close>.\<close>

definition fresh_kmem :: kmem where
  "fresh_kmem = \<lparr>kernel_heap = \<lparr>table = \<lparr>entries = replicate 25600 0, total = 25600\<rparr>, saddr = BENOS_HEAD_ADDRESS\<rparr>,
     ram = (\<lambda>_. 0)\<rparr>"

lemma count_list_replicate: "count_list (replicate n x) y = (if x = y then n else 0)"
  by (induction n) auto

lemma fresh_kmem: "k_inv fresh_kmem" "free_blocks fresh_kmem = 25600"
  using fresh_heap_shape
  by (auto simp: fresh_kmem_def k_inv_def heap_inv_def free_blocks_def count_list_replicate)

subsection \<open>Reachable heaps\<close>

inductive heap_reachable :: "heap \<Rightarrow> bool" where
  init: "kheap_init (s :: kmem) tbl = Some (0, s') \<Longrightarrow> length tbl = 25600 \<Longrightarrow> heap_reachable (kernel_heap s')"
| malloc: "heap_reachable h \<Longrightarrow> ok_size sz \<Longrightarrow> heap_malloc h sz = Some (p, h') \<Longrightarrow> heap_reachable h'"
| free: "heap_reachable h \<Longrightarrow> heap_live h p \<noteq> None \<Longrightarrow> heap_free h p = Some h' \<Longrightarrow> heap_reachable h'"

lemma heap_reachable_inv: "heap_reachable h \<Longrightarrow> heap_inv h"
proof (induction rule: heap_reachable.induct)
  case (init s tbl s')
  then show ?case using kheap_init_result [of tbl s] fresh_heap_shape by (auto simp: heap_inv_def)
next
  case (malloc h sz p h')
  then show ?case using heap_alloc.alloc_inv by blast
next
  case (free h p h')
  then show ?case using heap_alloc.release_live [of h p] by fastforce
qed

lemma heap_reachable_pool:
  "heap_reachable h \<Longrightarrow> saddr h = BENOS_HEAD_ADDRESS \<and> total (table h) = 25600"
proof (induction rule: heap_reachable.induct)
  case (init s tbl s')
  then show ?case using kheap_init_result [of tbl s] by auto
next
  case (malloc h sz p h')
  obtain ss where h: "heap_shape h ss" using heap_reachable_inv [OF malloc.hyps(1)] by (auto simp: heap_inv_def)
  show ?case using heap_malloc_outcome [OF h malloc.hyps(2)] malloc by (auto split: if_splits)
next
  case (free h p h')
  then show ?case by (auto simp: heap_free_def heap_mark_blocks_free_def split: bind_splits)
qed

lemma fits_free_run:
  "fits (render (s1 @ replicate n Free_block @ s2)) (length (render (s1 @ replicate n Free_block @ s2)))
     n (length (render s1))"
  using free_at_render [of _ "s1 @ replicate n Free_block @ s2"]
  by (auto simp: fits_def nth_append)

subsection \<open>Properties of the heap\<close>

text \<open>
  C3. In every heap that the kernel can reach from \<open>kheap_init\<close> by allocations and
  releases of live blocks, two live allocations never overlap, and each lies inside the
  100 MB pool that starts at \<open>BENOS_HEAD_ADDRESS\<close>.
\<close>

theorem heap_live_regions_disjoint:
  assumes "heap_reachable h" "heap_live h p = Some n" "heap_live h q = Some m" "p \<noteq> q"
  shows "(unat p + n * 4096 \<le> unat q \<or> unat q + m * 4096 \<le> unat p)
    \<and> 0x01000000 \<le> unat p \<and> unat p + n * 4096 \<le> 0x01000000 + 104857600"
proof -
  obtain ss where h: "heap_shape h ss" using heap_reachable_inv [OF assms(1)] by (auto simp: heap_inv_def)
  have "unat p < unat q \<or> unat q < unat p"
    using assms(4) by (metis linorder_neqE_nat word_unat_eq_iff)
  then have d: "unat p + n * 4096 \<le> unat q \<or> unat q + m * 4096 \<le> unat p"
    using heap_live_disjoint [OF h] assms(2,3) by blast
  obtain s where s: "s < length (render ss)" "p = heap_block_to_address h (int s)" "seg_map 0 ss s = Some n"
    using live_SomeD [OF h assms(2)] by blast
  have "s + n \<le> length (render ss)" using seg_map_bounds [OF _ s(3)] h by (auto simp: heap_shape_def)
  moreover have "length (render ss) = 25600" "unat (saddr h) = 0x01000000"
    using heap_reachable_pool [OF assms(1)] h by (auto simp: heap_shape_def status_simps)
  moreover have "unat p = unat (saddr h) + s * 4096" using block_offset(2) [OF h s(1)] s(2) by simp
  ultimately show ?thesis using d by linarith
qed

lemma heap_malloc_at:
  assumes "heap_inv h" "ok_size sz"
    and "fits (entries (table h)) (unat (total (table h))) (blocks_of sz) s"
    and "\<forall>t < s. \<not> fits (entries (table h)) (unat (total (table h))) (blocks_of sz) t"
  shows "heap_malloc h sz = Some (saddr h + of_nat s * 4096,
    h\<lparr>table := (table h)\<lparr>entries := take s (entries (table h)) @ alloc_entries (blocks_of sz) @
      drop (s + blocks_of sz) (entries (table h))\<rparr>\<rparr>)"
proof -
  obtain ss where h: "heap_shape h ss" using assms(1) by (auto simp: heap_inv_def)
  let ?n = "blocks_of sz" and ?es = "render ss"
  have es: "entries (table h) = ?es" "unat (total (table h)) = length ?es"
    using h by (simp_all add: heap_shape_def)
  have f: "fits ?es (length ?es) ?n s" "\<forall>t < s. \<not> fits ?es (length ?es) ?n t"
    using assms(3,4) es by simp_all
  then obtain s1 s2 where s: "ss = s1 @ replicate ?n Free_block @ s2"
      "\<forall>t < length (render s1). \<not> fits ?es (length ?es) ?n t"
      and m: "heap_malloc h sz = Some (heap_block_to_address h (int (length (render s1))),
        h\<lparr>table := (table h)\<lparr>entries := render (s1 @ Used ?n # s2)\<rparr>\<rparr>)"
    using heap_malloc_outcome [OF h assms(2)] by blast
  have "fits ?es (length ?es) ?n (length (render s1))"
    using fits_free_run [of s1 ?n s2] s(1) by simp
  then have "length (render s1) = s"
    using f s(2) by (metis linorder_neqE_nat)
  then show ?thesis
    using m s(1) es by (auto simp: heap_block_to_address_def status_simps)
qed

text \<open>
  C30. \<open>heap_malloc\<close> is first fit: with \<open>s\<close> the first block at which enough consecutive
  blocks are free, it returns the address of \<open>s\<close> and marks exactly those blocks.
\<close>

theorem heap_malloc_first_fit:
  assumes "heap_inv h" "ok_size sz"
    and "fits (entries (table h)) (unat (total (table h))) (blocks_of sz) s"
    and "\<forall>t < s. \<not> fits (entries (table h)) (unat (total (table h))) (blocks_of sz) t"
  shows "heap_malloc h sz = Some (saddr h + of_nat s * 4096,
    h\<lparr>table := (table h)\<lparr>entries := take s (entries (table h)) @ alloc_entries (blocks_of sz) @
      drop (s + blocks_of sz) (entries (table h))\<rparr>\<rparr>)"
  using assms by (rule heap_malloc_at)

text \<open>
  C40. When no run of free blocks is long enough but the last block of the table is free,
  the search returns the start of that short run and the marking loop writes past the end of
  the table (\<^term>\<open>None\<close>), instead of reporting that memory is exhausted.
\<close>

theorem heap_malloc_overrun:
  assumes "heap_inv h" "ok_size sz" "entries (table h) \<noteq> []" "last (entries (table h)) = 0"
    and "\<forall>s. \<not> fits (entries (table h)) (unat (total (table h))) (blocks_of sz) s"
  shows "heap_malloc h sz = None"
proof -
  obtain ss where h: "heap_shape h ss" using assms(1) by (auto simp: heap_inv_def)
  let ?es = "render ss"
  have es: "entries (table h) = ?es" "unat (total (table h)) = length ?es"
    using h by (simp_all add: heap_shape_def)
  have "\<not> (ss = s1 @ replicate (blocks_of sz) Free_block @ s2)" for s1 s2
    using assms(5) es fits_free_run [of s1 "blocks_of sz" s2] by auto
  then show ?thesis
    using heap_malloc_outcome [OF h assms(2)] assms(3,4) es by auto
qed

definition small_heap :: heap where
  "small_heap = \<lparr>table = \<lparr>entries = [0x41, 0, 0, 0xC1, 0x01, 0], total = 6\<rparr>, saddr = 0x01000000\<rparr>"

lemma small_heap_inv: "heap_inv small_heap"
proof -
  have "render [Used 1, Free_block, Free_block, Used 2, Free_block] = [0x41, 0, 0, 0xC1, 0x01, 0]"
    by code_simp
  then have "heap_shape small_heap [Used 1, Free_block, Free_block, Used 2, Free_block]"
    by (simp add: heap_shape_def small_heap_def del: render.simps)
  then show ?thesis by (auto simp: heap_inv_def)
qed

lemma fits_code [code]: "fits es tot n s \<longleftrightarrow> s + n \<le> tot \<and> list_all (free_at es) [s..<s + n]"
  by (auto simp: fits_def list_all_iff)

theorem heap_malloc_first_fit_witness:
  "heap_malloc small_heap 5000 = Some (0x01001000,
    \<lparr>table = \<lparr>entries = [0x41, 0xC1, 0x01, 0xC1, 0x01, 0], total = 6\<rparr>, saddr = 0x01000000\<rparr>)"
proof -
  have f: "fits (entries (table small_heap)) (unat (total (table small_heap))) (blocks_of 5000) 1"
    and g: "\<forall>t < 1. \<not> fits (entries (table small_heap)) (unat (total (table small_heap))) (blocks_of 5000) t"
    and ok: "ok_size 5000" and n: "blocks_of 5000 = 2"
    by code_simp+
  have "alloc_entries 2 = [0xC1, 0x01]" by code_simp
  then show ?thesis
    using heap_malloc_first_fit [OF small_heap_inv ok f g] n by (simp add: small_heap_def)
qed

theorem heap_malloc_overrun_witness: "heap_malloc small_heap 9000 = None"
proof -
  have "\<not> fits (entries (table small_heap)) (unat (total (table small_heap))) (blocks_of 9000) t" for t
  proof (cases "t < 4")
    case True
    have "list_all (\<lambda>t. \<not> fits (entries (table small_heap)) (unat (total (table small_heap)))
        (blocks_of 9000) t) [0..<4]"
      by code_simp
    then show ?thesis using True by (simp add: list_all_iff)
  next
    case False
    have "unat (total (table small_heap)) = 6" "blocks_of 9000 = 3" by code_simp+
    then show ?thesis using False by (simp add: fits_def)
  qed
  then show ?thesis
    by (intro heap_malloc_overrun [OF small_heap_inv]) (auto simp: small_heap_def ok_size_def)
qed

text \<open>
  Releasing what \<open>heap_malloc\<close> has just returned restores the heap, table included.
\<close>

theorem heap_malloc_free_roundtrip:
  assumes "heap_inv h" "ok_size sz" "heap_malloc h sz = Some (p, h')" "p \<noteq> 0"
  shows "heap_free h' p = Some h"
  using assms by (rule heap_alloc.release_alloc)

theorem heap_malloc_free_roundtrip_witness:
  "heap_malloc small_heap 5000 = Some (0x01001000, small_heap\<lparr>table :=
      \<lparr>entries = [0x41, 0xC1, 0x01, 0xC1, 0x01, 0], total = 6\<rparr>\<rparr>) \<and>
   heap_free (small_heap\<lparr>table := \<lparr>entries = [0x41, 0xC1, 0x01, 0xC1, 0x01, 0], total = 6\<rparr>\<rparr>)
     0x01001000 = Some small_heap"
proof -
  have m: "heap_malloc small_heap 5000 = Some (0x01001000, small_heap\<lparr>table :=
      \<lparr>entries = [0x41, 0xC1, 0x01, 0xC1, 0x01, 0], total = 6\<rparr>\<rparr>)"
    and ok: "ok_size 5000"
    by code_simp+
  show ?thesis using m heap_malloc_free_roundtrip [OF small_heap_inv ok m] by simp
qed

text \<open>
  Releasing a live allocation succeeds and removes that allocation and no other.
\<close>

theorem heap_free_releases:
  assumes "heap_inv h" "heap_live h p = Some n"
  shows "\<exists>h'. heap_free h p = Some h' \<and> heap_inv h' \<and> heap_live h' = (heap_live h)(p := None)"
  using assms by (rule heap_alloc.release_live)

theorem heap_free_releases_witness:
  "\<exists>h'. heap_free small_heap 0x01003000 = Some h' \<and> heap_inv h' \<and>
     heap_live h' = (heap_live small_heap)(0x01003000 := None)"
proof -
  have "heap_live small_heap 0x01003000 = Some 2" by code_simp
  from heap_free_releases [OF small_heap_inv this] show ?thesis .
qed

text \<open>Two allocations on the fresh kernel heap.\<close>

theorem heap_live_regions_disjoint_witness:
  "\<exists>h p q. heap_reachable h \<and> heap_live h p = Some 1 \<and> heap_live h q = Some 2 \<and> p \<noteq> q \<and>
     (unat p + 1 * 4096 \<le> unat q \<or> unat q + 2 * 4096 \<le> unat p) \<and>
     0x01000000 \<le> unat p \<and> unat p + 1 * 4096 \<le> 0x01000000 + 104857600"
proof -
  let ?t0 = "replicate 25600 (0 :: byte)"
  let ?h0 = "\<lparr>table = \<lparr>entries = ?t0, total = 25600\<rparr>, saddr = BENOS_HEAD_ADDRESS\<rparr>"
  let ?z = "\<lparr>kernel_heap = ?h0, ram = (\<lambda>_. 0)\<rparr>"
  have i0: "kheap_init ?z ?t0 = Some (0, ?z\<lparr>kernel_heap := ?h0\<rparr>)"
    by (rule kheap_init_result) simp
  have "heap_reachable (kernel_heap (?z\<lparr>kernel_heap := ?h0\<rparr>))"
    by (rule heap_reachable.init [OF i0]) simp
  then have r0: "heap_reachable ?h0" by simp
  have ok: "ok_size 100" "ok_size 5000" and n: "blocks_of 100 = 1" "blocks_of 5000 = 2"
    by code_simp+
  have "fits (entries (table ?h0)) (unat (total (table ?h0))) (blocks_of 100) 0"
    by (auto simp: fits_def n free_at_def heap_get_entry_type_def entry_flags)
  from heap_malloc_at [OF heap_reachable_inv [OF r0] ok(1) this]
  have "heap_malloc ?h0 100 = Some (BENOS_HEAD_ADDRESS,
      ?h0\<lparr>table := (table ?h0)\<lparr>entries := alloc_entries 1 @ replicate 25599 0\<rparr>\<rparr>)"
    by (simp add: n)
  then obtain p h1 where m1: "heap_malloc ?h0 100 = Some (p, h1)" "p \<noteq> 0"
      and h1: "entries (table h1) = 0x41 # replicate 25599 0"
    by (simp add: status_simps)
  have r1: "heap_reachable h1" by (rule heap_reachable.malloc [OF r0 ok(1) m1(1)])
  have "fits (entries (table h1)) (unat (total (table h1))) (blocks_of 5000) 1"
    using heap_reachable_pool [OF r1] h1
    by (auto simp: fits_def n free_at_def heap_get_entry_type_def entry_flags nth_Cons')
  then obtain q h2 where m2: "heap_malloc h1 5000 = Some (q, h2)" "q \<noteq> 0"
    using heap_malloc_succeeds [OF heap_reachable_inv [OF r1] ok(2)] by blast
  have r2: "heap_reachable h2" by (rule heap_reachable.malloc [OF r1 ok(2) m2(1)])
  have l1: "heap_live h1 p = Some 1"
    using heap_alloc.alloc_live [OF heap_reachable_inv [OF r0] ok(1) m1] n by simp
  have l2: "heap_live h1 q = None" "heap_live h2 = (heap_live h1)(q \<mapsto> 2)"
    using heap_alloc.alloc_after [OF heap_reachable_inv [OF r1] ok(2) m2] n by simp_all
  then have "p \<noteq> q" "heap_live h2 p = Some 1" "heap_live h2 q = Some 2"
    using l1 by auto
  then show ?thesis
    using r2 heap_live_regions_disjoint [OF r2, of p 1 q 2] by blast
qed

text \<open>
  \<open>kheap_init\<close> succeeds on the kernel's configuration: the start and end addresses are
  aligned, the table size matches, every entry is cleared, and no allocation is live.
\<close>

theorem kheap_init_ok:
  assumes "length tbl = 25600"
  shows "\<exists>s'. kheap_init s tbl = Some (0, s') \<and> k_inv s' \<and> k_live s' = Map.empty \<and>
    saddr (kernel_heap s') = 0x01000000 \<and> total (table (kernel_heap s')) = 25600 \<and> ram s' = ram s"
  using kheap_init_result [OF assms, of s] fresh_heap_shape heap_live_free [OF fresh_heap_shape]
  by (auto simp: k_inv_def k_live_def heap_inv_def status_simps)

theorem kheap_init_ok_witness:
  "\<exists>s'. kheap_init \<lparr>kernel_heap = small_heap, ram = (\<lambda>_. 0)\<rparr> (replicate 25600 0xFF) = Some (0, s') \<and>
    k_inv s' \<and> k_live s' = Map.empty \<and> saddr (kernel_heap s') = 0x01000000 \<and>
    total (table (kernel_heap s')) = 25600 \<and> ram s' = (\<lambda>_. 0)"
  using kheap_init_ok [of "replicate 25600 0xFF" "\<lparr>kernel_heap = small_heap, ram = (\<lambda>_. 0)\<rparr>"]
  by simp


end
