(* ===== verification/Blocks.thy ===== *)
theory Blocks
  imports Allocator
begin

text \<open>
  Allocations of any size on the kernel heap: the bytes of live blocks, which blocks are taken, what a sequence of
  allocations adds, and when the next request is sure to succeed.
\<close>

subsection \<open>Memory of live blocks\<close>

lemma unat_in_region:
  fixes a q :: addr
  assumes "unat q + k \<le> 4294967296" "unat (a - q) < k"
  shows "unat a = unat q + unat (a - q)"
proof -
  have "unat q + unat (a - q) < 4294967296" using assms by linarith
  then have "unat (q + (a - q)) = unat q + unat (a - q)" by (rule unat_add_u32)
  then show ?thesis by simp
qed

lemma live_regions_apart:
  assumes "k_inv s" "k_live s p = Some n" "k_live s q = Some m" "p \<noteq> q"
    and "unat (a - p) < n * 4096"
  shows "\<not> unat (a - q) < m * 4096"
proof
  assume q: "unat (a - q) < m * 4096"
  have b: "unat p + n * 4096 \<le> 4294967296" "unat q + m * 4096 \<le> 4294967296"
    using kz.live_aligned [OF assms(1,2)] kz.live_aligned [OF assms(1,3)] by simp_all
  have "unat p < unat q \<or> unat q < unat p" using assms(4) by (metis linorder_neqE_nat word_unat_eq_iff)
  then have "unat p + n * 4096 \<le> unat q \<or> unat q + m * 4096 \<le> unat p"
    using kz.live_disjoint assms(1-3) by blast
  then show False
    using unat_in_region [OF b(1) assms(5)] unat_in_region [OF b(2) q] assms(5) q by linarith
qed

text \<open>\<open>keeps s s'\<close>: the bytes of the blocks that are live in \<open>s\<close> are the same in \<open>s'\<close>.\<close>

definition keeps :: "'z kmem_scheme \<Rightarrow> 'z kmem_scheme \<Rightarrow> bool" where
  "keeps s s' \<longleftrightarrow> (\<forall>a p n. k_live s p = Some n \<and> unat (a - p) < n * 4096 \<longrightarrow> ram s' a = ram s a)"

lemma keepsD: "keeps s s' \<Longrightarrow> k_live s p = Some n \<Longrightarrow> unat (a - p) < n * 4096 \<Longrightarrow> ram s' a = ram s a"
  by (auto simp: keeps_def)

lemma keeps_ram: "ram s' = ram s \<Longrightarrow> keeps s s'"
  by (simp add: keeps_def)

lemma keeps_trans: "keeps s s1 \<Longrightarrow> keeps s1 s2 \<Longrightarrow> k_live s \<subseteq>\<^sub>m k_live s1 \<Longrightarrow> keeps s s2"
  by (auto simp: keeps_def map_le_def dom_def) metis

lemma blocks_of_covers: "unat sz \<le> blocks_of sz * 4096"
  unfolding blocks_of_def using mod_less_divisor [of 4096 "unat sz + 4095"]
    div_mult_mod_eq [of "unat sz + 4095" 4096] by linarith

lemma kzalloc_keeps:
  assumes "k_inv s" "ok_size sz" "kzalloc s sz = Some (p, s')"
  shows "keeps s s'"
proof (cases "p = 0")
  case True
  then show ?thesis using kz.alloc_null [OF assms(1,2)] assms(3) by (simp add: keeps_def)
next
  case False
  note a = kz.alloc_after [OF assms False]
  show ?thesis
    unfolding keeps_def
  proof (intro allI impI)
    fix x q n assume q: "k_live s q = Some n \<and> unat (x - q) < n * 4096"
    then have "q \<noteq> p" "k_live s' q = Some n" using a by auto
    then have "\<not> unat (x - p) < blocks_of sz * 4096"
      using live_regions_apart [of s' q n p "blocks_of sz" x] a q by simp
    then show "ram s' x = ram s x"
      using kzalloc_ram [OF assms(3) False, of x] blocks_of_covers [of sz] by auto
  qed
qed

text \<open>One-block allocations that leave the pool and the live blocks as they are.\<close>

definition kgrown :: "'z kmem_scheme \<Rightarrow> addr list \<Rightarrow> 'z kmem_scheme \<Rightarrow> bool" where
  "kgrown s ps s' \<longleftrightarrow> grown k_live k_inv s ps s' \<and> keeps s s' \<and> pool s' = pool s"

lemma kgrownD:
  assumes "kgrown s ps s'"
  shows "k_inv s'" "distinct ps" "p \<in> set ps \<Longrightarrow> k_live s p = None"
    "k_live s' p = (if p \<in> set ps then Some 1 else k_live s p)"
    "keeps s s'" "pool s' = pool s" "grown k_live k_inv s ps s'"
  using assms grownD [of k_live k_inv s ps s'] by (simp_all add: kgrown_def)

lemma kgrown_le: "kgrown s ps s' \<Longrightarrow> k_live s \<subseteq>\<^sub>m k_live s'"
  using kgrownD(3,4) by (fastforce simp: map_le_def)

lemma kgrown_trans:
  assumes "kgrown s ps s1" "kgrown s1 qs s2"
  shows "kgrown s (ps @ qs) s2"
  using assms grown_trans [of k_live k_inv s ps s1 qs s2] keeps_trans [OF _ _ kgrown_le [OF assms(1)], of s2]
  by (simp add: kgrown_def)

lemma kgrown_alloc:
  assumes "k_inv s" "ok_size sz" "blocks_of sz = 1" "kzalloc s sz = Some (p, s')" "p \<noteq> 0"
  shows "kgrown s [p] s'"
  using kz.grown_alloc [OF assms] kzalloc_keeps [OF assms(1,2,4)] kframe_pool [OF kzalloc_more [OF assms(4)]]
  by (simp add: kgrown_def)

lemma kgrown_nil:
  "k_inv s \<Longrightarrow> kernel_heap s' = kernel_heap s \<Longrightarrow> keeps s s' \<Longrightarrow> kgrown s [] s'"
  by (simp add: kgrown_def grown_def k_inv_def k_live_def pool_def)

lemma kgrown_perm: "kgrown s ps s' \<Longrightarrow> distinct qs \<Longrightarrow> set qs = set ps \<Longrightarrow> kgrown s qs s'"
  by (simp add: kgrown_def grown_def)

subsection \<open>Which blocks are taken\<close>

definition block_index :: "'z kmem_scheme \<Rightarrow> addr \<Rightarrow> nat" where
  "block_index s p = unat (p - saddr (kernel_heap s)) div 4096"

definition block_free :: "'z kmem_scheme \<Rightarrow> nat \<Rightarrow> bool" where
  "block_free s i \<longleftrightarrow> free_at (entries (table (kernel_heap s))) i"

definition block_count :: "'z kmem_scheme \<Rightarrow> nat" where
  "block_count s = unat (total (table (kernel_heap s)))"

lemma render_taken:
  assumes "list_all seg_ok ss" "i < length (render ss)"
  shows "render ss ! i \<noteq> 0 \<longleftrightarrow> (\<exists>j m. seg_map off ss j = Some m \<and> j \<le> off + i \<and> off + i < j + m)"
  using assms
proof (induction off ss arbitrary: i rule: seg_map.induct)
  case (2 off ss)
  show ?case
  proof (cases i)
    case 0
    then show ?thesis using seg_map_below [of ss _ "Suc off"] 2(2) by fastforce
  next
    case (Suc k)
    then show ?thesis using 2 by simp
  qed
next
  case (3 off n ss)
  show ?case
  proof (cases "i < n")
    case True
    then have "alloc_entries n ! i \<noteq> 0" using zero_notin_alloc [of n] by (metis length_alloc_entries nth_mem)
    then show ?thesis using True by (auto simp: nth_append intro!: exI [of _ off])
  next
    case False
    have none: "seg_map (off + n) ss off = None" using 3(2) by (intro seg_map_below) auto
    have "(\<exists>j m. ((seg_map (off + n) ss)(off \<mapsto> n)) j = Some m \<and> j \<le> off + i \<and> off + i < j + m) \<longleftrightarrow>
        (\<exists>j m. seg_map (off + n) ss j = Some m \<and> j \<le> off + i \<and> off + i < j + m)"
    proof
      assume "\<exists>j m. seg_map (off + n) ss j = Some m \<and> j \<le> off + i \<and> off + i < j + m"
      then obtain j m where j: "seg_map (off + n) ss j = Some m" "j \<le> off + i" "off + i < j + m" by blast
      moreover have "j \<noteq> off" using j(1) none by auto
      ultimately show "\<exists>j m. ((seg_map (off + n) ss)(off \<mapsto> n)) j = Some m \<and> j \<le> off + i \<and> off + i < j + m"
        by (intro exI [of _ j] exI [of _ m]) simp
    qed (use False in \<open>auto split: if_splits\<close>)
    then show ?thesis using 3 False by (simp add: nth_append)
  qed
qed simp

lemma block_free_iff:
  assumes "k_inv s" "i < block_count s"
  shows "block_free s i \<longleftrightarrow>
    \<not> (\<exists>p m. k_live s p = Some m \<and> block_index s p \<le> i \<and> i < block_index s p + m)"
proof -
  obtain ss where h: "heap_shape (kernel_heap s) ss" using assms(1) by (auto simp: k_inv_def heap_inv_def)
  have e: "entries (table (kernel_heap s)) = render ss" "length (render ss) = block_count s" "list_all seg_ok ss"
    using h by (auto simp: heap_shape_def block_count_def)
  have idx: "block_index s (heap_block_to_address (kernel_heap s) (int j)) = j"
    "k_live s (heap_block_to_address (kernel_heap s) (int j)) = seg_map 0 ss j" if "j < block_count s" for j
    using block_offset(1) [OF h] live_block [OF h] that e(2) by (simp_all add: block_index_def k_live_def)
  have "(\<exists>p m. k_live s p = Some m \<and> block_index s p \<le> i \<and> i < block_index s p + m) \<longleftrightarrow>
      (\<exists>j m. seg_map 0 ss j = Some m \<and> j \<le> i \<and> i < j + m)"
  proof
    assume "\<exists>p m. k_live s p = Some m \<and> block_index s p \<le> i \<and> i < block_index s p + m"
    then obtain p m where p: "k_live s p = Some m" "block_index s p \<le> i" "i < block_index s p + m" by blast
    obtain j where "j < length (render ss)" "p = heap_block_to_address (kernel_heap s) (int j)" "seg_map 0 ss j = Some m"
      using live_SomeD [OF h] p(1) by (auto simp: k_live_def)
    then show "\<exists>j m. seg_map 0 ss j = Some m \<and> j \<le> i \<and> i < j + m" using p idx e(2) by auto
  next
    assume "\<exists>j m. seg_map 0 ss j = Some m \<and> j \<le> i \<and> i < j + m"
    then obtain j m where "seg_map 0 ss j = Some m" "j \<le> i" "i < j + m" by blast
    then show "\<exists>p m. k_live s p = Some m \<and> block_index s p \<le> i \<and> i < block_index s p + m"
      using idx [of j] assms(2) by (intro exI [of _ "heap_block_to_address (kernel_heap s) (int j)"] exI [of _ m]) simp
  qed
  then show ?thesis
    using render_taken [OF e(3), of i 0] free_at_render [of i ss] assms(2) e by (auto simp: block_free_def)
qed

subsection \<open>Allocations of any size\<close>

text \<open>\<open>acquired s ps s'\<close>: from \<open>s\<close> to \<open>s'\<close> the allocations \<open>ps\<close>, addresses with their sizes in blocks, were added.\<close>

definition acquired :: "'z kmem_scheme \<Rightarrow> (addr \<times> nat) list \<Rightarrow> 'z kmem_scheme \<Rightarrow> bool" where
  "acquired s ps s' \<longleftrightarrow> k_inv s' \<and> pool s' = pool s \<and> distinct (map fst ps) \<and>
     fst ` set ps \<inter> dom (k_live s) = {} \<and> k_live s' = k_live s ++ map_of ps"

definition blocks :: "(addr \<times> nat) list \<Rightarrow> nat" where
  "blocks ps = sum_list (map snd ps)"

definition singles :: "addr list \<Rightarrow> (addr \<times> nat) list" where
  "singles ps = map (\<lambda>p. (p, 1)) ps"

lemma blocks_simps [simp]: "blocks [] = 0" "blocks (p # ps) = snd p + blocks ps"
  "blocks (ps @ qs) = blocks ps + blocks qs" "blocks (singles as) = length as"
  by (simp_all add: blocks_def singles_def o_def sum_list_triv)

lemma fst_singles [simp]: "map fst (singles ps) = ps" "fst ` set (singles ps) = set ps"
  by (simp_all add: singles_def o_def image_image)

lemma map_of_singles: "map_of (singles ps) p = (if p \<in> set ps then Some 1 else None)"
  by (induction ps) (auto simp: singles_def)

lemma acquiredD:
  assumes "acquired s ps s'"
  shows "k_inv s'" "pool s' = pool s" "distinct (map fst ps)" "k_live s' = k_live s ++ map_of ps"
    "(p, n) \<in> set ps \<Longrightarrow> k_live s p = None" "(p, n) \<in> set ps \<Longrightarrow> k_live s' p = Some n"
  using assms by (force simp: acquired_def)+

lemma acquired_refl: "k_inv s \<Longrightarrow> acquired s [] s"
  by (simp add: acquired_def)

lemma acquired_trans:
  assumes "acquired s ps s1" "acquired s1 qs s2"
  shows "acquired s (ps @ qs) s2"
proof -
  have "k_live s p = None \<and> p \<notin> fst ` set ps" if "p \<in> fst ` set qs" for p
  proof -
    have "k_live s1 p = None" using assms(2) that by (auto simp: acquired_def)
    then show ?thesis using acquiredD(4) [OF assms(1)] by (auto simp: map_of_eq_None_iff)
  qed
  moreover have "map_of (ps @ qs) = map_of ps ++ map_of qs"
    if "\<forall>p \<in> fst ` set qs. p \<notin> fst ` set ps"
  proof
    fix x
    show "map_of (ps @ qs) x = (map_of ps ++ map_of qs) x"
    proof (cases "x \<in> fst ` set ps")
      case True
      then have "x \<notin> fst ` set qs" using that by blast
      then have "map_of qs x = None" by (simp add: map_of_eq_None_iff)
      then show ?thesis by (simp add: map_add_def split: option.split)
    next
      case False
      then have "map_of ps x = None" by (simp add: map_of_eq_None_iff)
      then show ?thesis by (simp add: map_add_def split: option.split)
    qed
  qed
  ultimately show ?thesis using assms by (auto simp: acquired_def)
qed

lemma acquired_alloc:
  assumes "k_inv s" "ok_size sz" "kzalloc s sz = Some (p, s')" "p \<noteq> 0"
  shows "acquired s [(p, blocks_of sz)] s'"
  using kz.alloc_after [OF assms] kframe_pool [OF kzalloc_more [OF assms(3)]]
  by (auto simp: acquired_def map_add_def fun_eq_iff)

lemma acquired_grown:
  assumes "grown k_live k_inv s ps s'" "pool s' = pool s"
  shows "acquired s (singles ps) s'"
  using assms by (auto simp: acquired_def grown_def map_add_def map_of_singles fun_eq_iff)

lemma acquired_cong:
  assumes "kernel_heap t = kernel_heap s'"
  shows "acquired s ps t = acquired s ps s'"
  using assms by (simp add: acquired_def k_inv_def k_live_def pool_def)

lemma acquired_cong_left:
  assumes "kernel_heap t = kernel_heap s"
  shows "acquired t ps s' = acquired s ps s'"
  using assms by (simp add: acquired_def k_inv_def k_live_def pool_def)

lemma acquired_perm: "acquired s ps s' \<Longrightarrow> distinct (map fst qs) \<Longrightarrow> set qs = set ps \<Longrightarrow> acquired s qs s'"
proof -
  assume a: "acquired s ps s'" "distinct (map fst qs)" "set qs = set ps"
  have "map_of qs = map_of ps" using map_of_inject_set [OF a(2), of ps] a by (simp add: acquired_def)
  then show ?thesis using a by (simp add: acquired_def)
qed

text \<open>Releasing one of them.\<close>

lemma acquired_release:
  assumes "acquired s (ps @ (p, n) # qs) s'"
  shows "\<exists>s''. kfree s' p = Some s'' \<and> acquired s (ps @ qs) s''"
proof -
  have "k_live s' p = Some n" by (rule acquiredD(6) [OF assms]) simp
  then obtain s'' where s'': "kfree s' p = Some s''" "k_inv s''" "k_live s'' = (k_live s')(p := None)"
    using kz.release_live [OF acquiredD(1) [OF assms]] by blast
  have d: "p \<notin> fst ` set ps" "p \<notin> fst ` set qs" using acquiredD(3) [OF assms] by auto
  have "k_live s'' = k_live s ++ map_of (ps @ qs)"
  proof
    fix x
    show "k_live s'' x = (k_live s ++ map_of (ps @ qs)) x"
    proof (cases "x = p")
      case True
      moreover have "k_live s p = None" by (rule acquiredD(5) [OF assms, of p n]) simp
      moreover have "map_of (ps @ qs) p = None" using d by (simp add: map_of_eq_None_iff image_Un)
      ultimately show ?thesis using s''(3) by (simp add: map_add_def)
    next
      case False
      then have "map_of (ps @ (p, n) # qs) x = map_of (ps @ qs) x"
        by (simp add: map_add_def split: option.split)
      then show ?thesis using False s''(3) acquiredD(4) [OF assms] by (simp add: map_add_def)
    qed
  qed
  then show ?thesis
    using s'' assms kframe_pool [OF conjunct1 [OF kfree_more [OF s''(1)]]] by (auto simp: acquired_def)
qed

subsection \<open>Runs of free blocks\<close>

text \<open>
  A request of \<open>n\<close> blocks succeeds when some run of \<open>n\<close> blocks that starts at a multiple of \<open>n\<close> is
  free. An allocation of \<open>m\<close> blocks, wherever it is, spoils at most \<open>m\<close> of these runs.
\<close>

definition free_runs :: "nat \<Rightarrow> 'z kmem_scheme \<Rightarrow> nat set" where
  "free_runs n s = {j. Suc j * n \<le> block_count s \<and> (\<forall>i. j * n \<le> i \<and> i < Suc j * n \<longrightarrow> block_free s i)}"

definition run_count :: "nat \<Rightarrow> 'z kmem_scheme \<Rightarrow> nat" where
  "run_count n s = card (free_runs n s)"

lemma finite_free_runs:
  assumes "0 < n"
  shows "finite (free_runs n s)"
proof (rule finite_subset)
  show "free_runs n s \<subseteq> {..block_count s}"
  proof
    fix j assume "j \<in> free_runs n s"
    then have "Suc j * n \<le> block_count s" by (simp add: free_runs_def)
    moreover have "Suc j * 1 \<le> Suc j * n" using assms by (intro mult_le_mono2) simp
    ultimately show "j \<in> {..block_count s}" by simp
  qed
qed simp

lemma run_count_cong: "kernel_heap s' = kernel_heap s \<Longrightarrow> run_count n s' = run_count n s"
  by (simp add: run_count_def free_runs_def block_count_def block_free_def)

lemma block_index_cong: "pool s' = pool s \<Longrightarrow> block_index s' p = block_index s p"
  and block_count_cong: "pool s' = pool s \<Longrightarrow> block_count s' = block_count s"
  by (simp_all add: pool_def block_index_def block_count_def)

lemma card_UN_blocks: "card (\<Union>(p, m) \<in> set ps. f ` {g p..<g p + m}) \<le> blocks ps"
proof (induction ps)
  case (Cons a ps)
  obtain p m where a: "a = (p, m)" by force
  have "card (f ` {g p..<g p + m}) \<le> m" using card_image_le [of "{g p..<g p + m}" f] by simp
  then show ?case
    using card_Un_le [of "f ` {g p..<g p + m}" "\<Union>(p, m) \<in> set ps. f ` {g p..<g p + m}"] Cons a by simp
qed simp

lemma run_count_acquired:
  assumes "k_inv s" "acquired s ps s'" "0 < n"
  shows "run_count n s \<le> run_count n s' + blocks ps"
proof -
  let ?lost = "\<Union>(p, m) \<in> set ps. (\<lambda>i. i div n) ` {block_index s p..<block_index s p + m}"
  note pl = acquiredD(2) [OF assms(2)]
  have "free_runs n s \<subseteq> free_runs n s' \<union> ?lost"
  proof
    fix j assume j: "j \<in> free_runs n s"
    show "j \<in> free_runs n s' \<union> ?lost"
    proof (cases "j \<in> free_runs n s'")
      case False
      then obtain i where i: "j * n \<le> i" "i < Suc j * n" "\<not> block_free s' i" "i < block_count s"
        using j block_count_cong [OF pl] by (auto simp: free_runs_def)
      then obtain p m where p: "k_live s' p = Some m" "block_index s p \<le> i" "i < block_index s p + m"
        using block_free_iff [OF acquiredD(1) [OF assms(2)], of i] block_count_cong [OF pl] block_index_cong [OF pl]
        by auto
      have "block_free s i" using j i by (simp add: free_runs_def)
      then have "k_live s p \<noteq> Some m" using block_free_iff [OF assms(1) i(4)] p by blast
      then have "(p, m) \<in> set ps"
        using p(1) acquiredD(4) [OF assms(2)] by (auto dest: map_of_SomeD)
      moreover have "j = i div n"
        using i assms(3) by (auto intro!: div_nat_eqI [symmetric] simp: algebra_simps)
      ultimately show ?thesis using p by force
    qed simp
  qed
  then have "card (free_runs n s) \<le> card (free_runs n s' \<union> ?lost)"
    by (intro card_mono) (auto simp: finite_free_runs [OF assms(3)])
  also have "\<dots> \<le> run_count n s' + blocks ps"
    using card_Un_le [of "free_runs n s'" ?lost] card_UN_blocks [of "\<lambda>i. i div n" "block_index s" ps]
    by (simp add: run_count_def)
  finally show ?thesis by (simp add: run_count_def)
qed

lemma kzalloc_run:
  assumes "k_inv s" "ok_size sz" "0 < run_count (blocks_of sz) s"
  obtains p s' where "kzalloc s sz = Some (p, s')" "p \<noteq> 0" "acquired s [(p, blocks_of sz)] s'"
proof -
  obtain j where j: "j \<in> free_runs (blocks_of sz) s"
    using assms(3) by (auto simp: run_count_def card_gt_0_iff)
  have "fits (entries (table (kernel_heap s))) (unat (total (table (kernel_heap s)))) (blocks_of sz) (j * blocks_of sz)"
    using j by (auto simp: fits_def free_runs_def block_count_def block_free_def)
  then obtain p h' where m: "heap_malloc (kernel_heap s) sz = Some (p, h')" "p \<noteq> 0"
    using heap_malloc_succeeds [of "kernel_heap s" sz] assms(1,2) unfolding k_inv_def by blast
  then have z: "kzalloc s sz = Some (p, s\<lparr>kernel_heap := h', ram := ram_fill (ram s) p (unat sz) 0\<rparr>)"
    by (simp add: kzalloc_def kmalloc_def)
  show ?thesis by (rule that [OF z m(2) acquired_alloc [OF assms(1,2) z m(2)]])
qed

lemma run_count_1:
  assumes "k_inv s"
  shows "run_count 1 s = free_blocks s"
proof -
  obtain ss where h: "heap_shape (kernel_heap s) ss" using assms by (auto simp: k_inv_def heap_inv_def)
  have e: "entries (table (kernel_heap s)) = render ss" "length (render ss) = block_count s"
    using h by (auto simp: heap_shape_def block_count_def)
  have "j \<in> free_runs 1 s \<longleftrightarrow> j < length (render ss) \<and> render ss ! j = 0" for j
  proof -
    have "(\<forall>i. j * 1 \<le> i \<and> i < Suc j * 1 \<longrightarrow> block_free s i) \<longleftrightarrow> block_free s j"
      using le_antisym less_Suc_eq_le by (metis lessI mult.right_neutral order_refl)
    then show ?thesis
      using free_at_render [of j ss] e by (auto simp: free_runs_def block_free_def)
  qed
  then have "free_runs 1 s = {i. i < length (render ss) \<and> render ss ! i = 0}" by blast
  then show ?thesis
    unfolding run_count_def free_blocks_def e(1) count_list_eq_length_filter length_filter_conv_card
    by (simp only: eq_commute [of 0])
qed

lemma free_blocks_acquired:
  assumes "k_inv s" "acquired s ps s'"
  shows "free_blocks s \<le> free_blocks s' + blocks ps"
  using run_count_acquired [OF assms, of 1] run_count_1 [OF assms(1)] run_count_1 [OF acquiredD(1) [OF assms(2)]]
  by simp

lemma fresh_runs:
  assumes "kernel_heap s = kernel_heap fresh_kmem" "0 < n"
  shows "run_count n s = 25600 div n"
proof -
  have "free_runs n s = {..<25600 div n}"
  proof -
    have "Suc j * n \<le> 25600 \<longleftrightarrow> j < 25600 div n" for j
      using assms(2) less_eq_div_iff_mult_less_eq [of n "Suc j" 25600] by (simp add: Suc_le_eq mult.commute)
    moreover have "i < Suc j * n \<Longrightarrow> Suc j * n \<le> 25600 \<Longrightarrow> i < 25600" for i j by linarith
    ultimately show ?thesis
      using assms(1) by (auto simp: free_runs_def block_count_def block_free_def fresh_kmem_def free_at_def
          heap_get_entry_type_def HEAP_BLOCK_TABLE_ENTRY_FREE_def simp del: mult_Suc)
  qed
  then show ?thesis by (simp add: run_count_def)
qed

end
