(* ===== verification/PathParser.thy ===== *)
theory PathParser
  imports CString Blocks
begin

text \<open>
  The path parser (\<^verbatim>\<open>src/fs/pparser.c\<close>, \<^verbatim>\<open>pparser.h\<close>). A path \<open>0:/dir/file\<close> becomes a
  root with the drive number and a linked list of parts. A node carries its own address, the
  address of its text and the 108-byte buffer there; the order of the list is the order of the
  \<open>next\<close> links. A \<open>const char**\<close> cursor is passed and returned as the rest of the string.
\<close>

record path_part =
  self :: addr
  part :: addr
  part_str :: "byte list"

record path_root =
  root_addr :: addr
  drive_no :: int
  first :: "path_part list"

definition pathparser_path_valid_format :: "byte list \<Rightarrow> bool option" where
  "pathparser_path_valid_format fname =
     do {
       len \<leftarrow> strnlen fname (int BENOS_MAX_PATH);
       if len < 3 then Some False
       else do {
         c \<leftarrow> rd fname 0;
         if \<not> isdigit c then Some False
         else do {
           r \<leftarrow> memcmp (drop 1 fname) [0x3A, 0x2F, 0] 2;
           Some (r = 0) } } }"

definition pathparser_get_drive_by_path :: "byte list \<Rightarrow> (int \<times> byte list) option" where
  "pathparser_get_drive_by_path path =
     do {
       valid \<leftarrow> pathparser_path_valid_format path;
       if \<not> valid then Some (- EBADPATH, path)
       else do {
         c \<leftarrow> rd path 0;
         Some (tonum c, drop 3 path) } }"

definition pathparser_create_root :: "'z kmem_scheme \<Rightarrow> int \<Rightarrow> (path_root \<times> 'z kmem_scheme) option" where
  "pathparser_create_root s drive_number =
     do {
       (p, s1) \<leftarrow> kzalloc s 8;
       if p = 0 then None
       else Some (\<lparr>root_addr = p, drive_no = drive_number, first = []\<rparr>, s1) }"

text \<open>The copying loop of \<open>pathparser_get_path_part\<close>; a NULL buffer is an object of no bytes.\<close>

fun path_part_loop :: "byte list \<Rightarrow> int \<Rightarrow> byte list \<Rightarrow> (byte list \<times> int \<times> byte list) option" where
  "path_part_loop [] i buf = None"
| "path_part_loop (c # path) i buf =
     (if c \<noteq> 0x2F \<and> c \<noteq> 0 then do { buf' \<leftarrow> wr buf i c; path_part_loop path (i + 1) buf' }
      else Some (c # path, i, buf))"

definition pathparser_get_path_part ::
  "'z kmem_scheme \<Rightarrow> byte list \<Rightarrow> (addr \<times> byte list \<times> byte list \<times> 'z kmem_scheme) option" where
  "pathparser_get_path_part s path =
     do {
       (p, s1) \<leftarrow> kzalloc s (of_nat BENOS_MAX_PATH);
       (path1, i, buf) \<leftarrow> path_part_loop path 0 (if p = 0 then [] else replicate BENOS_MAX_PATH 0);
       let path2 = (if hd path1 = 0x2F then tl path1 else path1);
       if i = 0 then do { s2 \<leftarrow> kfree s1 p; Some (0, [], path2, s2) }
       else Some (p, buf, path2, s1) }"

text \<open>
  \<open>parts\<close> is the list built so far, whose last node is \<open>last_part\<close>. The result says whether a
  part was found.
\<close>

definition pathparser_parse_path_part ::
  "'z kmem_scheme \<Rightarrow> path_part list \<Rightarrow> byte list \<Rightarrow>
   (bool \<times> path_part list \<times> byte list \<times> 'z kmem_scheme) option" where
  "pathparser_parse_path_part s parts path =
     do {
       (str, buf, path1, s1) \<leftarrow> pathparser_get_path_part s path;
       if str = 0 then Some (False, parts, path1, s1)
       else do {
         (p, s2) \<leftarrow> kzalloc s1 8;
         if p = 0 then None
         else Some (True, parts @ [\<lparr>self = p, part = str, part_str = buf\<rparr>], path1, s2) } }"

lemma path_part_loop_shorter:
  "path_part_loop path i buf = Some (path1, i', buf') \<Longrightarrow>
   path1 \<noteq> [] \<and> length path1 \<le> length path \<and> (i' \<noteq> i \<longrightarrow> length path1 < length path)"
  by (induction path i buf rule: path_part_loop.induct) (fastforce split: if_splits bind_splits)+

lemma parse_path_part_shorter:
  "pathparser_parse_path_part s parts path = Some (True, parts', path', s') \<Longrightarrow> length path' < length path"
  by (auto simp: pathparser_parse_path_part_def pathparser_get_path_part_def Let_def less_imp_diff_less
      split: bind_splits if_splits dest!: path_part_loop_shorter)

text \<open>The loop \<open>while (part)\<close> of \<open>pathparser_parse\<close>.\<close>

function path_parts_loop ::
  "'z kmem_scheme \<Rightarrow> path_part list \<Rightarrow> byte list \<Rightarrow> (path_part list \<times> 'z kmem_scheme) option" where
  "path_parts_loop s parts path =
     (case pathparser_parse_path_part s parts path of
        None \<Rightarrow> None
      | Some (found, parts', path', s') \<Rightarrow>
          if found then path_parts_loop s' parts' path' else Some (parts', s'))"
  by pat_completeness auto
termination
  by (relation "measure (\<lambda>(s, parts, path). length path)") (auto dest: parse_path_part_shorter)

declare path_parts_loop.simps [simp del]

definition pathparser_parse ::
  "'z kmem_scheme \<Rightarrow> byte list \<Rightarrow> (path_root option \<times> 'z kmem_scheme) option" where
  "pathparser_parse s path =
     do {
       len \<leftarrow> strlen path;
       if len > int BENOS_MAX_PATH then Some (None, s)
       else do {
         (res, tmp_path) \<leftarrow> pathparser_get_drive_by_path path;
         if res < 0 then Some (None, s)
         else do {
           (root, s1) \<leftarrow> pathparser_create_root s res;
           (found, parts, tmp_path1, s2) \<leftarrow> pathparser_parse_path_part s1 [] tmp_path;
           if \<not> found then Some (Some root, s2)
           else do {
             (parts', s3) \<leftarrow> path_parts_loop s2 parts tmp_path1;
             Some (Some (root\<lparr>first := parts'\<rparr>), s3) } } } }"

fun path_free_loop :: "'z kmem_scheme \<Rightarrow> path_part list \<Rightarrow> 'z kmem_scheme option" where
  "path_free_loop s [] = Some s"
| "path_free_loop s (x # parts) =
     do { s1 \<leftarrow> kfree s (part x); s2 \<leftarrow> kfree s1 (self x); path_free_loop s2 parts }"

definition pathparser_free :: "'z kmem_scheme \<Rightarrow> path_root \<Rightarrow> 'z kmem_scheme option" where
  "pathparser_free s root = do { s1 \<leftarrow> path_free_loop s (first root); kfree s1 (root_addr root) }"

subsection \<open>What a path means\<close>

text \<open>The components of a path text: a component ends at a slash, an empty one ends the path.\<close>

function components :: "byte list \<Rightarrow> byte list list" where
  "components xs =
     (let p = takeWhile (\<lambda>c. c \<noteq> 0x2F) xs
      in if p = [] then [] else p # components (drop (Suc (length p)) xs))"
  by pat_completeness auto
termination
  by (relation "measure length") (auto simp: takeWhile_eq_Nil_iff)

declare components.simps [simp del]

definition valid_path :: "byte list \<Rightarrow> bool" where
  "valid_path xs \<longleftrightarrow> 3 \<le> length xs \<and> isdigit (xs ! 0) \<and> xs ! 1 = 0x3A \<and> xs ! 2 = 0x2F"

text \<open>The text up to the end of the current component, and the cursor after it.\<close>

abbreviation comp :: "byte list \<Rightarrow> byte list" where
  "comp xs \<equiv> takeWhile (\<lambda>c. c \<noteq> 0x2F) (cstr xs)"

definition after :: "byte list \<Rightarrow> byte list" where
  "after xs = (let ys = drop (length (comp xs)) xs in if hd ys = 0x2F then tl ys else ys)"

lemma path_part_loop_eq:
  assumes "terminated path" "length xs + length (comp path) \<le> length buf" "length xs \<le> length buf"
  shows "path_part_loop path (int (length xs)) (xs @ drop (length xs) buf) =
    Some (drop (length (comp path)) path, int (length xs + length (comp path)),
      xs @ comp path @ drop (length xs + length (comp path)) buf)"
  using assms
proof (induction path arbitrary: xs)
  case (Cons c path)
  show ?case
  proof (cases "c \<noteq> 0x2F \<and> c \<noteq> 0")
    case True
    then have l: "length xs < length buf" using Cons.prems(2) by simp
    then have "wr (xs @ drop (length xs) buf) (int (length xs)) c =
        Some ((xs @ [c]) @ drop (length (xs @ [c])) buf)"
      by (simp add: wr_nat list_update_append Cons_nth_drop_Suc [symmetric])
    then show ?thesis
      using True Cons.IH [of "xs @ [c]"] Cons.prems l by (simp add: add.commute)
  next
    case False
    then show ?thesis by auto
  qed
qed simp

lemma terminated_drop: "terminated xs \<Longrightarrow> n \<le> length (cstr xs) \<Longrightarrow> terminated (drop n xs)"
proof (induction n arbitrary: xs)
  case (Suc n)
  then show ?case by (cases xs) (auto split: if_splits)
qed simp

lemma cstr_drop: "n \<le> length (cstr xs) \<Longrightarrow> cstr (drop n xs) = drop n (cstr xs)"
proof (induction n arbitrary: xs)
  case (Suc n)
  then show ?case by (cases xs) (auto split: if_splits)
qed simp

lemma length_comp: "length (comp xs) \<le> length (cstr xs)"
  by (rule length_takeWhile_le)

lemma hd_after_comp:
  assumes "terminated xs"
  shows "hd (drop (length (comp xs)) xs) = 0x2F \<longleftrightarrow> length (comp xs) < length (cstr xs)"
proof -
  let ?n = "length (comp xs)"
  have l: "?n < length xs" using length_comp [of xs] length_cstr_less [OF assms] by linarith
  then have h: "hd (drop ?n xs) = xs ! ?n" by (simp add: hd_drop_conv_nth)
  show ?thesis
  proof (cases "?n < length (cstr xs)")
    case True
    then have "\<not> (cstr xs ! ?n \<noteq> 0x2F)" by (rule nth_length_takeWhile)
    then show ?thesis using True h nth_cstr [OF True] by simp
  next
    case False
    then have "?n = length (cstr xs)" using length_comp [of xs] by linarith
    then show ?thesis using False h nth_cstr_end [OF assms] by simp
  qed
qed

lemma after_props:
  assumes "terminated xs"
  shows "terminated (after xs)" "cstr (after xs) = drop (Suc (length (comp xs))) (cstr xs)"
proof -
  let ?n = "length (comp xs)"
  have a: "after xs = drop (if ?n < length (cstr xs) then Suc ?n else ?n) xs"
    using hd_after_comp [OF assms] by (simp add: after_def tl_drop drop_Suc Let_def)
  have "(if ?n < length (cstr xs) then Suc ?n else ?n) \<le> length (cstr xs)"
    using length_comp [of xs] by simp
  then show "terminated (after xs)" "cstr (after xs) = drop (Suc ?n) (cstr xs)"
    using a terminated_drop [OF assms] cstr_drop length_comp [of xs] by auto
qed

lemma components_cstr:
  assumes "terminated xs"
  shows "components (cstr xs) = (if comp xs = [] then [] else comp xs # components (cstr (after xs)))"
  using after_props(2) [OF assms] by (subst components.simps) (simp add: Let_def)


subsection \<open>Parsing\<close>

lemma part_request [simp]: "ok_size 108" "blocks_of 108 = 1" "ok_size 8" "blocks_of 8 = 1"
  by (simp_all add: ok_size_def blocks_of_def)

lemma kfree_kzalloc:
  assumes "k_inv s" "ok_size sz" "kzalloc s sz = Some (p, s')" "p \<noteq> 0"
  shows "\<exists>s''. kfree s' p = Some s'' \<and> kernel_heap s'' = kernel_heap s"
proof -
  from assms(3) obtain h' where h': "heap_malloc (kernel_heap s) sz = Some (p, h')" "kernel_heap s' = h'"
    using assms(4) by (auto elim!: kzalloc_SomeE)
  have "heap_free h' p = Some (kernel_heap s)"
    using heap_alloc.release_alloc [OF _ assms(2) h'(1) assms(4)] assms(1) by (simp add: k_inv_def)
  then show ?thesis using h'(2) by (simp add: kfree_def)
qed

text \<open>The two outcomes of one step: a component becomes a node, or nothing is left allocated.\<close>

lemma get_path_part_eq:
  assumes inv: "k_inv s" and n: "0 < free_blocks s" and t: "terminated path" "length (comp path) < 108"
  shows "if comp path = []
    then \<exists>s'. pathparser_get_path_part s path = Some (0, [], after path, s') \<and> kgrown s [] s' \<and>
      free_blocks s' = free_blocks s
    else \<exists>p s'. p \<noteq> 0 \<and> kzalloc s 108 = Some (p, s') \<and> free_blocks s' = free_blocks s - 1 \<and>
      pathparser_get_path_part s path =
        Some (p, comp path @ replicate (108 - length (comp path)) 0, after path, s')"
proof -
  obtain p s1 where z: "kzalloc s 108 = Some (p, s1)" "p \<noteq> 0" "free_blocks s1 = free_blocks s - 1"
    using kzalloc_one_block [OF inv part_request(1,2) n] by blast
  have l: "path_part_loop path 0 (replicate 108 0) = Some (drop (length (comp path)) path,
      int (length (comp path)), comp path @ replicate (108 - length (comp path)) 0)"
    using path_part_loop_eq [OF t(1), of "[]" "replicate 108 0"] t(2) by simp
  obtain s2 where f: "kfree s1 p = Some s2" "kernel_heap s2 = kernel_heap s"
    using kfree_kzalloc [OF inv part_request(1) z(1,2)] by blast
  have "keeps s s2" using kzalloc_keeps [OF inv part_request(1) z(1)] kfree_more [OF f(1)] by (simp add: keeps_def)
  then have "kgrown s [] s2" "free_blocks s2 = free_blocks s"
    using kgrown_nil [OF inv f(2)] f(2) by (simp_all add: free_blocks_def)
  then show ?thesis
    using z f l by (auto simp: pathparser_get_path_part_def status_simps after_def Let_def)
qed

definition part_text :: "path_part \<Rightarrow> byte list" where
  "part_text x = cstr (part_str x)"

definition node_addrs :: "path_part list \<Rightarrow> addr list" where
  "node_addrs parts = concat (map (\<lambda>x. [part x, self x]) parts)"

lemma node_addrs_simps [simp]: "node_addrs [] = []" "node_addrs (xs @ ys) = node_addrs xs @ node_addrs ys"
  "node_addrs [x] = [part x, self x]"
  by (simp_all add: node_addrs_def)

lemma k_heap_cong: "kernel_heap s' = kernel_heap s \<Longrightarrow> k_inv s' = k_inv s \<and> k_live s' = k_live s \<and>
    free_blocks s' = free_blocks s"
  by (simp add: k_inv_def k_live_def free_blocks_def)

lemma comp_zero_free: "0 \<notin> set (comp xs)"
  using zero_notin_cstr [of xs] set_takeWhileD by fastforce

lemma parse_path_part_some:
  assumes inv: "k_inv s" and n: "2 \<le> free_blocks s" and t: "terminated path" "length (comp path) < 108"
    and c: "comp path \<noteq> []"
  shows "\<exists>x s'. pathparser_parse_path_part s parts path = Some (True, parts @ [x], after path, s') \<and>
    part_text x = comp path \<and> length (part_str x) = 108 \<and> terminated (part_str x) \<and>
    kgrown s [part x, self x] s' \<and> free_blocks s' = free_blocks s - 2"
proof -
  obtain p s1 where g: "p \<noteq> 0" "kzalloc s 108 = Some (p, s1)" "free_blocks s1 = free_blocks s - 1"
      "pathparser_get_path_part s path =
        Some (p, comp path @ replicate (108 - length (comp path)) 0, after path, s1)"
    using get_path_part_eq [OF inv _ t] c n by auto
  have g1: "kgrown s [p] s1" by (rule kgrown_alloc [OF inv _ _ g(2,1)]) simp_all
  obtain q s2 where z: "kzalloc s1 8 = Some (q, s2)" "q \<noteq> 0" "free_blocks s2 = free_blocks s1 - 1"
    using kzalloc_one_block [OF kgrownD(1) [OF g1] part_request(3,4)] g(3) n by auto
  have g2: "kgrown s1 [q] s2" by (rule kgrown_alloc [OF kgrownD(1) [OF g1] _ _ z(1,2)]) simp_all
  obtain m where m: "108 - length (comp path) = Suc m" using t(2) by (metis Suc_diff_Suc)
  let ?x = "\<lparr>self = q, part = p, part_str = comp path @ 0 # replicate m 0\<rparr>"
  have "pathparser_parse_path_part s parts path = Some (True, parts @ [?x], after path, s2)"
    using g(1,4) z(1,2) m by (simp add: pathparser_parse_path_part_def)
  moreover have "part_text ?x = comp path"
    unfolding part_text_def using cstr_append_zero [OF comp_zero_free] by simp
  moreover have "length (part_str ?x) = 108" using m t(2) by simp
  moreover have "terminated (part_str ?x)" by simp
  ultimately show ?thesis
    using kgrown_trans [OF g1 g2] z(3) g(3) n by (intro exI [of _ ?x] exI [of _ s2]) simp
qed

lemma parse_path_part_none:
  assumes inv: "k_inv s" and n: "0 < free_blocks s" and t: "terminated path" and c: "comp path = []"
  shows "\<exists>s'. pathparser_parse_path_part s parts path = Some (False, parts, after path, s') \<and>
    kgrown s [] s' \<and> free_blocks s' = free_blocks s"
  using get_path_part_eq [OF inv n t] c by (auto simp: pathparser_parse_path_part_def)

lemma path_parts_loop_ok:
  assumes "k_inv s" "2 * length (components (cstr path)) < free_blocks s" "terminated path"
    "length (cstr path) < 108"
  shows "\<exists>xs s'. path_parts_loop s parts path = Some (parts @ xs, s') \<and>
    map part_text xs = components (cstr path) \<and>
    (\<forall>x \<in> set xs. length (part_str x) = 108 \<and> terminated (part_str x)) \<and>
    kgrown s (node_addrs xs) s' \<and> free_blocks s' = free_blocks s - 2 * length xs"
  using assms
proof (induction "length (cstr path)" arbitrary: s parts path rule: less_induct)
  case less
  note c = components_cstr [OF less.prems(3)]
  have lc: "length (comp path) < 108" using length_comp [of path] less.prems(4) by linarith
  show ?case
  proof (cases "comp path = []")
    case True
    obtain s' where "pathparser_parse_path_part s parts path = Some (False, parts, after path, s')"
        "kgrown s [] s'" "free_blocks s' = free_blocks s"
      using parse_path_part_none [OF less.prems(1) _ less.prems(3) True] less.prems(2) by auto
    then show ?thesis
      using True c by (subst path_parts_loop.simps) auto
  next
    case False
    have n: "2 \<le> free_blocks s" using less.prems(2) c False by simp
    obtain x s1 where x: "pathparser_parse_path_part s parts path = Some (True, parts @ [x], after path, s1)"
        "part_text x = comp path" "length (part_str x) = 108" "terminated (part_str x)"
        "kgrown s [part x, self x] s1" "free_blocks s1 = free_blocks s - 2"
      using parse_path_part_some [OF less.prems(1) n less.prems(3) lc False] by blast
    note a = after_props [OF less.prems(3)]
    have "length (cstr (after path)) < length (cstr path)"
      unfolding a(2) using False length_comp [of path] by (cases "cstr path") auto
    moreover have "2 * length (components (cstr (after path))) < free_blocks s1"
      using less.prems(2) c False x(6) by simp
    ultimately obtain xs s' where xs: "path_parts_loop s1 (parts @ [x]) (after path) = Some ((parts @ [x]) @ xs, s')"
        "map part_text xs = components (cstr (after path))"
        "\<forall>x \<in> set xs. length (part_str x) = 108 \<and> terminated (part_str x)"
        "kgrown s1 (node_addrs xs) s'" "free_blocks s' = free_blocks s1 - 2 * length xs"
      using less.hyps [of "after path" s1 "parts @ [x]"] kgrownD(1) [OF x(5)] a(1) less.prems(4) by auto
    have "path_parts_loop s parts path = Some (parts @ (x # xs), s')"
      using x(1) xs(1) by (subst path_parts_loop.simps) simp
    moreover have "map part_text (x # xs) = components (cstr path)" using c False x(2) xs(2) by simp
    moreover have "kgrown s (node_addrs (x # xs)) s'"
      using kgrown_trans [OF x(5) xs(4)] by (simp add: node_addrs_def)
    moreover have "free_blocks s' = free_blocks s - 2 * length (x # xs)" using xs(5) x(6) by simp
    ultimately show ?thesis using x(3,4) xs(3) by (intro exI [of _ "x # xs"] exI [of _ s']) auto
  qed
qed


subsection \<open>The format of a path\<close>

lemma valid_format_eq:
  assumes "terminated path"
  shows "pathparser_path_valid_format path = Some (valid_path (take 108 (cstr path)))"
proof (cases "3 \<le> length (cstr path)")
  case False
  then show ?thesis
    using assms by (auto simp: pathparser_path_valid_format_def strnlen_eq status_simps valid_path_def)
next
  case True
  then obtain a b c cs where cs: "cstr path = a # b # c # cs"
    by (auto simp: numeral_3_eq_3 Suc_le_length_iff)
  obtain rest where p: "path = (a # b # c # cs) @ 0 # rest"
    using terminated_split [OF assms] unfolding cs by blast
  have d: "drop 1 path = b # c # cs @ 0 # rest" by (simp add: p)
  have m: "memcmp (drop 1 path) [0x3A, 0x2F, 0] 2 = Some 0 \<longleftrightarrow> b = 0x3A \<and> c = 0x2F"
    unfolding d by (subst memcmp_eq_0) auto
  obtain r where r: "memcmp (drop 1 path) [0x3A, 0x2F, 0] 2 = Some r"
    unfolding d by (cases "b = 0x3A"; cases "c = 0x2F"; cases "cs @ 0 # rest") auto
  have "rd path 0 = Some a" by (simp add: p rd_def)
  then show ?thesis
    using assms True m r
    by (simp add: pathparser_path_valid_format_def strnlen_eq status_simps valid_path_def cs
        min_less_iff_disj)
qed

lemma get_drive_eq:
  assumes "terminated path" "length (cstr path) \<le> 108"
  shows "pathparser_get_drive_by_path path =
    Some (if valid_path (cstr path) then (tonum (cstr path ! 0), drop 3 path) else (- EBADPATH, path))"
proof -
  have "rd path 0 = Some (cstr path ! 0)" if "valid_path (cstr path)"
  proof -
    have "0 < length (cstr path)" using that by (auto simp: valid_path_def)
    then have "cstr path ! 0 = path ! 0" using nth_cstr by blast
    then show ?thesis using length_cstr_less [OF assms(1)] by (cases path) (simp_all add: rd_def)
  qed
  then show ?thesis
    using assms valid_format_eq [OF assms(1)] by (simp add: pathparser_get_drive_by_path_def)
qed

lemma valid_drive: "valid_path xs \<Longrightarrow> 0 \<le> tonum (xs ! 0) \<and> tonum (xs ! 0) \<le> 9"
  using isdigit_tonum by (simp add: valid_path_def)

lemma parse_valid:
  assumes inv: "k_inv s" and t: "terminated path" "length (cstr path) \<le> 108" "valid_path (cstr path)"
    and n: "2 * length (components (drop 3 (cstr path))) + 1 < free_blocks s"
  shows "\<exists>root s'. pathparser_parse s path = Some (Some root, s') \<and>
    drive_no root = tonum (cstr path ! 0) \<and>
    map part_text (first root) = components (drop 3 (cstr path)) \<and>
    (\<forall>x \<in> set (first root). length (part_str x) = 108 \<and> terminated (part_str x)) \<and>
    kgrown s (root_addr root # node_addrs (first root)) s' \<and>
    free_blocks s' = free_blocks s - 1 - 2 * length (first root)"
proof -
  let ?tmp = "drop 3 path"
  have l3: "3 \<le> length (cstr path)" using t(3) by (simp add: valid_path_def)
  have tmp: "terminated ?tmp" "cstr ?tmp = drop 3 (cstr path)" "length (cstr ?tmp) < 108"
    using terminated_drop [OF t(1) l3] cstr_drop [OF l3] t(2) by auto
  have lc: "length (comp ?tmp) < 108" using length_comp [of ?tmp] tmp(3) by linarith
  obtain p s1 where z: "kzalloc s 8 = Some (p, s1)" "p \<noteq> 0" "free_blocks s1 = free_blocks s - 1"
    using kzalloc_one_block [OF inv part_request(3,4)] n by auto
  have g: "kgrown s [p] s1" by (rule kgrown_alloc [OF inv _ _ z(1,2)]) simp_all
  let ?r = "\<lparr>root_addr = p, drive_no = tonum (cstr path ! 0), first = []\<rparr>"
  have start: "pathparser_parse s path = do {
      (found, parts, tmp_path1, s2) \<leftarrow> pathparser_parse_path_part s1 [] ?tmp;
      if \<not> found then Some (Some ?r, s2)
      else do { (parts', s3) \<leftarrow> path_parts_loop s2 parts tmp_path1;
        Some (Some (?r\<lparr>first := parts'\<rparr>), s3) } }"
    using t z valid_drive [OF t(3)] get_drive_eq [OF t(1,2)]
    by (simp add: pathparser_parse_def strlen_eq status_simps pathparser_create_root_def)
  also have "\<dots> = do { (parts', s3) \<leftarrow> path_parts_loop s1 [] ?tmp; Some (Some (?r\<lparr>first := parts'\<rparr>), s3) }"
  proof (cases "comp ?tmp = []")
    case True
    obtain s' where "pathparser_parse_path_part s1 [] ?tmp = Some (False, [], after ?tmp, s')"
      using parse_path_part_none [OF kgrownD(1) [OF g] _ tmp(1) True] z(3) n by auto
    then show ?thesis by (subst path_parts_loop.simps) simp
  next
    case False
    then have "2 \<le> free_blocks s1"
      using n z(3) components_cstr [OF tmp(1)] tmp(2) by simp
    then obtain x s2 where "pathparser_parse_path_part s1 [] ?tmp = Some (True, [] @ [x], after ?tmp, s2)"
      using parse_path_part_some [OF kgrownD(1) [OF g] _ tmp(1) lc False, of "[]"] by blast
    then show ?thesis by (subst (2) path_parts_loop.simps) simp
  qed
  finally have eq: "pathparser_parse s path =
    do { (parts', s3) \<leftarrow> path_parts_loop s1 [] ?tmp; Some (Some (?r\<lparr>first := parts'\<rparr>), s3) }" .
  have "2 * length (components (cstr ?tmp)) < free_blocks s1" using n z(3) tmp(2) by simp
  from path_parts_loop_ok [OF kgrownD(1) [OF g] this tmp(1,3), of "[]"]
  obtain xs s' where xs: "path_parts_loop s1 [] ?tmp = Some (xs, s')"
      "map part_text xs = components (drop 3 (cstr path))"
      "\<forall>x \<in> set xs. length (part_str x) = 108 \<and> terminated (part_str x)"
      "kgrown s1 (node_addrs xs) s'" "free_blocks s' = free_blocks s1 - 2 * length xs"
    using tmp(2) by auto
  have "pathparser_parse s path = Some (Some (?r\<lparr>first := xs\<rparr>), s')"
    by (simp add: eq xs(1))
  then show ?thesis
    using xs(2,3,5) kgrown_trans [OF g xs(4)] z(3) by (intro exI [of _ "?r\<lparr>first := xs\<rparr>"] exI [of _ s']) simp
qed

text \<open>
  C9. With enough free blocks, a well-formed path of at most \<open>BENOS_MAX_PATH\<close> bytes is parsed: the root holds the
  drive number and the list of the components of the text after \<open>d:/\<close> up to the first empty one, each as a
  terminated string in a 108-byte buffer. The root, the nodes and the buffers are different blocks that were not in use
  and are now allocated; nothing else becomes allocated or free, and the contents of the blocks in use stay as they were.
\<close>

theorem pathparser_parse_ok:
  assumes "k_inv s" "terminated path" "length (cstr path) \<le> 108" "valid_path (cstr path)"
    "2 * length (components (drop 3 (cstr path))) + 1 < free_blocks s"
  shows "\<exists>root s'. pathparser_parse s path = Some (Some root, s') \<and>
    drive_no root = tonum (cstr path ! 0) \<and>
    map part_text (first root) = components (drop 3 (cstr path)) \<and>
    (\<forall>x \<in> set (first root). length (part_str x) = 108 \<and> terminated (part_str x)) \<and>
    k_inv s' \<and> distinct (root_addr root # node_addrs (first root)) \<and>
    (\<forall>a \<in> set (root_addr root # node_addrs (first root)). k_live s a = None) \<and>
    k_live s' = (\<lambda>a. if a \<in> set (root_addr root # node_addrs (first root)) then Some 1 else k_live s a) \<and> keeps s s'"
proof -
  obtain root s' where r: "pathparser_parse s path = Some (Some root, s')"
      "drive_no root = tonum (cstr path ! 0)" "map part_text (first root) = components (drop 3 (cstr path))"
      "\<forall>x \<in> set (first root). length (part_str x) = 108 \<and> terminated (part_str x)"
      and g: "kgrown s (root_addr root # node_addrs (first root)) s'"
    using parse_valid [OF assms] by blast
  show ?thesis
  proof (intro exI conjI)
    show "\<forall>a \<in> set (root_addr root # node_addrs (first root)). k_live s a = None" using kgrownD(3) [OF g] by blast
    show "k_live s' = (\<lambda>a. if a \<in> set (root_addr root # node_addrs (first root)) then Some 1 else k_live s a)"
      by (rule ext) (rule kgrownD(4) [OF g])
  qed (rule r kgrownD(1,2,5) [OF g])+
qed

text \<open>
  C27. Every other text is refused with a NULL root, and nothing is allocated or changed.
\<close>

theorem pathparser_parse_refuses:
  assumes "terminated path" "\<not> (length (cstr path) \<le> 108 \<and> valid_path (cstr path))"
  shows "pathparser_parse s path = Some (None, s)"
  using assms get_drive_eq [OF assms(1)]
  by (auto simp: pathparser_parse_def strlen_eq status_simps split: bind_splits)

lemma path_free_loop_eq: "path_free_loop s parts = release_all kfree s (node_addrs parts)"
  by (induction parts arbitrary: s) (auto simp: node_addrs_def intro!: Option.bind_cong)

lemma pathparser_free_eq:
  "pathparser_free s root = release_all kfree s (node_addrs (first root) @ [root_addr root])"
  by (simp add: pathparser_free_def path_free_loop_eq release_all_append)

text \<open>
  C32. Parsing a path and freeing the result leaks nothing: the allocations that are live
  afterwards are those that were live before.
\<close>

theorem pathparser_parse_free:
  assumes "k_inv s" "terminated path" "length (cstr path) \<le> 108" "valid_path (cstr path)"
    "2 * length (components (drop 3 (cstr path))) + 1 < free_blocks s"
  shows "\<exists>root s' s''. pathparser_parse s path = Some (Some root, s') \<and>
    pathparser_free s' root = Some s'' \<and> k_inv s'' \<and> k_live s'' = k_live s"
proof -
  obtain root s' where r: "pathparser_parse s path = Some (Some root, s')"
      "kgrown s (root_addr root # node_addrs (first root)) s'"
    using parse_valid [OF assms] by blast
  have "kgrown s (node_addrs (first root) @ [root_addr root]) s'"
    using r(2) by (rule kgrown_perm) (use kgrownD(2) [OF r(2)] in auto)
  then show ?thesis
    using r(1) kz.grown_release [OF kgrownD(7)] unfolding pathparser_free_eq by blast
qed

definition sample_path :: "byte list" where
  "sample_path = [0x30, 0x3A, 0x2F, 0x62, 0x69, 0x6E, 0x2F, 0x73, 0x68, 0]"

lemma sample_path: "terminated sample_path" "valid_path (cstr sample_path)" "length (cstr sample_path) \<le> 108"
  "components (drop 3 (cstr sample_path)) = [[0x62, 0x69, 0x6E], [0x73, 0x68]]"
  unfolding valid_path_def terminated_def by code_simp+

theorem pathparser_parse_ok_witness:
  "\<exists>root s'. pathparser_parse fresh_kmem sample_path = Some (Some root, s') \<and> drive_no root = 0 \<and>
     map part_text (first root) = [[0x62, 0x69, 0x6E], [0x73, 0x68]]"
proof -
  have "tonum (cstr sample_path ! 0) = 0" by code_simp
  then show ?thesis
    using pathparser_parse_ok [OF fresh_kmem(1) sample_path(1,3,2)] fresh_kmem(2) sample_path(4) by auto
qed

theorem pathparser_parse_free_witness:
  "\<exists>root s' s''. pathparser_parse fresh_kmem sample_path = Some (Some root, s') \<and>
     pathparser_free s' root = Some s'' \<and> k_live s'' = k_live fresh_kmem"
  using pathparser_parse_free [OF fresh_kmem(1) sample_path(1,3,2)] fresh_kmem(2) sample_path(4) by auto

theorem pathparser_parse_refuses_witness:
  "pathparser_parse fresh_kmem [0x78, 0x3A, 0x2F, 0] = Some (None, fresh_kmem)"
proof -
  have "terminated [0x78, 0x3A, 0x2F, 0]" "\<not> valid_path (cstr [0x78, 0x3A, 0x2F, 0])"
    unfolding valid_path_def terminated_def by code_simp+
  then show ?thesis using pathparser_parse_refuses by blast
qed

end
