(* ===== verification/Disk.thy ===== *)
theory Disk
  imports Allocator
begin

text \<open>
  Disk sectors and byte streams (\<^verbatim>\<open>src/disk/disk.c\<close>, \<^verbatim>\<open>disk.h\<close>, \<^verbatim>\<open>streamer.c\<close>,
  \<^verbatim>\<open>streamer.h\<close>). The drive is a parameter \<open>dev\<close>: the bytes of each sector. \<open>ata_command\<close> is
  what \<open>disk_read_sector\<close> writes into the registers of the controller; the polling of the status
  register is part of the drive. A buffer that a routine fills is returned as the list of its bytes.
  There is one disk; a pointer to it is \<^term>\<open>Some 0\<close>, NULL is \<^term>\<open>None\<close>.
\<close>

type_synonym device = "nat \<Rightarrow> byte list"
type_synonym disk_ptr = "nat option"

text \<open>What the code relies on: a sector has \<open>BENOS_SECTOR_SIZE\<close> bytes.\<close>

definition sectors_512 :: "device \<Rightarrow> bool" where
  "sectors_512 dev \<longleftrightarrow> (\<forall>n. length (dev n) = 512)"

subsection \<open>Sectors\<close>

record ata_command =
  drive_reg :: byte
  count_reg :: byte
  lba_low :: byte
  lba_mid :: byte
  lba_high :: byte
  command_reg :: byte

definition ata_setup :: "int \<Rightarrow> int \<Rightarrow> ata_command" where
  "ata_setup lba tot =
     \<lparr>drive_reg = word_of_int (drop_bit 24 lba OR 0xE0),
      count_reg = word_of_int tot,
      lba_low = word_of_int (lba AND 0xFF),
      lba_mid = word_of_int (drop_bit 8 lba),
      lba_high = word_of_int (drop_bit 16 lba),
      command_reg = 0x20\<rparr>"

text \<open>The drive's reading of its registers: a 28-bit sector number, and a count where 0 means 256.\<close>

definition ata_sector :: "ata_command \<Rightarrow> nat" where
  "ata_sector c = unat (lba_low c) + 256 * unat (lba_mid c) + 65536 * unat (lba_high c)
     + 16777216 * (unat (drive_reg c) mod 16)"

definition ata_count :: "ata_command \<Rightarrow> nat" where
  "ata_count c = (if count_reg c = 0 then 256 else unat (count_reg c))"

text \<open>Waiting for data that the drive was not asked for never ends.\<close>

definition disk_read_sector :: "device \<Rightarrow> int \<Rightarrow> int \<Rightarrow> (int \<times> byte list) option" where
  "disk_read_sector dev lba tot =
     (let c = ata_setup lba tot
      in if nat tot > ata_count c then None
         else Some (0, concat (map (\<lambda>i. dev (ata_sector c + i)) [0..<nat tot])))"

definition disk_get :: "int \<Rightarrow> disk_ptr" where
  "disk_get index = (if index \<noteq> 0 then None else Some 0)"

definition disk_read_block :: "device \<Rightarrow> disk_ptr \<Rightarrow> u32 \<Rightarrow> int \<Rightarrow> (int \<times> byte list) option" where
  "disk_read_block dev idisk lba tot =
     (if idisk \<noteq> Some 0 then Some (- EIO, []) else disk_read_sector dev (sint lba) tot)"

subsection \<open>Streams\<close>

record disk_stream =
  stream_addr :: addr
  pos :: int
  stream_disk :: disk_ptr

text \<open>The result is \<^term>\<open>None\<close> inside for a NULL stream.\<close>

definition diskstreamer_new :: "'z kmem_scheme \<Rightarrow> int \<Rightarrow> (disk_stream option \<times> 'z kmem_scheme) option" where
  "diskstreamer_new s disk_id =
     (let disk = disk_get disk_id
      in if disk = None then Some (None, s)
         else do {
           (p, s1) \<leftarrow> kzalloc s 8;
           if p = 0 then None else Some (Some \<lparr>stream_addr = p, pos = 0, stream_disk = disk\<rparr>, s1) })"

definition diskstreamer_seek :: "disk_stream \<Rightarrow> int \<Rightarrow> int \<times> disk_stream" where
  "diskstreamer_seek stream p = (0, stream\<lparr>pos := p\<rparr>)"

text \<open>The bytes \<open>buffer[offset ..< offset + n]\<close>.\<close>

definition copy_from :: "byte list \<Rightarrow> int \<Rightarrow> int \<Rightarrow> byte list option" where
  "copy_from buffer offset n =
     (if n \<le> 0 then Some []
      else if 0 \<le> offset \<and> offset + n \<le> int (length buffer)
      then Some (take (nat n) (drop (nat offset) buffer)) else None)"

function diskstreamer_read :: "device \<Rightarrow> disk_stream \<Rightarrow> int \<Rightarrow> (int \<times> byte list \<times> disk_stream) option" where
  "diskstreamer_read dev stream tot =
     (let sector = cdiv (pos stream) BENOS_SECTOR_SIZE;
          offset = cmod (pos stream) BENOS_SECTOR_SIZE;
          overflow = offset + tot \<ge> BENOS_SECTOR_SIZE;
          total_to_read = (if overflow then tot - ((offset + tot) - BENOS_SECTOR_SIZE) else tot)
      in do {
        (res, buffer) \<leftarrow> disk_read_block dev (stream_disk stream) (word_of_int sector) 1;
        if res < 0 then Some (res, [], stream)
        else do {
          bs \<leftarrow> copy_from buffer offset total_to_read;
          let stream1 = stream\<lparr>pos := pos stream + total_to_read\<rparr>;
          if overflow then do {
            (res', bs', stream2) \<leftarrow> diskstreamer_read dev stream1 (tot - total_to_read);
            Some (res', bs @ bs', stream2) }
          else Some (res, bs, stream1) } })"
  by pat_completeness auto

lemma cmod_512: "cmod x 512 < 512"
proof (cases "0 \<le> x")
  case False
  then have "cdiv x 512 = - ((- x) div 512)" by (simp add: cdiv_def)
  then have "cmod x 512 = - ((- x) mod 512)"
    by (simp add: cmod_def minus_div_mult_eq_mod [symmetric])
  then show ?thesis using pos_mod_sign [of 512 "- x"] by simp
qed simp

lemma overflow_pos: "512 \<le> cmod x 512 + n \<Longrightarrow> 0 < n"
  using cmod_512 [of x] by linarith

termination diskstreamer_read
  by (relation "measure (\<lambda>(dev, stream, tot). nat tot)")
    (auto simp: status_simps Let_def cmod_512 dest: overflow_pos)

declare diskstreamer_read.simps [simp del]

definition diskstreamer_close :: "'z kmem_scheme \<Rightarrow> disk_stream \<Rightarrow> 'z kmem_scheme option" where
  "diskstreamer_close s stream = kfree s (stream_addr stream)"


subsection \<open>Reading\<close>

text \<open>Byte \<open>i\<close> of the disk.\<close>

definition disk_byte :: "device \<Rightarrow> nat \<Rightarrow> byte" where
  "disk_byte dev i = dev (i div 512) ! (i mod 512)"

definition disk_bytes :: "device \<Rightarrow> nat \<Rightarrow> nat \<Rightarrow> byte list" where
  "disk_bytes dev p n = map (\<lambda>i. disk_byte dev (p + i)) [0..<n]"

lemma disk_bytes_append: "disk_bytes dev p (n + m) = disk_bytes dev p n @ disk_bytes dev (p + n) m"
proof -
  have "[n..<n + m] = map (\<lambda>i. n + i) [0..<m]" by (simp add: map_add_upt add.commute)
  then show ?thesis by (simp add: disk_bytes_def upt_add_eq_append [of 0 n m] add.assoc)
qed

lemma length_disk_bytes [simp]: "length (disk_bytes dev p n) = n"
  by (simp add: disk_bytes_def)

lemma disk_bytes_sector:
  assumes "sectors_512 dev" "p mod 512 + n \<le> 512"
  shows "take n (drop (p mod 512) (dev (p div 512))) = disk_bytes dev p n"
proof (rule nth_equalityI)
  show "length (take n (drop (p mod 512) (dev (p div 512)))) = length (disk_bytes dev p n)"
    using assms by (simp add: sectors_512_def)
next
  fix i assume "i < length (take n (drop (p mod 512) (dev (p div 512))))"
  then have i: "i < n" by simp
  have "p + i = (p div 512) * 512 + (p mod 512 + i)" by simp
  moreover have "p mod 512 + i < 512" using assms(2) i by simp
  ultimately have "(p + i) div 512 = p div 512" "(p + i) mod 512 = p mod 512 + i"
    by (metis div_mult_self3 div_less add.right_neutral mod_mult_self3 mod_less zero_neq_numeral)+
  then show "take n (drop (p mod 512) (dev (p div 512))) ! i = disk_bytes dev p n ! i"
    using assms i by (simp add: disk_bytes_def disk_byte_def sectors_512_def)
qed

text \<open>The registers address the sector asked for, up to 28 bits.\<close>

lemma byte_shift: "unat (word_of_int (drop_bit k (int n)) :: byte) = n div 2 ^ k mod 256"
proof -
  have "drop_bit k (int n) = int (n div 2 ^ k)" by (simp add: drop_bit_eq_div zdiv_int)
  then have "unat (word_of_int (drop_bit k (int n)) :: byte) = take_bit 8 (n div 2 ^ k)"
    by (simp add: unsigned_of_nat del: of_nat_div)
  then show ?thesis by (simp add: take_bit_eq_mod)
qed

lemma word_of_int_take_8: "(word_of_int (take_bit 8 k) :: byte) = word_of_int k"
  by (rule bit_word_eqI) (simp add: bit_simps)

lemma ata_sector_setup:
  assumes "n < 268435456"
  shows "ata_sector (ata_setup (int n) k) = n"
proof -
  have low: "unat (word_of_int (int n AND 0xFF) :: byte) = n mod 256"
  proof -
    have "int n AND 0xFF = take_bit 8 (int n)" by (simp add: take_bit_eq_mask mask_numeral)
    then have "(word_of_int (int n AND 0xFF) :: byte) = word_of_int (int n)"
      using word_of_int_take_8 by metis
    then show ?thesis by (simp add: unsigned_of_nat take_bit_eq_mod)
  qed
  have high: "unat (word_of_int (drop_bit 24 (int n) OR 0xE0) :: byte) mod 16 = n div 16777216"
  proof -
    let ?k = "n div 16777216"
    have k: "?k < 16" using assms by simp
    have "(word_of_int (drop_bit 24 (int n) OR 0xE0) :: byte) = of_nat ?k OR 0xE0"
    proof -
      have "drop_bit 24 (int n) = int ?k" by (simp add: drop_bit_eq_div zdiv_int)
      then show ?thesis by (simp only: of_int_or_eq) simp
    qed
    moreover have "unat ((of_nat ?k OR 0xE0) :: byte) mod 16 = ?k"
    proof -
      have "\<forall>k \<in> set [0..<16]. unat ((of_nat k OR 0xE0) :: byte) mod 16 = k" by code_simp
      then show ?thesis using k by simp
    qed
    ultimately show ?thesis by simp
  qed
  have "n = n mod 256 + 256 * (n div 256 mod 256) + 65536 * (n div 65536 mod 256) + 16777216 * (n div 16777216)"
  proof -
    have "n = 256 * (n div 256) + n mod 256" "n div 256 = 256 * (n div 65536) + n div 256 mod 256"
      "n div 65536 = 256 * (n div 16777216) + n div 65536 mod 256"
      using mult_div_mod_eq [of 256 n] mult_div_mod_eq [of 256 "n div 256"]
        mult_div_mod_eq [of 256 "n div 65536"] by (simp_all add: div_mult2_eq [symmetric])
    then show ?thesis by linarith
  qed
  then show ?thesis
    unfolding ata_sector_def ata_setup_def
    using low high byte_shift [of 8 n] byte_shift [of 16 n] by simp
qed

lemma read_block_eq:
  assumes "n < 268435456"
  shows "disk_read_block dev (Some 0) (of_nat n) 1 = Some (0, dev n)"
proof -
  have "unat (of_nat n :: u32) = n" using assms by (intro unat_of_nat_u32) simp
  then have "sint (of_nat n :: u32) = int n" using assms by (simp add: sint_small)
  moreover have count: "ata_count (ata_setup l 1) = 1" for l by (simp add: ata_count_def ata_setup_def)
  ultimately show ?thesis
    using ata_sector_setup [OF assms, of 1]
    by (simp add: disk_read_block_def disk_read_sector_def Let_def)
qed

lemma diskstreamer_read_eq:
  assumes "sectors_512 dev" "stream_disk st = Some 0" "pos st = int p" "p + n < 2147483648"
  shows "diskstreamer_read dev st (int n) = Some (0, disk_bytes dev p n, st\<lparr>pos := int (p + n)\<rparr>)"
  using assms(2-4)
proof (induction n arbitrary: st p rule: less_induct)
  case (less n)
  have sec: "disk_read_block dev (stream_disk st) (word_of_int (cdiv (pos st) 512)) 1 = Some (0, dev (p div 512))"
  proof -
    have "cdiv (pos st) 512 = int (p div 512)" using less.prems(2) by (simp add: zdiv_int)
    moreover have "p div 512 < 268435456" using less.prems(3) by simp
    ultimately show ?thesis using read_block_eq [of "p div 512" dev] less.prems(1) by simp
  qed
  have off: "cmod (pos st) 512 = int (p mod 512)" using less.prems by (simp add: zmod_int)
  have len: "length (dev (p div 512)) = 512" using assms(1) by (simp add: sectors_512_def)
  show ?case
  proof (cases "p mod 512 + n < 512")
    case True
    have "copy_from (dev (p div 512)) (int (p mod 512)) (int n) = Some (disk_bytes dev p n)"
      using True len disk_bytes_sector [OF assms(1), of p n] by (auto simp: copy_from_def disk_bytes_def)
    moreover have "\<not> 512 \<le> int (p mod 512) + int n" using True by simp
    ultimately show ?thesis
      using sec off less.prems(2)
      by (subst diskstreamer_read.simps) (simp add: status_simps Let_def)
  next
    case False
    let ?m = "512 - p mod 512"
    have m: "0 < ?m" "?m \<le> n" using False by (simp_all add: mod_less_divisor)
    have eq: "int n - (int (p mod 512) + int n - 512) = int ?m" "int n - int ?m = int (n - ?m)"
      using m by (simp_all add: of_nat_diff)
    have c: "copy_from (dev (p div 512)) (int (p mod 512)) (int ?m) = Some (disk_bytes dev p ?m)"
      using len m disk_bytes_sector [OF assms(1), of p ?m] by (auto simp: copy_from_def nat_diff_distrib)
    let ?st = "st\<lparr>pos := int p + int ?m\<rparr>"
    have IH: "diskstreamer_read dev ?st (int (n - ?m)) =
        Some (0, disk_bytes dev (p + ?m) (n - ?m), ?st\<lparr>pos := int (p + ?m + (n - ?m))\<rparr>)"
      by (rule less.IH) (use m less.prems in auto)
    have "512 \<le> int (p mod 512) + int n" using False by simp
    then have "diskstreamer_read dev st (int n) = Some (0, disk_bytes dev p ?m @ disk_bytes dev (p + ?m) (n - ?m),
        ?st\<lparr>pos := int (p + ?m + (n - ?m))\<rparr>)"
      using sec off less.prems(2) eq c IH
      by (subst diskstreamer_read.simps) (simp add: status_simps Let_def del: of_nat_diff)
    then show ?thesis using m disk_bytes_append [of dev p ?m "n - ?m"] by simp
  qed
qed

text \<open>
  C8. Reading a stream returns exactly the bytes of the disk from the position of the stream on,
  across sector boundaries, and moves the position behind them.
\<close>

theorem diskstreamer_read_ok:
  assumes "sectors_512 dev" "stream_disk st = Some 0" "pos st = int p" "p + n < 2147483648"
  shows "diskstreamer_read dev st (int n) = Some (0, disk_bytes dev p n, st\<lparr>pos := int (p + n)\<rparr>)"
  using assms by (rule diskstreamer_read_eq)

text \<open>A disk whose sector \<open>n\<close> is filled with the byte \<open>n\<close>.\<close>

definition numbered_disk :: device where
  "numbered_disk n = replicate 512 (of_nat n)"

lemma numbered_disk: "sectors_512 numbered_disk"
  by (simp add: sectors_512_def numbered_disk_def)

theorem diskstreamer_read_ok_witness:
  "diskstreamer_read numbered_disk \<lparr>stream_addr = 0x01000000, pos = 510, stream_disk = Some 0\<rparr> 4 =
     Some (0, [0, 0, 1, 1], \<lparr>stream_addr = 0x01000000, pos = 514, stream_disk = Some 0\<rparr>)"
proof -
  have "[0..<4] = [0, 1, 2, 3 :: nat]" by code_simp
  then have "disk_bytes numbered_disk 510 4 = [0, 0, 1, 1]"
    by (simp add: disk_bytes_def disk_byte_def numbered_disk_def)
  then show ?thesis
    using diskstreamer_read_ok [OF numbered_disk,
        of "\<lparr>stream_addr = 0x01000000, pos = 510, stream_disk = Some 0\<rparr>" 510 4] by simp
qed

end
