(* ===== verification/Fat16.thy ===== *)
theory Fat16
  imports PathParser Disk
begin

text \<open>
  The FAT16 file system (\<^verbatim>\<open>src/fs/fat/fat16.c\<close>). Packed on-disk structures are decoded from
  their bytes; a directory keeps the raw bytes of its entries, as the code does. Structures carry
  the address of their block. The routines thread the private data of the file system (with the
  positions of its three streams) and the kernel's memory. A buffer that is filled is returned as
  the bytes written to it.
\<close>

subsection \<open>Structures\<close>

definition le16 :: "byte list \<Rightarrow> nat \<Rightarrow> int" where
  "le16 bs i = uint (bs ! i) + 256 * uint (bs ! (i + 1))"

definition le32 :: "byte list \<Rightarrow> nat \<Rightarrow> u32" where
  "le32 bs i = ucast (bs ! i) OR push_bit 8 (ucast (bs ! (i + 1))) OR push_bit 16 (ucast (bs ! (i + 2)))
     OR push_bit 24 (ucast (bs ! (i + 3)))"

record fat_header =
  short_jmp_ins :: "byte list"
  oem_identifier :: "byte list"
  bytes_per_sector :: int
  sectors_per_cluster :: int
  reserved_sectors :: int
  fat_copies :: int
  root_dir_entries :: int
  num_of_sectors :: int
  media_type :: byte
  sectors_per_fat :: int
  sectors_per_track :: int
  num_of_heads :: int
  hidden_sectors :: u32
  sectors_big :: u32

record fat_header_extended =
  drive_number :: byte
  win_nt_bit :: byte
  signature :: byte
  volume_id :: u32
  volume_id_string :: "byte list"
  system_id_string :: "byte list"

record fat_h =
  primary_header :: fat_header
  extended_header :: fat_header_extended

text \<open>The fields at their offsets in the packed structures.\<close>

definition sizeof_fat_h :: nat where "sizeof_fat_h = 36 + 26"

definition fat_header_of :: "byte list \<Rightarrow> fat_header" where
  "fat_header_of bs = \<lparr>short_jmp_ins = take 3 bs, oem_identifier = take 8 (drop 3 bs),
     bytes_per_sector = le16 bs 11, sectors_per_cluster = uint (bs ! 13),
     reserved_sectors = le16 bs 14, fat_copies = uint (bs ! 16), root_dir_entries = le16 bs 17,
     num_of_sectors = le16 bs 19, media_type = bs ! 21, sectors_per_fat = le16 bs 22,
     sectors_per_track = le16 bs 24, num_of_heads = le16 bs 26, hidden_sectors = le32 bs 28,
     sectors_big = le32 bs 32\<rparr>"

definition fat_header_extended_of :: "byte list \<Rightarrow> fat_header_extended" where
  "fat_header_extended_of bs = \<lparr>drive_number = bs ! 0, win_nt_bit = bs ! 1, signature = bs ! 2,
     volume_id = le32 bs 3, volume_id_string = take 11 (drop 7 bs), system_id_string = take 8 (drop 18 bs)\<rparr>"

definition fat_h_of :: "byte list \<Rightarrow> fat_h" where
  "fat_h_of bs = \<lparr>primary_header = fat_header_of bs, extended_header = fat_header_extended_of (drop 36 bs)\<rparr>"

record fat_dir_item =
  fname :: "byte list"
  ext :: "byte list"
  attributes :: byte
  reserved :: byte
  creation_time_ms :: byte
  creation_time :: int
  creation_date :: int
  last_access_date :: int
  high_16_bits_first_cluster :: int
  last_modification_time :: int
  last_modification_date :: int
  low_16_bits_first_cluster :: int
  file_size :: u32

definition sizeof_fat_dir_item :: nat where "sizeof_fat_dir_item = 32"

definition fat_dir_item_of :: "byte list \<Rightarrow> fat_dir_item" where
  "fat_dir_item_of bs = \<lparr>fname = take 8 bs, ext = take 3 (drop 8 bs), attributes = bs ! 11,
     reserved = bs ! 12, creation_time_ms = bs ! 13, creation_time = le16 bs 14, creation_date = le16 bs 16,
     last_access_date = le16 bs 18, high_16_bits_first_cluster = le16 bs 20,
     last_modification_time = le16 bs 22, last_modification_date = le16 bs 24,
     low_16_bits_first_cluster = le16 bs 26, file_size = le32 bs 28\<rparr>"

record fat_dir =
  dir_addr :: addr
  items_addr :: addr
  items :: "byte list"
  dir_total :: int
  sector_pos :: int
  ending_sector_pos :: int

text \<open>A \<open>fat_dir*\<close>: NULL, a directory, or a directory that was freed.\<close>

datatype dir_ptr = Null_dir | Dir fat_dir | Freed_dir

text \<open>The tagged union of \<open>struct fat_item\<close>: a file entry (NULL if it could not be cloned) or a directory.\<close>

datatype fat_item_body = File_item addr fat_dir_item | Null_item | Dir_item dir_ptr

record fat_item =
  item_addr :: addr
  body :: fat_item_body

record fat_file_descriptor =
  desc_addr :: addr
  desc_item :: fat_item
  desc_pos :: u32

record fat_private =
  private_addr :: addr
  header :: fat_h
  root_dir :: fat_dir
  cluster_read_stream :: "disk_stream option"
  fat_read_stream :: "disk_stream option"
  dir_stream :: "disk_stream option"

record disk =
  disk_type :: u32
  sector_size :: int
  disk_id :: int

definition FAT_FILE_READ_ONLY :: byte where "FAT_FILE_READ_ONLY = 0x01"
definition FAT_FILE_SUBDIRECTORY :: byte where "FAT_FILE_SUBDIRECTORY = 0x10"
definition BENOS_FAT16_SIGNATURE :: byte where "BENOS_FAT16_SIGNATURE = 0x29"
definition BENOS_FAT16_BAD_SECTOR :: int where "BENOS_FAT16_BAD_SECTOR = 0xFF7"
definition BENOS_FAT16_FAT_ENTRY_SIZE :: int where "BENOS_FAT16_FAT_ENTRY_SIZE = 2"

subsection \<open>Directories\<close>

text \<open>The loop of \<open>fat16_get_total_items_for_dir\<close>; it may run forever.\<close>

partial_function (option) count_items ::
  "device \<Rightarrow> disk_stream \<Rightarrow> int \<Rightarrow> (int \<times> disk_stream) option" where
  "count_items dev stream i =
     do {
       (res, item, stream1) \<leftarrow> diskstreamer_read dev stream (int sizeof_fat_dir_item);
       if res \<noteq> BENOS_ALL_OK then Some (- EIO, stream1)
       else if item ! 0 = 0x00 then Some (i, stream1)
       else if item ! 0 = 0xE5 then count_items dev stream1 i
       else count_items dev stream1 (i + 1) }"

definition fat16_sector_to_abs :: "disk \<Rightarrow> int \<Rightarrow> int" where
  "fat16_sector_to_abs d sector = sector * sector_size d"

definition fat16_get_total_items_for_dir ::
  "device \<Rightarrow> disk \<Rightarrow> fat_private \<Rightarrow> u32 \<Rightarrow> (int \<times> fat_private) option" where
  "fat16_get_total_items_for_dir dev d fp dir_start_sector =
     do {
       let dir_start_pos = sint (dir_start_sector * word_of_int (sector_size d));
       stream \<leftarrow> dir_stream fp;
       let (_, stream1) = diskstreamer_seek stream dir_start_pos;
       (res, stream2) \<leftarrow> count_items dev stream1 0;
       Some (res, fp\<lparr>dir_stream := Some stream2\<rparr>) }"

text \<open>The directory is written to the last argument, the root directory of the private data.\<close>

definition fat16_get_root_dir ::
  "device \<Rightarrow> disk \<Rightarrow> 'z kmem_scheme \<Rightarrow> fat_private \<Rightarrow> (int \<times> 'z kmem_scheme \<times> fat_private) option" where
  "fat16_get_root_dir dev d s fp =
     do {
       let h = primary_header (header fp);
       let root_dir_sector_pos = fat_copies h * sectors_per_fat h + reserved_sectors h;
       let root_dir_size = root_dir_entries h * int sizeof_fat_dir_item;
       (total_items, fp1) \<leftarrow> fat16_get_total_items_for_dir dev d fp (word_of_int root_dir_sector_pos);
       (dir_item, s1) \<leftarrow> kzalloc s (word_of_int root_dir_size);
       if dir_item = 0 then Some (- ENOMEM, s1, fp1)
       else do {
         stream \<leftarrow> dir_stream fp1;
         let (_, stream1) = diskstreamer_seek stream (fat16_sector_to_abs d root_dir_sector_pos);
         (res, bytes, stream2) \<leftarrow> diskstreamer_read dev stream1 root_dir_size;
         let fp2 = fp1\<lparr>dir_stream := Some stream2\<rparr>;
         if res \<noteq> BENOS_ALL_OK then do { s2 \<leftarrow> kfree s1 dir_item; Some (- EIO, s2, fp2) }
         else Some (0, s1, fp2\<lparr>root_dir := \<lparr>dir_addr = dir_addr (root_dir fp), items_addr = dir_item,
                items = bytes, dir_total = total_items, sector_pos = root_dir_sector_pos,
                ending_sector_pos = root_dir_sector_pos + cdiv root_dir_size (sector_size d)\<rparr>\<rparr>) } }"

text \<open>Names: \<open>k\<close> is the cursor into the output buffer.\<close>

fun proper_string_loop :: "byte list \<Rightarrow> int \<Rightarrow> int \<Rightarrow> byte list \<Rightarrow> int \<Rightarrow> (byte list \<times> int) option" where
  "proper_string_loop [] i sz out k = None"
| "proper_string_loop (c # inp) i sz out k =
     (if c \<noteq> 0x00 \<and> c \<noteq> 0x20 then do {
        out1 \<leftarrow> wr out k c;
        if i \<ge> sz - 1 then Some (out1, k + 1) else proper_string_loop inp (i + 1) sz out1 (k + 1) }
      else Some (out, k))"

definition fat16_to_proper_string :: "byte list \<Rightarrow> int \<Rightarrow> byte list \<Rightarrow> int \<Rightarrow> (byte list \<times> int) option" where
  "fat16_to_proper_string out k inp sz =
     do { (out1, k1) \<leftarrow> proper_string_loop inp 0 sz out k; out2 \<leftarrow> wr out1 k1 0x00; Some (out2, k1) }"

definition fat16_get_full_relative_filename :: "fat_dir_item \<Rightarrow> byte list \<Rightarrow> int \<Rightarrow> byte list option" where
  "fat16_get_full_relative_filename item out max_len =
     do {
       out0 \<leftarrow> memset out 0 (word_of_int max_len);
       (out1, k) \<leftarrow> fat16_to_proper_string out0 0 (fname item) 8;
       if ext item ! 0 \<noteq> 0x00 \<and> ext item ! 0 \<noteq> 0x20 then do {
         out2 \<leftarrow> wr out1 k 0x2E;
         (out3, _) \<leftarrow> fat16_to_proper_string out2 (k + 1) (ext item) 3;
         Some out3 }
       else Some out1 }"

definition fat16_clone_dir_item ::
  "'z kmem_scheme \<Rightarrow> fat_dir_item \<Rightarrow> int \<Rightarrow> ((addr \<times> fat_dir_item) option \<times> 'z kmem_scheme) option" where
  "fat16_clone_dir_item s item sz =
     (if sz < int sizeof_fat_dir_item then Some (None, s)
      else do {
        (p, s1) \<leftarrow> kzalloc s (word_of_int sz);
        if p = 0 then Some (None, s1) else Some (Some (p, item), s1) })"

subsection \<open>Clusters\<close>

definition fat16_get_first_cluster :: "fat_dir_item \<Rightarrow> int" where
  "fat16_get_first_cluster item = high_16_bits_first_cluster item OR low_16_bits_first_cluster item"

definition fat16_cluster_to_sector :: "fat_private \<Rightarrow> int \<Rightarrow> int" where
  "fat16_cluster_to_sector fp cluster =
     ending_sector_pos (root_dir fp) + (cluster - 2) * sectors_per_cluster (primary_header (header fp))"

definition fat16_get_first_fat_sector :: "fat_private \<Rightarrow> u32" where
  "fat16_get_first_fat_sector fp = word_of_int (reserved_sectors (primary_header (header fp)))"

text \<open>Where \<open>fat16_get_fat_entry\<close> looks for the entry of a cluster.\<close>

definition fat_entry_pos :: "disk \<Rightarrow> fat_private \<Rightarrow> int \<Rightarrow> int" where
  "fat_entry_pos d fp cluster =
     (let fat_table_position = fat16_get_first_fat_sector fp * word_of_int (sector_size d)
      in sint (fat_table_position * word_of_int (cluster * BENOS_FAT16_FAT_ENTRY_SIZE)))"

definition fat16_get_fat_entry :: "device \<Rightarrow> disk \<Rightarrow> fat_private \<Rightarrow> int \<Rightarrow> (int \<times> fat_private) option" where
  "fat16_get_fat_entry dev d fp cluster =
     (case fat_read_stream fp of
        None \<Rightarrow> Some (-1, fp)
      | Some stream \<Rightarrow> do {
          let (_, stream1) = diskstreamer_seek stream (fat_entry_pos d fp cluster);
          (res, bytes, stream2) \<leftarrow> diskstreamer_read dev stream1 2;
          let fp1 = fp\<lparr>fat_read_stream := Some stream2\<rparr>;
          if res < 0 then Some (res, fp1) else Some (le16 bytes 0, fp1) })"

fun cluster_loop :: "nat \<Rightarrow> device \<Rightarrow> disk \<Rightarrow> fat_private \<Rightarrow> int \<Rightarrow> (int \<times> fat_private) option" where
  "cluster_loop 0 dev d fp cluster_to_use = Some (cluster_to_use, fp)"
| "cluster_loop (Suc n) dev d fp cluster_to_use =
     do {
       (entry, fp1) \<leftarrow> fat16_get_fat_entry dev d fp cluster_to_use;
       if entry = 0xFF8 \<or> entry = 0xFFF then Some (- EIO, fp1)
       else if entry = BENOS_FAT16_BAD_SECTOR then Some (- EIO, fp1)
       else if entry = 0xFF0 \<or> entry = 0xFF6 then Some (- EIO, fp1)
       else if entry = 0x00 then Some (- EIO, fp1)
       else cluster_loop n dev d fp1 entry }"

definition size_of_cluster_bytes :: "disk \<Rightarrow> fat_private \<Rightarrow> int" where
  "size_of_cluster_bytes d fp = sectors_per_cluster (primary_header (header fp)) * sector_size d"

text \<open>A cluster size of 0 is a division by zero.\<close>

definition fat16_get_cluster_for_offset ::
  "device \<Rightarrow> disk \<Rightarrow> fat_private \<Rightarrow> int \<Rightarrow> int \<Rightarrow> (int \<times> fat_private) option" where
  "fat16_get_cluster_for_offset dev d fp starting_cluster offset =
     (if size_of_cluster_bytes d fp = 0 then None
      else cluster_loop (nat (cdiv offset (size_of_cluster_bytes d fp))) dev d fp starting_cluster)"

text \<open>
  The stream is \<open>cluster_read_stream\<close>, the only one that is passed. The result holds the bytes
  written to \<open>out\<close>.
\<close>

function fat16_read_internal_from_stream ::
  "device \<Rightarrow> disk \<Rightarrow> fat_private \<Rightarrow> int \<Rightarrow> int \<Rightarrow> int \<Rightarrow> (int \<times> byte list \<times> fat_private) option" where
  "fat16_read_internal_from_stream dev d fp cluster offset tot =
     (if size_of_cluster_bytes d fp \<le> 0 then None
      else do {
        (cluster_to_use, fp1) \<leftarrow> fat16_get_cluster_for_offset dev d fp cluster offset;
        if cluster_to_use < 0 then Some (cluster_to_use, [], fp1)
        else do {
          let offset_from_cluster = cmod offset (size_of_cluster_bytes d fp);
          let starting_sector = fat16_cluster_to_sector fp1 cluster_to_use;
          let starting_pos = starting_sector * sector_size d + offset_from_cluster;
          let total_to_read = (if tot > size_of_cluster_bytes d fp then size_of_cluster_bytes d fp else tot);
          stream \<leftarrow> cluster_read_stream fp1;
          let (_, stream1) = diskstreamer_seek stream starting_pos;
          (res, bytes, stream2) \<leftarrow> diskstreamer_read dev stream1 total_to_read;
          let fp2 = fp1\<lparr>cluster_read_stream := Some stream2\<rparr>;
          if res \<noteq> BENOS_ALL_OK then Some (res, bytes, fp2)
          else if tot - total_to_read > 0 then do {
            (res', bytes', fp3) \<leftarrow> fat16_read_internal_from_stream dev d fp2 cluster
               (offset + total_to_read) (tot - total_to_read);
            Some (res', bytes @ bytes', fp3) }
          else Some (res, bytes, fp2) } })"
  by pat_completeness auto
termination
  by (relation "measure (\<lambda>(dev, d, fp, cluster, offset, tot). nat tot)") (auto simp: Let_def)

declare fat16_read_internal_from_stream.simps [simp del]

definition fat16_read_internal ::
  "device \<Rightarrow> disk \<Rightarrow> fat_private \<Rightarrow> int \<Rightarrow> int \<Rightarrow> int \<Rightarrow> (int \<times> byte list \<times> fat_private) option" where
  "fat16_read_internal dev d fp start_cluster offset tot =
     fat16_read_internal_from_stream dev d fp start_cluster offset tot"

subsection \<open>Items\<close>

definition fat16_free_dir :: "'z kmem_scheme \<Rightarrow> dir_ptr \<Rightarrow> 'z kmem_scheme option" where
  "fat16_free_dir s dir =
     (case dir of
        Null_dir \<Rightarrow> Some s
      | Freed_dir \<Rightarrow> None
      | Dir x \<Rightarrow> do {
          s1 \<leftarrow> (if items_addr x \<noteq> 0 then kfree s (items_addr x) else Some s);
          kfree s1 (dir_addr x) })"

definition fat16_fat_item_free :: "'z kmem_scheme \<Rightarrow> fat_item \<Rightarrow> 'z kmem_scheme option" where
  "fat16_fat_item_free s item =
     do {
       s1 \<leftarrow> (case body item of
            Dir_item x \<Rightarrow> fat16_free_dir s x
          | File_item p _ \<Rightarrow> kfree s p
          | Null_item \<Rightarrow> kfree s 0);
       kfree s1 (item_addr item) }"

definition fat16_load_fat_dir ::
  "device \<Rightarrow> disk \<Rightarrow> 'z kmem_scheme \<Rightarrow> fat_private \<Rightarrow> fat_dir_item \<Rightarrow>
   (dir_ptr \<times> 'z kmem_scheme \<times> fat_private) option" where
  "fat16_load_fat_dir dev d s fp item =
     (if attributes item AND FAT_FILE_SUBDIRECTORY = 0
      then do { s1 \<leftarrow> fat16_free_dir s Null_dir; Some (Null_dir, s1, fp) }
      else do {
        (p, s1) \<leftarrow> kzalloc s 16;
        if p = 0 then do { s2 \<leftarrow> fat16_free_dir s1 Null_dir; Some (Null_dir, s2, fp) }
        else do {
          let cluster = fat16_get_first_cluster item;
          let cluster_sector = fat16_cluster_to_sector fp cluster;
          (total_items, fp1) \<leftarrow> fat16_get_total_items_for_dir dev d fp (word_of_int cluster_sector);
          let dir_size = total_items * int sizeof_fat_dir_item;
          (q, s2) \<leftarrow> kzalloc s1 (word_of_int dir_size);
          let dir = \<lparr>dir_addr = p, items_addr = q, items = [], dir_total = total_items,
                 sector_pos = 0, ending_sector_pos = 0\<rparr>;
          if q = 0 then do { s3 \<leftarrow> fat16_free_dir s2 (Dir dir); Some (Freed_dir, s3, fp1) }
          else do {
            (res, bytes, fp2) \<leftarrow> fat16_read_internal dev d fp1 cluster 0 dir_size;
            if res \<noteq> BENOS_ALL_OK
            then do { s3 \<leftarrow> fat16_free_dir s2 (Dir dir); Some (Freed_dir, s3, fp2) }
            else Some (Dir (dir\<lparr>items := bytes\<rparr>), s2, fp2) } } })"

definition fat16_new_fat_item_for_dir_item ::
  "device \<Rightarrow> disk \<Rightarrow> 'z kmem_scheme \<Rightarrow> fat_private \<Rightarrow> fat_dir_item \<Rightarrow>
   (fat_item option \<times> 'z kmem_scheme \<times> fat_private) option" where
  "fat16_new_fat_item_for_dir_item dev d s fp item =
     do {
       (p, s1) \<leftarrow> kzalloc s 8;
       if p = 0 then Some (None, s1, fp)
       else if attributes item AND FAT_FILE_SUBDIRECTORY \<noteq> 0 then do {
         (dir, s2, fp1) \<leftarrow> fat16_load_fat_dir dev d s1 fp item;
         Some (Some \<lparr>item_addr = p, body = Dir_item dir\<rparr>, s2, fp1) }
       else do {
         (copy, s2) \<leftarrow> fat16_clone_dir_item s1 item (int sizeof_fat_dir_item);
         Some (Some \<lparr>item_addr = p,
           body = (case copy of None \<Rightarrow> Null_item | Some (q, it) \<Rightarrow> File_item q it)\<rparr>, s2, fp) } }"

text \<open>Entry \<open>i\<close> of a directory; outside of the array that was read it is \<^term>\<open>None\<close>.\<close>

definition dir_entry :: "fat_dir \<Rightarrow> nat \<Rightarrow> fat_dir_item option" where
  "dir_entry dir i =
     (if 32 * i + 32 \<le> length (items dir) then Some (fat_dir_item_of (take 32 (drop (32 * i) (items dir)))) else None)"

text \<open>The loop of \<open>fat16_find_item_in_dir\<close>, \<open>n\<close> entries to go from entry \<open>i\<close>.\<close>

fun find_item_loop ::
  "nat \<Rightarrow> nat \<Rightarrow> device \<Rightarrow> disk \<Rightarrow> 'z kmem_scheme \<Rightarrow> fat_private \<Rightarrow> fat_dir \<Rightarrow> byte list \<Rightarrow>
   byte list \<Rightarrow> fat_item option \<Rightarrow> (fat_item option \<times> 'z kmem_scheme \<times> fat_private) option" where
  "find_item_loop 0 i dev d s fp dir name tmp f_item = Some (f_item, s, fp)"
| "find_item_loop (Suc n) i dev d s fp dir name tmp f_item =
     do {
       item \<leftarrow> dir_entry dir i;
       tmp1 \<leftarrow> fat16_get_full_relative_filename item tmp (int BENOS_MAX_PATH);
       r \<leftarrow> istrncmp tmp1 name (int BENOS_MAX_PATH);
       if r = 0 then do {
         (f, s1, fp1) \<leftarrow> fat16_new_fat_item_for_dir_item dev d s fp item;
         find_item_loop n (Suc i) dev d s1 fp1 dir name tmp1 f }
       else find_item_loop n (Suc i) dev d s fp dir name tmp1 f_item }"

definition fat16_find_item_in_dir ::
  "device \<Rightarrow> disk \<Rightarrow> 'z kmem_scheme \<Rightarrow> fat_private \<Rightarrow> fat_dir \<Rightarrow> byte list \<Rightarrow>
   (fat_item option \<times> 'z kmem_scheme \<times> fat_private) option" where
  "fat16_find_item_in_dir dev d s fp dir name =
     find_item_loop (nat (dir_total dir)) 0 dev d s fp dir name (replicate BENOS_MAX_PATH 0) None"

text \<open>
  The walk down the path. When a component is missing, \<open>curr_item\<close> becomes NULL and the next round
  reads its type.
\<close>

fun walk_path ::
  "device \<Rightarrow> disk \<Rightarrow> 'z kmem_scheme \<Rightarrow> fat_private \<Rightarrow> fat_item option \<Rightarrow> path_part list \<Rightarrow>
   (fat_item option \<times> 'z kmem_scheme \<times> fat_private) option" where
  "walk_path dev d s fp curr_item [] = Some (curr_item, s, fp)"
| "walk_path dev d s fp curr_item (next_part # parts) =
     (case curr_item of
        None \<Rightarrow> None
      | Some cur \<Rightarrow>
          (case body cur of
             Dir_item x \<Rightarrow>
               (case x of
                  Dir dir \<Rightarrow> do {
                    (tmp_item, s1, fp1) \<leftarrow> fat16_find_item_in_dir dev d s fp dir (part_str next_part);
                    s2 \<leftarrow> fat16_fat_item_free s1 cur;
                    walk_path dev d s2 fp1 tmp_item parts }
                | _ \<Rightarrow> None)
           | _ \<Rightarrow> Some (None, s, fp)))"

definition fat16_get_dir_entry ::
  "device \<Rightarrow> disk \<Rightarrow> 'z kmem_scheme \<Rightarrow> fat_private \<Rightarrow> path_part list \<Rightarrow>
   (fat_item option \<times> 'z kmem_scheme \<times> fat_private) option" where
  "fat16_get_dir_entry dev d s fp path =
     (case path of
        [] \<Rightarrow> None
      | first_part # parts \<Rightarrow> do {
          (root_item, s1, fp1) \<leftarrow> fat16_find_item_in_dir dev d s fp (root_dir fp) (part_str first_part);
          if root_item = None then Some (None, s1, fp1) else walk_path dev d s1 fp1 root_item parts })"

subsection \<open>Files\<close>

datatype FILE_MODE = FILE_MODE_READ | FILE_MODE_WRITE | FILE_MODE_APPEND | FILE_MODE_INVALID

record file_stat =
  stat_flags :: u32
  stat_size :: u32

definition FILE_STAT_READ_ONLY :: u32 where "FILE_STAT_READ_ONLY = 1"
definition SEEK_SET :: u32 where [status_simps]: "SEEK_SET = 0"
definition SEEK_CUR :: u32 where [status_simps]: "SEEK_CUR = 1"
definition SEEK_END :: u32 where [status_simps]: "SEEK_END = 2"

text \<open>The result is the error code or the descriptor.\<close>

definition fat16_open ::
  "device \<Rightarrow> disk \<Rightarrow> 'z kmem_scheme \<Rightarrow> fat_private \<Rightarrow> path_part list \<Rightarrow> FILE_MODE \<Rightarrow>
   ((int + fat_file_descriptor) \<times> 'z kmem_scheme \<times> fat_private) option" where
  "fat16_open dev d s fp path mode =
     (if mode \<noteq> FILE_MODE_READ then Some (Inl (- EREADONLY), s, fp)
      else do {
        (p, s1) \<leftarrow> kzalloc s 8;
        if p = 0 then Some (Inl (- ENOMEM), s1, fp)
        else do {
          (item, s2, fp1) \<leftarrow> fat16_get_dir_entry dev d s1 fp path;
          case item of
            None \<Rightarrow> do { s3 \<leftarrow> kfree s2 p; Some (Inl (- EIO), s3, fp1) }
          | Some it \<Rightarrow> Some (Inr \<lparr>desc_addr = p, desc_item = it, desc_pos = 0\<rparr>, s2, fp1) } })"

definition fat16_free_file_descriptor :: "'z kmem_scheme \<Rightarrow> fat_file_descriptor \<Rightarrow> 'z kmem_scheme option" where
  "fat16_free_file_descriptor s desc =
     do { s1 \<leftarrow> fat16_fat_item_free s (desc_item desc); kfree s1 (desc_addr desc) }"

definition fat16_close :: "'z kmem_scheme \<Rightarrow> fat_file_descriptor \<Rightarrow> (int \<times> 'z kmem_scheme) option" where
  "fat16_close s desc = do { s1 \<leftarrow> fat16_free_file_descriptor s desc; Some (0, s1) }"

definition fat16_stat :: "fat_file_descriptor \<Rightarrow> file_stat \<Rightarrow> (int \<times> file_stat) option" where
  "fat16_stat desc stat =
     (case body (desc_item desc) of
        Dir_item _ \<Rightarrow> Some (- EINVARG, stat)
      | Null_item \<Rightarrow> None
      | File_item _ ritem \<Rightarrow>
          Some (0, \<lparr>stat_flags = (if attributes ritem AND FAT_FILE_READ_ONLY \<noteq> 0 then FILE_STAT_READ_ONLY else 0),
            stat_size = file_size ritem\<rparr>))"

text \<open>\<open>n\<close> elements to go.\<close>

fun fat16_read_loop ::
  "nat \<Rightarrow> device \<Rightarrow> disk \<Rightarrow> fat_private \<Rightarrow> fat_dir_item \<Rightarrow> int \<Rightarrow> u32 \<Rightarrow> (int \<times> byte list \<times> fat_private) option" where
  "fat16_read_loop 0 dev d fp item offset sz = Some (0, [], fp)"
| "fat16_read_loop (Suc n) dev d fp item offset sz =
     do {
       (res, bytes, fp1) \<leftarrow> fat16_read_internal dev d fp (fat16_get_first_cluster item) offset (sint sz);
       if res < 0 then Some (res, bytes, fp1)
       else do {
         (res', bytes', fp2) \<leftarrow> fat16_read_loop n dev d fp1 item (i32 (offset + uint sz)) sz;
         Some (res', bytes @ bytes', fp2) } }"

definition fat16_read ::
  "device \<Rightarrow> disk \<Rightarrow> fat_private \<Rightarrow> fat_file_descriptor \<Rightarrow> u32 \<Rightarrow> u32 \<Rightarrow> (int \<times> byte list \<times> fat_private) option" where
  "fat16_read dev d fp desc sz nmemb =
     (case body (desc_item desc) of
        File_item _ item \<Rightarrow> do {
          (res, bytes, fp1) \<leftarrow> fat16_read_loop (unat nmemb) dev d fp item (sint (desc_pos desc)) sz;
          Some (if res < 0 then res else sint nmemb, bytes, fp1) }
      | _ \<Rightarrow> None)"

definition fat16_seek :: "fat_file_descriptor \<Rightarrow> u32 \<Rightarrow> u32 \<Rightarrow> (int \<times> fat_file_descriptor) option" where
  "fat16_seek desc offset seek_mode =
     (case body (desc_item desc) of
        Dir_item _ \<Rightarrow> Some (- EINVARG, desc)
      | Null_item \<Rightarrow> None
      | File_item _ ritem \<Rightarrow>
          Some (if offset \<ge> file_size ritem then (- EIO, desc)
            else if seek_mode = SEEK_SET then (0, desc\<lparr>desc_pos := offset\<rparr>)
            else if seek_mode = SEEK_END then (- EUNIMP, desc)
            else if seek_mode = SEEK_CUR then (0, desc\<lparr>desc_pos := desc_pos desc + offset\<rparr>)
            else (- EINVARG, desc)))"

subsection \<open>Mounting\<close>

definition zero_header :: fat_h where "zero_header = fat_h_of (replicate sizeof_fat_h 0)"

definition fat16_init_private ::
  "disk \<Rightarrow> 'z kmem_scheme \<Rightarrow> addr \<Rightarrow> (fat_private \<times> 'z kmem_scheme) option" where
  "fat16_init_private d s private =
     do {
       (st1, s1) \<leftarrow> diskstreamer_new s (disk_id d);
       (st2, s2) \<leftarrow> diskstreamer_new s1 (disk_id d);
       (st3, s3) \<leftarrow> diskstreamer_new s2 (disk_id d);
       Some (\<lparr>private_addr = private, header = zero_header,
          root_dir = \<lparr>dir_addr = 0, items_addr = 0, items = [], dir_total = 0, sector_pos = 0,
            ending_sector_pos = 0\<rparr>,
          cluster_read_stream = st1, fat_read_stream = st2, dir_stream = st3\<rparr>, s3) }"

text \<open>The private data of the disk is \<^term>\<open>None\<close> when the file system is refused.\<close>

definition fat16_resolve ::
  "device \<Rightarrow> disk \<Rightarrow> 'z kmem_scheme \<Rightarrow> (int \<times> 'z kmem_scheme \<times> fat_private option) option" where
  "fat16_resolve dev d s =
     do {
       (private, s1) \<leftarrow> kzalloc s 92;
       if private = 0 then None
       else do {
         (fp, s2) \<leftarrow> fat16_init_private d s1 private;
         (st, s3) \<leftarrow> diskstreamer_new s2 (disk_id d);
         case st of
           None \<Rightarrow> do { s4 \<leftarrow> kfree s3 private; Some (- ENOMEM, s4, None) }
         | Some stream \<Rightarrow> do {
             (res, bytes, stream1) \<leftarrow> diskstreamer_read dev stream (int sizeof_fat_h);
             (res1, s4, fp1) \<leftarrow>
               (if res \<noteq> BENOS_ALL_OK then Some (- EIO, s3, fp)
                else (let fp' = fp\<lparr>header := fat_h_of bytes\<rparr>
                      in if signature (extended_header (header fp')) \<noteq> 0x29 then Some (- EFSNOTUS, s3, fp')
                         else do {
                           (r, s', fp'') \<leftarrow> fat16_get_root_dir dev d s3 fp';
                           Some (if r \<noteq> BENOS_ALL_OK then - EIO else 0, s', fp'') }));
             s5 \<leftarrow> diskstreamer_close s4 stream1;
             if res1 < 0 then do { s6 \<leftarrow> kfree s5 private; Some (res1, s6, None) }
             else Some (res1, s5, Some fp1) } } }"

end
