(* ===== verification/FatDir.thy ===== *)
theory FatDir
  imports Fat16
begin

text \<open>
  Directories of the FAT16 file system (\<^verbatim>\<open>src/fs/fat/fat16.c\<close>): the name of an entry as
  the code compares it, the number of entries that a directory is found to have, and the outcome of
  a lookup.
\<close>

subsection \<open>Names\<close>

text \<open>A padded field of a name, and the name of an entry as a path writes it.\<close>

definition field_text :: "byte list \<Rightarrow> byte list" where
  "field_text xs = takeWhile (\<lambda>c. c \<noteq> 0x00 \<and> c \<noteq> 0x20) xs"

definition full_name :: "fat_dir_item \<Rightarrow> byte list" where
  "full_name item = field_text (fname item) @
     (if field_text (ext item) = [] then [] else 0x2E # field_text (ext item))"

lemma field_text_simps [simp]:
  "field_text [] = []"
  "field_text (c # xs) = (if c \<noteq> 0x00 \<and> c \<noteq> 0x20 then c # field_text xs else [])"
  by (simp_all add: field_text_def)

lemma length_field_text: "length (field_text xs) \<le> length xs"
  by (simp add: field_text_def length_takeWhile_le)

lemma field_text_zero: "0 \<notin> set (field_text xs)"
  by (induction xs) auto

lemma wr_append [simp]: "wr (pre @ x # rest) (int (length pre)) v = Some (pre @ v # rest)"
  by (simp add: wr_nat)

lemma wr_at: "i = int (length pre) \<Longrightarrow> wr (pre @ x # rest) i v = Some (pre @ v # rest)"
  by simp

lemma proper_string_loop_eq:
  assumes "inp \<noteq> []" "int (length inp) = sz - i" "length (field_text inp) \<le> length rest"
  shows "proper_string_loop inp i sz (pre @ rest) (int (length pre)) =
    Some (pre @ field_text inp @ drop (length (field_text inp)) rest, int (length pre + length (field_text inp)))"
  using assms
proof (induction inp arbitrary: i pre rest)
  case (Cons c inp)
  show ?case
  proof (cases "c \<noteq> 0x00 \<and> c \<noteq> 0x20")
    case False
    then show ?thesis by auto
  next
    case True
    then obtain r rest' where r: "rest = r # rest'" using Cons.prems(3) by (cases rest) auto
    have w: "wr (pre @ rest) (int (length pre)) c = Some ((pre @ [c]) @ rest')"
      by (simp add: wr_nat r)
    show ?thesis
    proof (cases "inp = []")
      case True
      then show ?thesis using Cons.prems(2) \<open>c \<noteq> 0x00 \<and> c \<noteq> 0x20\<close> w r by simp
    next
      case False
      then have lt: "\<not> sz - 1 \<le> i" using Cons.prems(2) by (cases inp) auto
      have "proper_string_loop inp (i + 1) sz ((pre @ [c]) @ rest') (int (length (pre @ [c]))) =
        Some ((pre @ [c]) @ field_text inp @ drop (length (field_text inp)) rest',
          int (length (pre @ [c]) + length (field_text inp)))"
        by (rule Cons.IH [OF False]) (use Cons.prems r True in auto)
      then show ?thesis using True w lt r by (simp add: add.commute)
    qed
  qed
qed simp

lemma to_proper_string_eq:
  assumes "inp \<noteq> []" "int (length inp) = sz" "length (field_text inp) < length rest"
  shows "fat16_to_proper_string (pre @ rest) (int (length pre)) inp sz =
    Some (pre @ field_text inp @ 0 # drop (Suc (length (field_text inp))) rest,
      int (length pre + length (field_text inp)))"
proof -
  have "proper_string_loop inp 0 sz (pre @ rest) (int (length pre)) =
    Some (pre @ field_text inp @ drop (length (field_text inp)) rest, int (length pre + length (field_text inp)))"
    by (rule proper_string_loop_eq) (use assms in auto)
  moreover have "wr (pre @ field_text inp @ drop (length (field_text inp)) rest)
      (int (length pre + length (field_text inp))) 0 =
      Some (pre @ field_text inp @ 0 # drop (Suc (length (field_text inp))) rest)"
    using wr_append [of "pre @ field_text inp" _ "drop (Suc (length (field_text inp))) rest" 0]
    by (simp add: Cons_nth_drop_Suc [OF assms(3), symmetric])
  ultimately show ?thesis by (simp add: fat16_to_proper_string_def)
qed

definition entry_ok :: "fat_dir_item \<Rightarrow> bool" where
  "entry_ok item \<longleftrightarrow> length (fname item) = 8 \<and> length (ext item) = 3"

lemma full_name_eq:
  assumes "entry_ok item" "length out = 108"
  shows "fat16_get_full_relative_filename item out 108 =
    Some (full_name item @ replicate (108 - length (full_name item)) 0)"
proof -
  let ?f = "field_text (fname item)" and ?e = "field_text (ext item)"
  have lf: "length ?f \<le> 8" "length ?e \<le> 3"
    using length_field_text [of "fname item"] length_field_text [of "ext item"] assms(1) by (auto simp: entry_ok_def)
  have ne: "fname item \<noteq> []" "ext item \<noteq> []" using assms(1) by (auto simp: entry_ok_def)
  have m: "memset out 0 108 = Some (replicate 108 0)" using assms(2) by (simp add: memset_eq)
  have s: "0 # replicate (107 - n) 0 = replicate (108 - n) (0 :: byte)" if "n \<le> 107" for n
  proof -
    have "108 - n = Suc (107 - n)" using that by linarith
    then show ?thesis by (simp only: replicate_Suc)
  qed
  have p: "fat16_to_proper_string (replicate 108 0) 0 (fname item) 8 =
      Some (?f @ replicate (108 - length ?f) 0, int (length ?f))"
    using to_proper_string_eq [of "fname item" 8 "replicate 108 0" "[]"] ne lf assms(1) s [of "length ?f"]
    by (simp add: entry_ok_def)
  have e0: "ext item ! 0 \<noteq> 0 \<and> ext item ! 0 \<noteq> 0x20 \<longleftrightarrow> ?e \<noteq> []"
    using ne(2) by (cases "ext item") auto
  show ?thesis
  proof (cases "?e = []")
    case True
    then show ?thesis
      using m p e0 by (auto simp: fat16_get_full_relative_filename_def full_name_def)
  next
    case False
    have w: "wr (?f @ replicate (108 - length ?f) 0) (int (length ?f)) 0x2E =
        Some ((?f @ [0x2E]) @ replicate (107 - length ?f) 0)"
      using lf s [of "length ?f", symmetric] by (simp add: wr_nat list_update_append)
    have q: "fat16_to_proper_string ((?f @ [0x2E]) @ replicate (107 - length ?f) 0) (int (length ?f) + 1)
        (ext item) 3 = Some ((?f @ [0x2E]) @ ?e @ 0 # drop (Suc (length ?e)) (replicate (107 - length ?f) 0),
          int (length (?f @ [0x2E]) + length ?e))"
      using to_proper_string_eq [of "ext item" 3 "replicate (107 - length ?f) 0" "?f @ [0x2E]"] ne lf assms(1)
      by (simp add: entry_ok_def add.commute)
    have "0 # drop (Suc (length ?e)) (replicate (107 - length ?f) 0) =
        replicate (108 - length (full_name item)) (0 :: byte)"
      using lf False s [of "Suc (length ?f + length ?e)"] by (simp add: full_name_def)
    then show ?thesis
      using m p e0 False w q by (auto simp: fat16_get_full_relative_filename_def full_name_def)
  qed
qed

subsection \<open>Counting the entries of a directory\<close>

definition stream_at :: "disk_stream \<Rightarrow> nat \<Rightarrow> bool" where
  "stream_at st p \<longleftrightarrow> stream_disk st = Some 0 \<and> pos st = int p"

lemma stream_at_seek [simp]: "stream_at (st\<lparr>pos := int q\<rparr>) p \<longleftrightarrow> stream_disk st = Some 0 \<and> q = p"
  by (auto simp: stream_at_def)

lemma stream_read:
  assumes "sectors_512 dev" "stream_at st p" "p + n < 2147483648"
  shows "diskstreamer_read dev st (int n) = Some (0, disk_bytes dev p n, st\<lparr>pos := int (p + n)\<rparr>)"
  using assms by (intro diskstreamer_read_eq) (auto simp: stream_at_def)

text \<open>
  A directory on the disk: its entries start at byte \<open>p\<close>, the first byte of an entry is 0 behind
  the last one and 0xE5 for a deleted one.
\<close>

definition dir_mark :: "device \<Rightarrow> nat \<Rightarrow> nat \<Rightarrow> byte" where
  "dir_mark dev p k = disk_byte dev (p + 32 * k)"

definition dir_ends :: "device \<Rightarrow> nat \<Rightarrow> nat \<Rightarrow> bool" where
  "dir_ends dev p k \<longleftrightarrow> (\<forall>j < k. dir_mark dev p j \<noteq> 0) \<and> dir_mark dev p k = 0"

definition live_entries :: "device \<Rightarrow> nat \<Rightarrow> nat \<Rightarrow> nat" where
  "live_entries dev p k = length (filter (\<lambda>j. dir_mark dev p j \<noteq> 0xE5) [0..<k])"

lemma dir_mark_Suc: "dir_mark dev p (Suc k) = dir_mark dev (p + 32) k"
  by (simp add: dir_mark_def add.assoc)

lemma dir_ends_Suc: "dir_ends dev p (Suc k) \<longleftrightarrow> dir_mark dev p 0 \<noteq> 0 \<and> dir_ends dev (p + 32) k"
  unfolding dir_ends_def by (auto simp: less_Suc_eq_0_disj dir_mark_Suc)

lemma live_entries_Suc:
  "live_entries dev p (Suc k) = (if dir_mark dev p 0 \<noteq> 0xE5 then 1 else 0) + live_entries dev (p + 32) k"
proof -
  have "[0..<Suc k] = 0 # map Suc [0..<k]" by (simp add: map_Suc_upt upt_conv_Cons)
  then show ?thesis
    by (simp add: live_entries_def filter_map comp_def dir_mark_Suc del: upt_Suc)
qed

lemma disk_bytes_0: "0 < n \<Longrightarrow> disk_bytes dev p n ! 0 = disk_byte dev p"
  by (simp add: disk_bytes_def)

lemma count_items_eq:
  assumes "sectors_512 dev" "stream_at st p" "dir_ends dev p k" "p + 32 * k + 32 < 2147483648"
  shows "count_items dev st i = Some (i + int (live_entries dev p k), st\<lparr>pos := int (p + 32 * k + 32)\<rparr>)"
  using assms(2-4)
proof (induction k arbitrary: p st i)
  case 0
  have "diskstreamer_read dev st 32 = Some (0, disk_bytes dev p 32, st\<lparr>pos := int (p + 32)\<rparr>)"
    using stream_read [OF assms(1) "0.prems"(1), of 32] "0.prems"(3) by simp
  moreover have "disk_byte dev p = 0" using "0.prems"(2) by (simp add: dir_ends_def dir_mark_def)
  ultimately show ?case
    by (subst count_items.simps) (simp add: sizeof_fat_dir_item_def status_simps disk_bytes_0 live_entries_def)
next
  case (Suc k)
  have r: "diskstreamer_read dev st 32 = Some (0, disk_bytes dev p 32, st\<lparr>pos := int (p + 32)\<rparr>)"
    using stream_read [OF assms(1) Suc.prems(1), of 32] Suc.prems(3) by simp
  let ?st = "st\<lparr>pos := int (p + 32)\<rparr>"
  have m: "disk_byte dev p \<noteq> 0" "dir_ends dev (p + 32) k"
    using Suc.prems(2) by (auto simp: dir_ends_Suc) (simp add: dir_mark_def)
  have IH: "count_items dev ?st j = Some (j + int (live_entries dev (p + 32) k), ?st\<lparr>pos := int (p + 32 + 32 * k + 32)\<rparr>)" for j
    by (rule Suc.IH) (use Suc.prems m in \<open>auto simp: stream_at_def\<close>)
  show ?case
    using r m IH
    by (subst count_items.simps)
      (simp add: sizeof_fat_dir_item_def status_simps disk_bytes_0 live_entries_Suc dir_mark_def add.commute add.left_commute)
qed

subsection \<open>Looking up a name\<close>

text \<open>The entries of a directory that the search visits, and the name test it makes.\<close>

definition entry_at :: "fat_dir \<Rightarrow> nat \<Rightarrow> fat_dir_item" where
  "entry_at dir i = fat_dir_item_of (take 32 (drop (32 * i) (items dir)))"

definition dir_ok :: "fat_dir \<Rightarrow> bool" where
  "dir_ok dir \<longleftrightarrow> 0 \<le> dir_total dir \<and> 32 * nat (dir_total dir) \<le> length (items dir)"

definition name_matches :: "byte list \<Rightarrow> fat_dir_item \<Rightarrow> bool" where
  "name_matches name it \<longleftrightarrow> map tolower (full_name it) = map tolower (cstr name)"

definition is_name :: "byte list \<Rightarrow> bool" where
  "is_name name \<longleftrightarrow> terminated name \<and> length (cstr name) < 108"

definition is_subdirectory :: "fat_dir_item \<Rightarrow> bool" where
  "is_subdirectory it \<longleftrightarrow> attributes it AND FAT_FILE_SUBDIRECTORY \<noteq> 0"

lemma entry_ok_at: "32 * i + 32 \<le> length (items dir) \<Longrightarrow> entry_ok (entry_at dir i)"
  by (simp add: entry_ok_def entry_at_def fat_dir_item_of_def)

lemma dir_entry_at: "32 * i + 32 \<le> length (items dir) \<Longrightarrow> dir_entry dir i = Some (entry_at dir i)"
  by (simp add: dir_entry_def entry_at_def)

lemma full_name_props: "entry_ok it \<Longrightarrow> 0 \<notin> set (full_name it) \<and> length (full_name it) \<le> 12"
  using length_field_text [of "fname it"] length_field_text [of "ext it"]
    field_text_zero [of "fname it"] field_text_zero [of "ext it"]
  by (auto simp: full_name_def entry_ok_def)

lemma cstr_padded: "0 \<notin> set xs \<Longrightarrow> 0 < n \<Longrightarrow> cstr (xs @ replicate n 0) = xs \<and> terminated (xs @ replicate n 0)"
  by (cases n) (simp_all add: replicate_Suc)

lemma name_test:
  assumes "entry_ok it" "length tmp = 108" "is_name name"
  obtains tmp' r where "fat16_get_full_relative_filename it tmp 108 = Some tmp'" "length tmp' = 108"
    "istrncmp tmp' name 108 = Some r" "r = 0 \<longleftrightarrow> name_matches name it"
proof -
  let ?t = "full_name it @ replicate (108 - length (full_name it)) 0"
  have f: "cstr ?t = full_name it" "terminated ?t"
    using cstr_padded [of "full_name it" "108 - length (full_name it)"] full_name_props [OF assms(1)] by auto
  have n: "terminated name" "length (cstr name) < 108" using assms(3) by (auto simp: is_name_def)
  obtain r where r: "istrncmp ?t name 108 = Some r" using istrncmp_returns [OF f(2) n(1), of 108] by auto
  have "r = 0 \<longleftrightarrow> name_matches name it"
    using istrncmp_eq_0 [OF f(2) n(1), of 108] r f(1) n(2) full_name_props [OF assms(1)]
    by (simp add: name_matches_def)
  then show ?thesis
    using that [of ?t r] full_name_eq [OF assms(1,2)] r full_name_props [OF assms(1)] by auto
qed

lemma find_item_none:
  assumes "is_name name" "length tmp = 108" "32 * (i + n) \<le> length (items dir)"
    "\<forall>j. i \<le> j \<and> j < i + n \<longrightarrow> \<not> name_matches name (entry_at dir j)"
  shows "find_item_loop n i dev d s fp dir name tmp f = Some (f, s, fp)"
  using assms(2-4)
proof (induction n arbitrary: i tmp)
  case (Suc n)
  have i: "32 * i + 32 \<le> length (items dir)" using Suc.prems(2) by simp
  obtain tmp' r where t: "fat16_get_full_relative_filename (entry_at dir i) tmp 108 = Some tmp'" "length tmp' = 108"
      "istrncmp tmp' name 108 = Some r" "r = 0 \<longleftrightarrow> name_matches name (entry_at dir i)"
    using name_test [OF entry_ok_at [OF i] Suc.prems(1) assms(1)] by blast
  have "find_item_loop n (Suc i) dev d s fp dir name tmp' f = Some (f, s, fp)"
    by (rule Suc.IH) (use t(2) Suc.prems in auto)
  moreover have "r \<noteq> 0" using t(4) Suc.prems(3) by auto
  ultimately show ?case using dir_entry_at [OF i] t(1-3) by (simp add: status_simps)
qed simp

lemma find_item_one:
  fixes s :: "'z kmem_scheme"
  assumes "is_name name" "length tmp = 108" "32 * (i + n) \<le> length (items dir)"
    "i \<le> k" "k < i + n" "name_matches name (entry_at dir k)"
    "\<forall>j. i \<le> j \<and> j < i + n \<and> j \<noteq> k \<longrightarrow> \<not> name_matches name (entry_at dir j)"
  shows "find_item_loop n i dev d s fp dir name tmp f = fat16_new_fat_item_for_dir_item dev d s fp (entry_at dir k)"
  using assms(2-5,7)
proof (induction n arbitrary: i tmp)
  case (Suc n)
  have i: "32 * i + 32 \<le> length (items dir)" using Suc.prems(2) by simp
  obtain tmp' r where t: "fat16_get_full_relative_filename (entry_at dir i) tmp 108 = Some tmp'" "length tmp' = 108"
      "istrncmp tmp' name 108 = Some r" "r = 0 \<longleftrightarrow> name_matches name (entry_at dir i)"
    using name_test [OF entry_ok_at [OF i] Suc.prems(1) assms(1)] by blast
  show ?case
  proof (cases "i = k")
    case True
    have "find_item_loop n (Suc i) dev d s' fp' dir name tmp' f' = Some (f', s', fp')" for s' :: "'z kmem_scheme" and fp' f'
      by (rule find_item_none) (use assms(1) t(2) Suc.prems True in auto)
    then show ?thesis
      using dir_entry_at [OF i] t assms(6) True
      by (simp add: status_simps split_def)
  next
    case False
    have "find_item_loop n (Suc i) dev d s fp dir name tmp' f =
        fat16_new_fat_item_for_dir_item dev d s fp (entry_at dir k)"
      by (rule Suc.IH) (use t(2) Suc.prems False in auto)
    moreover have "r \<noteq> 0" using t(4) Suc.prems(5) False by auto
    ultimately show ?thesis using dir_entry_at [OF i] t(1-3) by (simp add: status_simps)
  qed
qed simp

lemma item_requests [simp]: "ok_size 8" "blocks_of 8 = 1" "ok_size 32" "blocks_of 32 = 1" "ok_size 16" "blocks_of 16 = 1"
  by (simp_all add: ok_size_def blocks_of_def)

lemma new_file_item:
  assumes "k_inv s" "2 \<le> free_blocks s" "\<not> is_subdirectory it"
  obtains p q s' where "fat16_new_fat_item_for_dir_item dev d s fp it =
      Some (Some \<lparr>item_addr = p, body = File_item q it\<rparr>, s', fp)"
    "kgrown s [p, q] s'" "free_blocks s' = free_blocks s - 2" "kframe s' = kframe s"
proof -
  obtain p s1 where z: "kzalloc s 8 = Some (p, s1)" "p \<noteq> 0" "free_blocks s1 = free_blocks s - 1"
    using kzalloc_one_block [OF assms(1) item_requests(1,2)] assms(2) by auto
  have g1: "kgrown s [p] s1" by (rule kgrown_alloc [OF assms(1) item_requests(1,2) z(1,2)])
  obtain q s2 where y: "kzalloc s1 32 = Some (q, s2)" "q \<noteq> 0" "free_blocks s2 = free_blocks s1 - 1"
    using kzalloc_one_block [OF kgrownD(1) [OF g1] item_requests(3,4)] assms(2) z(3) by auto
  have g2: "kgrown s1 [q] s2" by (rule kgrown_alloc [OF kgrownD(1) [OF g1] item_requests(3,4) y(1,2)])
  show ?thesis
    using that [of p q s2] z y assms(3) kgrown_trans [OF g1 g2] kzalloc_more [OF z(1)] kzalloc_more [OF y(1)]
    by (simp add: fat16_new_fat_item_for_dir_item_def fat16_clone_dir_item_def is_subdirectory_def sizeof_fat_dir_item_def)
qed

end
