(* ===== verification/FatFile.thy ===== *)
theory FatFile
  imports FatDir
begin

text \<open>
  Files of the root directory: reading inside the first cluster, opening, seeking, closing, and
  where the allocation table is read.
\<close>

subsection \<open>Reading the first cluster\<close>

definition cluster_bytes :: "fat_private \<Rightarrow> nat" where
  "cluster_bytes fp = nat (sectors_per_cluster (primary_header (header fp))) * 512"

text \<open>The byte of the disk where the data of a cluster start.\<close>

definition data_pos :: "fat_private \<Rightarrow> nat \<Rightarrow> nat" where
  "data_pos fp c = nat ((ending_sector_pos (root_dir fp)
     + (int c - 2) * sectors_per_cluster (primary_header (header fp))) * 512)"

text \<open>A cluster from which \<open>n\<close> bytes can be streamed.\<close>

definition cluster_ok :: "disk \<Rightarrow> fat_private \<Rightarrow> nat \<Rightarrow> bool" where
  "cluster_ok d fp c \<longleftrightarrow> sector_size d = 512 \<and> 0 \<le> ending_sector_pos (root_dir fp) \<and> 2 \<le> c \<and>
     0 < sectors_per_cluster (primary_header (header fp)) \<and> data_pos fp c + cluster_bytes fp < 2147483648 \<and>
     (\<exists>st. cluster_read_stream fp = Some st \<and> stream_disk st = Some 0)"

lemma cluster_okD:
  assumes "cluster_ok d fp c"
  shows "sector_size d = 512" "size_of_cluster_bytes d fp = int (cluster_bytes fp)" "0 < cluster_bytes fp"
    "fat16_cluster_to_sector fp (int c) * 512 = int (data_pos fp c)" "data_pos fp c + cluster_bytes fp < 2147483648"
proof -
  have "0 \<le> (int c - 2) * sectors_per_cluster (primary_header (header fp))"
    using assms by (intro mult_nonneg_nonneg) (auto simp: cluster_ok_def)
  then show "fat16_cluster_to_sector fp (int c) * 512 = int (data_pos fp c)"
    using assms by (simp add: fat16_cluster_to_sector_def data_pos_def cluster_ok_def)
qed (use assms in \<open>auto simp: cluster_ok_def cluster_bytes_def size_of_cluster_bytes_def\<close>)

lemma cluster_ok_stream:
  assumes "cluster_ok d fp c"
  shows "\<exists>st. cluster_read_stream fp = Some st \<and> stream_disk st = Some 0"
  using assms by (simp add: cluster_ok_def)

lemma cluster_ok_moved:
  assumes "cluster_ok d fp c" "stream_disk st = Some 0"
  shows "cluster_ok d (fp\<lparr>cluster_read_stream := Some st\<rparr>) c"
    "data_pos (fp\<lparr>cluster_read_stream := Some st\<rparr>) c = data_pos fp c"
    "cluster_bytes (fp\<lparr>cluster_read_stream := Some st\<rparr>) = cluster_bytes fp"
  using assms by (simp_all add: cluster_ok_def data_pos_def cluster_bytes_def)

lemma read_internal_first:
  assumes "sectors_512 dev" "cluster_ok d fp c" "off < cluster_bytes fp" "off + n \<le> cluster_bytes fp"
  obtains st where "cluster_read_stream fp = Some st" "stream_disk st = Some 0"
    "fat16_read_internal dev d fp (int c) (int off) (int n) =
      Some (0, disk_bytes dev (data_pos fp c + off) n,
        fp\<lparr>cluster_read_stream := Some (st\<lparr>pos := int (data_pos fp c + off + n)\<rparr>)\<rparr>)"
proof -
  note c = cluster_okD [OF assms(2)]
  obtain st where st: "cluster_read_stream fp = Some st" "stream_disk st = Some 0"
    using cluster_ok_stream [OF assms(2)] by blast
  have cd: "cdiv (int off) (int (cluster_bytes fp)) = 0" "cmod (int off) (int (cluster_bytes fp)) = int off"
    using assms(3) by (simp_all add: zdiv_int [symmetric] zmod_int [symmetric])
  then have g: "fat16_get_cluster_for_offset dev d fp (int c) (int off) = Some (int c, fp)"
    using c(2,3) by (simp add: fat16_get_cluster_for_offset_def)
  have r: "diskstreamer_read dev (st\<lparr>pos := int (data_pos fp c + off)\<rparr>) (int n) =
      Some (0, disk_bytes dev (data_pos fp c + off) n, st\<lparr>pos := int (data_pos fp c + off + n)\<rparr>)"
    using stream_read [OF assms(1), of "st\<lparr>pos := int (data_pos fp c + off)\<rparr>" "data_pos fp c + off" n]
      c(5) assms(4) st(2) by (simp add: stream_at_def)
  have "\<not> int (cluster_bytes fp) < int n" using assms(4) by simp
  then have "fat16_read_internal dev d fp (int c) (int off) (int n) =
      Some (0, disk_bytes dev (data_pos fp c + off) n,
        fp\<lparr>cluster_read_stream := Some (st\<lparr>pos := int (data_pos fp c + off + n)\<rparr>)\<rparr>)"
    using g c(1,2,3,4) st r cd(2) unfolding fat16_read_internal_def
    by (subst fat16_read_internal_from_stream.simps) (simp add: Let_def diskstreamer_seek_def status_simps)
  then show ?thesis using that st by blast
qed

lemma read_loop_first:
  assumes "sectors_512 dev" "cluster_ok d fp c" "fat16_get_first_cluster it = int c"
    "sz < 2147483648" "off + n * unat sz \<le> cluster_bytes fp" "0 < sz"
  shows "\<exists>st. stream_disk st = Some 0 \<and> fat16_read_loop n dev d fp it (int off) sz =
    Some (0, disk_bytes dev (data_pos fp c + off) (n * unat sz), fp\<lparr>cluster_read_stream := Some st\<rparr>)"
  using assms(2,5)
proof (induction n arbitrary: fp off)
  case 0
  obtain st where st: "cluster_read_stream fp = Some st" "stream_disk st = Some 0"
    using cluster_ok_stream [OF "0.prems"(1)] by blast
  then have "fp\<lparr>cluster_read_stream := Some st\<rparr> = fp" by simp
  then show ?case using st(2) by (intro exI [of _ st]) (simp add: disk_bytes_def)
next
  case (Suc n)
  let ?m = "unat sz"
  have m: "0 < ?m" "sint sz = int ?m"
    using assms(4,6) by (simp_all add: sint_small word_less_nat_alt unat_gt_0)
  have b: "off < cluster_bytes fp" "off + ?m \<le> cluster_bytes fp" "off + ?m + n * ?m \<le> cluster_bytes fp"
    using Suc.prems(2) m(1) by auto
  obtain st where st: "cluster_read_stream fp = Some st" "stream_disk st = Some 0"
      "fat16_read_internal dev d fp (int c) (int off) (int ?m) =
        Some (0, disk_bytes dev (data_pos fp c + off) ?m,
          fp\<lparr>cluster_read_stream := Some (st\<lparr>pos := int (data_pos fp c + off + ?m)\<rparr>)\<rparr>)"
    using read_internal_first [OF assms(1) Suc.prems(1) b(1,2)] by blast
  let ?fp = "fp\<lparr>cluster_read_stream := Some (st\<lparr>pos := int (data_pos fp c + off + ?m)\<rparr>)\<rparr>"
  have same: "cluster_ok d ?fp c" "data_pos ?fp c = data_pos fp c" "cluster_bytes ?fp = cluster_bytes fp"
    by (rule cluster_ok_moved [OF Suc.prems(1)]; use st(2) in simp)+
  have i: "i32 (int off + uint sz) = int (off + ?m)"
  proof -
    have "off + ?m < 2147483648" using b(2) cluster_okD(5) [OF Suc.prems(1)] by linarith
    then have "int (off + ?m) < 2147483648" by linarith
    moreover have "(2147483648 :: int) = 2 ^ 31" by simp
    ultimately have "int (off + ?m) < 2 ^ 31" by (simp only:)
    moreover have "- (2 ^ 31) \<le> int (off + ?m)" using of_nat_0_le_iff [of "off + ?m"] by (rule order_trans [rotated]) simp
    moreover have "int off + uint sz = int (off + ?m)" by simp
    ultimately show ?thesis by (simp only: i32_id)
  qed
  have "\<exists>st. stream_disk st = Some 0 \<and> fat16_read_loop n dev d ?fp it (int (off + ?m)) sz =
      Some (0, disk_bytes dev (data_pos ?fp c + (off + ?m)) (n * ?m), ?fp\<lparr>cluster_read_stream := Some st\<rparr>)"
    by (rule Suc.IH [OF same(1)]) (use same(3) b(3) in simp)
  then obtain st' where "stream_disk st' = Some 0" "fat16_read_loop n dev d ?fp it (int (off + ?m)) sz =
      Some (0, disk_bytes dev (data_pos fp c + (off + ?m)) (n * ?m), fp\<lparr>cluster_read_stream := Some st'\<rparr>)"
    unfolding same(2) by auto
  then show ?case
    using st(3) i m(2) assms(3) disk_bytes_append [of dev "data_pos fp c + off" ?m "n * ?m"]
    by (intro exI [of _ st']) (simp add: add.assoc)
qed

subsection \<open>Opening, reading and closing a file of the root directory\<close>

text \<open>Entry \<open>k\<close> is the only one among those that the search visits with the given name.\<close>

definition only_entry :: "fat_dir \<Rightarrow> byte list \<Rightarrow> nat \<Rightarrow> bool" where
  "only_entry dir name k \<longleftrightarrow> k < nat (dir_total dir) \<and>
     (\<forall>j < nat (dir_total dir). name_matches name (entry_at dir j) \<longleftrightarrow> j = k)"

definition no_entry :: "fat_dir \<Rightarrow> byte list \<Rightarrow> bool" where
  "no_entry dir name \<longleftrightarrow> (\<forall>j < nat (dir_total dir). \<not> name_matches name (entry_at dir j))"

lemma find_only_entry:
  assumes "dir_ok dir" "is_name name" "only_entry dir name k"
  shows "fat16_find_item_in_dir dev d s fp dir name = fat16_new_fat_item_for_dir_item dev d s fp (entry_at dir k)"
  unfolding fat16_find_item_in_dir_def
  by (rule find_item_one) (use assms in \<open>auto simp: dir_ok_def only_entry_def status_simps\<close>)

lemma find_no_entry:
  assumes "dir_ok dir" "is_name name" "no_entry dir name"
  shows "fat16_find_item_in_dir dev d s fp dir name = Some (None, s, fp)"
  unfolding fat16_find_item_in_dir_def
  by (rule find_item_none) (use assms in \<open>auto simp: dir_ok_def no_entry_def status_simps\<close>)

lemma fat16_open_file:
  assumes "k_inv s" "3 \<le> free_blocks s" "dir_ok (root_dir fp)" "is_name (part_str x)"
    "only_entry (root_dir fp) (part_str x) k" "\<not> is_subdirectory (entry_at (root_dir fp) k)"
  obtains p q r s' where
    "fat16_open dev d s fp [x] FILE_MODE_READ = Some (Inr \<lparr>desc_addr = p,
       desc_item = \<lparr>item_addr = q, body = File_item r (entry_at (root_dir fp) k)\<rparr>, desc_pos = 0\<rparr>, s', fp)"
    "kgrown s [p, q, r] s'" "free_blocks s' = free_blocks s - 3" "kframe s' = kframe s"
proof -
  obtain p s1 where z: "kzalloc s 8 = Some (p, s1)" "p \<noteq> 0" "free_blocks s1 = free_blocks s - 1"
    using kzalloc_one_block [OF assms(1) item_requests(1,2)] assms(2) by auto
  have g1: "kgrown s [p] s1" by (rule kgrown_alloc [OF assms(1) item_requests(1,2) z(1,2)])
  have f: "2 \<le> free_blocks s1" using z(3) assms(2) by simp
  from new_file_item [OF kgrownD(1) [OF g1] f assms(6), where dev = dev and d = d and fp = fp]
  obtain q r s2 where n: "fat16_new_fat_item_for_dir_item dev d s1 fp (entry_at (root_dir fp) k) =
      Some (Some \<lparr>item_addr = q, body = File_item r (entry_at (root_dir fp) k)\<rparr>, s2, fp)"
      "kgrown s1 [q, r] s2" "free_blocks s2 = free_blocks s1 - 2" "kframe s2 = kframe s1"
    by blast
  have "fat16_open dev d s fp [x] FILE_MODE_READ = Some (Inr \<lparr>desc_addr = p,
       desc_item = \<lparr>item_addr = q, body = File_item r (entry_at (root_dir fp) k)\<rparr>, desc_pos = 0\<rparr>, s2, fp)"
    using z n(1) find_only_entry [OF assms(3-5), of dev d s1 fp]
    by (simp add: fat16_open_def fat16_get_dir_entry_def)
  then show ?thesis
    using that [of p q r s2] kgrown_trans [OF g1 n(2)] n(3,4) z(3) kzalloc_more [OF z(1)] by simp
qed

lemma fat16_close_file:
  assumes "kgrown s [p, q, r] s'"
  shows "\<exists>s''. fat16_close s' \<lparr>desc_addr = p, desc_item = \<lparr>item_addr = q, body = File_item r it\<rparr>, desc_pos = i\<rparr> =
    Some (0, s'') \<and> k_inv s'' \<and> k_live s'' = k_live s"
proof -
  have "kgrown s [r, q, p] s'" by (rule kgrown_perm [OF assms]) (use kgrownD(2) [OF assms] in auto)
  then obtain s'' where r: "release_all kfree s' [r, q, p] = Some s''" and k: "k_inv s''" "k_live s'' = k_live s"
    using kz.grown_release [OF kgrownD(7)] by blast
  from r have "fat16_close s' \<lparr>desc_addr = p, desc_item = \<lparr>item_addr = q, body = File_item r it\<rparr>, desc_pos = i\<rparr> = Some (0, s'')"
    by (auto simp: fat16_close_def fat16_free_file_descriptor_def fat16_fat_item_free_def split: bind_splits)
  then show ?thesis using k by blast
qed

text \<open>
  C11. A file of the root directory, from opening to closing. When its entry is the only one of its name among those that
  the lookup visits, opening its name for reading finds it whatever the case of the letters;
  \<open>fat16_stat\<close> reports the size of the entry,
  \<open>fat16_read\<close> returns exactly the bytes of its first cluster, in as many elements as were asked
  for, and after \<open>fat16_close\<close> the live allocations are those before the file was opened.
\<close>

theorem fat16_file_ok:
  assumes "sectors_512 dev" "k_inv s" "3 \<le> free_blocks s" "dir_ok (root_dir fp)" "is_name (part_str x)"
    "only_entry (root_dir fp) (part_str x) k" "\<not> is_subdirectory (entry_at (root_dir fp) k)"
    "cluster_ok d fp c" "fat16_get_first_cluster (entry_at (root_dir fp) k) = int c"
    "0 < sz" "sz < 2147483648" "nmemb < 2147483648" "unat nmemb * unat sz \<le> cluster_bytes fp"
  shows "\<exists>desc s' fp' s''.
    fat16_open dev d s fp [x] FILE_MODE_READ = Some (Inr desc, s', fp) \<and>
    (\<exists>st. fat16_stat desc st0 = Some (0, st) \<and> stat_size st = file_size (entry_at (root_dir fp) k)) \<and>
    fat16_read dev d fp desc sz nmemb =
      Some (int (unat nmemb), disk_bytes dev (data_pos fp c) (unat nmemb * unat sz), fp') \<and>
    fat16_close s' desc = Some (0, s'') \<and> k_inv s'' \<and> k_live s'' = k_live s"
proof -
  let ?it = "entry_at (root_dir fp) k"
  obtain p q r s' where o: "fat16_open dev d s fp [x] FILE_MODE_READ = Some (Inr \<lparr>desc_addr = p,
       desc_item = \<lparr>item_addr = q, body = File_item r ?it\<rparr>, desc_pos = 0\<rparr>, s', fp)"
      "kgrown s [p, q, r] s'"
    by (rule fat16_open_file [OF assms(2-7), of dev d]) (rule that)
  obtain fp' where rd: "fat16_read_loop (unat nmemb) dev d fp ?it (int 0) sz =
      Some (0, disk_bytes dev (data_pos fp c + 0) (unat nmemb * unat sz), fp')"
    using read_loop_first [OF assms(1,8,9,11) _ assms(10), of 0 "unat nmemb"] assms(13) by auto
  have "sint nmemb = int (unat nmemb)"
    using assms(12) by (intro sint_small) (simp add: word_less_nat_alt)
  then have "fat16_read dev d fp \<lparr>desc_addr = p, desc_item = \<lparr>item_addr = q, body = File_item r ?it\<rparr>, desc_pos = 0\<rparr> sz nmemb =
      Some (int (unat nmemb), disk_bytes dev (data_pos fp c) (unat nmemb * unat sz), fp')"
    using rd by (simp add: fat16_read_def)
  moreover have "\<exists>st. fat16_stat \<lparr>desc_addr = p, desc_item = \<lparr>item_addr = q, body = File_item r ?it\<rparr>, desc_pos = 0\<rparr> st0 =
      Some (0, st) \<and> stat_size st = file_size ?it"
    by (simp add: fat16_stat_def)
  ultimately show ?thesis using o fat16_close_file [OF o(2)] by blast
qed

text \<open>
  Opening a name that the root directory does not have is refused with \<open>-EIO\<close>, and opening
  for anything but reading with \<open>-EREADONLY\<close>; in both cases nothing stays allocated.
\<close>

theorem fat16_open_refuses:
  assumes "k_inv s" "1 \<le> free_blocks s" "dir_ok (root_dir fp)" "is_name (part_str x)"
    "no_entry (root_dir fp) (part_str x)"
  shows "(\<exists>s'. fat16_open dev d s fp (x # xs) FILE_MODE_READ = Some (Inl (- EIO), s', fp) \<and>
      kernel_heap s' = kernel_heap s) \<and>
    (\<forall>mode. mode = FILE_MODE_READ \<or> fat16_open dev d s fp (x # xs) mode = Some (Inl (- EREADONLY), s, fp))"
proof -
  obtain p s1 where z: "kzalloc s 8 = Some (p, s1)" "p \<noteq> 0"
    using kzalloc_one_block [OF assms(1) item_requests(1,2)] assms(2) by auto
  obtain s2 where "kfree s1 p = Some s2" "kernel_heap s2 = kernel_heap s"
    using kfree_kzalloc [OF assms(1) item_requests(1) z] by blast
  then show ?thesis
    using z find_no_entry [OF assms(3-5), of dev d s1 fp]
    by (auto simp: fat16_open_def fat16_get_dir_entry_def)
qed

lemma fat_entry_pos_eq:
  assumes "sector_size d = 512" "reserved_sectors (primary_header (header fp)) = int r" "1024 * r * c < 2147483648"
  shows "fat_entry_pos d fp (int c) = int (1024 * r * c)"
proof -
  have "fat_entry_pos d fp (int c) = sint (word_of_int (int (1024 * r * c)) :: u32)"
    using assms(1,2) unfolding fat_entry_pos_def fat16_get_first_fat_sector_def BENOS_FAT16_FAT_ENTRY_SIZE_def Let_def
    by (simp add: mult_ac)
  moreover have "sint (of_nat (1024 * r * c) :: u32) = int (unat (of_nat (1024 * r * c) :: u32))"
    by (rule sint_small) (use assms(3) in \<open>simp only: unat_of_nat_u32\<close>)
  moreover have "unat (of_nat (1024 * r * c) :: u32) = 1024 * r * c"
    using assms(3) by (intro unat_of_nat_u32) linarith
  ultimately show ?thesis by (metis of_int_of_nat_eq)
qed

text \<open>
  C38. The entry of a cluster in the allocation table is read from the wrong place. With \<open>r\<close> reserved sectors the
  entry of the cluster \<open>c\<close> is at the byte \<open>512 * r + 2 * c\<close>, but \<open>fat16_get_fat_entry\<close> multiplies instead of
  adding and returns the two bytes at \<open>1024 * r * c\<close>, which lie entirely behind the entry. This is for sectors of 512
  bytes, at least one reserved sector, and every cluster but 0 as long as the product stays below \<open>2 ^ 31\<close> (on the boot disk,
  with 200 reserved sectors, up to the cluster 10485).
\<close>

theorem fat_entry_misplaced:
  assumes "sectors_512 dev" "sector_size d = 512" "reserved_sectors (primary_header (header fp)) = int r" "0 < r" "0 < c"
    "1024 * r * c < 2147483648" "fat_read_stream fp = Some st" "stream_disk st = Some 0"
  shows "fat16_get_fat_entry dev d fp (int c) = Some (le16 (disk_bytes dev (1024 * r * c) 2) 0,
      fp\<lparr>fat_read_stream := Some (st\<lparr>pos := int (1024 * r * c + 2)\<rparr>)\<rparr>) \<and>
    512 * r + 2 * c + 2 \<le> 1024 * r * c"
proof
  have "1024 * (r * c) < 1024 * 2097152" using assms(6) by (simp add: mult.assoc)
  then have b: "1024 * r * c + 2 < 2147483648" by simp
  have "diskstreamer_read dev (st\<lparr>pos := int (1024 * r * c)\<rparr>) (int 2) =
      Some (0, disk_bytes dev (1024 * r * c) 2, st\<lparr>pos := int (1024 * r * c)\<rparr>\<lparr>pos := int (1024 * r * c + 2)\<rparr>)"
    by (rule stream_read [OF assms(1) _ b]) (use assms(8) in \<open>simp only: stream_at_seek\<close>)
  then show "fat16_get_fat_entry dev d fp (int c) = Some (le16 (disk_bytes dev (1024 * r * c) 2) 0,
      fp\<lparr>fat_read_stream := Some (st\<lparr>pos := int (1024 * r * c + 2)\<rparr>)\<rparr>)"
    unfolding fat16_get_fat_entry_def fat_entry_pos_eq [OF assms(2,3,6)] diskstreamer_seek_def Let_def
    using assms(7) by (simp del: of_nat_mult of_nat_add)
  have "r \<le> r * c" "c \<le> r * c" "1 \<le> r * c" using assms(4,5) by auto
  then have "512 * r + 2 * c + 2 \<le> 1024 * (r * c)" by linarith
  then show "512 * r + 2 * c + 2 \<le> 1024 * r * c" by (simp only: mult.assoc)
qed

end
