(* ===== verification/FatMount.thy ===== *)
theory FatMount
  imports FatFile
begin

text \<open>
  Mounting a FAT16 disk, and the disk with the boot sector of benOS on which the properties of the
  file system are instantiated.
\<close>

subsection \<open>Mounting\<close>

definition root_sector :: "fat_h \<Rightarrow> int" where
  "root_sector h = fat_copies (primary_header h) * sectors_per_fat (primary_header h)
     + reserved_sectors (primary_header h)"

text \<open>
  A root directory of \<open>n\<close> slots that fits one heap block, of which the first \<open>k\<close> are used; \<open>p\<close> is
  its position on the disk.
\<close>

definition root_ok :: "device \<Rightarrow> fat_h \<Rightarrow> nat \<Rightarrow> nat \<Rightarrow> nat \<Rightarrow> bool" where
  "root_ok dev h p n k \<longleftrightarrow> root_sector h * 512 = int p \<and> root_dir_entries (primary_header h) = int n \<and>
     0 < n \<and> n \<le> 128 \<and> k < n \<and> dir_ends dev p k \<and> p + 4096 < 2147483648"

definition loaded_root :: "device \<Rightarrow> fat_h \<Rightarrow> addr \<Rightarrow> addr \<Rightarrow> nat \<Rightarrow> nat \<Rightarrow> nat \<Rightarrow> fat_dir" where
  "loaded_root dev h dir_a q p n k = \<lparr>dir_addr = dir_a, items_addr = q, items = disk_bytes dev p (n * 32),
     dir_total = int (live_entries dev p k), sector_pos = root_sector h,
     ending_sector_pos = root_sector h + int (n * 32 div 512)\<rparr>"

lemma root_request:
  assumes "0 < n" "n \<le> 128"
  shows "ok_size (word_of_int (int (n * 32)))" "blocks_of (word_of_int (int (n * 32))) = 1"
proof -
  have u: "unat (of_nat (n * 32) :: u32) = n * 32" using assms by (intro unat_of_nat_u32) linarith
  then show "ok_size (word_of_int (int (n * 32)))"
    using assms by (auto simp: ok_size_def word_le_nat_alt simp del: of_nat_mult)
  have "(n * 32 + 4095) div 4096 = 1" using assms by (intro div_nat_eqI) auto
  then show "blocks_of (word_of_int (int (n * 32))) = 1"
    using u assms by (simp add: blocks_of_def del: of_nat_mult)
qed

lemma get_root_dir_eq:
  assumes "sectors_512 dev" "sector_size d = 512" "dir_stream fp = Some st" "stream_disk st = Some 0"
    "root_ok dev (header fp) p n k" "kzalloc s (word_of_int (int (n * 32))) = Some (q, s1)" "q \<noteq> 0"
  shows "\<exists>st'. stream_disk st' = Some 0 \<and> stream_addr st' = stream_addr st \<and> fat16_get_root_dir dev d s fp =
    Some (0, s1, fp\<lparr>dir_stream := Some st',
      root_dir := loaded_root dev (header fp) (dir_addr (root_dir fp)) q p n k\<rparr>)"
proof -
  let ?h = "primary_header (header fp)"
  have r: "root_sector (header fp) * 512 = int p" "root_dir_entries ?h = int n" "k < n" "n \<le> 128"
      "dir_ends dev p k" "p + 4096 < 2147483648"
    using assms(5) by (auto simp: root_ok_def)
  have sec: "sint (word_of_int (root_sector (header fp)) * word_of_int 512 :: u32) = int p"
  proof -
    have u: "unat (of_nat p :: u32) = p" using r(6) by (intro unat_of_nat_u32) linarith
    have "word_of_int (root_sector (header fp)) * word_of_int 512 = (word_of_int (int p) :: u32)"
      by (simp only: of_int_mult [symmetric] r(1))
    then show ?thesis using sint_small [of "of_nat p"] u r(6) by (simp add: of_int_of_nat_eq)
  qed
  have c: "count_items dev (st\<lparr>pos := int p\<rparr>) 0 =
      Some (int (live_entries dev p k), st\<lparr>pos := int (p + 32 * k + 32)\<rparr>)"
    using count_items_eq [OF assms(1), of "st\<lparr>pos := int p\<rparr>" p k 0] assms(4) r by (simp add: stream_at_def)
  let ?st1 = "st\<lparr>pos := int (p + 32 * k + 32)\<rparr>"
  have t: "fat16_get_total_items_for_dir dev d fp (word_of_int (root_sector (header fp))) =
      Some (int (live_entries dev p k), fp\<lparr>dir_stream := Some ?st1\<rparr>)"
    using assms(2,3) sec c by (simp add: fat16_get_total_items_for_dir_def diskstreamer_seek_def)
  have rd: "diskstreamer_read dev (st\<lparr>pos := int p\<rparr>) (int (n * 32)) =
      Some (0, disk_bytes dev p (n * 32), st\<lparr>pos := int (p + n * 32)\<rparr>)"
    using stream_read [OF assms(1), of "st\<lparr>pos := int p\<rparr>" p "n * 32"] assms(4) r(4,6) by (simp add: stream_at_def)
  have e: "cdiv (int (n * 32)) 512 = int (n * 32 div 512)"
    by (simp only: cdiv_nonneg of_nat_0_le_iff zero_le_numeral)
  have sz: "int n * int 32 = int (n * 32)" by (simp only: of_nat_mult)
  have "fat16_get_root_dir dev d s fp = Some (0, s1, fp\<lparr>dir_stream := Some (st\<lparr>pos := int (p + n * 32)\<rparr>),
      root_dir := loaded_root dev (header fp) (dir_addr (root_dir fp)) q p n k\<rparr>)"
    unfolding fat16_get_root_dir_def Let_def root_sector_def [symmetric] fat16_sector_to_abs_def
      sizeof_fat_dir_item_def r(2) sz
    using t assms(2,6,7) rd r(1) e
    by (simp add: diskstreamer_seek_def status_simps loaded_root_def del: of_nat_mult)
  then show ?thesis using assms(4) by (intro exI [of _ "st\<lparr>pos := int (p + n * 32)\<rparr>"]) simp
qed

subsection \<open>Resolving the file system of a disk\<close>

lemma private_request [simp]: "ok_size 92" "blocks_of 92 = 1"
  by (simp_all add: ok_size_def blocks_of_def)

lemma new_stream:
  assumes "k_inv s" "0 < free_blocks s"
  obtains p s' where "diskstreamer_new s 0 = Some (Some \<lparr>stream_addr = p, pos = 0, stream_disk = Some 0\<rparr>, s')"
    "grown k_live k_inv s [p] s'" "free_blocks s' = free_blocks s - 1"
proof -
  obtain p s' where z: "kzalloc s 8 = Some (p, s')" "p \<noteq> 0" "free_blocks s' = free_blocks s - 1"
    using kzalloc_one_block [OF assms(1) item_requests(1,2) assms(2)] by blast
  then show ?thesis
    using that [of p s'] kz.grown_alloc [OF assms(1) item_requests(1,2) z(1,2)]
    by (simp add: diskstreamer_new_def disk_get_def)
qed

text \<open>The blocks of a mounted disk: the private data, the three streams and the entries of the root directory.\<close>

definition stream_blocks :: "fat_private \<Rightarrow> addr list" where
  "stream_blocks fp = map stream_addr (List.map_filter (\<lambda>x. x) [cluster_read_stream fp, fat_read_stream fp, dir_stream fp])"

definition mount_blocks :: "fat_private \<Rightarrow> addr list" where
  "mount_blocks fp = private_addr fp # stream_blocks fp @ [items_addr (root_dir fp)]"

text \<open>The common part of \<open>fat16_resolve\<close>: the private data, its three streams and the reading stream.\<close>

definition mounting :: "fat_private \<Rightarrow> addr \<Rightarrow> fat_h \<Rightarrow> bool" where
  "mounting fp p h \<longleftrightarrow> private_addr fp = p \<and> header fp = h \<and> dir_addr (root_dir fp) = 0 \<and>
     (\<exists>c f r. cluster_read_stream fp = Some c \<and> fat_read_stream fp = Some f \<and> dir_stream fp = Some r \<and>
        stream_disk c = Some 0 \<and> stream_disk f = Some 0 \<and> stream_disk r = Some 0)"

lemma mount_start:
  assumes "k_inv s" "5 \<le> free_blocks s" "disk_id d = 0"
  obtains p a b c e s1 s2 s3 fp st where
    "kzalloc s 92 = Some (p, s1)" "p \<noteq> 0" "fat16_init_private d s1 p = Some (fp, s2)"
    "diskstreamer_new s2 (disk_id d) = Some (Some st, s3)" "stream_at st 0" "stream_addr st = e"
    "mounting fp p zero_header" "stream_blocks fp = [a, b, c]" "grown k_live k_inv s [p, a, b, c, e] s3"
    "free_blocks s3 = free_blocks s - 5"
proof -
  obtain p s1 where z: "kzalloc s 92 = Some (p, s1)" "p \<noteq> 0" "free_blocks s1 = free_blocks s - 1"
    using kzalloc_one_block [OF assms(1) private_request] assms(2) by auto
  have g1: "grown k_live k_inv s [p] s1" by (rule kz.grown_alloc [OF assms(1) private_request z(1,2)])
  obtain a t1 where a: "diskstreamer_new s1 0 = Some (Some \<lparr>stream_addr = a, pos = 0, stream_disk = Some 0\<rparr>, t1)"
      "grown k_live k_inv s1 [a] t1" "free_blocks t1 = free_blocks s1 - 1"
    by (rule new_stream [OF grownD(1) [OF g1]]) (use z(3) assms(2) in simp, erule (2) that)
  obtain b t2 where b: "diskstreamer_new t1 0 = Some (Some \<lparr>stream_addr = b, pos = 0, stream_disk = Some 0\<rparr>, t2)"
      "grown k_live k_inv t1 [b] t2" "free_blocks t2 = free_blocks t1 - 1"
    by (rule new_stream [OF grownD(1) [OF a(2)]]) (use a(3) z(3) assms(2) in simp, erule (2) that)
  obtain c t3 where c: "diskstreamer_new t2 0 = Some (Some \<lparr>stream_addr = c, pos = 0, stream_disk = Some 0\<rparr>, t3)"
      "grown k_live k_inv t2 [c] t3" "free_blocks t3 = free_blocks t2 - 1"
    by (rule new_stream [OF grownD(1) [OF b(2)]]) (use b(3) a(3) z(3) assms(2) in simp, erule (2) that)
  obtain e t4 where e: "diskstreamer_new t3 0 = Some (Some \<lparr>stream_addr = e, pos = 0, stream_disk = Some 0\<rparr>, t4)"
      "grown k_live k_inv t3 [e] t4" "free_blocks t4 = free_blocks t3 - 1"
    by (rule new_stream [OF grownD(1) [OF c(2)]]) (use c(3) b(3) a(3) z(3) assms(2) in simp, erule (2) that)
  have g: "grown k_live k_inv s ([p] @ [a] @ [b] @ [c] @ [e]) t4"
    by (rule grown_trans [OF g1 grown_trans [OF a(2) grown_trans [OF b(2) grown_trans [OF c(2) e(2)]]]])
  let ?fp = "\<lparr>private_addr = p, header = zero_header,
          root_dir = \<lparr>dir_addr = 0, items_addr = 0, items = [], dir_total = 0, sector_pos = 0,
            ending_sector_pos = 0\<rparr>,
          cluster_read_stream = Some \<lparr>stream_addr = a, pos = 0, stream_disk = Some 0\<rparr>,
          fat_read_stream = Some \<lparr>stream_addr = b, pos = 0, stream_disk = Some 0\<rparr>,
          dir_stream = Some \<lparr>stream_addr = c, pos = 0, stream_disk = Some 0\<rparr>\<rparr>"
  show ?thesis
    by (rule that [of p s1 ?fp t3 "\<lparr>stream_addr = e, pos = 0, stream_disk = Some 0\<rparr>" t4 e a b c])
      (use z a b c e g assms in \<open>simp_all add: fat16_init_private_def mounting_def stream_at_def stream_blocks_def\<close>)
qed

lemma live_le: "live_entries dev p k \<le> k"
  using length_filter_le [of "\<lambda>j. dir_mark dev p j \<noteq> 0xE5" "[0..<k]"] by (simp add: live_entries_def)

lemma fat16_resolve_run:
  assumes "sectors_512 dev" "k_inv s" "6 \<le> free_blocks s" "disk_id d = 0" "sector_size d = 512"
    "fat_h_of (disk_bytes dev 0 62) = h" "signature (extended_header h) = 0x29" "root_ok dev h p n k"
  shows "\<exists>s' fp q ps. fat16_resolve dev d s = Some (0, s', Some fp) \<and> mounting fp (private_addr fp) h \<and>
    root_dir fp = loaded_root dev h 0 q p n k \<and> dir_ok (root_dir fp) \<and> grown k_live k_inv s ps s' \<and> length ps = 5 \<and>
    ps = mount_blocks fp"
proof -
  obtain pr a b c e s1 s2 s3 fp st where m: "kzalloc s 92 = Some (pr, s1)" "pr \<noteq> 0"
      "fat16_init_private d s1 pr = Some (fp, s2)" "diskstreamer_new s2 (disk_id d) = Some (Some st, s3)"
      "stream_at st 0" "stream_addr st = e" "mounting fp pr zero_header" "stream_blocks fp = [a, b, c]"
      and g: "grown k_live k_inv s [pr, a, b, c, e] s3" and n3: "free_blocks s3 = free_blocks s - 5"
    by (rule mount_start [OF assms(2) _ assms(4)]) (use assms(3) in simp, erule (9) that)
  have kn: "0 < n" "n \<le> 128" "k < n" using assms(8) by (auto simp: root_ok_def)
  obtain q s4 where z: "kzalloc s3 (word_of_int (int (n * 32))) = Some (q, s4)" "q \<noteq> 0"
    using kzalloc_one_block [OF grownD(1) [OF g] root_request [OF kn(1,2)]] n3 assms(3) by auto
  have g4: "grown k_live k_inv s3 [q] s4"
    by (rule kz.grown_alloc [OF grownD(1) [OF g] root_request [OF kn(1,2)] z])
  have rd: "diskstreamer_read dev st 62 = Some (0, disk_bytes dev 0 62, st\<lparr>pos := 62\<rparr>)"
    using stream_read [OF assms(1) m(5), of 62] by simp
  let ?fp = "fp\<lparr>header := h\<rparr>"
  obtain r where r: "dir_stream ?fp = Some r" "stream_disk r = Some 0" using m(7) by (auto simp: mounting_def)
  have da: "dir_addr (root_dir fp) = 0" using m(7) by (simp add: mounting_def)
  obtain st' where root: "stream_disk st' = Some 0" "stream_addr st' = stream_addr r" "fat16_get_root_dir dev d s3 ?fp =
      Some (0, s4, ?fp\<lparr>dir_stream := Some st', root_dir := loaded_root dev h 0 q p n k\<rparr>)"
    using get_root_dir_eq [OF assms(1,5) r _ z] assms(8) da by auto
  let ?fp' = "?fp\<lparr>dir_stream := Some st', root_dir := loaded_root dev h 0 q p n k\<rparr>"
  have g': "grown k_live k_inv s ([pr, a, b, c, e] @ [q]) s4" by (rule grown_trans [OF g g4])
  obtain s5 where f: "kfree s4 e = Some s5" "k_inv s5" "k_live s5 = (k_live s4)(e := None)"
    using kz.release_live [OF grownD(1) [OF g']] grownD(4) [OF g', of e] by fastforce
  have "fat16_resolve dev d s = Some (0, s5, Some ?fp')"
    using m(1-4,6) rd root(3) f(1) assms(6,7)
    by (simp add: fat16_resolve_def sizeof_fat_h_def status_simps diskstreamer_close_def)
  moreover have "mounting ?fp' (private_addr ?fp') h"
    using m(7) root(1) by (auto simp: mounting_def loaded_root_def)
  moreover have "dir_ok (root_dir ?fp')"
    using live_le [of dev p k] kn by (simp add: dir_ok_def loaded_root_def)
  moreover have "grown k_live k_inv s [pr, a, b, c, q] s5"
    using g' f(2,3) unfolding grown_def by (auto simp: fun_eq_iff)
  moreover have "mount_blocks ?fp' = [pr, a, b, c, q]"
    using m(7,8) r(1) root(2)
    by (auto simp: mount_blocks_def stream_blocks_def mounting_def map_filter_simps loaded_root_def)
  ultimately show ?thesis
    by (intro exI [of _ s5] exI [of _ ?fp'] exI [of _ q] exI [of _ "[pr, a, b, c, q]"]) simp
qed

text \<open>
  C10. Mounting. The first sector of the disk carries the FAT16 signature; the root directory has at most 128 slots
  (one block of the heap), ends with a mark before its last slot and lies in the first two gigabytes; six blocks are free.
  Then \<open>fat16_resolve\<close> succeeds: the private data hold the header, the root directory as it is on the disk,
  with its number of live entries, and three streams on the disk. Five blocks that were free are now allocated, those of
  the private data, of these three streams and of the entries of the root directory; so the stream that read the header
  has been closed, and no other allocation has changed.
\<close>

theorem fat16_resolve_ok:
  assumes "sectors_512 dev" "k_inv s" "6 \<le> free_blocks s" "disk_id d = 0" "sector_size d = 512"
    "fat_h_of (disk_bytes dev 0 62) = h" "signature (extended_header h) = 0x29" "root_ok dev h p n k"
  shows "\<exists>s' fp q. fat16_resolve dev d s = Some (0, s', Some fp) \<and> mounting fp (private_addr fp) h \<and>
    root_dir fp = loaded_root dev h 0 q p n k \<and> dir_ok (root_dir fp) \<and> k_inv s' \<and>
    length (mount_blocks fp) = 5 \<and> distinct (mount_blocks fp) \<and> (\<forall>a \<in> set (mount_blocks fp). k_live s a = None) \<and>
    k_live s' = (\<lambda>a. if a \<in> set (mount_blocks fp) then Some 1 else k_live s a)"
proof -
  obtain s' fp q ps where r: "fat16_resolve dev d s = Some (0, s', Some fp)" "mounting fp (private_addr fp) h"
      "root_dir fp = loaded_root dev h 0 q p n k" "dir_ok (root_dir fp)" "grown k_live k_inv s ps s'" "length ps = 5"
      "ps = mount_blocks fp"
    using fat16_resolve_run [OF assms] by blast
  note g = r(5) [unfolded r(7)]
  show ?thesis
  proof (intro exI conjI)
    show "\<forall>a \<in> set (mount_blocks fp). k_live s a = None" using grownD(3) [OF g] by blast
    show "k_live s' = (\<lambda>a. if a \<in> set (mount_blocks fp) then Some 1 else k_live s a)" by (rule ext) (rule grownD(4) [OF g])
  qed (rule r(1-4) r(6) [unfolded r(7)] grownD(1,2) [OF g])+
qed

text \<open>
  A disk without the signature is refused with \<open>-EFSNOTUS\<close> and no private data, but the three
  streams of the private data are never closed: each refusal leaks three blocks.
\<close>

theorem fat16_resolve_leaks:
  assumes "sectors_512 dev" "k_inv s" "5 \<le> free_blocks s" "disk_id d = 0"
    "signature (extended_header (fat_h_of (disk_bytes dev 0 62))) \<noteq> 0x29"
  shows "\<exists>s' a b c. fat16_resolve dev d s = Some (- EFSNOTUS, s', None) \<and> k_inv s' \<and>
    distinct [a, b, c] \<and> k_live s a = None \<and> k_live s b = None \<and> k_live s c = None \<and>
    k_live s' = (k_live s)(a \<mapsto> 1, b \<mapsto> 1, c \<mapsto> 1)"
proof -
  obtain pr a b c e s1 s2 s3 fp st where m: "kzalloc s 92 = Some (pr, s1)" "pr \<noteq> 0"
      "fat16_init_private d s1 pr = Some (fp, s2)" "diskstreamer_new s2 (disk_id d) = Some (Some st, s3)"
      "stream_at st 0" "stream_addr st = e" "mounting fp pr zero_header" "stream_blocks fp = [a, b, c]"
      and g: "grown k_live k_inv s [pr, a, b, c, e] s3" and n3: "free_blocks s3 = free_blocks s - 5"
    by (rule mount_start [OF assms(2-4)]) (erule (9) that)
  have rd: "diskstreamer_read dev st 62 = Some (0, disk_bytes dev 0 62, st\<lparr>pos := 62\<rparr>)"
    using stream_read [OF assms(1) m(5), of 62] by simp
  obtain s4 where f: "kfree s3 e = Some s4" "k_inv s4" "k_live s4 = (k_live s3)(e := None)"
    using kz.release_live [OF grownD(1) [OF g]] grownD(4) [OF g, of e] by fastforce
  have ne: "pr \<noteq> e" using grownD(2) [OF g] by auto
  obtain s5 where f': "kfree s4 pr = Some s5" "k_inv s5" "k_live s5 = (k_live s4)(pr := None)"
    using kz.release_live [OF f(2), of pr 1] grownD(4) [OF g, of pr] f(3) ne by fastforce
  have "fat16_resolve dev d s = Some (- EFSNOTUS, s5, None)"
    using m(1-4,6) rd f(1) f'(1) assms(5)
    by (simp add: fat16_resolve_def sizeof_fat_h_def status_simps diskstreamer_close_def)
  moreover have "k_live s5 = (k_live s)(a \<mapsto> 1, b \<mapsto> 1, c \<mapsto> 1)"
  proof
    fix x
    show "k_live s5 x = ((k_live s)(a \<mapsto> 1, b \<mapsto> 1, c \<mapsto> 1)) x"
      using grownD(2) [OF g] grownD(3) [OF g, of x] grownD(4) [OF g, of x] by (auto simp: f(3) f'(3))
  qed
  moreover have "distinct [a, b, c]" "k_live s a = None" "k_live s b = None" "k_live s c = None"
    using grownD(2) [OF g] grownD(3) [OF g, of a] grownD(3) [OF g, of b] grownD(3) [OF g, of c] by auto
  ultimately show ?thesis using f'(2) by blast
qed

text \<open>
  C39. Deleted entries hide files. The number of entries that a lookup visits is the number of live
  ones, but it visits the first slots, deleted or not: behind a deleted entry the last file of the
  root directory is never found, although its name is there.
\<close>

theorem fat16_deleted_hides:
  assumes "root_ok dev h p n (Suc k)" "root_dir fp = loaded_root dev h a q p n (Suc k)"
    "i \<le> k" "dir_mark dev p i = 0xE5" "is_name name"
    "\<forall>j < k. \<not> name_matches name (entry_at (root_dir fp) j)"
  shows "name_matches name (entry_at (root_dir fp) k) \<Longrightarrow>
    fat16_find_item_in_dir dev d s fp (root_dir fp) name = Some (None, s, fp)"
proof -
  have "live_entries dev p (Suc k) < length [0..<Suc k]"
    unfolding live_entries_def
    by (rule length_filter_less [of i]) (use assms(3,4) in \<open>simp_all del: upt_Suc\<close>)
  then have l: "live_entries dev p (Suc k) \<le> k" by simp
  moreover have "k < n" using assms(1) by (simp add: root_ok_def)
  ultimately have "dir_ok (root_dir fp)" "no_entry (root_dir fp) name"
    using assms(2,6) by (auto simp: dir_ok_def no_entry_def loaded_root_def)
  then show ?thesis using find_no_entry assms(5) by blast
qed

subsection \<open>A disk with the boot sector of benOS\<close>

text \<open>The header that \<^verbatim>\<open>src/boot/boot.asm\<close> puts into the first sector.\<close>

definition boot_header :: "byte list" where
  "boot_header = [0xEB, 0x3C, 0x90, 0x42, 0x45, 0x4E, 0x4F, 0x53, 0x20, 0x20, 0x20, 0x00, 0x02, 0x80, 0xC8, 0x00,
     0x02, 0x40, 0x00, 0x00, 0x00, 0xF8, 0x00, 0x01, 0x20, 0x00, 0x40, 0x00, 0x00, 0x00, 0x00, 0x00,
     0x94, 0x35, 0x77, 0x00, 0x80, 0x00, 0x29, 0x05, 0xD1, 0x00, 0x00, 0x42, 0x45, 0x4E, 0x4F, 0x53,
     0x20, 0x42, 0x4F, 0x4F, 0x54, 0x20, 0x46, 0x41, 0x54, 0x31, 0x36, 0x20, 0x20, 0x20]"

text \<open>
  The entry of a file \<open>BLANK.ELF\<close> of 4096 bytes in cluster 3, and a disk with the root directory \<open>es\<close>
  on which the data of cluster 3 start with \<open>d\<close>.
\<close>

definition blank_elf :: "byte list" where
  "blank_elf = [0x42, 0x4C, 0x41, 0x4E, 0x4B, 0x20, 0x20, 0x20, 0x45, 0x4C, 0x46, 0x20, 0, 0, 0, 0,
     0, 0, 0, 0, 0, 0, 0, 0, 0, 0, 3, 0, 0, 0x10, 0, 0]"

definition benos_disk :: "byte list \<Rightarrow> byte list list \<Rightarrow> device" where
  "benos_disk d es n = (if n = 0 then boot_header @ replicate 450 0
     else if n = 712 then concat es @ replicate (512 - length (concat es)) 0
     else if n = 844 then take 512 (d @ replicate 512 (of_nat n))
     else replicate 512 (of_nat n))"

lemma benos_disk: "length (concat es) \<le> 512 \<Longrightarrow> sectors_512 (benos_disk d es)"
  by (simp add: sectors_512_def benos_disk_def boot_header_def)

lemma disk_bytes_at:
  assumes "sectors_512 dev" "m < 512" "m + n \<le> 512" "p = 512 * i + m"
  shows "disk_bytes dev p n = take n (drop m (dev i))"
proof -
  have "p mod 512 = m" "p div 512 = i" using assms(2,4) by auto
  then show ?thesis using disk_bytes_sector [OF assms(1), of p n] assms(3) by simp
qed

lemma disk_byte_at: "m < 512 \<Longrightarrow> p = 512 * i + m \<Longrightarrow> disk_byte dev p = dev i ! m"
  by (simp add: disk_byte_def)

lemma take_drop_disk_bytes: "a + b \<le> n \<Longrightarrow> take b (drop a (disk_bytes dev p n)) = disk_bytes dev (p + a) b"
  by (intro nth_equalityI) (simp_all add: disk_bytes_def add.assoc)

lemma boot_header_bytes:
  assumes "length (concat es) \<le> 512"
  shows "disk_bytes (benos_disk d es) 0 62 = boot_header"
proof -
  have "disk_bytes (benos_disk d es) 0 62 = take 62 (benos_disk d es 0)"
    using disk_bytes_at [OF benos_disk [OF assms], of 0 62 0 0] by simp
  then show ?thesis by (simp add: benos_disk_def boot_header_def)
qed

lemma boot_header_fields:
  "signature (extended_header (fat_h_of boot_header)) = 0x29" "root_sector (fat_h_of boot_header) = 712"
  "root_dir_entries (primary_header (fat_h_of boot_header)) = 64"
  "sectors_per_cluster (primary_header (fat_h_of boot_header)) = 128"
  "reserved_sectors (primary_header (fat_h_of boot_header)) = 200"
  by (simp_all add: boot_header_def fat_h_of_def fat_header_of_def fat_header_extended_of_def le16_def root_sector_def)

lemma benos_root:
  assumes "length (concat es) \<le> 512" "k < 16" "\<forall>j < k. concat es ! (32 * j) \<noteq> 0" "length (concat es) = 32 * k"
  shows "root_ok (benos_disk d es) (fat_h_of boot_header) 364544 64 k"
    "j < k \<Longrightarrow> dir_mark (benos_disk d es) 364544 j = concat es ! (32 * j)"
    "j < k \<Longrightarrow> entry_at (loaded_root (benos_disk d es) (fat_h_of boot_header) a q 364544 64 m) j =
      fat_dir_item_of (take 32 (drop (32 * j) (concat es)))"
proof -
  have m: "dir_mark (benos_disk d es) 364544 j = (concat es @ replicate (512 - length (concat es)) 0) ! (32 * j)"
    if "j < 16" for j
    using disk_byte_at [of "32 * j" "364544 + 32 * j" 712 "benos_disk d es"] that
    by (simp add: dir_mark_def benos_disk_def)
  show mark: "dir_mark (benos_disk d es) 364544 j = concat es ! (32 * j)" if "j < k" for j
    using m [of j] that assms(2,4) by (simp add: nth_append)
  have "dir_ends (benos_disk d es) 364544 k"
    using mark m [of k] assms by (auto simp: dir_ends_def nth_append)
  then show "root_ok (benos_disk d es) (fat_h_of boot_header) 364544 64 k"
    using assms(2) by (simp add: root_ok_def boot_header_fields)
  show "entry_at (loaded_root (benos_disk d es) (fat_h_of boot_header) a q 364544 64 m) j =
      fat_dir_item_of (take 32 (drop (32 * j) (concat es)))" if "j < k"
  proof -
    have b: "32 * j + 32 \<le> length (concat es)" using that assms(4) by simp
    have "take 32 (drop (32 * j) (disk_bytes (benos_disk d es) 364544 2048)) =
        disk_bytes (benos_disk d es) (364544 + 32 * j) 32"
      by (rule take_drop_disk_bytes) (use b assms(1) in simp)
    also have "\<dots> = take 32 (drop (32 * j) (benos_disk d es 712))"
      by (rule disk_bytes_at [OF benos_disk [OF assms(1)]]) (use b assms(1) in auto)
    also have "\<dots> = take 32 (drop (32 * j) (concat es))" using b by (simp add: benos_disk_def)
    finally show ?thesis by (simp add: entry_at_def loaded_root_def)
  qed
qed

definition boot_stream :: "addr \<Rightarrow> disk_stream" where
  "boot_stream a = \<lparr>stream_addr = a, pos = 0, stream_disk = Some 0\<rparr>"

definition boot_private :: "device \<Rightarrow> nat \<Rightarrow> fat_private" where
  "boot_private dev k = \<lparr>private_addr = 0x01000000, header = fat_h_of boot_header,
     root_dir = loaded_root dev (fat_h_of boot_header) 0 0x01005000 364544 64 k,
     cluster_read_stream = Some (boot_stream 0x01001000), fat_read_stream = Some (boot_stream 0x01002000),
     dir_stream = Some (boot_stream 0x01003000)\<rparr>"

definition boot_drive :: disk where
  "boot_drive = \<lparr>disk_type = 0, sector_size = 512, disk_id = 0\<rparr>"

text \<open>The path part \<open>blank.elf\<close>.\<close>

definition blank_part :: path_part where
  "blank_part = \<lparr>self = 0x01006000, part = 0x01007000,
     part_str = [0x62, 0x6C, 0x61, 0x6E, 0x6B, 0x2E, 0x65, 0x6C, 0x66] @ replicate 99 0\<rparr>"

definition ghost_part :: path_part where
  "ghost_part = blank_part\<lparr>part_str := 0x67 # replicate 107 0\<rparr>"

lemma part_names: "is_name (part_str blank_part)" "is_name (part_str ghost_part)"
  "cstr (part_str blank_part) = [0x62, 0x6C, 0x61, 0x6E, 0x6B, 0x2E, 0x65, 0x6C, 0x66]"
  "cstr (part_str ghost_part) = [0x67]"
  by (simp_all add: is_name_def blank_part_def ghost_part_def cstr_def terminated_def)

lemma blank_item:
  "full_name (fat_dir_item_of blank_elf) = [0x42, 0x4C, 0x41, 0x4E, 0x4B, 0x2E, 0x45, 0x4C, 0x46]"
  "\<not> is_subdirectory (fat_dir_item_of blank_elf)" "fat16_get_first_cluster (fat_dir_item_of blank_elf) = 3"
  "file_size (fat_dir_item_of blank_elf) = 4096"
  by (simp_all add: full_name_def fat_dir_item_of_def blank_elf_def is_subdirectory_def
      FAT_FILE_SUBDIRECTORY_def fat16_get_first_cluster_def le16_def le32_def)

lemma deleted_item: "full_name (fat_dir_item_of (0xE5 # tl blank_elf)) = [0xE5, 0x4C, 0x41, 0x4E, 0x4B, 0x2E, 0x45, 0x4C, 0x46]"
  by (simp add: full_name_def fat_dir_item_of_def blank_elf_def)

lemma blank_matches:
  "name_matches (part_str blank_part) (fat_dir_item_of blank_elf)"
  "\<not> name_matches (part_str ghost_part) (fat_dir_item_of blank_elf)"
  "\<not> name_matches (part_str blank_part) (fat_dir_item_of (0xE5 # tl blank_elf))"
  by (simp_all add: name_matches_def blank_item deleted_item part_names tolower_def)

lemma blank_elf [simp]: "length blank_elf = 32" "blank_elf ! 0 = 0x42"
  by (simp_all add: blank_elf_def)

lemma blank_disk:
  "length (concat [blank_elf]) = 32" "concat [blank_elf] ! 0 = 0x42"
  "length (concat [0xE5 # tl blank_elf, blank_elf]) = 64"
  "concat [0xE5 # tl blank_elf, blank_elf] ! 0 = 0xE5" "concat [0xE5 # tl blank_elf, blank_elf] ! 32 = 0x42"
  "take 32 (concat [blank_elf]) = blank_elf" "take 32 (concat [0xE5 # tl blank_elf, blank_elf]) = 0xE5 # tl blank_elf"
  "take 32 (drop 32 (concat [0xE5 # tl blank_elf, blank_elf])) = blank_elf"
  by (simp_all add: blank_elf_def)

lemma one_file:
  "root_ok (benos_disk d [blank_elf]) (fat_h_of boot_header) 364544 64 1"
  "live_entries (benos_disk d [blank_elf]) 364544 1 = 1"
  "entry_at (loaded_root (benos_disk d [blank_elf]) (fat_h_of boot_header) a q 364544 64 1) 0 = fat_dir_item_of blank_elf"
proof -
  have j: "\<forall>j < (1::nat). concat [blank_elf] ! (32 * j) \<noteq> 0" using blank_disk(2) by simp
  show "root_ok (benos_disk d [blank_elf]) (fat_h_of boot_header) 364544 64 1"
    by (rule benos_root(1)) (use j blank_disk in auto)
  have "dir_mark (benos_disk d [blank_elf]) 364544 0 = 0x42"
    using benos_root(2) [of "[blank_elf]" 1 0] j blank_disk by simp
  then show "live_entries (benos_disk d [blank_elf]) 364544 1 = 1"
    by (simp only: live_entries_def) simp
  show "entry_at (loaded_root (benos_disk d [blank_elf]) (fat_h_of boot_header) a q 364544 64 1) 0 = fat_dir_item_of blank_elf"
    using benos_root(3) [of "[blank_elf]" 1 0] j blank_disk by simp
qed

lemma boot_root:
  "dir_ok (root_dir (boot_private (benos_disk d [blank_elf]) 1))"
  "only_entry (root_dir (boot_private (benos_disk d [blank_elf]) 1)) (part_str blank_part) 0"
  "no_entry (root_dir (boot_private (benos_disk d [blank_elf]) 1)) (part_str ghost_part)"
  "entry_at (root_dir (boot_private (benos_disk d [blank_elf]) 1)) 0 = fat_dir_item_of blank_elf"
proof -
  have t: "dir_total (root_dir (boot_private (benos_disk d [blank_elf]) 1)) = 1"
    by (simp add: boot_private_def loaded_root_def one_file(2) del: One_nat_def)
  show e: "entry_at (root_dir (boot_private (benos_disk d [blank_elf]) 1)) 0 = fat_dir_item_of blank_elf"
    by (simp add: boot_private_def one_file(3) del: One_nat_def)
  show "dir_ok (root_dir (boot_private (benos_disk d [blank_elf]) 1))"
    using t by (simp add: dir_ok_def) (simp add: boot_private_def loaded_root_def)
  show "only_entry (root_dir (boot_private (benos_disk d [blank_elf]) 1)) (part_str blank_part) 0"
    and "no_entry (root_dir (boot_private (benos_disk d [blank_elf]) 1)) (part_str ghost_part)"
    using t e blank_matches by (simp_all add: only_entry_def no_entry_def)
qed

lemma boot_cluster:
  "cluster_ok boot_drive (boot_private dev k) 3" "data_pos (boot_private dev k) 3 = 432128"
  "cluster_bytes (boot_private dev k) = 65536"
  by (simp_all add: cluster_ok_def data_pos_def cluster_bytes_def boot_private_def loaded_root_def
      boot_header_fields boot_drive_def boot_stream_def)

theorem fat16_file_ok_witness:
  "\<exists>desc s' fp' s''.
    fat16_open (benos_disk [] [blank_elf]) boot_drive fresh_kmem (boot_private (benos_disk [] [blank_elf]) 1)
      [blank_part] FILE_MODE_READ = Some (Inr desc, s', boot_private (benos_disk [] [blank_elf]) 1) \<and>
    fat16_read (benos_disk [] [blank_elf]) boot_drive (boot_private (benos_disk [] [blank_elf]) 1) desc 2 3 =
      Some (3, [76, 76, 76, 76, 76, 76], fp') \<and>
    fat16_close s' desc = Some (0, s'') \<and> k_live s'' = k_live fresh_kmem"
proof -
  have d: "sectors_512 (benos_disk [] [blank_elf])" by (rule benos_disk) simp
  have "disk_bytes (benos_disk [] [blank_elf]) 432128 6 = take 6 (drop 0 (benos_disk [] [blank_elf] 844))"
    by (rule disk_bytes_at [OF d]) simp_all
  then have b: "disk_bytes (benos_disk [] [blank_elf]) 432128 6 = [76, 76, 76, 76, 76, 76]"
  proof -
    have "replicate 6 (844 :: byte) = [76, 76, 76, 76, 76, 76]" by code_simp
    moreover assume "disk_bytes (benos_disk [] [blank_elf]) 432128 6 = take 6 (drop 0 (benos_disk [] [blank_elf] 844))"
    ultimately show ?thesis by (simp add: benos_disk_def)
  qed
  have c: "fat16_get_first_cluster (entry_at (root_dir (boot_private (benos_disk [] [blank_elf]) 1)) 0) = int 3"
    and n: "\<not> is_subdirectory (entry_at (root_dir (boot_private (benos_disk [] [blank_elf]) 1)) 0)"
    using blank_item boot_root(4) by simp_all
  show ?thesis
    using fat16_file_ok [OF d fresh_kmem(1) _ boot_root(1) part_names(1) boot_root(2) n boot_cluster(1) c, of 2 3]
      b fresh_kmem(2) boot_cluster(2,3) by simp blast
qed

theorem fat16_open_refuses_witness:
  "\<exists>s'. fat16_open numbered_disk boot_drive fresh_kmem (boot_private (benos_disk [] [blank_elf]) 1) [ghost_part] FILE_MODE_READ =
     Some (Inl (-1), s', boot_private (benos_disk [] [blank_elf]) 1)"
  using fat16_open_refuses [OF fresh_kmem(1) _ boot_root(1) part_names(2) boot_root(3), of numbered_disk boot_drive "[]"]
    fresh_kmem(2) by (auto simp: status_simps)

theorem fat16_resolve_ok_witness:
  "\<exists>s' fp. fat16_resolve (benos_disk [] [blank_elf]) boot_drive fresh_kmem = Some (0, s', Some fp) \<and>
     dir_total (root_dir fp) = 1 \<and> ending_sector_pos (root_dir fp) = 716"
proof -
  have d: "sectors_512 (benos_disk [] [blank_elf])" by (rule benos_disk) simp
  have h: "fat_h_of (disk_bytes (benos_disk [] [blank_elf]) 0 62) = fat_h_of boot_header"
    by (simp add: boot_header_bytes)
  show ?thesis
    using fat16_resolve_ok [OF d fresh_kmem(1) _ _ _ h boot_header_fields(1) one_file(1), of boot_drive] fresh_kmem(2)
    by (auto simp: boot_drive_def loaded_root_def one_file(2) boot_header_fields simp del: One_nat_def)
qed

theorem fat16_resolve_leaks_witness:
  "\<exists>s'. fat16_resolve numbered_disk boot_drive fresh_kmem = Some (-5, s', None) \<and> k_live s' \<noteq> k_live fresh_kmem"
proof -
  have "disk_bytes numbered_disk 0 62 = replicate 62 0"
    using disk_bytes_at [OF numbered_disk, of 0 62 0 0] by (simp add: numbered_disk_def)
  then have s: "signature (extended_header (fat_h_of (disk_bytes numbered_disk 0 62))) \<noteq> 0x29"
    by (simp add: fat_h_of_def fat_header_extended_of_def)
  obtain s' a b c where "fat16_resolve numbered_disk boot_drive fresh_kmem = Some (- EFSNOTUS, s', None)"
      "k_live fresh_kmem c = None" "k_live s' = (k_live fresh_kmem)(a \<mapsto> 1, b \<mapsto> 1, c \<mapsto> 1)"
    using fat16_resolve_leaks [OF numbered_disk fresh_kmem(1) _ _ s, of boot_drive] fresh_kmem(2)
    by (auto simp: boot_drive_def)
  then show ?thesis by (intro exI [of _ s']) (auto simp: status_simps dest: fun_cong [of _ _ c])
qed

theorem fat_entry_misplaced_witness:
  "\<exists>fp. fat16_get_fat_entry numbered_disk boot_drive (boot_private numbered_disk 1) 3 = Some (0xB0B0, fp) \<and>
     le16 (disk_bytes numbered_disk (512 * 200 + 2 * 3) 2) 0 = 0xC8C8"
proof -
  have w: "le16 (disk_bytes numbered_disk (1024 * 200 * 3) 2) 0 = 0xB0B0"
    using disk_bytes_at [OF numbered_disk, of 0 2 "1024 * 200 * 3" 1200] by (simp add: numbered_disk_def le16_def)
  have "le16 (disk_bytes numbered_disk (512 * 200 + 2 * 3) 2) 0 = 0xC8C8"
    using disk_bytes_at [OF numbered_disk, of 6 2 "512 * 200 + 2 * 3" 200] by (simp add: numbered_disk_def le16_def)
  moreover have "\<exists>fp. fat16_get_fat_entry numbered_disk boot_drive (boot_private numbered_disk 1) (int 3) = Some (0xB0B0, fp)"
    using fat_entry_misplaced [OF numbered_disk, of boot_drive "boot_private numbered_disk 1" 200 3 "boot_stream 0x01002000"] w
    by (simp add: boot_drive_def boot_private_def boot_header_fields boot_stream_def)
  ultimately show ?thesis by simp
qed

theorem fat16_deleted_hides_witness:
  "fat16_find_item_in_dir (benos_disk [] [0xE5 # tl blank_elf, blank_elf]) boot_drive fresh_kmem (boot_private (benos_disk [] [0xE5 # tl blank_elf, blank_elf]) 2)
     (root_dir (boot_private (benos_disk [] [0xE5 # tl blank_elf, blank_elf]) 2)) (part_str blank_part) =
   Some (None, fresh_kmem, boot_private (benos_disk [] [0xE5 # tl blank_elf, blank_elf]) 2)"
proof -
  let ?es = "[0xE5 # tl blank_elf, blank_elf]"
  let ?fp = "boot_private (benos_disk [] ?es) 2"
  have j: "\<forall>j < 2. concat ?es ! (32 * j) \<noteq> 0"
    using blank_disk(4,5) by (auto simp: less_2_cases_iff)
  have l: "length (concat ?es) \<le> 512" "length (concat ?es) = 32 * 2" using blank_disk(3) by simp_all
  have r: "root_ok (benos_disk [] ?es) (fat_h_of boot_header) 364544 64 (Suc 1)"
    using benos_root(1) [OF l(1) _ j l(2)] by (simp add: numeral_2_eq_2)
  have m: "dir_mark (benos_disk [] ?es) 364544 0 = 0xE5"
    using benos_root(2) [OF l(1) _ j l(2), of 0] blank_disk(4) by simp
  have e: "entry_at (root_dir ?fp) 0 = fat_dir_item_of (0xE5 # tl blank_elf)"
      "entry_at (root_dir ?fp) 1 = fat_dir_item_of blank_elf"
    using benos_root(3) [OF l(1) _ j l(2), of 0 "[]" 0 "0x01005000" 2] benos_root(3) [OF l(1) _ j l(2), of 1 "[]" 0 "0x01005000" 2]
      blank_disk(7,8) by (simp_all add: boot_private_def)
  show ?thesis
    by (rule fat16_deleted_hides [OF r _ _ m part_names(1), where a = 0 and q = "0x01005000"])
      (use e blank_matches in \<open>auto simp: numeral_2_eq_2\<close>, simp add: boot_private_def numeral_2_eq_2)
qed

end
