(* ===== verification/PhysMem.thy ===== *)
theory PhysMem
  imports Allocator
begin

text \<open>
  32-bit little-endian loads and stores in the byte-addressed physical memory, and the lemmas
  that reduce a load after a store or after \<open>ram_fill\<close>. Word accesses of the kernel model are
  4-byte aligned (page tables, structures on the heap).
\<close>

definition load32 :: "(addr \<Rightarrow> byte) \<Rightarrow> addr \<Rightarrow> u32" where
  "load32 m a = ucast (m a) OR push_bit 8 (ucast (m (a + 1))) OR push_bit 16 (ucast (m (a + 2)))
     OR push_bit 24 (ucast (m (a + 3)))"

definition store32 :: "(addr \<Rightarrow> byte) \<Rightarrow> addr \<Rightarrow> u32 \<Rightarrow> (addr \<Rightarrow> byte)" where
  "store32 m a v = m(a := ucast v, a + 1 := ucast (drop_bit 8 v), a + 2 := ucast (drop_bit 16 v),
     a + 3 := ucast (drop_bit 24 v))"

definition aligned4 :: "addr \<Rightarrow> bool" where
  "aligned4 a \<longleftrightarrow> unat a mod 4 = 0"

lemma load_store_same [mem_simps]: "load32 (store32 m a v) a = v"
proof (rule bit_word_eqI)
  fix n assume "n < LENGTH(32)"
  then show "bit (load32 (store32 m a v) a) n \<longleftrightarrow> bit v n"
    unfolding load32_def store32_def
    by (cases "n < 8"; cases "n < 16"; cases "n < 24") (auto simp: bit_simps)
qed

lemma unat_aligned_offset: "aligned4 a \<Longrightarrow> i < 4 \<Longrightarrow> unat (a + of_nat i) = unat a + i"
proof -
  assume a: "aligned4 a" and i: "i < 4"
  define q where "q = unat a div 4"
  have q: "unat a = q * 4" using a by (auto simp: aligned4_def q_def)
  have "unat a < 4294967296" by simp
  then have "q < 1073741824" unfolding q by linarith
  then have "q * 4 + i < 4294967296" using i by linarith
  then show ?thesis
    using i q by (simp add: unat_add_u32 unat_of_nat_u32)
qed

lemma aligned_offset_neq:
  assumes "aligned4 a" "aligned4 b" "a \<noteq> b" "i < 4" "j < 4"
  shows "a + of_nat i \<noteq> b + of_nat j"
proof
  assume "a + of_nat i = b + of_nat j"
  then have "unat a + i = unat b + j"
    using unat_aligned_offset [OF assms(1,4)] unat_aligned_offset [OF assms(2,5)] by simp
  moreover obtain k l where "unat a = k * 4" "unat b = l * 4"
    using assms(1,2) by (auto simp: aligned4_def mult.commute elim!: dvdE simp flip: dvd_eq_mod_eq_0)
  moreover from calculation have "k = l" using assms(4,5) by linarith
  ultimately show False using assms(3) by (simp add: word_unat_eq_iff)
qed

lemma load_store_other [mem_simps]:
  assumes "aligned4 a" "aligned4 b" "a \<noteq> b"
  shows "load32 (store32 m a v) b = load32 m b"
proof -
  have "store32 m a v (b + of_nat j) = m (b + of_nat j)" if "j < 4" for j
    using aligned_offset_neq [OF assms, of 0 j] aligned_offset_neq [OF assms, of 1 j]
      aligned_offset_neq [OF assms, of 2 j] aligned_offset_neq [OF assms, of 3 j] that
    by (auto simp: store32_def)
  from this [of 0] this [of 1] this [of 2] this [of 3] show ?thesis
    by (simp add: load32_def)
qed

subsection \<open>Words of a page\<close>

text \<open>\<open>word_at p i\<close> is the address of element \<open>i\<close> of an array of 32-bit words at \<open>p\<close>.\<close>

definition word_at :: "addr \<Rightarrow> nat \<Rightarrow> addr" where
  "word_at p i = p + of_nat i * 4"

definition page_aligned :: "addr \<Rightarrow> bool" where
  "page_aligned p \<longleftrightarrow> unat p mod 4096 = 0"

lemma unat_word_at:
  assumes "page_aligned p" "i < 1024"
  shows "unat (word_at p i) = unat p + i * 4"
proof -
  define q where "q = unat p div 4096"
  have q: "unat p = q * 4096" using assms by (auto simp: page_aligned_def q_def)
  have "unat p < 4294967296" by simp
  then have "q < 1048576" unfolding q by linarith
  then have "q * 4096 + i * 4 < 4294967296" using assms(2) by linarith
  moreover have "unat (of_nat (i * 4) :: u32) = i * 4"
    using assms(2) by (intro unat_of_nat_u32) linarith
  ultimately have "unat (p + of_nat (i * 4)) = unat p + i * 4"
    using q by (metis unat_add_u32)
  then show ?thesis by (simp add: word_at_def)
qed

lemma aligned_word_at: "page_aligned p \<Longrightarrow> i < 1024 \<Longrightarrow> aligned4 (word_at p i)"
proof -
  assume p: "page_aligned p" and i: "i < 1024"
  define q where "q = unat p div 4096"
  have "unat p = 4 * (1024 * q)" using p by (auto simp: page_aligned_def q_def)
  then show ?thesis by (simp add: aligned4_def unat_word_at [OF p i])
qed

lemma word_at_inj:
  assumes "page_aligned p" "page_aligned q" "i < 1024" "j < 1024" "word_at p i = word_at q j"
  shows "p = q \<and> i = j"
proof -
  define k l where "k = unat p div 4096" and "l = unat q div 4096"
  have kl: "unat p = k * 4096" "unat q = l * 4096"
    using assms by (auto simp: page_aligned_def k_def l_def)
  have "k * 4096 + i * 4 = l * 4096 + j * 4"
    using unat_word_at [OF assms(1,3)] unat_word_at [OF assms(2,4)] assms(5) kl by simp
  moreover from this have "k = l" using assms(3,4) by linarith
  ultimately show ?thesis using kl by (simp add: word_unat_eq_iff)
qed

lemma load_store_word [mem_simps]:
  assumes "page_aligned p" "page_aligned q" "i < 1024" "j < 1024"
  shows "load32 (store32 m (word_at p i) v) (word_at q j) =
    (if p = q \<and> i = j then v else load32 m (word_at q j))"
  using assms load_store_same load_store_other [of "word_at p i" "word_at q j"]
    aligned_word_at word_at_inj by (metis (no_types, lifting))

end
