(* ===== verification/Paging.thy ===== *)
theory Paging
  imports PhysMem
begin

text \<open>
  Two-level i386 paging (\<^verbatim>\<open>src/memory/paging/paging.c\<close>, \<^verbatim>\<open>paging.h\<close>, \<^verbatim>\<open>paging.asm\<close>). A page
  directory and its tables are arrays of 1024 words in physical memory; a
  \<open>paging_4gb_chunk\<close> is one word that holds the directory's address. The state adds the
  current directory and the register CR3 to the kernel's memory. A NULL directory, table or
  chunk that is written to is \<^term>\<open>None\<close>.
\<close>

record pmem = kmem +
  curr_dir :: addr
  cr3 :: addr

definition PAGING_CACHE_DISABLED :: u32 where "PAGING_CACHE_DISABLED = 0b00010000"
definition PAGING_WRITE_THROUGH :: u32 where "PAGING_WRITE_THROUGH = 0b00001000"
definition PAGING_ACCESS_FROM_ALL :: u32 where "PAGING_ACCESS_FROM_ALL = 0b00000100"
definition PAGING_IS_WRITABLE :: u32 where "PAGING_IS_WRITABLE = 0b00000010"
definition PAGING_IS_PRESENT :: u32 where "PAGING_IS_PRESENT = 0b00000001"
definition PAGING_TOTAL_ENTRIES_PER_TABLE :: u32 where "PAGING_TOTAL_ENTRIES_PER_TABLE = 1024"
definition PAGING_PAGE_SIZE :: u32 where "PAGING_PAGE_SIZE = 4096"

lemmas paging_consts = PAGING_CACHE_DISABLED_def PAGING_WRITE_THROUGH_def PAGING_ACCESS_FROM_ALL_def
  PAGING_IS_WRITABLE_def PAGING_IS_PRESENT_def PAGING_TOTAL_ENTRIES_PER_TABLE_def PAGING_PAGE_SIZE_def

subsection \<open>Reading and writing page tables\<close>

definition paging_4g_chunk_get_dir :: "'z kmem_scheme \<Rightarrow> addr \<Rightarrow> addr" where
  "paging_4g_chunk_get_dir s chunk = load32 (ram s) chunk"

definition paging_switch :: "'z pmem_scheme \<Rightarrow> addr \<Rightarrow> 'z pmem_scheme" where
  "paging_switch s directory =
     (let dir = paging_4g_chunk_get_dir s directory in s\<lparr>cr3 := dir, curr_dir := dir\<rparr>)"

definition paging_is_alligned :: "addr \<Rightarrow> bool" where
  "paging_is_alligned a = (a mod PAGING_PAGE_SIZE = 0)"

text \<open>The two \<open>out\<close> parameters keep their values when the address is not aligned.\<close>

definition paging_get_indexes :: "addr \<Rightarrow> u32 \<Rightarrow> u32 \<Rightarrow> int \<times> u32 \<times> u32" where
  "paging_get_indexes v_address dir_i_out table_i_out =
     (if \<not> paging_is_alligned v_address then (- EINVARG, dir_i_out, table_i_out)
      else (0,
        v_address div (PAGING_TOTAL_ENTRIES_PER_TABLE * PAGING_PAGE_SIZE),
        v_address mod (PAGING_TOTAL_ENTRIES_PER_TABLE * PAGING_PAGE_SIZE) div PAGING_PAGE_SIZE))"

definition paging_align_address :: "addr \<Rightarrow> addr" where
  "paging_align_address ptr =
     (if ptr mod PAGING_PAGE_SIZE \<noteq> 0 then ptr + PAGING_PAGE_SIZE - ptr mod PAGING_PAGE_SIZE else ptr)"

definition paging_align_to_lower_page :: "addr \<Rightarrow> addr" where
  "paging_align_to_lower_page a = a - a mod PAGING_PAGE_SIZE"

definition paging_set :: "'z kmem_scheme \<Rightarrow> addr \<Rightarrow> addr \<Rightarrow> u32 \<Rightarrow> int \<times> 'z kmem_scheme" where
  "paging_set s dir virt val =
     (if \<not> paging_is_alligned virt then (- EINVARG, s)
      else
        (let (res, dir_i, table_i) = paging_get_indexes virt 0 0
         in if res < 0 then (res, s)
            else
              (let entry = load32 (ram s) (dir + dir_i * 4);
                   table = entry AND 0xFFFFF000
               in (0, s\<lparr>ram := store32 (ram s) (table + table_i * 4) val\<rparr>))))"

definition paging_get :: "'z kmem_scheme \<Rightarrow> addr \<Rightarrow> addr \<Rightarrow> u32" where
  "paging_get s dir virt =
     (let (res, dir_i, table_i) = paging_get_indexes virt 0 0;
          entry = load32 (ram s) (dir + dir_i * 4);
          table = entry AND 0xFFFFF000
      in load32 (ram s) (table + table_i * 4))"

definition paging_get_phys_addr :: "'z kmem_scheme \<Rightarrow> addr \<Rightarrow> addr \<Rightarrow> addr" where
  "paging_get_phys_addr s dir virt =
     (let virt_addr_new = paging_align_to_lower_page virt;
          diff = virt - virt_addr_new
      in (paging_get s dir virt_addr_new AND 0xFFFFF000) + diff)"

definition paging_map :: "'z kmem_scheme \<Rightarrow> addr \<Rightarrow> addr \<Rightarrow> addr \<Rightarrow> u32 \<Rightarrow> int \<times> 'z kmem_scheme" where
  "paging_map s chunk virt phys flags =
     (if virt mod PAGING_PAGE_SIZE \<noteq> 0 \<or> phys mod PAGING_PAGE_SIZE \<noteq> 0 then (- EINVARG, s)
      else paging_set s (paging_4g_chunk_get_dir s chunk) virt (phys OR flags))"

text \<open>The loop of \<open>paging_map_range\<close>, \<open>n\<close> iterations to go, with the last result in \<open>res\<close>.\<close>

fun map_range_loop ::
  "nat \<Rightarrow> int \<Rightarrow> 'z kmem_scheme \<Rightarrow> addr \<Rightarrow> addr \<Rightarrow> addr \<Rightarrow> u32 \<Rightarrow> int \<times> 'z kmem_scheme" where
  "map_range_loop 0 res s chunk virt phys flags = (res, s)"
| "map_range_loop (Suc n) res s chunk virt phys flags =
     (let (res', s') = paging_map s chunk virt phys flags
      in if res' < 0 then (res', s')
         else map_range_loop n res' s' chunk (virt + PAGING_PAGE_SIZE) (phys + PAGING_PAGE_SIZE) flags)"

definition paging_map_range ::
  "'z kmem_scheme \<Rightarrow> addr \<Rightarrow> addr \<Rightarrow> addr \<Rightarrow> int \<Rightarrow> u32 \<Rightarrow> int \<times> 'z kmem_scheme" where
  "paging_map_range s chunk virt phys count flags = map_range_loop (nat count) 0 s chunk virt phys flags"

definition paging_map_to ::
  "'z kmem_scheme \<Rightarrow> addr \<Rightarrow> addr \<Rightarrow> addr \<Rightarrow> addr \<Rightarrow> u32 \<Rightarrow> int \<times> 'z kmem_scheme" where
  "paging_map_to s chunk virt phys phys_end flags =
     (if virt mod PAGING_PAGE_SIZE \<noteq> 0 then (- EINVARG, s)
      else if phys mod PAGING_PAGE_SIZE \<noteq> 0 then (- EINVARG, s)
      else if phys_end mod PAGING_PAGE_SIZE \<noteq> 0 then (- EINVARG, s)
      else if phys_end \<le> phys then (- EINVARG, s)
      else
        (let total_bytes = phys_end - phys;
             total_pages = sint (total_bytes div PAGING_PAGE_SIZE)
         in paging_map_range s chunk virt phys total_pages flags))"

subsection \<open>Creating and freeing an address space\<close>

text \<open>
  \<open>fill_table_loop\<close> is the inner loop of \<open>paging_new_4gb\<close> over \<open>b\<close> and
  \<open>new_tables_loop\<close> the outer loop over \<open>i\<close>; each takes the number of iterations to go.
\<close>

fun fill_table_loop :: "nat \<Rightarrow> nat \<Rightarrow> (addr \<Rightarrow> byte) \<Rightarrow> addr \<Rightarrow> u32 \<Rightarrow> u32 \<Rightarrow> (addr \<Rightarrow> byte)" where
  "fill_table_loop 0 b m entry offset flags = m"
| "fill_table_loop (Suc n) b m entry offset flags =
     fill_table_loop n (Suc b)
       (store32 m (word_at entry b) ((offset + of_nat b * PAGING_PAGE_SIZE) OR flags))
       entry offset flags"

fun new_tables_loop ::
  "nat \<Rightarrow> nat \<Rightarrow> 'z kmem_scheme \<Rightarrow> addr \<Rightarrow> u32 \<Rightarrow> u32 \<Rightarrow> 'z kmem_scheme option" where
  "new_tables_loop 0 i s dir offset flags = Some s"
| "new_tables_loop (Suc n) i s dir offset flags =
     do {
       (entry, s1) \<leftarrow> kzalloc s (4 * PAGING_TOTAL_ENTRIES_PER_TABLE);
       if entry = 0 then None
       else
         (let m2 = fill_table_loop 1024 0 (ram s1) entry offset flags;
              m3 = store32 m2 (word_at dir i) (entry OR flags OR PAGING_IS_WRITABLE)
          in new_tables_loop n (Suc i) (s1\<lparr>ram := m3\<rparr>) dir
               (offset + PAGING_TOTAL_ENTRIES_PER_TABLE * PAGING_PAGE_SIZE) flags) }"

definition paging_new_4gb :: "'z kmem_scheme \<Rightarrow> byte \<Rightarrow> (addr \<times> 'z kmem_scheme) option" where
  "paging_new_4gb s flags =
     do {
       (dir, s1) \<leftarrow> kzalloc s (4 * PAGING_TOTAL_ENTRIES_PER_TABLE);
       if dir = 0 then None
       else do {
         s2 \<leftarrow> new_tables_loop 1024 0 s1 dir 0 (ucast flags);
         (chunk, s3) \<leftarrow> kzalloc s2 4;
         if chunk = 0 then None
         else Some (chunk, s3\<lparr>ram := store32 (ram s3) chunk dir\<rparr>) } }"

fun free_tables_loop :: "nat \<Rightarrow> nat \<Rightarrow> 'z kmem_scheme \<Rightarrow> addr \<Rightarrow> 'z kmem_scheme option" where
  "free_tables_loop 0 i s chunk = Some s"
| "free_tables_loop (Suc n) i s chunk =
     do {
       let entry = load32 (ram s) (word_at (paging_4g_chunk_get_dir s chunk) i);
       let table = entry AND 0xFFFFF000;
       s' \<leftarrow> kfree s table;
       free_tables_loop n (Suc i) s' chunk }"

definition paging_free_4gb :: "'z kmem_scheme \<Rightarrow> addr \<Rightarrow> 'z kmem_scheme option" where
  "paging_free_4gb s chunk =
     do {
       s1 \<leftarrow> free_tables_loop 1024 0 s chunk;
       s2 \<leftarrow> kfree s1 (paging_4g_chunk_get_dir s1 chunk);
       kfree s2 chunk }"

subsection \<open>Pages and indices\<close>

lemma page_aligned_take_bit: "page_aligned p \<longleftrightarrow> take_bit 12 p = 0"
proof -
  have "take_bit 12 p = p mod 4096" by (simp add: take_bit_eq_mod)
  then show ?thesis by (simp add: page_aligned_def mod_page_zero)
qed

lemma page_aligned_mod: "page_aligned p \<longleftrightarrow> p mod PAGING_PAGE_SIZE = 0"
  by (simp add: page_aligned_def paging_consts mod_page_zero)

lemma page_aligned_0 [simp]: "page_aligned 0" and page_aligned_page [simp]: "page_aligned 4096"
  by (simp_all add: page_aligned_def)

lemma page_aligned_add [simp]:
  assumes "page_aligned p"
  shows "page_aligned (p + q) \<longleftrightarrow> page_aligned q"
proof -
  have "unat (p + q) mod 4096 = (unat p + unat q) mod 4096"
    by (simp add: unat_word_ariths mod_mod_cancel)
  also have "\<dots> = unat q mod 4096"
    using assms by (metis add_0 mod_add_left_eq page_aligned_def)
  finally show ?thesis by (simp add: page_aligned_def)
qed

lemma page_aligned_diff: "page_aligned p \<Longrightarrow> page_aligned q \<Longrightarrow> page_aligned (p - q)"
  by (metis diff_add_cancel add.commute page_aligned_add)

lemma page_aligned_mult [simp]: "page_aligned (n * 4096)"
proof -
  have "n * 4096 = push_bit 12 n" by (simp add: push_bit_eq_mult)
  then show ?thesis by (simp add: page_aligned_take_bit take_bit_push_bit)
qed

lemma and_page_mask: "p AND 0xFFFFF000 = p - p mod 4096" for p :: u32
proof -
  have m: "p mod 4096 = p AND 0xFFF"
    using take_bit_eq_mod [of 12 p] take_bit_eq_mask [of 12 p] by (simp add: mask_numeral)
  have "(p AND 0xFFF) AND (p AND 0xFFFFF000) = p AND (0xFFF AND 0xFFFFF000)"
    by (simp only: and.assoc and.left_commute and.left_idem)
  then have "(p AND 0xFFF) AND (p AND 0xFFFFF000) = 0" by simp
  then have "(p AND 0xFFF) + (p AND 0xFFFFF000) = (p AND 0xFFF) OR (p AND 0xFFFFF000)"
    using word_plus_and_or [of "p AND 0xFFF" "p AND 0xFFFFF000"] by simp
  also have "\<dots> = p AND (0xFFF OR 0xFFFFF000)" by (simp only: bit.conj_disj_distrib)
  also have "(0xFFF :: u32) OR 0xFFFFF000 = -1" by simp
  also have "p AND -1 = p" by simp
  finally show ?thesis unfolding m by (simp add: algebra_simps)
qed

lemma page_mask_aligned [simp]: "page_aligned (p AND 0xFFFFF000)"
  unfolding page_aligned_take_bit
  by (rule bit_word_eqI) (auto simp: bit_simps)

lemma page_mask_id: "page_aligned p \<Longrightarrow> p AND 0xFFFFF000 = p"
  by (simp add: and_page_mask page_aligned_def mod_page_zero [symmetric])

lemma page_mask_flags: "page_aligned p \<Longrightarrow> f AND 0xFFFFF000 = 0 \<Longrightarrow> (p OR f) AND 0xFFFFF000 = p"
  by (simp add: bit.conj_disj_distrib2 page_mask_id)

definition pd_index :: "addr \<Rightarrow> nat" where "pd_index v = unat v div 4194304"
definition pt_index :: "addr \<Rightarrow> nat" where "pt_index v = unat v mod 4194304 div 4096"

lemma pd_index_less [simp]: "pd_index v < 1024"
  using u32_lt [of v] unfolding pd_index_def by (simp add: less_mult_imp_div_less)

lemma pt_index_less [simp]: "pt_index v < 1024"
  unfolding pt_index_def by (simp add: less_mult_imp_div_less)

lemma page_index_eq:
  assumes "page_aligned v" "page_aligned w" "pd_index v = pd_index w" "pt_index v = pt_index w"
  shows "v = w"
proof -
  have dec: "unat x = pd_index x * 4194304 + pt_index x * 4096" if "page_aligned x" for x
  proof -
    have "unat x mod 4194304 mod 4096 = 0"
      using that by (simp add: page_aligned_def mod_mod_cancel)
    then show ?thesis unfolding pd_index_def pt_index_def by (metis add.right_neutral div_mult_mod_eq)
  qed
  show ?thesis using dec [OF assms(1)] dec [OF assms(2)] assms(3,4) by (simp add: word_unat_eq_iff)
qed

lemma get_indexes_aligned:
  assumes "page_aligned v"
  shows "paging_get_indexes v d t = (0, of_nat (pd_index v), of_nat (pt_index v))"
proof -
  have "v div 4194304 = of_nat (pd_index v)" "v mod 4194304 div 4096 = of_nat (pt_index v)"
    using unat_of_nat_u32 [of "pd_index v"] unat_of_nat_u32 [of "pt_index v"]
      pd_index_less [of v] pt_index_less [of v]
    by (simp_all add: word_unat_eq_iff unat_div_u32 unat_mod_u32 pd_index_def pt_index_def)
  then show ?thesis
    using assms by (simp add: paging_get_indexes_def paging_is_alligned_def page_aligned_mod paging_consts)
qed

subsection \<open>Page directories\<close>

definition table_of :: "(addr \<Rightarrow> byte) \<Rightarrow> addr \<Rightarrow> nat \<Rightarrow> addr" where
  "table_of m dir i = load32 m (word_at dir i) AND 0xFFFFF000"

text \<open>The tables of a directory are pages of their own.\<close>

definition pd_wf :: "addr \<Rightarrow> (addr \<Rightarrow> byte) \<Rightarrow> bool" where
  "pd_wf dir m \<longleftrightarrow> page_aligned dir \<and> (\<forall>i < 1024. table_of m dir i \<noteq> dir) \<and>
     (\<forall>i < 1024. \<forall>j < 1024. i \<noteq> j \<longrightarrow> table_of m dir i \<noteq> table_of m dir j)"

definition pte_addr :: "(addr \<Rightarrow> byte) \<Rightarrow> addr \<Rightarrow> addr \<Rightarrow> addr" where
  "pte_addr m dir v = word_at (table_of m dir (pd_index v)) (pt_index v)"

lemma table_of_aligned [simp]: "page_aligned (table_of m dir i)"
  by (simp add: table_of_def)

lemma paging_get_aligned:
  "page_aligned v \<Longrightarrow> paging_get s dir v = load32 (ram s) (pte_addr (ram s) dir v)"
  by (simp add: paging_get_def get_indexes_aligned pte_addr_def table_of_def word_at_def Let_def)

lemma paging_set_aligned:
  "page_aligned v \<Longrightarrow> paging_set s dir v x = (0, s\<lparr>ram := store32 (ram s) (pte_addr (ram s) dir v) x\<rparr>)"
  by (simp add: paging_set_def get_indexes_aligned pte_addr_def table_of_def word_at_def Let_def
      paging_is_alligned_def page_aligned_mod)

lemma paging_set_unaligned: "\<not> page_aligned v \<Longrightarrow> paging_set s dir v x = (- EINVARG, s)"
  by (simp add: paging_set_def paging_is_alligned_def page_aligned_mod)

lemma table_of_store:
  assumes "pd_wf dir m" "i < 1024"
  shows "table_of (store32 m (pte_addr m dir v) x) dir i = table_of m dir i"
  using assms by (simp add: pd_wf_def table_of_def [of _ dir i] pte_addr_def load_store_word)

lemma pd_wf_store: "pd_wf dir m \<Longrightarrow> pd_wf dir (store32 m (pte_addr m dir v) x)"
  by (simp add: pd_wf_def table_of_store [unfolded pd_wf_def])

lemma pte_addr_store: "pd_wf dir m \<Longrightarrow> pte_addr (store32 m (pte_addr m dir v) x) dir w = pte_addr m dir w"
  by (simp add: pte_addr_def [of _ dir w] table_of_store)

lemma pte_addr_inj:
  assumes "pd_wf dir m" "page_aligned v" "page_aligned w" "pte_addr m dir v = pte_addr m dir w"
  shows "v = w"
proof -
  have "table_of m dir (pd_index v) = table_of m dir (pd_index w)" "pt_index v = pt_index w"
    using word_at_inj [OF _ _ _ _ assms(4) [unfolded pte_addr_def]] by simp_all
  then show ?thesis using assms page_index_eq unfolding pd_wf_def by (metis pd_index_less)
qed

lemma load_store_pte:
  assumes "pd_wf dir m" "page_aligned v" "page_aligned w"
  shows "load32 (store32 m (pte_addr m dir v) x) (pte_addr m dir w) =
    (if w = v then x else load32 m (pte_addr m dir w))"
proof (cases "w = v")
  case True
  then show ?thesis by (simp add: load_store_same)
next
  case False
  then have "pte_addr m dir v \<noteq> pte_addr m dir w" using pte_addr_inj [OF assms] by auto
  then show ?thesis
    using False by (simp add: pte_addr_def load_store_other aligned_word_at)
qed

subsection \<open>The page-map interface\<close>

locale page_map =
  fixes get :: "'s \<Rightarrow> addr \<Rightarrow> u32"
    and put :: "'s \<Rightarrow> addr \<Rightarrow> u32 \<Rightarrow> 's"
    and wf :: "'s \<Rightarrow> bool"
  assumes wf_set: "wf s \<Longrightarrow> page_aligned v \<Longrightarrow> wf (put s v x)"
    and get_set: "wf s \<Longrightarrow> page_aligned v \<Longrightarrow> page_aligned w \<Longrightarrow>
      get (put s v x) w = (if w = v then x else get s w)"

text \<open>Mapping \<open>n\<close> consecutive pages.\<close>

fun set_pages :: "('s \<Rightarrow> addr \<Rightarrow> u32 \<Rightarrow> 's) \<Rightarrow> nat \<Rightarrow> 's \<Rightarrow> addr \<Rightarrow> addr \<Rightarrow> u32 \<Rightarrow> 's" where
  "set_pages put 0 s v p f = s"
| "set_pages put (Suc n) s v p f = set_pages put n (put s v (p OR f)) (v + 4096) (p + 4096) f"

lemma page_offset_step:
  assumes "page_aligned v" "page_aligned w" "w \<noteq> v" "n < 1048576"
  shows "unat (w - (v + 4096)) < n * 4096 \<longleftrightarrow> unat (w - v) < Suc n * 4096"
proof -
  define q where "q = unat (w - v) div 4096"
  have q: "unat (w - v) = q * 4096"
    using page_aligned_diff [OF assms(2,1)] by (auto simp: page_aligned_def q_def)
  have "unat (w - v) \<noteq> 0" using assms(3) by (simp add: unat_eq_0)
  then have q0: "1 \<le> q" using q by auto
  have "unat (w - v - 4096) = unat (w - v) - 4096"
    using q q0 by (subst unat_sub) (auto simp: word_le_nat_alt)
  then have "unat (w - (v + 4096)) = (q - 1) * 4096"
    using q by (simp add: diff_diff_eq [symmetric] diff_mult_distrib)
  then show ?thesis unfolding q using q0 by auto
qed

context page_map
begin

lemma wf_set_pages: "wf s \<Longrightarrow> page_aligned v \<Longrightarrow> wf (set_pages put n s v p f)"
  by (induction n arbitrary: s v p) (auto simp: wf_set)

lemma get_set_pages:
  assumes "wf s" "page_aligned v" "page_aligned w" "n \<le> 1048576"
  shows "get (set_pages put n s v p f) w =
    (if unat (w - v) < n * 4096 then (p + (w - v)) OR f else get s w)"
  using assms
proof (induction n arbitrary: s v p)
  case 0
  then show ?case by simp
next
  case (Suc n)
  have IH: "get (set_pages put (Suc n) s v p f) w =
    (if unat (w - (v + 4096)) < n * 4096 then (p + 4096 + (w - (v + 4096))) OR f
     else get (put s v (p OR f)) w)"
    using Suc.IH [of "put s v (p OR f)" "v + 4096" "p + 4096"] Suc.prems by (simp add: wf_set)
  show ?case
  proof (cases "w = v")
    case True
    have "unat (- 4096 :: u32) = 4294963200" by simp
    then have "\<not> unat (w - (v + 4096)) < n * 4096" using True Suc.prems(4) by simp
    then show ?thesis using IH True Suc.prems by (simp add: get_set)
  next
    case False
    then show ?thesis
      using IH page_offset_step [OF Suc.prems(2,3) False, of n] Suc.prems
      by (simp add: get_set algebra_simps)
  qed
qed

end

interpretation pd: page_map "\<lambda>s v. paging_get s dir v" "\<lambda>s v x. snd (paging_set s dir v x)"
  "\<lambda>s. pd_wf dir (ram s)" for dir
proof
  fix s :: "'z kmem_scheme" and v w x
  assume wf: "pd_wf dir (ram s)" and v: "page_aligned v"
  then show "pd_wf dir (ram (snd (paging_set s dir v x)))"
    by (simp add: paging_set_aligned pd_wf_store)
  assume "page_aligned w"
  then show "paging_get (snd (paging_set s dir v x)) dir w = (if w = v then x else paging_get s dir w)"
    using wf v load_store_pte [of dir "ram s" v w x]
    by (simp add: paging_set_aligned paging_get_aligned pte_addr_store)
qed

subsection \<open>Mapping ranges through a chunk\<close>

text \<open>
  A chunk that the paging code can work on: its directory and tables are distinct pages, and
  none of them is the page of the chunk itself.
\<close>

definition chunk_dir :: "'z kmem_scheme \<Rightarrow> addr \<Rightarrow> addr" where
  "chunk_dir s chunk = load32 (ram s) chunk"

definition chunk_wf :: "addr \<Rightarrow> 'z kmem_scheme \<Rightarrow> bool" where
  "chunk_wf chunk s \<longleftrightarrow> page_aligned chunk \<and> chunk_dir s chunk \<noteq> chunk \<and>
     pd_wf (chunk_dir s chunk) (ram s) \<and>
     (\<forall>i < 1024. table_of (ram s) (chunk_dir s chunk) i \<noteq> chunk)"

definition set_page :: "addr \<Rightarrow> 'z kmem_scheme \<Rightarrow> addr \<Rightarrow> u32 \<Rightarrow> 'z kmem_scheme" where
  "set_page dir s v x = snd (paging_set s dir v x)"

lemma word_at_0: "word_at p 0 = p"
  by (simp add: word_at_def)

lemma chunk_dir_set_page:
  assumes "chunk_wf chunk s" "page_aligned v"
  shows "chunk_dir (set_page (chunk_dir s chunk) s v x) chunk = chunk_dir s chunk"
  using assms load_store_word [of _ chunk "pt_index v" 0 "ram s" x]
  by (simp add: set_page_def paging_set_aligned chunk_dir_def pte_addr_def chunk_wf_def word_at_0)

lemma chunk_wf_set_page:
  assumes "chunk_wf chunk s" "page_aligned v"
  shows "chunk_wf chunk (set_page (chunk_dir s chunk) s v x)"
  using assms chunk_dir_set_page [OF assms]
  by (simp add: chunk_wf_def set_page_def paging_set_aligned pd_wf_store table_of_store)

lemma chunk_set_pages:
  "chunk_wf chunk s \<Longrightarrow> page_aligned v \<Longrightarrow> dir = chunk_dir s chunk \<Longrightarrow>
   chunk_wf chunk (set_pages (set_page dir) n s v p f) \<and>
   chunk_dir (set_pages (set_page dir) n s v p f) chunk = dir"
proof (induction n arbitrary: s v p)
  case (Suc n)
  then show ?case
    using Suc.IH [of "set_page dir s v (p OR f)" "v + 4096" "p + 4096"]
      chunk_wf_set_page [of chunk s v "p OR f"] chunk_dir_set_page [of chunk s v "p OR f"]
    by simp
qed simp

lemma map_range_loop_eq:
  assumes "chunk_wf chunk s" "page_aligned v" "page_aligned p" "dir = chunk_dir s chunk"
  shows "map_range_loop n 0 s chunk v p f = (0, set_pages (set_page dir) n s v p f)"
  using assms
proof (induction n arbitrary: s v p)
  case (Suc n)
  have "paging_map s chunk v p f = (0, set_page dir s v (p OR f))"
    using Suc.prems
    by (simp add: paging_map_def page_aligned_mod [symmetric] paging_4g_chunk_get_dir_def
        chunk_dir_def set_page_def paging_set_aligned)
  then show ?case
    using Suc.IH [of "set_page dir s v (p OR f)" "v + 4096" "p + 4096"] Suc.prems
      chunk_wf_set_page [OF Suc.prems(1,2)] chunk_dir_set_page [OF Suc.prems(1,2)]
    by (simp add: paging_consts)
qed simp

lemma fst_map_range_loop:
  "page_aligned v \<Longrightarrow> page_aligned p \<Longrightarrow> fst (map_range_loop n 0 s chunk v p f) = 0"
proof (induction n arbitrary: s v p)
  case (Suc n)
  have "paging_map s chunk v p f = (0, set_page (paging_4g_chunk_get_dir s chunk) s v (p OR f))"
    using Suc.prems by (simp add: paging_map_def page_aligned_mod [symmetric] set_page_def paging_set_aligned)
  then show ?case using Suc.IH [of "v + 4096" "p + 4096"] Suc.prems by (simp add: paging_consts)
qed simp

lemma page_count:
  assumes "page_aligned a"
  shows "sint (a div PAGING_PAGE_SIZE) = int (unat a div 4096)" "unat a div 4096 * 4096 = unat a"
    "unat a div 4096 \<le> 1048576"
proof -
  have "unat a < 4294967296" by simp
  then have b: "unat a div 4096 < 1048576" by (rule less_mult_imp_div_less [of _ 1048576 4096, simplified])
  have "unat (a div PAGING_PAGE_SIZE) = unat a div 4096" by (simp add: unat_div_u32 paging_consts)
  then show "sint (a div PAGING_PAGE_SIZE) = int (unat a div 4096)"
    using b by (simp add: sint_small del: int_unat)
  show "unat a div 4096 * 4096 = unat a" using assms by (auto simp: page_aligned_def)
  show "unat a div 4096 \<le> 1048576" using b by simp
qed

lemma paging_map_to_eq:
  assumes "chunk_wf chunk s" "page_aligned v" "page_aligned p" "page_aligned p_end" "p < p_end"
  shows "paging_map_to s chunk v p p_end f =
    (0, set_pages (set_page (chunk_dir s chunk)) (unat (p_end - p) div 4096) s v p f)"
proof -
  have "page_aligned (p_end - p)" using assms by (simp add: page_aligned_diff)
  then show ?thesis
    using assms page_count(1) map_range_loop_eq [OF assms(1-3) refl]
      assms(5) [unfolded not_le [symmetric]]
    by (simp add: paging_map_to_def paging_map_range_def page_aligned_mod [symmetric] Let_def)
qed

lemma pd_set_page: "page_map (\<lambda>s v. paging_get s dir v) (set_page dir) (\<lambda>s. pd_wf dir (ram s))"
  using pd.page_map_axioms by (simp add: set_page_def [abs_def])

text \<open>
  C5. \<open>paging_map_to\<close> on an aligned, non-empty range succeeds, keeps the chunk well formed,
  maps every page of the range to its physical page with the flags, and leaves the entry of
  every other page as it was.
\<close>

theorem paging_map_to_maps:
  assumes "chunk_wf chunk s" "page_aligned virt" "page_aligned phys" "page_aligned phys_end" "phys < phys_end"
  shows "\<exists>s'. paging_map_to s chunk virt phys phys_end flags = (0, s') \<and> chunk_wf chunk s' \<and>
    chunk_dir s' chunk = chunk_dir s chunk \<and>
    (\<forall>w. page_aligned w \<longrightarrow> paging_get s' (chunk_dir s chunk) w =
      (if unat (w - virt) < unat (phys_end - phys) then (phys + (w - virt)) OR flags
       else paging_get s (chunk_dir s chunk) w))"
proof -
  let ?dir = "chunk_dir s chunk" and ?n = "unat (phys_end - phys) div 4096"
  let ?s' = "set_pages (set_page ?dir) ?n s virt phys flags"
  have n: "?n * 4096 = unat (phys_end - phys)" "?n \<le> 1048576"
    using page_count [of "phys_end - phys"] assms page_aligned_diff by auto
  have wf: "pd_wf ?dir (ram s)" using assms(1) by (simp add: chunk_wf_def)
  have "paging_get ?s' ?dir w = (if unat (w - virt) < unat (phys_end - phys)
      then (phys + (w - virt)) OR flags else paging_get s ?dir w)" if "page_aligned w" for w
    using page_map.get_set_pages [OF pd_set_page wf assms(2) that n(2), of phys flags] n(1) by simp
  then show ?thesis
    using paging_map_to_eq [OF assms, of flags] chunk_set_pages [OF assms(1,2) refl, of ?n phys flags]
    by (intro exI [of _ ?s']) simp
qed

text \<open>
  A misaligned address or an empty range is refused with \<open>-EINVARG\<close> and nothing changes.
\<close>

theorem paging_map_to_refuses:
  "paging_map_to s chunk virt phys phys_end flags = (- EINVARG, s) \<longleftrightarrow>
   \<not> (page_aligned virt \<and> page_aligned phys \<and> page_aligned phys_end \<and> phys < phys_end)"
proof (cases "page_aligned virt \<and> page_aligned phys \<and> page_aligned phys_end \<and> phys < phys_end")
  case True
  then have "fst (paging_map_to s chunk virt phys phys_end flags) = 0"
    using fst_map_range_loop [of virt phys]
    by (simp add: paging_map_to_def paging_map_range_def page_aligned_mod [symmetric] Let_def
        flip: not_le)
  then show ?thesis using True by (auto simp: status_simps)
next
  case False
  then show ?thesis by (auto simp: paging_map_to_def page_aligned_mod [symmetric] not_le)
qed

subsection \<open>Pages and \<open>kzalloc\<close>\<close>

lemma live_page_aligned: "k_inv s \<Longrightarrow> k_live s p = Some n \<Longrightarrow> page_aligned p"
  using kz.live_aligned by (auto simp: page_aligned_def)

lemma word_at_outside:
  assumes "page_aligned p" "page_aligned q" "p \<noteq> q" "j < 1024" "i < 4"
  shows "\<not> unat (word_at q j + of_nat i - p) < 4096"
proof
  assume lt: "unat (word_at q j + of_nat i - p) < 4096"
  define d where "d = q - p"
  have dq: "page_aligned d" using assms by (simp add: d_def page_aligned_diff)
  have "word_at q j + of_nat i - p = word_at d j + of_nat i"
    by (simp add: word_at_def d_def)
  then have "unat (word_at q j + of_nat i - p) = unat d + j * 4 + i"
    using unat_aligned_offset [OF aligned_word_at [OF dq assms(4)] assms(5)] unat_word_at [OF dq assms(4)]
    by metis
  then have "unat d < 4096" using lt by linarith
  then have "unat d = 0" using dq by (simp add: page_aligned_def)
  then show False using assms(3) by (simp add: d_def unat_eq_0)
qed

lemma load32_cong:
  assumes "\<And>i. i < 4 \<Longrightarrow> m (a + of_nat i) = m' (a + of_nat i)"
  shows "load32 m a = load32 m' a"
  using assms [of 0] assms [of 1] assms [of 2] assms [of 3] by (simp add: load32_def)

lemma load_kzalloc:
  assumes z: "kzalloc s sz = Some (p, s')" "p \<noteq> 0" and sz: "unat sz \<le> 4096"
    and p: "page_aligned p" and q: "page_aligned q" "p \<noteq> q" "j < 1024"
  shows "load32 (ram s') (word_at q j) = load32 (ram s) (word_at q j)"
proof (rule load32_cong)
  fix i :: nat assume "i < 4"
  then have "\<not> unat (word_at q j + of_nat i - p) < unat sz"
    using word_at_outside [OF p q] sz by fastforce
  then show "ram s' (word_at q j + of_nat i) = ram s (word_at q j + of_nat i)"
    by (simp add: kzalloc_ram [OF z])
qed

lemma load_fill_table:
  assumes "page_aligned e" "page_aligned q" "b + n \<le> 1024" "j < 1024"
  shows "load32 (fill_table_loop n b m e off f) (word_at q j) =
    (if q = e \<and> b \<le> j \<and> j < b + n then (off + of_nat j * 4096) OR f else load32 m (word_at q j))"
  using assms(3)
proof (induction n arbitrary: b m)
  case 0
  then show ?case by auto
next
  case (Suc n)
  then show ?case
    using Suc.IH [of "Suc b" "store32 m (word_at e b) ((off + of_nat b * PAGING_PAGE_SIZE) OR f)"] assms
    by (auto simp: load_store_word paging_consts)
qed

subsection \<open>A new address space\<close>

text \<open>
  What the outer loop has built when it has written the entries \<open>i ..< i + length ts\<close> of the
  directory: the tables \<open>ts\<close> are fresh blocks, entry \<open>i + k\<close> points at \<open>ts ! k\<close>, whose
  words map the pages from \<open>off + k * 4 MB\<close> on, and nothing else has changed.
\<close>

definition tables_built ::
  "nat \<Rightarrow> 'z kmem_scheme \<Rightarrow> addr \<Rightarrow> u32 \<Rightarrow> u32 \<Rightarrow> addr list \<Rightarrow> 'z kmem_scheme \<Rightarrow> bool" where
  "tables_built i s dir off f ts s' \<longleftrightarrow>
     k_inv s' \<and> distinct ts \<and> set ts \<inter> dom (k_live s) = {} \<and>
     k_live s' = (\<lambda>p. if p \<in> set ts then Some 1 else k_live s p) \<and>
     (\<forall>k < length ts. load32 (ram s') (word_at dir (i + k)) = ts ! k OR f OR PAGING_IS_WRITABLE) \<and>
     (\<forall>k < length ts. \<forall>b < 1024. load32 (ram s') (word_at (ts ! k) b) =
        (off + of_nat k * 4194304 + of_nat b * 4096) OR f) \<and>
     (\<forall>q j. page_aligned q \<and> j < 1024 \<and> q \<notin> set ts \<and> (q \<noteq> dir \<or> j < i \<or> i + length ts \<le> j) \<longrightarrow>
        load32 (ram s') (word_at q j) = load32 (ram s) (word_at q j))"

lemma tables_builtI:
  assumes "k_inv s'" "distinct ts" "set ts \<inter> dom (k_live s) = {}"
    "k_live s' = (\<lambda>p. if p \<in> set ts then Some 1 else k_live s p)"
    "\<And>k. k < length ts \<Longrightarrow> load32 (ram s') (word_at dir (i + k)) = ts ! k OR f OR PAGING_IS_WRITABLE"
    "\<And>k b. k < length ts \<Longrightarrow> b < 1024 \<Longrightarrow> load32 (ram s') (word_at (ts ! k) b) =
        (off + of_nat k * 4194304 + of_nat b * 4096) OR f"
    "\<And>q j. page_aligned q \<Longrightarrow> j < 1024 \<Longrightarrow> q \<notin> set ts \<Longrightarrow> q \<noteq> dir \<or> j < i \<or> i + length ts \<le> j \<Longrightarrow>
        load32 (ram s') (word_at q j) = load32 (ram s) (word_at q j)"
  shows "tables_built i s dir off f ts s'"
  unfolding tables_built_def using assms by blast

lemma tables_builtD:
  assumes "tables_built i s dir off f ts s'"
  shows "k_inv s'" "distinct ts" "set ts \<inter> dom (k_live s) = {}"
    "k_live s' = (\<lambda>p. if p \<in> set ts then Some 1 else k_live s p)"
    "k < length ts \<Longrightarrow> load32 (ram s') (word_at dir (i + k)) = ts ! k OR f OR PAGING_IS_WRITABLE"
    "k < length ts \<Longrightarrow> b < 1024 \<Longrightarrow> load32 (ram s') (word_at (ts ! k) b) =
        (off + of_nat k * 4194304 + of_nat b * 4096) OR f"
    "page_aligned q \<Longrightarrow> j < 1024 \<Longrightarrow> q \<notin> set ts \<Longrightarrow> q \<noteq> dir \<or> j < i \<or> i + length ts \<le> j \<Longrightarrow>
        load32 (ram s') (word_at q j) = load32 (ram s) (word_at q j)"
  using assms unfolding tables_built_def by blast+

lemma new_table_step:
  assumes inv: "k_inv s" and dir: "k_live s dir = Some 1" and i: "i < 1024"
    and z: "kzalloc s 4096 = Some (e, s1)" "e \<noteq> 0"
    and s2_def: "s2 = s1\<lparr>ram := store32 (fill_table_loop 1024 0 (ram s1) e off f) (word_at dir i)
      (e OR f OR PAGING_IS_WRITABLE)\<rparr>"
  shows "tables_built i s dir off f [e] s2"
proof -
  note a = kz.alloc_after [OF inv page_request(1) z]
  have k2: "k_inv s2" "k_live s2 = (k_live s)(e \<mapsto> 1)" "k_live s e = None"
    using a by (simp_all add: s2_def k_inv_def k_live_def)
  have e: "page_aligned e"
    using live_page_aligned [OF k2(1), of e 1] k2(2) by simp
  have d: "page_aligned dir" using live_page_aligned [OF inv dir] .
  have ne: "e \<noteq> dir" using k2(3) dir by auto
  have r: "ram s2 = store32 (fill_table_loop 1024 0 (ram s1) e off f) (word_at dir i)
      (e OR f OR PAGING_IS_WRITABLE)"
    by (simp add: s2_def)
  have "load32 (ram s2) (word_at dir i) = e OR f OR PAGING_IS_WRITABLE"
    unfolding r by (rule load_store_same)
  note at_dir = this
  have at_tab: "load32 (ram s2) (word_at e b) = (off + of_nat b * 4096) OR f" if "b < 1024" for b
    unfolding r using that e d i ne by (simp add: load_store_word load_fill_table)
  have at_else: "load32 (ram s2) (word_at q j) = load32 (ram s) (word_at q j)"
    if "page_aligned q" "j < 1024" "q \<noteq> e" "q \<noteq> dir \<or> j < i \<or> Suc i \<le> j" for q j
  proof -
    have "load32 (ram s1) (word_at q j) = load32 (ram s) (word_at q j)"
      by (rule load_kzalloc [OF z _ e that(1)]) (use that in auto)
    moreover have "load32 (fill_table_loop 1024 0 (ram s1) e off f) (word_at q j) = load32 (ram s1) (word_at q j)"
      using load_fill_table [OF e that(1), of 0 1024 j "ram s1" off f] that(2,3) by simp
    moreover have "\<not> (dir = q \<and> i = j)" using that(4) by auto
    ultimately show ?thesis
      unfolding r by (simp only: load_store_word [OF d that(1) i that(2)] if_False)
  qed
  show ?thesis
  proof (rule tables_builtI)
    show "k_live s2 = (\<lambda>p. if p \<in> set [e] then Some 1 else k_live s p)"
      using k2(2) by (simp add: fun_eq_iff)
    show "set [e] \<inter> dom (k_live s) = {}" using k2(3) by auto
  next
    fix k assume "k < length [e]"
    then show "load32 (ram s2) (word_at dir (i + k)) = [e] ! k OR f OR PAGING_IS_WRITABLE"
      using at_dir by simp
    fix b :: nat assume "b < 1024"
    then show "load32 (ram s2) (word_at ([e] ! k) b) =
        (off + of_nat k * 4194304 + of_nat b * 4096) OR f"
      using \<open>k < length [e]\<close> at_tab by simp
  next
    fix q j assume "page_aligned q" "j < (1024 :: nat)" "q \<notin> set [e]"
      "q \<noteq> dir \<or> j < i \<or> i + length [e] \<le> j"
    then show "load32 (ram s2) (word_at q j) = load32 (ram s) (word_at q j)"
      by (intro at_else) simp_all
  qed (use k2(1) in simp_all)
qed

lemma tables_built_Cons:
  assumes b1: "tables_built i s dir off f [e] s2"
    and b2: "tables_built (Suc i) s2 dir (off + 4194304) f ts s'"
    and i: "i + Suc (length ts) \<le> 1024" and inv: "k_inv s" "k_live s dir = Some 1"
  shows "tables_built i s dir off f (e # ts) s'"
proof -
  note d1 = tables_builtD [OF b1] and d2 = tables_builtD [OF b2]
  have l2: "k_live s2 = (k_live s)(e \<mapsto> 1)" and e: "k_live s e = None"
    using d1(3,4) by (auto simp: fun_eq_iff)
  have ts: "distinct ts" "e \<notin> set ts" "dir \<notin> set ts" "set ts \<inter> dom (k_live s) = {}" "dir \<noteq> e"
    using d2(2,3) l2 e inv(2) by auto
  have al: "page_aligned e" "page_aligned dir"
    using live_page_aligned [OF inv] live_page_aligned [OF d1(1), of e 1] l2 by auto
  have fr2: "load32 (ram s') (word_at q j) = load32 (ram s2) (word_at q j)"
    if "page_aligned q" "j < 1024" "q \<notin> set ts" "q \<noteq> dir \<or> j < Suc i" for q j
    by (rule d2(7)) (use that in auto)
  have fr: "load32 (ram s') (word_at q j) = load32 (ram s) (word_at q j)"
    if "page_aligned q" "j < 1024" "q \<notin> set (e # ts)" "q \<noteq> dir \<or> j < i \<or> i + length (e # ts) \<le> j" for q j
  proof -
    have "load32 (ram s') (word_at q j) = load32 (ram s2) (word_at q j)"
      by (rule d2(7)) (use that in auto)
    also have "\<dots> = load32 (ram s) (word_at q j)"
      by (rule d1(7)) (use that in auto)
    finally show ?thesis .
  qed
  have dirs: "load32 (ram s') (word_at dir (i + k)) = (e # ts) ! k OR f OR PAGING_IS_WRITABLE"
    if "k < length (e # ts)" for k
    using that d1(5) [of 0] d2(5) [of "k - 1"] fr2 [of dir i] al ts i by (cases k) auto
  have tabs: "load32 (ram s') (word_at ((e # ts) ! k) b) =
      (off + of_nat k * 4194304 + of_nat b * 4096) OR f" if "k < length (e # ts)" "b < 1024" for k b
  proof (cases k)
    case 0
    then show ?thesis using that(2) d1(6) [of 0 b] fr2 [of e b] al ts by simp
  next
    case (Suc k')
    then show ?thesis using that d2(6) [of k' b] by (simp add: algebra_simps)
  qed
  have "k_live s' = (\<lambda>p. if p \<in> set (e # ts) then Some 1 else k_live s p)"
    using d2(4) l2 by (auto simp: fun_eq_iff)
  moreover have "distinct (e # ts)" "set (e # ts) \<inter> dom (k_live s) = {}"
    using ts e by auto
  ultimately show ?thesis
    by (intro tables_builtI d2(1) dirs tabs fr) assumption+
qed

lemma new_tables_loop_ok:
  assumes "k_inv s" "k_live s dir = Some 1" "i + n \<le> 1024" "n \<le> free_blocks s"
  shows "\<exists>s' ts. new_tables_loop n i s dir off f = Some s' \<and> length ts = n \<and>
    free_blocks s' = free_blocks s - n \<and> tables_built i s dir off f ts s'"
  using assms
proof (induction n arbitrary: i s off)
  case 0
  then show ?case by (intro exI [of _ s] exI [of _ "[]"]) (simp add: tables_built_def)
next
  case (Suc n)
  obtain e s1 where z: "kzalloc s 4096 = Some (e, s1)" "e \<noteq> 0" "free_blocks s1 = free_blocks s - 1"
    using kzalloc_one_block [of s 4096] Suc.prems by auto
  define s2 where "s2 = s1\<lparr>ram := store32 (fill_table_loop 1024 0 (ram s1) e off f) (word_at dir i)
    (e OR f OR PAGING_IS_WRITABLE)\<rparr>"
  have b: "tables_built i s dir off f [e] s2"
    using Suc.prems z by (intro new_table_step [OF _ _ _ z(1,2) s2_def]) auto
  have fb: "free_blocks s2 = free_blocks s - 1" using z by (simp add: s2_def free_blocks_def)
  have inv2: "k_inv s2" "k_live s2 dir = Some 1" "k_live s2 e = Some 1" "k_live s e = None"
    using b Suc.prems(2) by (auto simp: tables_built_def)
  have "n \<le> free_blocks s2" "Suc i + n \<le> 1024" using Suc.prems fb by auto
  then obtain s' ts where s': "new_tables_loop n (Suc i) s2 dir (off + 4194304) f = Some s'" "length ts = n"
      "free_blocks s' = free_blocks s2 - n" "tables_built (Suc i) s2 dir (off + 4194304) f ts s'"
    using Suc.IH [OF inv2(1,2), of "Suc i" "off + 4194304"] by blast
  have "tables_built i s dir off f (e # ts) s'"
    by (rule tables_built_Cons [OF b s'(4)]) (use Suc.prems s'(2) in auto)
  moreover have "new_tables_loop (Suc n) i s dir off f = Some s'"
    using z s'(1) by (simp add: s2_def paging_consts Let_def)
  ultimately show ?case using s' fb by (intro exI [of _ s'] exI [of _ "e # ts"]) simp
qed

text \<open>
  What \<open>paging_new_4gb\<close> leaves: a chunk, a directory and 1024 tables in fresh blocks, one per
  page, and nothing else changed.
\<close>

definition space_built ::
  "'z kmem_scheme \<Rightarrow> u32 \<Rightarrow> addr \<Rightarrow> addr \<Rightarrow> addr list \<Rightarrow> 'z kmem_scheme \<Rightarrow> bool" where
  "space_built s f chunk dir ts s' \<longleftrightarrow>
     k_inv s' \<and> length ts = 1024 \<and> distinct (ts @ [dir, chunk]) \<and>
     set (ts @ [dir, chunk]) \<inter> dom (k_live s) = {} \<and>
     k_live s' = (\<lambda>p. if p \<in> set (ts @ [dir, chunk]) then Some 1 else k_live s p) \<and>
     load32 (ram s') chunk = dir \<and>
     (\<forall>k < 1024. load32 (ram s') (word_at dir k) = ts ! k OR f OR PAGING_IS_WRITABLE) \<and>
     (\<forall>k < 1024. \<forall>b < 1024. load32 (ram s') (word_at (ts ! k) b) =
        (of_nat k * 4194304 + of_nat b * 4096) OR f)"

lemma space_builtD:
  assumes "space_built s f chunk dir ts s'"
  shows "k_inv s'" "length ts = 1024" "distinct (ts @ [dir, chunk])"
    "set (ts @ [dir, chunk]) \<inter> dom (k_live s) = {}"
    "k_live s' = (\<lambda>p. if p \<in> set (ts @ [dir, chunk]) then Some 1 else k_live s p)"
    "load32 (ram s') chunk = dir"
    "k < 1024 \<Longrightarrow> load32 (ram s') (word_at dir k) = ts ! k OR f OR PAGING_IS_WRITABLE"
    "k < 1024 \<Longrightarrow> b < 1024 \<Longrightarrow> load32 (ram s') (word_at (ts ! k) b) =
        (of_nat k * 4194304 + of_nat b * 4096) OR f"
  using assms unfolding space_built_def by blast+

lemma space_builtI:
  assumes b: "tables_built 0 s1 dir 0 f ts s2" and len: "length ts = 1024"
    and d: "k_inv s" "kzalloc s 4096 = Some (dir, s1)" "dir \<noteq> 0"
    and c: "kzalloc s2 4 = Some (chunk, s3)" "chunk \<noteq> 0"
    and s': "s' = s3\<lparr>ram := store32 (ram s3) chunk dir\<rparr>"
  shows "space_built s f chunk dir ts s'"
proof -
  note t = tables_builtD [OF b]
  note a1 = kz.alloc_after [OF d(1) page_request(1) d(2,3)]
  note a3 = kz.alloc_after [OF t(1) page_request(3) c]
  have l1: "k_live s1 = (k_live s)(dir \<mapsto> 1)" "k_live s dir = None" using a1 by simp_all
  have l3: "k_live s3 = (k_live s2)(chunk \<mapsto> 1)" "k_live s2 chunk = None" "k_inv s3" using a3 by simp_all
  have inv': "k_inv s'" "k_live s' = k_live s3" using l3(3) by (simp_all add: s' k_inv_def k_live_def)
  have dts: "dir \<notin> set ts" "k_live s2 dir = Some 1" using t(3,4) l1 by auto
  have fresh: "k_live s x = None" if "x \<in> set ts" for x
    using t(3) that dts(1) l1(1) by (auto simp: dom_def split: if_splits)
  have cts: "chunk \<notin> set ts" "chunk \<noteq> dir" "k_live s chunk = None"
    using l3(2) t(4) dts l1 by (auto split: if_splits)
  have al: "page_aligned chunk" "page_aligned dir"
    using live_page_aligned [OF l3(3), of chunk 1] live_page_aligned [OF t(1) dts(2)] l3(1) by auto
  have alt: "page_aligned x" if "x \<in> set ts" for x
    using live_page_aligned [OF t(1), of x 1] t(4) that by simp
  have ld: "load32 (ram s') (word_at q j) = load32 (ram s2) (word_at q j)"
    if "page_aligned q" "j < 1024" "q \<noteq> chunk" for q j
    using load_kzalloc [OF c _ al(1) that(1)] load_store_word [OF al(1) that(1), of 0 j "ram s3" dir] that(2,3)
    by (simp add: s' word_at_0)
  have ch: "load32 (ram s') chunk = dir" by (simp add: s' load_store_same)
  have dd: "load32 (ram s') (word_at dir k) = ts ! k OR f OR PAGING_IS_WRITABLE" if "k < 1024" for k
    using ld [OF al(2) that] t(5) [of k] cts(2) that len by simp
  have tt: "load32 (ram s') (word_at (ts ! k) b) = (of_nat k * 4194304 + of_nat b * 4096) OR f"
    if "k < 1024" "b < 1024" for k b
  proof -
    have "ts ! k \<in> set ts" using that len by simp
    moreover from this have "ts ! k \<noteq> chunk" using cts(1) by auto
    ultimately show ?thesis using ld [OF alt that(2)] t(6) [of k b] that len by simp
  qed
  have "k_live s' = (\<lambda>p. if p \<in> set (ts @ [dir, chunk]) then Some 1 else k_live s p)"
    using inv'(2) l3(1) t(4) l1(1) by (auto simp: fun_eq_iff)
  moreover have "distinct (ts @ [dir, chunk])" using t(2) dts(1) cts by simp
  moreover have "set (ts @ [dir, chunk]) \<inter> dom (k_live s) = {}"
    using fresh l1(2) cts(3) by auto
  ultimately show ?thesis
    using inv'(1) len ch dd tt unfolding space_built_def by blast
qed

lemma paging_new_4gb_result:
  assumes inv: "k_inv s" and n: "1026 \<le> free_blocks s"
  shows "\<exists>chunk dir ts s'. paging_new_4gb s fl = Some (chunk, s') \<and> space_built s (ucast fl) chunk dir ts s' \<and>
    free_blocks s' = free_blocks s - 1026"
proof -
  obtain dir s1 where d: "kzalloc s 4096 = Some (dir, s1)" "dir \<noteq> 0" "free_blocks s1 = free_blocks s - 1"
    using kzalloc_one_block [OF inv page_request(1,2)] n by auto
  have s1: "k_inv s1" "k_live s1 dir = Some 1"
    using kz.alloc_after [OF inv page_request(1) d(1,2)] by simp_all
  have "1024 \<le> free_blocks s1" "0 + 1024 \<le> (1024 :: nat)" using d(3) n by simp_all
  then obtain s2 ts where t: "new_tables_loop 1024 0 s1 dir 0 (ucast fl) = Some s2" "length ts = 1024"
      "free_blocks s2 = free_blocks s1 - 1024" "tables_built 0 s1 dir 0 (ucast fl) ts s2"
    using new_tables_loop_ok [OF s1, of 0 1024 0 "ucast fl"] by blast
  obtain chunk s3 where c: "kzalloc s2 4 = Some (chunk, s3)" "chunk \<noteq> 0" "free_blocks s3 = free_blocks s2 - 1"
    using kzalloc_one_block [OF tables_builtD(1) [OF t(4)] page_request(3,4)] t d n by auto
  let ?s' = "s3\<lparr>ram := store32 (ram s3) chunk dir\<rparr>"
  have "paging_new_4gb s fl = Some (chunk, ?s')"
    using d(1,2) t(1) c(1,2) by (simp add: paging_new_4gb_def paging_consts del: new_tables_loop.simps)
  moreover have "space_built s (ucast fl) chunk dir ts ?s'"
    by (rule space_builtI [OF t(4,2) inv d(1,2) c(1,2) refl])
  moreover have "free_blocks ?s' = free_blocks s - 1026"
    using d(3) t(3) c(3) n by (simp add: free_blocks_def)
  ultimately show ?thesis by blast
qed


lemma byte_flags: "(ucast (fl :: byte) :: u32) AND 0xFFFFF000 = 0"
proof -
  have "(ucast fl :: u32) = take_bit 8 (ucast fl)"
    by (rule bit_word_eqI) (auto simp: bit_simps dest: bit_imp_le_length)
  also have "\<dots> = ucast fl AND 0xFF"
    unfolding take_bit_eq_mask by (simp add: mask_numeral)
  finally have e: "(ucast fl :: u32) = ucast fl AND 0xFF" .
  show ?thesis by (subst e) (simp add: and.assoc)
qed

lemma byte_flags_writable: "(ucast (fl :: byte) OR PAGING_IS_WRITABLE) AND (0xFFFFF000 :: u32) = 0"
  by (simp add: bit.conj_disj_distrib2 byte_flags paging_consts)

lemma page_decompose:
  assumes "page_aligned v"
  shows "of_nat (pd_index v) * 4194304 + of_nat (pt_index v) * 4096 = v"
proof -
  have "unat v mod 4194304 mod 4096 = 0"
    using assms by (simp add: page_aligned_def mod_mod_cancel)
  then have "pd_index v * 4194304 + pt_index v * 4096 = unat v"
    unfolding pd_index_def pt_index_def by (metis add.right_neutral div_mult_mod_eq)
  then have "(of_nat (pd_index v * 4194304 + pt_index v * 4096) :: u32) = of_nat (unat v)" by simp
  then show ?thesis by simp
qed

lemma space_tables:
  assumes b: "space_built s (ucast (fl :: byte)) chunk dir ts s'"
  shows "page_aligned chunk" "page_aligned dir" "chunk_dir s' chunk = dir"
    "k < 1024 \<Longrightarrow> table_of (ram s') dir k = ts ! k" "k < 1024 \<Longrightarrow> ts ! k \<in> set ts"
proof -
  note d = space_builtD [OF b]
  have al: "page_aligned x" if "x \<in> set (ts @ [dir, chunk])" for x
    using live_page_aligned [OF d(1), of x 1] d(5) that by simp
  then show "page_aligned chunk" "page_aligned dir" by simp_all
  show "chunk_dir s' chunk = dir" using d(6) by (simp add: chunk_dir_def)
  assume k: "k < 1024"
  then show m: "ts ! k \<in> set ts" using d(2) by simp
  have "table_of (ram s') dir k = (ts ! k OR (ucast fl OR PAGING_IS_WRITABLE)) AND 0xFFFFF000"
    using d(7) [OF k] by (simp add: table_of_def)
  also have "\<dots> = ts ! k"
    by (rule page_mask_flags [OF al byte_flags_writable]) (use m in simp)
  finally show "table_of (ram s') dir k = ts ! k" .
qed

lemma space_chunk_wf:
  assumes b: "space_built s (ucast (fl :: byte)) chunk dir ts s'"
  shows "chunk_wf chunk s'"
proof -
  note d = space_builtD [OF b] and t = space_tables [OF b]
  have "ts ! i \<noteq> ts ! j" if "i < 1024" "j < 1024" "i \<noteq> j" for i j
    using d(2,3) that by (simp add: nth_eq_iff_index_eq)
  moreover have "ts ! i \<noteq> dir" "ts ! i \<noteq> chunk" if "i < 1024" for i
    using t(5) [OF that] d(3) by auto
  moreover have "dir \<noteq> chunk" using d(3) by simp
  ultimately show ?thesis using t by (simp add: chunk_wf_def pd_wf_def)
qed

lemma space_get:
  assumes b: "space_built s (ucast (fl :: byte)) chunk dir ts s'" and v: "page_aligned v"
  shows "paging_get s' dir v = v OR ucast fl"
proof -
  have "paging_get s' dir v = load32 (ram s') (word_at (ts ! pd_index v) (pt_index v))"
    using v space_tables(4) [OF b] by (simp add: paging_get_aligned pte_addr_def)
  then show ?thesis
    using space_builtD(8) [OF b, of "pd_index v" "pt_index v"] page_decompose [OF v] by simp
qed

lemma lower_page: "page_aligned (paging_align_to_lower_page a)"
  "paging_align_to_lower_page a = a AND 0xFFFFF000"
  by (simp_all add: paging_align_to_lower_page_def paging_consts and_page_mask [symmetric])

lemma space_phys:
  assumes b: "space_built s (ucast (fl :: byte)) chunk dir ts s'"
  shows "paging_get_phys_addr s' dir v = v"
  using space_get [OF b lower_page(1)] page_mask_flags [OF lower_page(1) byte_flags]
  by (simp add: paging_get_phys_addr_def Let_def)

text \<open>
  C4. With 1026 free blocks, \<open>paging_new_4gb\<close> returns a well-formed chunk that maps all of
  the 4 GB to itself with the given flags; it uses 1026 blocks that were not in use.
\<close>

theorem paging_new_4gb_ok:
  assumes "k_inv s" "1026 \<le> free_blocks s"
  shows "\<exists>chunk s'. paging_new_4gb s fl = Some (chunk, s') \<and> k_inv s' \<and> chunk_wf chunk s' \<and>
    free_blocks s' = free_blocks s - 1026 \<and> k_live s \<subseteq>\<^sub>m k_live s' \<and>
    (\<forall>v. page_aligned v \<longrightarrow> paging_get s' (chunk_dir s' chunk) v = v OR ucast fl) \<and>
    (\<forall>v. paging_get_phys_addr s' (chunk_dir s' chunk) v = v)"
proof -
  obtain chunk dir ts s' where r: "paging_new_4gb s fl = Some (chunk, s')"
      "space_built s (ucast fl) chunk dir ts s'" "free_blocks s' = free_blocks s - 1026"
    using paging_new_4gb_result [OF assms] by blast
  have "k_live s \<subseteq>\<^sub>m k_live s'"
    using space_builtD(4,5) [OF r(2)] by (auto simp: map_le_def)
  then show ?thesis
    using r(1,3) space_builtD(1) [OF r(2)] space_chunk_wf [OF r(2)] space_tables(3) [OF r(2)]
      space_get [OF r(2)] space_phys [OF r(2)] by auto
qed

subsection \<open>Freeing an address space\<close>

lemma load_kfree: "kfree s p = Some s' \<Longrightarrow> ram s' = ram s"
  using kfree_more by blast

lemma free_tables_eq:
  "free_tables_loop n i s chunk =
   release_all kfree s (map (table_of (ram s) (chunk_dir s chunk)) [i..<i + n])"
proof (induction n arbitrary: i s)
  case (Suc n)
  have u: "[i..<i + Suc n] = i # [Suc i..<Suc i + n]" by (simp add: upt_conv_Cons)
  show ?case
  proof (cases "kfree s (table_of (ram s) (chunk_dir s chunk) i)")
    case None
    then show ?thesis
      unfolding u by (simp add: table_of_def chunk_dir_def paging_4g_chunk_get_dir_def)
  next
    case (Some s')
    then show ?thesis
      unfolding u using Suc.IH [of "Suc i" s'] load_kfree [OF Some]
      by (simp add: table_of_def [abs_def] chunk_dir_def paging_4g_chunk_get_dir_def)
  qed
qed simp

lemma release_all_kfree_ram: "release_all kfree s ps = Some s' \<Longrightarrow> ram s' = ram s"
  by (induction ps arbitrary: s) (auto split: bind_splits dest: load_kfree)

lemma paging_free_4gb_eq:
  "paging_free_4gb s chunk = release_all kfree s
     (map (table_of (ram s) (chunk_dir s chunk)) [0..<1024] @ [chunk_dir s chunk, chunk])"
proof (cases "free_tables_loop 1024 0 s chunk")
  case None
  then show ?thesis
    using free_tables_eq [of 1024 0 s chunk]
    by (simp add: paging_free_4gb_def release_all_append del: free_tables_loop.simps upt_rec_numeral)
next
  case (Some s1)
  then have r: "release_all kfree s (map (table_of (ram s) (chunk_dir s chunk)) [0..<1024]) = Some s1"
    using free_tables_eq [of 1024 0 s chunk] by (simp del: upt_rec_numeral)
  have "ram s1 = ram s" by (rule release_all_kfree_ram [OF r])
  then show ?thesis
    using Some r
    by (simp add: paging_free_4gb_def release_all_append chunk_dir_def paging_4g_chunk_get_dir_def
        del: upt_rec_numeral)
qed

text \<open>
  C31. Creating and freeing an address space leaks nothing: \<open>paging_free_4gb\<close> on the chunk
  succeeds, and exactly the allocations that were live before \<open>paging_new_4gb\<close> are live.
\<close>

theorem paging_new_free_4gb:
  assumes "k_inv s" "1026 \<le> free_blocks s"
  shows "\<exists>chunk s' s''. paging_new_4gb s fl = Some (chunk, s') \<and> paging_free_4gb s' chunk = Some s'' \<and>
    k_inv s'' \<and> k_live s'' = k_live s"
proof -
  obtain chunk dir ts s' where r: "paging_new_4gb s fl = Some (chunk, s')"
      "space_built s (ucast fl) chunk dir ts s'"
    using paging_new_4gb_result [OF assms] by blast
  note d = space_builtD [OF r(2)] and t = space_tables [OF r(2)]
  have "map (table_of (ram s') dir) [0..<1024] = ts"
    by (rule nth_equalityI) (use d(2) t(4) in \<open>simp_all del: upt_rec_numeral\<close>)
  then have "paging_free_4gb s' chunk = release_all kfree s' (ts @ [dir, chunk])"
    by (simp add: paging_free_4gb_eq t(3) del: upt_rec_numeral)
  moreover have "set (ts @ [dir, chunk]) \<subseteq> dom (k_live s')" using d(5) by auto
  ultimately obtain s'' where f: "paging_free_4gb s' chunk = Some s''" "k_inv s''"
      "k_live s'' = k_live s' |` (- set (ts @ [dir, chunk]))"
    using kz.release_all_live [OF d(1,3)] by auto
  have "k_live s x = None" if "x \<in> set (ts @ [dir, chunk])" for x
    using d(4) that by blast
  then have "k_live s'' = k_live s"
    unfolding f(3) d(5) by (auto simp: restrict_map_def fun_eq_iff)
  then show ?thesis using r(1) f by blast
qed


subsection \<open>Instances\<close>

lemma fresh_chunk: "\<exists>chunk s. paging_new_4gb fresh_kmem 7 = Some (chunk, s) \<and> chunk_wf chunk s"
proof -
  have "1026 \<le> free_blocks fresh_kmem" by (simp add: fresh_kmem)
  then show ?thesis
    using paging_new_4gb_result [OF fresh_kmem(1), of 7] space_chunk_wf by blast
qed

theorem paging_new_4gb_ok_witness:
  "\<exists>chunk s'. paging_new_4gb fresh_kmem 7 = Some (chunk, s') \<and> free_blocks s' = 24574 \<and>
     paging_get_phys_addr s' (chunk_dir s' chunk) 0x400010 = 0x400010"
  using paging_new_4gb_ok [OF fresh_kmem(1), of 7] fresh_kmem(2) by fastforce

theorem paging_new_free_4gb_witness:
  "\<exists>chunk s' s''. paging_new_4gb fresh_kmem 7 = Some (chunk, s') \<and>
     paging_free_4gb s' chunk = Some s'' \<and> k_live s'' = k_live fresh_kmem"
  using paging_new_free_4gb [OF fresh_kmem(1), of 7] fresh_kmem(2) by fastforce

theorem paging_map_to_maps_witness:
  "\<exists>chunk (s :: kmem) s'. paging_map_to s chunk 0x400000 0x1000000 0x1003000 7 = (0, s') \<and>
     paging_get s' (chunk_dir s' chunk) 0x402000 = 0x1002007"
proof -
  obtain chunk and s :: kmem where wf: "chunk_wf chunk s" using fresh_chunk by blast
  have al: "page_aligned 0x400000" "page_aligned 0x1000000" "page_aligned 0x1003000" "page_aligned 0x402000"
      "(0x1000000 :: u32) < 0x1003000"
    by (simp_all add: page_aligned_def)
  obtain s' where s': "paging_map_to s chunk 0x400000 0x1000000 0x1003000 7 = (0, s')"
      "chunk_dir s' chunk = chunk_dir s chunk"
      "\<And>w. page_aligned w \<Longrightarrow> paging_get s' (chunk_dir s chunk) w =
        (if unat (w - 0x400000) < unat (0x1003000 - 0x1000000 :: u32) then (0x1000000 + (w - 0x400000)) OR 7
         else paging_get s (chunk_dir s chunk) w)"
    using paging_map_to_maps [OF wf al(1-3) al(5), of 7] by blast
  have "paging_get s' (chunk_dir s' chunk) 0x402000 = 0x1002007"
    using s'(2) s'(3) [OF al(4)] by simp
  then show ?thesis using s'(1) by blast
qed

end
