(* ===== verification/Spaces.thy ===== *)
theory Spaces
  imports Paging Blocks
begin

text \<open>
  Address spaces as blocks of the heap: which blocks belong to one, what writing a page entry and building
  a new space leave alone.
\<close>

subsection \<open>The blocks of an address space\<close>

text \<open>The chunk, the directory and the tables.\<close>

definition space_pages :: "'z kmem_scheme \<Rightarrow> addr \<Rightarrow> addr list" where
  "space_pages s chunk = chunk # chunk_dir s chunk # map (table_of (ram s) (chunk_dir s chunk)) [0..<1024]"

definition space_ok :: "'z kmem_scheme \<Rightarrow> addr \<Rightarrow> bool" where
  "space_ok s chunk \<longleftrightarrow> chunk_wf chunk s \<and> set (space_pages s chunk) \<subseteq> dom (k_live s)"

text \<open>The entry of a page.\<close>

definition page_of :: "'z kmem_scheme \<Rightarrow> addr \<Rightarrow> addr \<Rightarrow> u32" where
  "page_of s chunk v = paging_get s (chunk_dir s chunk) v"

text \<open>The live blocks outside of \<open>X\<close> keep their bytes.\<close>

definition keeps_but :: "addr set \<Rightarrow> 'z kmem_scheme \<Rightarrow> 'z kmem_scheme \<Rightarrow> bool" where
  "keeps_but X s s' \<longleftrightarrow> (\<forall>a p n. k_live s p = Some n \<and> p \<notin> X \<and> unat (a - p) < n * 4096 \<longrightarrow> ram s' a = ram s a)"

lemma keeps_butD: "keeps_but X s s' \<Longrightarrow> k_live s p = Some n \<Longrightarrow> p \<notin> X \<Longrightarrow> unat (a - p) < n * 4096 \<Longrightarrow> ram s' a = ram s a"
  by (auto simp: keeps_but_def)

lemma keeps_but_refl: "ram s' = ram s \<Longrightarrow> keeps_but X s s'"
  by (simp add: keeps_but_def)

lemma keeps_keeps_but: "keeps s s' \<Longrightarrow> keeps_but X s s'"
  by (auto simp: keeps_but_def keeps_def)

lemma keeps_but_trans:
  "keeps_but X s s1 \<Longrightarrow> keeps_but X s1 s2 \<Longrightarrow> k_live s \<subseteq>\<^sub>m k_live s1 \<Longrightarrow> keeps_but X s s2"
  by (auto simp: keeps_but_def map_le_def dom_def) metis

lemma unat_word_offset:
  assumes "j < 1024" "i < 4"
  shows "unat (word_at q j + of_nat i - q) < 4096"
proof -
  have "word_at q j + of_nat i - q = of_nat (4 * j + i)" by (simp add: word_at_def)
  also have "unat (of_nat (4 * j + i) :: u32) = 4 * j + i" using assms by (intro unat_of_nat_u32) linarith
  finally show ?thesis using assms by linarith
qed

lemma keeps_but_load:
  assumes "k_inv s" "keeps_but X s s'" "q \<in> dom (k_live s)" "q \<notin> X" "j < 1024"
  shows "load32 (ram s') (word_at q j) = load32 (ram s) (word_at q j)"
proof (rule load32_cong)
  fix i :: nat assume i: "i < 4"
  obtain n where n: "k_live s q = Some n" using assms(3) by blast
  have "0 < n" using kz.live_aligned [OF assms(1) n] by simp
  then have "unat (word_at q j + of_nat i - q) < n * 4096" using unat_word_offset [OF assms(5) i, of q] by linarith
  then show "ram s' (word_at q j + of_nat i) = ram s (word_at q j + of_nat i)"
    by (rule keeps_butD [OF assms(2) n assms(4)])
qed

lemma space_okD:
  assumes "space_ok s chunk"
  shows "chunk_wf chunk s" "chunk \<in> dom (k_live s)" "chunk_dir s chunk \<in> dom (k_live s)"
    "i < 1024 \<Longrightarrow> table_of (ram s) (chunk_dir s chunk) i \<in> dom (k_live s)"
  using assms by (auto simp: space_ok_def space_pages_def image_subset_iff)

text \<open>A space whose blocks keep their bytes is the same space.\<close>

lemma space_keeps_but:
  assumes "k_inv s" "space_ok s chunk" "keeps_but X s s'" "X \<inter> set (space_pages s chunk) = {}" "k_live s \<subseteq>\<^sub>m k_live s'"
  shows "space_ok s' chunk" "space_pages s' chunk = space_pages s chunk" "chunk_dir s' chunk = chunk_dir s chunk"
    "page_aligned v \<Longrightarrow> page_of s' chunk v = page_of s chunk v"
proof -
  let ?d = "chunk_dir s chunk"
  note l = space_okD [OF assms(2)]
  have out: "chunk \<notin> X" "?d \<notin> X" "i < 1024 \<Longrightarrow> table_of (ram s) ?d i \<notin> X" for i
    using assms(4) by (auto simp: space_pages_def)
  show d: "chunk_dir s' chunk = ?d"
    using keeps_but_load [OF assms(1,3) l(2) out(1), of 0] by (simp add: chunk_dir_def word_at_0)
  have t: "table_of (ram s') ?d i = table_of (ram s) ?d i" if "i < 1024" for i
    using keeps_but_load [OF assms(1,3) l(3) out(2) that] by (simp add: table_of_def)
  show sp: "space_pages s' chunk = space_pages s chunk" by (simp add: space_pages_def d t)
  have "chunk_wf chunk s'" using l(1) by (simp add: chunk_wf_def pd_wf_def d t)
  then show "space_ok s' chunk"
    using assms(2,5) by (auto simp: space_ok_def sp map_le_def dom_def)
  show "page_of s' chunk v = page_of s chunk v" if "page_aligned v"
  proof -
    have "pte_addr (ram s') ?d v = pte_addr (ram s) ?d v" by (simp add: pte_addr_def t)
    moreover have "load32 (ram s') (pte_addr (ram s) ?d v) = load32 (ram s) (pte_addr (ram s) ?d v)"
      unfolding pte_addr_def by (rule keeps_but_load [OF assms(1,3) l(4) out(3)]) simp_all
    ultimately show ?thesis using that by (simp add: page_of_def d paging_get_aligned)
  qed
qed

text \<open>Writing one entry.\<close>

lemma set_page_space:
  assumes "k_inv s" "space_ok s chunk" "page_aligned v" and s'_def: "s' = set_page (chunk_dir s chunk) s v x"
  shows "s' = s\<lparr>ram := ram s'\<rparr>" "space_ok s' chunk" "space_pages s' chunk = space_pages s chunk"
    "keeps_but (set (space_pages s chunk)) s s'"
proof -
  let ?d = "chunk_dir s chunk"
  note l = space_okD [OF assms(2)]
  have e: "s' = s\<lparr>ram := store32 (ram s) (pte_addr (ram s) ?d v) x\<rparr>"
    by (simp add: s'_def set_page_def paging_set_aligned [OF assms(3)])
  show f: "s' = s\<lparr>ram := ram s'\<rparr>" by (simp add: e)
  have d: "chunk_dir s' chunk = ?d" unfolding s'_def by (rule chunk_dir_set_page [OF l(1) assms(3)])
  have "table_of (ram s') ?d i = table_of (ram s) ?d i" if "i < 1024" for i
    using table_of_store [of ?d "ram s" i v x] l(1) that by (simp add: e chunk_wf_def)
  then show sp: "space_pages s' chunk = space_pages s chunk" by (simp add: space_pages_def d)
  have kl: "k_live s' = k_live s" by (simp add: e k_live_def)
  show "space_ok s' chunk"
    using chunk_wf_set_page [OF l(1) assms(3), of x] assms(2) by (simp add: space_ok_def sp kl) (simp add: s'_def)
  let ?t = "table_of (ram s) ?d (pd_index v)"
  obtain n where n: "k_live s ?t = Some n" using l(4) [of "pd_index v"] by auto
  have "0 < n" using kz.live_aligned [OF assms(1) n] by simp
  have in_t: "unat (pte_addr (ram s) ?d v + of_nat i - ?t) < n * 4096" if "i < 4" for i
    using unat_word_offset [of "pt_index v" i ?t] that \<open>0 < n\<close> by (simp add: pte_addr_def)
  have "ram s' a = ram s a"
    if q: "k_live s q = Some m" "q \<notin> set (space_pages s chunk)" "unat (a - q) < m * 4096" for a q m
  proof -
    have "?t \<noteq> q" using q(2) by (auto simp: space_pages_def)
    then have "a \<noteq> pte_addr (ram s) ?d v + of_nat i" if "i < 4" for i
      using live_regions_apart [OF assms(1) n q(1), of a] in_t [OF that] q(3) by auto
    from this [of 0] this [of 1] this [of 2] this [of 3] show ?thesis by (simp add: e store32_def)
  qed
  then show "keeps_but (set (space_pages s chunk)) s s'" by (auto simp: keeps_but_def)
qed

lemma set_pages_space:
  assumes "k_inv s" "space_ok s chunk" "page_aligned v" "d = chunk_dir s chunk"
    "s' = set_pages (set_page d) n s v p f"
  shows "s' = s\<lparr>ram := ram s'\<rparr> \<and> space_ok s' chunk \<and> space_pages s' chunk = space_pages s chunk \<and>
    keeps_but (set (space_pages s chunk)) s s'"
  using assms
proof (induction n arbitrary: s v p)
  case (Suc n)
  let ?t = "set_page d s v (p OR f)"
  note t = set_page_space [OF Suc.prems(1-3), of ?t "p OR f", folded Suc.prems(4), OF refl]
  have k: "k_inv ?t" "k_live ?t = k_live s" by (subst t(1), simp add: k_inv_def k_live_def Suc.prems(1) [unfolded k_inv_def])+
  have d: "d = chunk_dir ?t chunk" using t(3) Suc.prems(4) by (simp add: space_pages_def)
  have "page_aligned (v + 4096)" using Suc.prems(3) by simp
  note ih = Suc.IH [OF k(1) t(2) this d, of "p + 4096"]
  have e: "s' = set_pages (set_page d) n ?t (v + 4096) (p + 4096) f" using Suc.prems(5) by simp
  note ih = ih [folded e, OF refl]
  have "keeps_but (set (space_pages s chunk)) s s'"
    using keeps_but_trans [OF t(4)] ih k(2) t(3) by simp
  moreover have "s' = s\<lparr>ram := ram s'\<rparr>"
    by (subst conjunct1 [OF ih], subst t(1)) simp
  ultimately show ?case using ih t(3) by simp
qed (simp add: keeps_but_refl)


lemma paging_map_to_space:
  assumes "k_inv s" "space_ok s chunk" "page_aligned v" "page_aligned p" "page_aligned e" "p < e"
  obtains m where "paging_map_to s chunk v p e f = (0, s\<lparr>ram := m\<rparr>)" "space_ok (s\<lparr>ram := m\<rparr>) chunk"
    "space_pages (s\<lparr>ram := m\<rparr>) chunk = space_pages s chunk"
    "keeps_but (set (space_pages s chunk)) s (s\<lparr>ram := m\<rparr>)"
    "\<And>w. page_aligned w \<Longrightarrow> page_of (s\<lparr>ram := m\<rparr>) chunk w =
       (if unat (w - v) < unat (e - p) then (p + (w - v)) OR f else page_of s chunk w)"
proof -
  let ?d = "chunk_dir s chunk" and ?n = "unat (e - p) div 4096"
  define s' where "s' = set_pages (set_page ?d) ?n s v p f"
  note sp = set_pages_space [OF assms(1-3) refl, of s' ?n p f]
  have r: "paging_map_to s chunk v p e f = (0, s')"
    using paging_map_to_eq [OF space_okD(1) [OF assms(2)] assms(3-6)] by (simp add: s'_def)
  have wf: "pd_wf ?d (ram s)" using space_okD(1) [OF assms(2)] by (simp add: chunk_wf_def)
  have n: "?n \<le> 1048576" "?n * 4096 = unat (e - p)"
    using page_count(2,3) [OF page_aligned_diff [OF assms(5,4)]] by simp_all
  have "page_of s' chunk w = (if unat (w - v) < unat (e - p) then (p + (w - v)) OR f else page_of s chunk w)"
    if "page_aligned w" for w
  proof -
    have "chunk_dir s' chunk = ?d" using sp s'_def by (simp add: space_pages_def)
    then show ?thesis
      using page_map.get_set_pages [OF pd_set_page wf assms(3) that n(1), of p f] by (simp add: page_of_def s'_def n(2))
  qed
  then show ?thesis using that [of "ram s'"] r sp s'_def by simp
qed

text \<open>Where a byte of the space is.\<close>

lemma phys_of_page:
  "paging_get_phys_addr s (chunk_dir s chunk) a =
    (page_of s chunk (paging_align_to_lower_page a) AND 0xFFFFF000) + (a - paging_align_to_lower_page a)"
  by (simp add: paging_get_phys_addr_def page_of_def Let_def)

lemma space_built_ok:
  assumes "space_built s (ucast (fl :: byte)) chunk dir ts s'"
  shows "space_ok s' chunk" "set (space_pages s' chunk) \<inter> dom (k_live s) = {}"
    "page_aligned v \<Longrightarrow> page_of s' chunk v = v OR ucast fl" "space_pages s' chunk = chunk # dir # ts"
proof -
  note t = space_tables [OF assms] and b = space_builtD [OF assms]
  have "map (table_of (ram s') dir) [0..<1024] = ts"
    by (rule nth_equalityI) (simp_all add: b(2) t(4))
  then show sp: "space_pages s' chunk = chunk # dir # ts" by (simp add: space_pages_def t(3))
  show "space_ok s' chunk" using space_chunk_wf [OF assms] by (auto simp: space_ok_def sp b(5))
  show "set (space_pages s' chunk) \<inter> dom (k_live s) = {}" using b(4) by (auto simp: sp)
  show "page_of s' chunk v = v OR ucast fl" if "page_aligned v"
    using space_get [OF assms that] by (simp add: page_of_def t(3))
qed

subsection \<open>A new address space writes to fresh blocks only\<close>

lemma store32_frame: "\<not> unat (a - p) < 4096 \<Longrightarrow> j < 1024 \<Longrightarrow> store32 m (word_at p j) x a = m a"
  using unat_word_offset [of j 0 p] unat_word_offset [of j 1 p] unat_word_offset [of j 2 p] unat_word_offset [of j 3 p]
  by (auto simp: store32_def)

lemma fill_table_frame:
  "b + n \<le> 1024 \<Longrightarrow> \<not> unat (a - e) < 4096 \<Longrightarrow> fill_table_loop n b m e off f a = m a"
  by (induction n arbitrary: b m) (simp_all add: store32_frame)

lemma new_tables_keeps:
  assumes "k_inv s" "k_live s dir = Some 1" "i + n \<le> 1024" "new_tables_loop n i s dir off f = Some s'"
  shows "keeps_but {dir} s s' \<and> k_inv s' \<and> k_live s \<subseteq>\<^sub>m k_live s'"
  using assms
proof (induction n arbitrary: i s off)
  case 0
  then show ?case by (simp add: keeps_but_refl)
next
  case (Suc n)
  obtain e s1 where z: "kzalloc s (4 * PAGING_TOTAL_ENTRIES_PER_TABLE) = Some (e, s1)" "e \<noteq> 0"
    and r: "new_tables_loop n (Suc i) (s1\<lparr>ram := store32 (fill_table_loop 1024 0 (ram s1) e off f) (word_at dir i)
      (e OR f OR PAGING_IS_WRITABLE)\<rparr>) dir (off + PAGING_TOTAL_ENTRIES_PER_TABLE * PAGING_PAGE_SIZE) f = Some s'"
    using Suc.prems(4) by (auto simp: Let_def split: bind_splits if_splits)
  let ?s2 = "s1\<lparr>ram := store32 (fill_table_loop 1024 0 (ram s1) e off f) (word_at dir i) (e OR f OR PAGING_IS_WRITABLE)\<rparr>"
  have sz: "ok_size (4 * PAGING_TOTAL_ENTRIES_PER_TABLE)" "blocks_of (4 * PAGING_TOTAL_ENTRIES_PER_TABLE) = 1"
    by (simp_all add: paging_consts ok_size_def blocks_of_def)
  note a = kz.alloc_after [OF Suc.prems(1) sz(1) z]
  have k2: "k_inv ?s2" "k_live ?s2 = k_live s1" using a by (simp_all add: k_inv_def k_live_def)
  have le: "k_live s \<subseteq>\<^sub>m k_live ?s2" using a by (auto simp: map_le_def k2(2) dom_def)
  have d2: "k_live ?s2 dir = Some 1" using le Suc.prems(2) by (auto simp: map_le_def dom_def)
  have "keeps_but {dir} s ?s2"
    unfolding keeps_but_def
  proof (intro allI impI)
    fix x p m assume p: "k_live s p = Some m \<and> p \<notin> {dir} \<and> unat (x - p) < m * 4096"
    have l: "k_live s1 p = Some m" "k_live s1 e = Some 1" "k_live s1 dir = Some 1" "p \<noteq> e"
      using p a le d2 k2(2) sz(2) by (auto simp: map_le_def dom_def)
    have i1: "k_inv s1" using a by simp
    have "\<not> unat (x - e) < 4096" "\<not> unat (x - dir) < 4096"
      using live_regions_apart [OF i1 l(1,2,4), of x] live_regions_apart [OF i1 l(1,3), of x] p by auto
    then have "ram ?s2 x = ram s1 x"
      using Suc.prems(3) by (simp add: store32_frame fill_table_frame)
    then show "ram ?s2 x = ram s x"
      using keepsD [OF kzalloc_keeps [OF Suc.prems(1) sz(1) z(1)]] p by auto
  qed
  moreover have "keeps_but {dir} ?s2 s' \<and> k_inv s' \<and> k_live ?s2 \<subseteq>\<^sub>m k_live s'"
    by (rule Suc.IH [OF k2(1) d2 _ r]) (use Suc.prems(3) in simp)
  ultimately show ?case using keeps_but_trans [OF _ _ le] map_le_trans [OF le] by blast
qed

lemma paging_new_4gb_keeps:
  assumes "k_inv s" "paging_new_4gb s f = Some (chunk, s')"
  shows "keeps s s'"
proof -
  obtain dir s1 s2 s3 where z: "kzalloc s (4 * PAGING_TOTAL_ENTRIES_PER_TABLE) = Some (dir, s1)" "dir \<noteq> 0"
    and t: "new_tables_loop 1024 0 s1 dir 0 (ucast f) = Some s2"
    and c: "kzalloc s2 4 = Some (chunk, s3)" "chunk \<noteq> 0" "s' = s3\<lparr>ram := store32 (ram s3) chunk dir\<rparr>"
    using assms(2) by (auto simp: paging_new_4gb_def split: bind_splits if_splits)
  have sz: "ok_size (4 * PAGING_TOTAL_ENTRIES_PER_TABLE)" "blocks_of (4 * PAGING_TOTAL_ENTRIES_PER_TABLE) = 1"
    "ok_size 4" "blocks_of 4 = 1"
    by (simp_all add: paging_consts ok_size_def blocks_of_def)
  note a = kz.alloc_after [OF assms(1) sz(1) z]
  have d: "k_live s1 dir = Some 1" using a sz(2) by simp
  have n: "keeps_but {dir} s1 s2" "k_inv s2" "k_live s1 \<subseteq>\<^sub>m k_live s2"
    using new_tables_keeps [OF _ d _ t] a by auto
  note b = kz.alloc_after [OF n(2) sz(3) c(1,2)]
  show ?thesis
    unfolding keeps_def
  proof (intro allI impI)
    fix x p m assume p: "k_live s p = Some m \<and> unat (x - p) < m * 4096"
    have "p \<noteq> dir" using a p by auto
    have l: "k_live s1 p = Some m" "k_live s2 p = Some m" using \<open>p \<noteq> dir\<close> p a n(3) by (auto simp: map_le_def dom_def)
    have "k_live s3 p = Some m" "k_live s3 chunk = Some 1" "p \<noteq> chunk" "k_inv s3" using b l(2) sz(4) by auto
    then have "\<not> unat (x - chunk) < 4096" using live_regions_apart [of s3 p m chunk 1 x] p by auto
    then have "ram s' x = ram s3 x" using store32_frame [of x chunk 0 "ram s3" dir] by (simp add: c(3) word_at_0)
    also have "\<dots> = ram s2 x" using keepsD [OF kzalloc_keeps [OF n(2) sz(3) c(1)] l(2)] p by blast
    also have "\<dots> = ram s1 x" using keeps_butD [OF n(1) l(1)] \<open>p \<noteq> dir\<close> p by blast
    also have "\<dots> = ram s x" using keepsD [OF kzalloc_keeps [OF assms(1) sz(1) z(1)]] p by blast
    finally show "ram s' x = ram s x" .
  qed
qed

lemma space_built_acquired:
  assumes "space_built s f chunk dir ts s'" "kframe s' = kframe s"
  shows "acquired s (singles (ts @ [dir, chunk])) s'"
  by (rule acquired_grown [OF _ kframe_pool [OF assms(2)]])
    (use space_builtD(1,3-5) [OF assms(1)] in \<open>simp add: grown_def\<close>)

end
