(* ===== verification/Idt.thy ===== *)
theory Idt
  imports Prelude
begin

text \<open>
  The interrupt descriptor table and the tables of handlers (\<^verbatim>\<open>src/idt/idt.c\<close>,
  \<^verbatim>\<open>idt.h\<close>, \<^verbatim>\<open>src/isr80h/isr80h.c\<close>). Handlers are values of a type \<open>'h\<close>; an entry of a
  handler table is \<^term>\<open>None\<close> for a NULL pointer. The interrupt entry points of \<^verbatim>\<open>idt.asm\<close> are
  the addresses of a given table.
\<close>

record idt_desc =
  offset_1 :: u16
  selector :: u16
  zero :: byte
  type_attr :: byte
  offset_2 :: u16

record idtr_desc =
  idtr_limit :: u16
  idtr_base :: u32

record interrupt_frame =
  f_edi :: u32
  f_esi :: u32
  f_ebp :: u32
  f_reserved :: u32
  f_ebx :: u32
  f_edx :: u32
  f_ecx :: u32
  f_eax :: u32
  f_ip :: u32
  f_cs :: u32
  f_flags :: u32
  f_esp :: u32
  f_ss :: u32

definition BENOS_TOTAL_INTERRUPTS :: nat where [status_simps]: "BENOS_TOTAL_INTERRUPTS = 512"
definition BENOS_MAX_ISR80H_COMMANDS :: nat where [status_simps]: "BENOS_MAX_ISR80H_COMMANDS = 1024"
definition KERNEL_CODE_SELECTOR :: u16 where [status_simps]: "KERNEL_CODE_SELECTOR = 0x08"
definition KERNEL_DATA_SELECTOR :: u16 where [status_simps]: "KERNEL_DATA_SELECTOR = 0x10"

definition idt_set :: "idt_desc list \<Rightarrow> int \<Rightarrow> u32 \<Rightarrow> idt_desc list option" where
  "idt_set idt interrupt_num address =
     wr idt interrupt_num
       \<lparr>offset_1 = ucast (address AND 0x0000ffff), selector = KERNEL_CODE_SELECTOR, zero = 0,
        type_attr = 0xEE, offset_2 = ucast (drop_bit 16 address)\<rparr>"

definition idt_register_interrupt_callback ::
  "'h option list \<Rightarrow> int \<Rightarrow> 'h option \<Rightarrow> (int \<times> 'h option list) option" where
  "idt_register_interrupt_callback callbacks interrupt callback =
     (if interrupt < 0 \<or> interrupt \<ge> int BENOS_TOTAL_INTERRUPTS then Some (- EINVARG, callbacks)
      else do { cs \<leftarrow> wr callbacks interrupt callback; Some (0, cs) })"

text \<open>The loops of \<open>idt_init\<close>: \<open>n\<close> entries to go.\<close>

fun idt_set_all :: "nat \<Rightarrow> int \<Rightarrow> u32 list \<Rightarrow> idt_desc list \<Rightarrow> idt_desc list option" where
  "idt_set_all 0 i ptrs idt = Some idt"
| "idt_set_all (Suc n) i ptrs idt =
     do { p \<leftarrow> rd ptrs i; idt' \<leftarrow> idt_set idt i p; idt_set_all n (i + 1) ptrs idt' }"

fun register_all :: "nat \<Rightarrow> int \<Rightarrow> 'h \<Rightarrow> 'h option list \<Rightarrow> 'h option list option" where
  "register_all 0 i h cs = Some cs"
| "register_all (Suc n) i h cs =
     do { (_, cs') \<leftarrow> idt_register_interrupt_callback cs i (Some h); register_all n (i + 1) h cs' }"

text \<open>
  \<open>idt_init\<close> on the addresses of \<open>idt_zero\<close>, \<open>isr80h_wrapper\<close> and of the descriptor table, and
  the handlers \<open>idt_handle_exception\<close> and \<open>idt_clock\<close>.
\<close>

definition idt_init ::
  "u32 list \<Rightarrow> u32 \<Rightarrow> u32 \<Rightarrow> u32 \<Rightarrow> 'h \<Rightarrow> 'h \<Rightarrow> 'h option list \<Rightarrow>
   (idt_desc list \<times> idtr_desc \<times> 'h option list) option" where
  "idt_init ptrs zero_addr isr80h_wrapper idt_addr handle_exception clock callbacks =
     do {
       let blank = \<lparr>offset_1 = 0, selector = 0, zero = 0, type_attr = 0, offset_2 = 0\<rparr>;
       let idt0 = replicate BENOS_TOTAL_INTERRUPTS blank;
       idt1 \<leftarrow> idt_set_all BENOS_TOTAL_INTERRUPTS 0 ptrs idt0;
       idt2 \<leftarrow> idt_set idt1 0 zero_addr;
       idt3 \<leftarrow> idt_set idt2 0x80 isr80h_wrapper;
       cs1 \<leftarrow> register_all 0x20 0 handle_exception callbacks;
       (_, cs2) \<leftarrow> idt_register_interrupt_callback cs1 0x20 (Some clock);
       Some (idt3, \<lparr>idtr_limit = of_nat (BENOS_TOTAL_INTERRUPTS * 8 - 1), idtr_base = idt_addr\<rparr>, cs2) }"

definition isr80h_register_command ::
  "'c option list \<Rightarrow> int \<Rightarrow> 'c \<Rightarrow> (panic + 'c option list) option" where
  "isr80h_register_command commands command_id command =
     (if command_id < 0 \<or> command_id \<ge> int BENOS_MAX_ISR80H_COMMANDS
      then Some (Inl (Panic ''Panic: Command is out of bounds''))
      else do {
        old \<leftarrow> rd commands command_id;
        if old \<noteq> None then Some (Inl (Panic ''Panic: Command already registered''))
        else do { cs \<leftarrow> wr commands command_id (Some command); Some (Inr cs) } })"

text \<open>The command a number stands for; \<^term>\<open>Some None\<close> when there is none.\<close>

definition isr80h_find_command :: "'c option list \<Rightarrow> int \<Rightarrow> 'c option option" where
  "isr80h_find_command commands command =
     (if command < 0 \<or> command \<ge> int BENOS_MAX_ISR80H_COMMANDS then Some None
      else rd commands command)"

datatype isr80h_command =
    command0_sum | command1_print | command2_getkey | command3_putchar | command4_malloc
  | command5_free | command6_process_load_start | command7_invoke_system_command
  | command8_get_program_arguments | command9_exit

fun register_commands ::
  "'c option list \<Rightarrow> (int \<times> 'c) list \<Rightarrow> (panic + 'c option list) option" where
  "register_commands cs [] = Some (Inr cs)"
| "register_commands cs ((i, c) # rest) =
     (case isr80h_register_command cs i c of
        None \<Rightarrow> None | Some (Inl p) \<Rightarrow> Some (Inl p) | Some (Inr cs') \<Rightarrow> register_commands cs' rest)"

definition system_commands :: "(int \<times> isr80h_command) list" where
  "system_commands = [(0, command0_sum), (1, command1_print), (2, command2_getkey), (3, command3_putchar),
     (4, command4_malloc), (5, command5_free), (6, command6_process_load_start),
     (7, command7_invoke_system_command), (8, command8_get_program_arguments), (9, command9_exit)]"

definition isr80h_register_commands ::
  "isr80h_command option list \<Rightarrow> (panic + isr80h_command option list) option" where
  "isr80h_register_commands commands = register_commands commands system_commands"

subsection \<open>The descriptor table\<close>

text \<open>The handler address the processor finds in a gate.\<close>

definition gate_address :: "idt_desc \<Rightarrow> u32" where
  "gate_address d = ucast (offset_1 d) OR push_bit 16 (ucast (offset_2 d))"

definition user_interrupt_gate :: "idt_desc \<Rightarrow> bool" where
  "user_interrupt_gate d \<longleftrightarrow> selector d = KERNEL_CODE_SELECTOR \<and> zero d = 0 \<and> type_attr d = 0xEE"

definition gate_for :: "u32 \<Rightarrow> idt_desc" where
  "gate_for a = \<lparr>offset_1 = ucast (a AND 0x0000ffff), selector = KERNEL_CODE_SELECTOR, zero = 0,
     type_attr = 0xEE, offset_2 = ucast (drop_bit 16 a)\<rparr>"

lemma gate_for [simp]: "gate_address (gate_for a) = a" "user_interrupt_gate (gate_for a)"
proof -
  have m: "(0xffff :: u32) = mask 16" by (simp add: mask_eq_exp_minus_1)
  show "gate_address (gate_for a) = a"
  proof (rule bit_word_eqI)
    fix n assume "n < LENGTH(32)"
    then show "bit (gate_address (gate_for a)) n \<longleftrightarrow> bit a n"
      unfolding gate_address_def gate_for_def m by (cases "n < 16") (auto simp: bit_simps)
  qed
  show "user_interrupt_gate (gate_for a)" by (simp add: user_interrupt_gate_def gate_for_def)
qed

lemma idt_set_eq: "idt_set idt i a = wr idt i (gate_for a)"
  by (simp add: idt_set_def gate_for_def)

lemma idt_set_all_eq:
  assumes "i + n = length idt" "length ptrs = length idt"
  shows "idt_set_all n (int i) ptrs idt = Some (take i idt @ map gate_for (drop i ptrs))"
  using assms
proof (induction n arbitrary: i idt)
  case 0
  then show ?case by simp
next
  case (Suc n)
  have "idt_set_all n (int (Suc i)) ptrs (idt[i := gate_for (ptrs ! i)]) =
    Some (take (Suc i) (idt[i := gate_for (ptrs ! i)]) @ map gate_for (drop (Suc i) ptrs))"
    by (rule Suc.IH) (use Suc.prems in simp_all)
  moreover have "take (Suc i) (idt[i := g]) = take i idt @ [g]" for g
    using Suc.prems by (simp add: take_Suc_conv_app_nth)
  moreover have "drop i ptrs = ptrs ! i # drop (Suc i) ptrs"
    using Suc.prems by (simp add: Cons_nth_drop_Suc)
  ultimately show ?case
    using Suc.prems by (simp add: rd_nat wr_nat idt_set_eq add.commute)
qed

lemma register_all_eq:
  assumes "i + n \<le> length cs" "length cs = 512"
  shows "register_all n (int i) h cs = Some (take i cs @ replicate n (Some h) @ drop (i + n) cs)"
  using assms
proof (induction n arbitrary: i cs)
  case 0
  then show ?case by simp
next
  case (Suc n)
  have "register_all n (int (Suc i)) h (cs[i := Some h]) =
    Some (take (Suc i) (cs[i := Some h]) @ replicate n (Some h) @ drop (Suc i + n) (cs[i := Some h]))"
    by (rule Suc.IH) (use Suc.prems in simp_all)
  moreover have "take (Suc i) (cs[i := Some h]) = take i cs @ [Some h]"
    using Suc.prems by (simp add: take_Suc_conv_app_nth)
  ultimately show ?case
    using Suc.prems
    by (simp add: idt_register_interrupt_callback_def wr_nat status_simps add.commute)
qed

lemma idt_init_eq:
  assumes "length ptrs = 512" "length cs = 512"
  shows "idt_init ptrs z w ia he ck cs = Some ((map gate_for ptrs)[0 := gate_for z, 0x80 := gate_for w],
    \<lparr>idtr_limit = 4095, idtr_base = ia\<rparr>, (replicate 32 (Some he) @ drop 32 cs)[32 := Some ck])"
proof -
  let ?blank = "\<lparr>offset_1 = 0, selector = 0, zero = 0, type_attr = 0, offset_2 = 0\<rparr>"
  have "idt_set_all 512 (int 0) ptrs (replicate 512 ?blank) =
      Some (take 0 (replicate 512 ?blank) @ map gate_for (drop 0 ptrs))"
    by (rule idt_set_all_eq) (use assms in simp_all)
  moreover have "register_all 32 (int 0) he cs = Some (take 0 cs @ replicate 32 (Some he) @ drop (0 + 32) cs)"
    by (rule register_all_eq) (use assms in simp_all)
  moreover have "ptrs \<noteq> []" using assms by auto
  ultimately show ?thesis
    using assms
    by (simp add: idt_init_def status_simps idt_set_eq wr_def idt_register_interrupt_callback_def Let_def)
qed

text \<open>
  C34. After \<open>idt_init\<close> every one of the 512 gates is a user-callable interrupt gate in the kernel's
  code segment; gate 0 leads to \<open>idt_zero\<close>, gate 0x80 to the system call wrapper, every other to
  its entry point. Vectors below 0x20 have the exception handler, 0x20 the clock, and the other
  callbacks are unchanged.
\<close>

theorem idt_init_ok:
  assumes "length ptrs = 512" "length cs = 512"
  shows "\<exists>idt cs'. idt_init ptrs z w ia he ck cs = Some (idt, \<lparr>idtr_limit = 4095, idtr_base = ia\<rparr>, cs') \<and>
    length idt = 512 \<and> list_all user_interrupt_gate idt \<and>
    (\<forall>i < 512. gate_address (idt ! i) = (if i = 0 then z else if i = 0x80 then w else ptrs ! i)) \<and>
    (\<forall>i < 512. cs' ! i = (if i < 0x20 then Some he else if i = 0x20 then Some ck else cs ! i))"
proof -
  let ?idt = "(map gate_for ptrs)[0 := gate_for z, 0x80 := gate_for w]"
  let ?cs = "(replicate 32 (Some he) @ drop 32 cs)[32 := Some ck]"
  have a: "list_all user_interrupt_gate ?idt"
    using assms by (simp add: list_all_length nth_list_update)
  have b: "gate_address (?idt ! i) = (if i = 0 then z else if i = 0x80 then w else ptrs ! i)" if "i < 512" for i
    using assms that by (simp add: nth_list_update)
  have c: "?cs ! i = (if i < 0x20 then Some he else if i = 0x20 then Some ck else cs ! i)" if "i < 512" for i
    using assms that by (simp add: nth_list_update nth_append)
  show ?thesis
    using assms a b c idt_init_eq [OF assms, of z w ia he ck] by (intro exI [of _ ?idt] exI [of _ ?cs]) simp
qed

subsection \<open>System calls\<close>

lemma register_ok:
  "length cs = 1024 \<Longrightarrow> 0 \<le> i \<Longrightarrow> i < 1024 \<Longrightarrow> cs ! nat i = None \<Longrightarrow>
   isr80h_register_command cs i c = Some (Inr (cs[nat i := Some c]))"
  by (simp add: isr80h_register_command_def status_simps rd_def wr_def)

lemma register_commands_ok:
  assumes "length cs = 1024" "distinct (map fst rs)" "\<forall>(i, c) \<in> set rs. 0 \<le> i \<and> i < 1024 \<and> cs ! nat i = None"
  shows "\<exists>cs'. register_commands cs rs = Some (Inr cs') \<and> length cs' = 1024 \<and>
    (\<forall>i. 0 \<le> i \<and> i < 1024 \<longrightarrow> cs' ! nat i = (case map_of rs i of None \<Rightarrow> cs ! nat i | Some c \<Rightarrow> Some c))"
  using assms
proof (induction rs arbitrary: cs)
  case (Cons r rs)
  obtain i c where r: "r = (i, c)" by force
  let ?cs = "cs[nat i := Some c]"
  have i: "0 \<le> i" "i < 1024" "cs ! nat i = None" using Cons.prems r by auto
  have "i' \<noteq> i" if "(i', c') \<in> set rs" for i' c' using that Cons.prems(2) r by force
  then have "\<forall>(i', c') \<in> set rs. 0 \<le> i' \<and> i' < 1024 \<and> ?cs ! nat i' = None"
    using Cons.prems(1,3) i by (fastforce simp: nth_list_update nat_eq_iff)
  then obtain cs' where cs': "register_commands ?cs rs = Some (Inr cs')" "length cs' = 1024"
      "\<forall>i. 0 \<le> i \<and> i < 1024 \<longrightarrow> cs' ! nat i = (case map_of rs i of None \<Rightarrow> ?cs ! nat i | Some c \<Rightarrow> Some c)"
    using Cons.IH [of ?cs] Cons.prems by auto
  have "map_of rs i = None" using Cons.prems(2) r by (simp add: map_of_eq_None_iff)
  then have "\<forall>j. 0 \<le> j \<and> j < 1024 \<longrightarrow>
      cs' ! nat j = (case map_of (r # rs) j of None \<Rightarrow> cs ! nat j | Some c \<Rightarrow> Some c)"
    using cs'(3) r i Cons.prems(1) by (auto simp: nth_list_update nat_eq_iff split: option.splits)
  then show ?case
    using cs' r register_ok [of cs i c] Cons.prems(1) i by auto
qed auto

text \<open>
  On an empty table \<open>isr80h_register_commands\<close> registers its ten commands without a panic,
  and afterwards exactly the numbers 0 to 9 have a command, each its own.
\<close>

theorem isr80h_commands_registered:
  "\<exists>cs. isr80h_register_commands (replicate 1024 None) = Some (Inr cs) \<and>
    (\<forall>n. isr80h_find_command cs n = Some (map_of system_commands n))"
proof -
  have p: "\<forall>(i, c) \<in> set system_commands. 0 \<le> i \<and> i < 1024 \<and> replicate 1024 None ! nat i = None"
    "distinct (map fst system_commands)"
    by (auto simp: system_commands_def)
  obtain cs where cs: "isr80h_register_commands (replicate 1024 None) = Some (Inr cs)" "length cs = 1024"
      "\<forall>i. 0 \<le> i \<and> i < 1024 \<longrightarrow> cs ! nat i =
        (case map_of system_commands i of None \<Rightarrow> replicate 1024 None ! nat i | Some c \<Rightarrow> Some c)"
    using register_commands_ok [OF length_replicate p(2,1)] by (auto simp: isr80h_register_commands_def)
  have "map_of system_commands n = None" if "n < 0 \<or> 1024 \<le> n" for n
    using that by (auto simp: system_commands_def)
  then show ?thesis
    using cs by (intro exI [of _ cs])
      (auto simp: isr80h_find_command_def status_simps rd_def split: option.splits)
qed

text \<open>Registering a number a second time, or one out of range, is a kernel panic.\<close>

theorem isr80h_register_panics:
  assumes "length cs = 1024"
  shows "(\<exists>p. isr80h_register_command cs i c = Some (Inl p)) \<longleftrightarrow>
    (i < 0 \<or> 1024 \<le> i \<or> cs ! nat i \<noteq> None)"
  using assms by (auto simp: isr80h_register_command_def status_simps rd_def wr_def)

theorem idt_init_ok_witness:
  "\<exists>idt cs'. idt_init (replicate 512 0xC0DE) 0x11 0x22 0x33 (0 :: nat) 1 (replicate 512 None) =
     Some (idt, \<lparr>idtr_limit = 4095, idtr_base = 0x33\<rparr>, cs') \<and> gate_address (idt ! 0x80) = 0x22 \<and>
     cs' ! 0x20 = Some 1"
  using idt_init_ok [of "replicate 512 0xC0DE" "replicate 512 None" "0x11" "0x22" "0x33" "0 :: nat" 1]
  by fastforce

theorem isr80h_register_panics_witness:
  "\<exists>p. isr80h_register_command (replicate 1024 (Some command0_sum)) 3 command9_exit = Some (Inl p)"
  using isr80h_register_panics [of "replicate 1024 (Some command0_sum)" 3 command9_exit] by simp

end
