(* ===== verification/Task.thy ===== *)
theory Task
  imports Spaces Idt CString
begin

text \<open>
  Tasks (\<^verbatim>\<open>src/task/task.c\<close>, \<^verbatim>\<open>task.h\<close>, \<^verbatim>\<open>task.asm\<close>). The structures live in a store from
  addresses to tasks; the list of tasks is the chain of \<open>next\<close> pointers from \<open>task_head\<close>. An
  access to an address that holds no task (NULL, or a task that was freed) is \<^term>\<open>None\<close>.
  \<open>cpu\<close> is the register file the processor resumes user code with, \<open>data_segment\<close> the selector in
  the data segment registers.
\<close>

record registers =
  edi :: u32
  esi :: u32
  ebp :: u32
  ebx :: u32
  edx :: u32
  ecx :: u32
  eax :: u32
  ip :: u32
  cs :: u32
  flags :: u32
  esp :: u32
  ss :: u32

record task =
  page_directory :: addr
  registers :: registers
  process :: addr
  next_task :: addr
  prev_task :: addr

record tstate = pmem +
  tasks :: "addr \<rightharpoonup> task"
  current_task :: addr
  task_head :: addr
  task_tail :: addr
  kernel_chunk :: addr
  data_segment :: u32
  cpu :: registers

definition USER_DATA_SEGMENT :: u32 where [status_simps]: "USER_DATA_SEGMENT = 0x23"
definition USER_CODE_SEGMENT :: u32 where [status_simps]: "USER_CODE_SEGMENT = 0x1B"

definition zero_registers :: registers where
  "zero_registers = \<lparr>edi = 0, esi = 0, ebp = 0, ebx = 0, edx = 0, ecx = 0, eax = 0, ip = 0, cs = 0,
     flags = 0, esp = 0, ss = 0\<rparr>"

definition zero_task :: task where
  "zero_task = \<lparr>page_directory = 0, registers = zero_registers, process = 0, next_task = 0, prev_task = 0\<rparr>"

definition sizeof_task :: u32 where "sizeof_task = 64"

definition set_task :: "'z tstate_scheme \<Rightarrow> addr \<Rightarrow> task \<Rightarrow> 'z tstate_scheme" where
  "set_task s p t = s\<lparr>tasks := (tasks s)(p \<mapsto> t)\<rparr>"

subsection \<open>The list of tasks\<close>

definition task_get_next :: "'z tstate_scheme \<Rightarrow> addr option" where
  "task_get_next s =
     do { cur \<leftarrow> tasks s (current_task s); Some (if next_task cur = 0 then task_head s else next_task cur) }"

definition task_list_remove :: "'z tstate_scheme \<Rightarrow> addr \<Rightarrow> 'z tstate_scheme option" where
  "task_list_remove s task =
     do {
       t \<leftarrow> tasks s task;
       s1 \<leftarrow> (if prev_task t \<noteq> 0
              then do { pt \<leftarrow> tasks s (prev_task t); Some (set_task s (prev_task t) (pt\<lparr>next_task := next_task t\<rparr>)) }
              else Some s);
       t1 \<leftarrow> tasks s1 task;
       let s2 = (if task = task_head s1 then s1\<lparr>task_head := next_task t1\<rparr> else s1);
       let s3 = (if task = task_tail s2 then s2\<lparr>task_tail := prev_task t1\<rparr> else s2);
       if task = current_task s3 then do { n \<leftarrow> task_get_next s3; Some (s3\<lparr>current_task := n\<rparr>) }
       else Some s3 }"

text \<open>The structure ceases to exist when its block is released.\<close>

definition task_free :: "'z tstate_scheme \<Rightarrow> addr \<Rightarrow> 'z tstate_scheme option" where
  "task_free s task =
     do {
       t \<leftarrow> tasks s task;
       s1 \<leftarrow> paging_free_4gb s (page_directory t);
       s2 \<leftarrow> task_list_remove s1 task;
       s3 \<leftarrow> kfree s2 task;
       Some (s3\<lparr>tasks := (tasks s3)(task := None)\<rparr>) }"

text \<open>
  \<open>elf_entry\<close> is \<^term>\<open>Some e\<close> for a process loaded from an ELF file with entry point \<open>e\<close>.
\<close>

definition task_init :: "'z tstate_scheme \<Rightarrow> addr \<Rightarrow> addr \<Rightarrow> u32 option \<Rightarrow> (int \<times> 'z tstate_scheme) option" where
  "task_init s task proc elf_entry =
     do {
       _ \<leftarrow> tasks s task;
       (chunk, s1) \<leftarrow> paging_new_4gb s (ucast (PAGING_IS_PRESENT OR PAGING_ACCESS_FROM_ALL));
       if chunk = 0 then Some (- EIO, set_task s1 task zero_task)
       else
         (let regs = zero_registers\<lparr>
                ip := (case elf_entry of None \<Rightarrow> BENOS_PROGRAM_VIRTUAL_ADDRESS | Some e \<Rightarrow> e),
                ss := USER_DATA_SEGMENT, cs := USER_CODE_SEGMENT,
                esp := BENOS_PROGRAM_VIRTUAL_STACK_ADDRESS_START\<rparr>
          in Some (0, set_task s1 task (zero_task\<lparr>page_directory := chunk, registers := regs, process := proc\<rparr>))) }"

text \<open>The result is the task, or the error code as a pointer.\<close>

definition task_new :: "'z tstate_scheme \<Rightarrow> addr \<Rightarrow> u32 option \<Rightarrow> (addr \<times> 'z tstate_scheme) option" where
  "task_new s proc elf_entry =
     do {
       (task, s1) \<leftarrow> kzalloc s sizeof_task;
       if task = 0 then do { s2 \<leftarrow> task_free s1 task; Some (word_of_int (- ENOMEM), s2) }
       else do {
         (res, s2) \<leftarrow> task_init (set_task s1 task zero_task) task proc elf_entry;
         if res \<noteq> BENOS_ALL_OK
         then (if res < 0 then do { s3 \<leftarrow> task_free s2 task; Some (word_of_int res, s3) } else Some (task, s2))
         else if task_head s2 = 0
         then Some (task, s2\<lparr>task_head := task, task_tail := task, current_task := task\<rparr>)
         else do {
           tt \<leftarrow> tasks s2 (task_tail s2);
           let s3 = set_task s2 (task_tail s2) (tt\<lparr>next_task := task\<rparr>);
           t \<leftarrow> tasks s3 task;
           let s4 = set_task s3 task (t\<lparr>prev_task := task_tail s3\<rparr>);
           Some (task, s4\<lparr>task_tail := task\<rparr>) } } }"

subsection \<open>Switching\<close>

definition task_switch :: "'z tstate_scheme \<Rightarrow> addr \<Rightarrow> 'z tstate_scheme option" where
  "task_switch s task =
     do { t \<leftarrow> tasks s task; Some (paging_switch (s\<lparr>current_task := task\<rparr>) (page_directory t)) }"

definition kernel_page :: "'z tstate_scheme \<Rightarrow> 'z tstate_scheme" where
  "kernel_page s = paging_switch (s\<lparr>data_segment := 0x10\<rparr>) (kernel_chunk s)"

definition task_page :: "'z tstate_scheme \<Rightarrow> 'z tstate_scheme option" where
  "task_page s = task_switch (s\<lparr>data_segment := 0x23\<rparr>) (current_task s)"

definition task_page_task :: "'z tstate_scheme \<Rightarrow> addr \<Rightarrow> 'z tstate_scheme option" where
  "task_page_task s task =
     do { t \<leftarrow> tasks s task; Some (paging_switch (s\<lparr>data_segment := 0x23\<rparr>) (page_directory t)) }"

text \<open>
  \<open>task_return\<close> resumes user code with the saved registers, except for the flags: it pushes the
  kernel's own flags \<open>eflags\<close> with the interrupt flag set.
\<close>

definition task_return :: "'z tstate_scheme \<Rightarrow> u32 \<Rightarrow> registers \<Rightarrow> 'z tstate_scheme" where
  "task_return s eflags regs =
     s\<lparr>cpu := regs\<lparr>flags := eflags OR 0x200\<rparr>, data_segment := ss regs AND 0xFFFF\<rparr>"

definition task_next :: "'z tstate_scheme \<Rightarrow> u32 \<Rightarrow> (panic + 'z tstate_scheme) option" where
  "task_next s eflags =
     do {
       n \<leftarrow> task_get_next s;
       if n = 0 then Some (Inl (Panic ''No more tasks to run!''))
       else do {
         s1 \<leftarrow> task_switch s n;
         t \<leftarrow> tasks s1 n;
         Some (Inr (task_return s1 eflags (registers t))) } }"

definition task_run_first_ever_task :: "'z tstate_scheme \<Rightarrow> u32 \<Rightarrow> (panic + 'z tstate_scheme) option" where
  "task_run_first_ever_task s eflags =
     (if current_task s = 0
      then Some (Inl (Panic ''task_run_first_ever_task(): No current task exists!''))
      else do {
        s1 \<leftarrow> task_switch s (task_head s);
        t \<leftarrow> tasks s1 (task_head s1);
        Some (Inr (task_return s1 eflags (registers t))) })"

definition task_save_state :: "task \<Rightarrow> interrupt_frame \<Rightarrow> task" where
  "task_save_state t frame =
     t\<lparr>registers := \<lparr>edi = f_edi frame, esi = f_esi frame, ebp = f_ebp frame, ebx = f_ebx frame,
        edx = f_edx frame, ecx = f_ecx frame, eax = f_eax frame, ip = f_ip frame, cs = f_cs frame,
        flags = f_flags frame, esp = f_esp frame, ss = f_ss frame\<rparr>\<rparr>"

definition task_current_save_state ::
  "'z tstate_scheme \<Rightarrow> interrupt_frame \<Rightarrow> (panic + 'z tstate_scheme) option" where
  "task_current_save_state s frame =
     (if current_task s = 0
      then Some (Inl (Panic ''task_current_save_state(): No current task exists!''))
      else do {
        t \<leftarrow> tasks s (current_task s);
        Some (Inr (set_task s (current_task s) (task_save_state t frame))) })"

subsection \<open>Memory as the running code sees it\<close>

text \<open>
  The physical address of a virtual one under the directory in \<open>cr3\<close>; \<^term>\<open>None\<close> is a page fault.
\<close>

definition translate :: "'z pmem_scheme \<Rightarrow> addr \<Rightarrow> addr option" where
  "translate s a =
     (let pde = load32 (ram s) (word_at (cr3 s) (pd_index a));
          pte = paging_get s (cr3 s) (paging_align_to_lower_page a)
      in if pde AND PAGING_IS_PRESENT \<noteq> 0 \<and> pte AND PAGING_IS_PRESENT \<noteq> 0
         then Some (paging_get_phys_addr s (cr3 s) a) else None)"

definition vload :: "'z pmem_scheme \<Rightarrow> addr \<Rightarrow> byte option" where
  "vload s a = map_option (ram s) (translate s a)"

definition vstore :: "'z pmem_scheme \<Rightarrow> addr \<Rightarrow> byte \<Rightarrow> 'z pmem_scheme option" where
  "vstore s a v = map_option (\<lambda>p. s\<lparr>ram := (ram s)(p := v)\<rparr>) (translate s a)"

text \<open>\<open>strncpy\<close> on virtual memory; \<open>n\<close> is \<open>count - 1 - i\<close>, the number of bytes still allowed.\<close>

fun vstrncpy :: "nat \<Rightarrow> 'z pmem_scheme \<Rightarrow> addr \<Rightarrow> addr \<Rightarrow> 'z pmem_scheme option" where
  "vstrncpy 0 s dst src = vstore s dst 0"
| "vstrncpy (Suc n) s dst src =
     do {
       c \<leftarrow> vload s src;
       if c = 0 then vstore s dst 0
       else do { s' \<leftarrow> vstore s dst c; vstrncpy n s' (dst + 1) (src + 1) } }"

definition copy_string_from_task ::
  "'z tstate_scheme \<Rightarrow> addr \<Rightarrow> addr \<Rightarrow> addr \<Rightarrow> int \<Rightarrow> (int \<times> 'z tstate_scheme) option" where
  "copy_string_from_task s task virt phys mx =
     (if mx \<ge> 4096 then Some (- EINVARG, s)
      else do {
        (tmp, s1) \<leftarrow> kzalloc s (word_of_int mx);
        if tmp = 0 then Some (- ENOMEM, s1)
        else do {
          t \<leftarrow> tasks s1 task;
          let task_dir = load32 (ram s1) (page_directory t);
          let old_entry = paging_get s1 task_dir tmp;
          let (_, s2) = paging_map s1 (page_directory t) tmp tmp
                (PAGING_IS_WRITABLE OR PAGING_IS_PRESENT OR PAGING_ACCESS_FROM_ALL);
          let s3 = paging_switch s2 (page_directory t);
          s4 \<leftarrow> vstrncpy (nat (mx - 1)) s3 tmp virt;
          let s5 = kernel_page s4;
          let (res, s6) = paging_set s5 task_dir tmp old_entry;
          if res < 0 then do { s7 \<leftarrow> kfree s6 tmp; Some (- EIO, s7) }
          else do {
            s7 \<leftarrow> vstrncpy (nat (mx - 1)) s6 phys tmp;
            s8 \<leftarrow> kfree s7 tmp;
            Some (res, s8) } } })"

definition vload32 :: "'z pmem_scheme \<Rightarrow> addr \<Rightarrow> u32 option" where
  "vload32 s a =
     do {
       b0 \<leftarrow> vload s a; b1 \<leftarrow> vload s (a + 1); b2 \<leftarrow> vload s (a + 2); b3 \<leftarrow> vload s (a + 3);
       Some (ucast b0 OR push_bit 8 (ucast b1) OR push_bit 16 (ucast b2) OR push_bit 24 (ucast b3)) }"

definition task_get_stack_item :: "'z tstate_scheme \<Rightarrow> addr \<Rightarrow> int \<Rightarrow> (u32 \<times> 'z tstate_scheme) option" where
  "task_get_stack_item s task index =
     do {
       t \<leftarrow> tasks s task;
       let sp_ptr = esp (registers t);
       s1 \<leftarrow> task_page_task s task;
       result \<leftarrow> vload32 s1 (sp_ptr + word_of_int (4 * index));
       Some (result, kernel_page s1) }"

definition task_virt_addr_to_phys :: "'z tstate_scheme \<Rightarrow> addr \<Rightarrow> addr \<Rightarrow> addr option" where
  "task_virt_addr_to_phys s task virt =
     do { t \<leftarrow> tasks s task; Some (paging_get_phys_addr s (load32 (ram s) (page_directory t)) virt) }"


subsection \<open>Round robin\<close>

text \<open>A scheduler whose step moves on to the next element of a ring.\<close>

fun steps :: "('s \<Rightarrow> 's option) \<Rightarrow> nat \<Rightarrow> 's \<Rightarrow> 's option" where
  "steps f 0 s = Some s"
| "steps f (Suc n) s = do { s' \<leftarrow> f s; steps f n s' }"

lemma mod_length_less: "i < length xs \<Longrightarrow> j mod length xs < length xs"
  by (metis gr_zeroI less_nat_zero_code mod_less_divisor)

locale round_robin =
  fixes step :: "'s \<Rightarrow> 's option"
    and cur :: "'s \<Rightarrow> 'a"
    and ring :: "'s \<Rightarrow> 'a list \<Rightarrow> bool"
  assumes step_ok: "ring s xs \<Longrightarrow> i < length xs \<Longrightarrow> cur s = xs ! i \<Longrightarrow>
      \<exists>s'. step s = Some s' \<and> ring s' xs \<and> cur s' = xs ! (Suc i mod length xs)"
begin

lemma steps_ok:
  "ring s xs \<Longrightarrow> i < length xs \<Longrightarrow> cur s = xs ! i \<Longrightarrow>
   \<exists>s'. steps step n s = Some s' \<and> ring s' xs \<and> cur s' = xs ! ((i + n) mod length xs)"
proof (induction n arbitrary: s i)
  case (Suc n)
  obtain s1 where s1: "step s = Some s1" "ring s1 xs" "cur s1 = xs ! (Suc i mod length xs)"
    using step_ok [OF Suc.prems] by blast
  have "0 < length xs" using Suc.prems(2) by auto
  then obtain s' where "steps step n s1 = Some s'" "ring s' xs"
      "cur s' = xs ! ((Suc i mod length xs + n) mod length xs)"
    using Suc.IH [OF s1(2) _ s1(3)] by auto
  then show ?case using s1(1) by (simp add: mod_add_left_eq)
qed simp

text \<open>No element waits for more than one round.\<close>

lemma fair:
  assumes "ring s xs" "i < length xs" "cur s = xs ! i" "x \<in> set xs"
  shows "\<exists>n s'. n < length xs \<and> steps step n s = Some s' \<and> cur s' = x"
proof -
  obtain j where j: "j < length xs" "xs ! j = x" using assms(4) by (auto simp: in_set_conv_nth)
  let ?n = "(j + length xs - i) mod length xs"
  have "(i + ?n) mod length xs = (i + (j + length xs - i)) mod length xs" by (simp add: mod_add_right_eq)
  also have "\<dots> = j" using assms(2) j(1) by simp
  finally have "(i + ?n) mod length xs = j" .
  moreover have "?n < length xs" using mod_length_less [OF assms(2)] .
  ultimately show ?thesis using steps_ok [OF assms(1-3), of ?n] j(2) by auto
qed

end

text \<open>\<open>xs\<close> is the list of tasks in \<open>next\<close> order.\<close>

definition task_list :: "'z tstate_scheme \<Rightarrow> addr list \<Rightarrow> bool" where
  "task_list s xs \<longleftrightarrow> distinct xs \<and> 0 \<notin> set xs \<and> task_head s = (if xs = [] then 0 else hd xs) \<and>
     (xs \<noteq> [] \<longrightarrow> task_tail s = last xs) \<and>
     (\<forall>i < length xs. \<exists>t. tasks s (xs ! i) = Some t \<and>
        next_task t = (if Suc i < length xs then xs ! Suc i else 0))"

definition prev_ok :: "'z tstate_scheme \<Rightarrow> addr list \<Rightarrow> bool" where
  "prev_ok s xs \<longleftrightarrow> (\<forall>i < length xs. \<exists>t. tasks s (xs ! i) = Some t \<and>
     prev_task t = (if i = 0 then 0 else xs ! (i - 1)))"

lemma set_task_tasks: "tasks (set_task s p t) = (tasks s)(p \<mapsto> t)"
  by (simp add: set_task_def)

lemma paging_switch_tasks [simp]:
  "tasks (paging_switch s c) = tasks s" "current_task (paging_switch s c) = current_task s"
  "task_head (paging_switch s c) = task_head s" "task_tail (paging_switch s c) = task_tail s"
  by (simp_all add: paging_switch_def Let_def)

lemma task_list_nth:
  assumes "task_list s xs" "i < length xs"
  obtains t where "tasks s (xs ! i) = Some t" "next_task t = (if Suc i < length xs then xs ! Suc i else 0)"
    "xs ! i \<noteq> 0"
  using assms unfolding task_list_def by (metis nth_mem)

lemma task_list_cong:
  "task_head s' = task_head s \<Longrightarrow> task_tail s' = task_tail s \<Longrightarrow> tasks s' = tasks s \<Longrightarrow>
   task_list s' xs = task_list s xs"
  by (simp add: task_list_def)

lemma task_list_set:
  assumes "task_list s xs" "tasks s p = Some t" "next_task t' = next_task t"
  shows "task_list (set_task s p t') xs"
proof -
  have "\<exists>u. tasks (set_task s p t') (xs ! i) = Some u \<and> next_task u = (if Suc i < length xs then xs ! Suc i else 0)"
    if "i < length xs" for i
  proof -
    note i = that
    obtain u where "tasks s (xs ! i) = Some u" "next_task u = (if Suc i < length xs then xs ! Suc i else 0)"
      using task_list_nth [OF assms(1) i] by blast
    then show ?thesis using assms(2,3) by (cases "xs ! i = p") (simp_all add: set_task_tasks)
  qed
  then show ?thesis using assms(1) by (simp add: task_list_def set_task_def)
qed

lemma task_get_next_eq:
  assumes "task_list s xs" "i < length xs" "current_task s = xs ! i"
  shows "task_get_next s = Some (xs ! (Suc i mod length xs))"
proof -
  obtain t where t: "tasks s (xs ! i) = Some t" "next_task t = (if Suc i < length xs then xs ! Suc i else 0)"
    using task_list_nth [OF assms(1,2)] by blast
  show ?thesis
  proof (cases "Suc i < length xs")
    case True
    then have "xs ! Suc i \<noteq> 0" using task_list_nth [OF assms(1) True] by blast
    then show ?thesis using t True assms(3) by (simp add: task_get_next_def)
  next
    case False
    then have "Suc i = length xs" "xs \<noteq> []" using assms(2) by auto
    then show ?thesis
      using t assms by (simp add: task_get_next_def task_list_def hd_conv_nth)
  qed
qed

definition task_step :: "u32 \<Rightarrow> 'z tstate_scheme \<Rightarrow> 'z tstate_scheme option" where
  "task_step eflags s = (case task_next s eflags of Some (Inr s') \<Rightarrow> Some s' | _ \<Rightarrow> None)"

lemma task_next_eq:
  assumes l: "task_list s xs" and i: "i < length xs" "current_task s = xs ! i"
  shows "\<exists>t s'. task_next s eflags = Some (Inr s') \<and> tasks s (xs ! (Suc i mod length xs)) = Some t \<and>
    current_task s' = xs ! (Suc i mod length xs) \<and> tasks s' = tasks s \<and> task_list s' xs \<and>
    cpu s' = (registers t)\<lparr>flags := eflags OR 0x200\<rparr> \<and> cr3 s' = load32 (ram s) (page_directory t) \<and>
    kernel_heap s' = kernel_heap s \<and> ram s' = ram s"
proof -
  let ?n = "xs ! (Suc i mod length xs)"
  have "Suc i mod length xs < length xs" using mod_length_less [OF i(1)] .
  then obtain t where t: "tasks s ?n = Some t" "?n \<noteq> 0"
    using task_list_nth [OF l] by blast
  have g: "task_get_next s = Some ?n" by (rule task_get_next_eq [OF assms])
  let ?s1 = "paging_switch (s\<lparr>current_task := ?n\<rparr>) (page_directory t)"
  let ?s' = "task_return ?s1 eflags (registers t)"
  have "task_next s eflags = Some (Inr ?s')"
    using g t by (simp add: task_next_def task_switch_def)
  moreover have "task_list ?s' xs"
    using l task_list_cong [of ?s' s xs] by (simp add: task_return_def paging_switch_def Let_def)
  ultimately show ?thesis
    using t by (intro exI [of _ t] exI [of _ ?s'])
      (simp add: task_return_def paging_switch_def paging_4g_chunk_get_dir_def Let_def)
qed

interpretation sched: round_robin "task_step eflags" current_task task_list for eflags
proof
  fix s :: "'z tstate_scheme" and xs i
  assume a: "task_list s xs" "i < length xs" "current_task s = xs ! i"
  obtain s' where "task_next s eflags = Some (Inr s')" "current_task s' = xs ! (Suc i mod length xs)" "task_list s' xs"
    using task_next_eq [OF a] by blast
  then show "\<exists>s'. task_step eflags s = Some s' \<and> task_list s' xs \<and> current_task s' = xs ! (Suc i mod length xs)"
    by (simp add: task_step_def)
qed

text \<open>
  C6. The scheduler is round robin and fair: every task of the list becomes the current one after
  fewer calls of \<open>task_next\<close> than there are tasks, and none of the calls panics.
\<close>

theorem task_next_fair:
  assumes "task_list s xs" "current_task s \<in> set xs" "x \<in> set xs"
  shows "\<exists>n s'. n < length xs \<and> steps (task_step eflags) n s = Some s' \<and> current_task s' = x"
proof -
  obtain i where "i < length xs" "current_task s = xs ! i" using assms(2) by (auto simp: in_set_conv_nth)
  then show ?thesis using sched.fair [OF assms(1) _ _ assms(3)] by blast
qed

lemma task_steps_tasks:
  assumes "task_list s xs" "i < length xs" "current_task s = xs ! i" "0 < n"
  shows "\<exists>t s'. steps (task_step eflags) n s = Some s' \<and> tasks s' = tasks s \<and> task_list s' xs \<and>
    current_task s' = xs ! ((i + n) mod length xs) \<and> tasks s (current_task s') = Some t \<and>
    cpu s' = (registers t)\<lparr>flags := eflags OR 0x200\<rparr>"
  using assms
proof (induction n arbitrary: s i)
  case (Suc n)
  obtain t s1 where s1: "task_next s eflags = Some (Inr s1)" "tasks s (xs ! (Suc i mod length xs)) = Some t"
      "current_task s1 = xs ! (Suc i mod length xs)" "tasks s1 = tasks s" "task_list s1 xs"
      "cpu s1 = (registers t)\<lparr>flags := eflags OR 0x200\<rparr>"
    using task_next_eq [OF Suc.prems(1-3)] by blast
  show ?case
  proof (cases n)
    case 0
    then show ?thesis using s1 by (simp add: task_step_def)
  next
    case (Suc m)
    have l: "Suc i mod length xs < length xs" using mod_length_less [OF Suc.prems(2)] .
    obtain t' s' where "steps (task_step eflags) n s1 = Some s'" "tasks s' = tasks s1" "task_list s' xs"
      "current_task s' = xs ! ((Suc i mod length xs + n) mod length xs)" "tasks s1 (current_task s') = Some t'"
      "cpu s' = (registers t')\<lparr>flags := eflags OR 0x200\<rparr>"
      using Suc.IH [OF s1(5) l s1(3)] Suc by blast
    moreover have "task_step eflags s = Some s1" using s1(1) by (simp add: task_step_def)
    ultimately show ?thesis using s1(4) by (intro exI [of _ t'] exI [of _ s']) (simp add: mod_add_left_eq)
  qed
qed simp

text \<open>
  C7. A context switch preserves the interrupted code: when the state of the current task has been
  saved from its interrupt frame, one full round of \<open>task_next\<close> comes back to it with every register
  of the frame; only the flags are not those of the frame.
\<close>

theorem context_switch_roundtrip:
  assumes "task_list s xs" "current_task s \<in> set xs"
  shows "\<exists>s1 s'. task_current_save_state s frame = Some (Inr s1) \<and>
    steps (task_step eflags) (length xs) s1 = Some s' \<and> current_task s' = current_task s \<and>
    cpu s' = \<lparr>edi = f_edi frame, esi = f_esi frame, ebp = f_ebp frame, ebx = f_ebx frame,
      edx = f_edx frame, ecx = f_ecx frame, eax = f_eax frame, ip = f_ip frame, cs = f_cs frame,
      flags = eflags OR 0x200, esp = f_esp frame, ss = f_ss frame\<rparr>"
proof -
  obtain i where i: "i < length xs" "current_task s = xs ! i" using assms(2) by (auto simp: in_set_conv_nth)
  obtain t where t: "tasks s (xs ! i) = Some t" "xs ! i \<noteq> 0"
      "next_task t = (if Suc i < length xs then xs ! Suc i else 0)"
    using task_list_nth [OF assms(1) i(1)] by blast
  let ?t = "task_save_state t frame" and ?s1 = "set_task s (xs ! i) (task_save_state t frame)"
  have sv: "task_current_save_state s frame = Some (Inr ?s1)"
    using i(2) t by (simp add: task_current_save_state_def)
  have "next_task ?t = next_task t" by (simp add: task_save_state_def)
  then have l1: "task_list ?s1 xs"
    by (rule task_list_set [OF assms(1) t(1)])
  have c1: "current_task ?s1 = xs ! i" using i(2) by (simp add: set_task_def)
  have "0 < length xs" using i(1) by auto
  then obtain t' s' where s': "steps (task_step eflags) (length xs) ?s1 = Some s'"
      "current_task s' = xs ! ((i + length xs) mod length xs)" "tasks ?s1 (current_task s') = Some t'"
      "cpu s' = (registers t')\<lparr>flags := eflags OR 0x200\<rparr>"
    using task_steps_tasks [OF l1 i(1) c1, of "length xs" eflags] by metis
  have "current_task s' = xs ! i" using s'(2) i(1) by simp
  moreover from this have "t' = ?t" using s'(3) by (simp add: set_task_def)
  ultimately show ?thesis
    using sv s'(1,4) i(2) by (intro exI [of _ ?s1] exI [of _ s']) (simp add: task_save_state_def)
qed

subsection \<open>Removing a task\<close>

lemma task_list_index:
  assumes "task_list s xs" "i < length xs" "j < length xs"
  shows "xs ! i = xs ! j \<longleftrightarrow> i = j"
  using assms by (simp add: task_list_def nth_eq_iff_index_eq)

lemma nth_removed:
  "i < length xs \<Longrightarrow> j < length xs - 1 \<Longrightarrow>
   (take i xs @ drop (Suc i) xs) ! j = (if j < i then xs ! j else xs ! Suc j)"
  by (auto simp: nth_append min_def)

lemma prev_ok_nth:
  assumes "prev_ok s xs" "i < length xs" "tasks s (xs ! i) = Some t"
  shows "prev_task t = (if i = 0 then 0 else xs ! (i - 1))"
  using assms by (force simp: prev_ok_def)

text \<open>The list that is left when element \<open>i\<close> has been bypassed and the ends adjusted.\<close>

lemma task_list_removed:
  assumes l: "task_list s xs" and i: "i < length xs"
    and ts: "\<And>j. j < length xs \<Longrightarrow> j \<noteq> i \<Longrightarrow> \<exists>u. tasks s' (xs ! j) = Some u \<and>
      next_task u = (if Suc j = i then (if Suc i < length xs then xs ! Suc i else 0)
        else if Suc j < length xs then xs ! Suc j else 0)"
    and h: "task_head s' = (if i = 0 then (if Suc 0 < length xs then xs ! 1 else 0) else task_head s)"
    and t: "task_tail s' = (if Suc i = length xs then (if i = 0 then 0 else xs ! (i - 1)) else task_tail s)"
  shows "task_list s' (take i xs @ drop (Suc i) xs)"
proof -
  let ?ys = "take i xs @ drop (Suc i) xs"
  note n = nth_removed [OF i]
  have len: "length ?ys = length xs - 1" using i by simp
  have d: "distinct ?ys" "0 \<notin> set ?ys"
    using l by (auto simp: task_list_def set_take_disj_set_drop_if_distinct dest: in_set_takeD in_set_dropD)
  have e: "?ys = [] \<longleftrightarrow> length xs = 1"
    by (subst length_0_conv [symmetric], subst len) (use i in linarith)
  have "task_head s' = (if ?ys = [] then 0 else hd ?ys)"
  proof (cases "?ys = []")
    case True
    then show ?thesis using e h i by simp
  next
    case False
    then have "0 < length xs - 1" using e i by auto
    then have "hd ?ys = (if 0 < i then xs ! 0 else xs ! Suc 0)" using False n [of 0] by (simp add: hd_conv_nth)
    moreover have "task_head s = xs ! 0" using l i by (auto simp: task_list_def hd_conv_nth)
    ultimately show ?thesis using h \<open>0 < length xs - 1\<close> unfolding if_not_P [OF False] by auto
  qed
  moreover have "task_tail s' = last ?ys" if ne: "?ys \<noteq> []"
  proof -
    have g: "length xs - 2 < length xs - 1" using e i ne by auto
    have "last ?ys = ?ys ! (length xs - 2)" 
      using last_conv_nth [OF ne] len by (simp only: diff_diff_left one_add_one)
    also have "\<dots> = (if length xs - 2 < i then xs ! (length xs - 2) else xs ! Suc (length xs - 2))"
      by (rule n [OF g])
    finally have lst: "last ?ys = (if length xs - 2 < i then xs ! (length xs - 2) else xs ! Suc (length xs - 2))" .
    have "last ?ys = (if Suc i = length xs then xs ! (i - 1) else xs ! (length xs - 1))"
    proof (cases "Suc i = length xs")
      case True
      then have "length xs - 2 = i - 1" "length xs - 2 < i" using g by linarith+
      then show ?thesis unfolding lst using True by simp
    next
      case False
      then have "\<not> length xs - 2 < i" "Suc (length xs - 2) = length xs - 1" using g i by linarith+
      then show ?thesis unfolding lst using False by simp
    qed
    moreover have "task_tail s = xs ! (length xs - 1)" using l i by (auto simp: task_list_def last_conv_nth)
    ultimately show ?thesis using t g by auto
  qed
  moreover have "\<exists>u. tasks s' (?ys ! j) = Some u \<and> next_task u = (if Suc j < length ?ys then ?ys ! Suc j else 0)"
    if "j < length ?ys" for j
  proof -
    have j: "j < length xs - 1" using that len by simp
    let ?k = "if j < i then j else Suc j"
    have k: "?k < length xs" "?k \<noteq> i" using j by auto
    obtain u where u: "tasks s' (xs ! ?k) = Some u"
      "next_task u = (if Suc ?k = i then (if Suc i < length xs then xs ! Suc i else 0)
        else if Suc ?k < length xs then xs ! Suc ?k else 0)"
      using ts [OF k] by blast
    have "?ys ! j = xs ! ?k" using n [OF j] by simp
    moreover have "next_task u = (if Suc j < length ?ys then ?ys ! Suc j else 0)"
      using u(2) n [of "Suc j"] len j i by (auto split: if_splits)
    ultimately show ?thesis using u(1) by auto
  qed
  ultimately show ?thesis using d unfolding task_list_def by blast
qed

lemma task_list_remove_eq:
  assumes l: "task_list s xs" and p: "prev_ok s xs" and i: "i < length xs"
  shows "\<exists>s'. task_list_remove s (xs ! i) = Some s' \<and> task_list s' (take i xs @ drop (Suc i) xs) \<and>
    current_task s' = (if current_task s \<noteq> xs ! i then current_task s
      else if Suc i < length xs then xs ! Suc i else task_head s') \<and>
    (\<forall>q. q \<notin> set xs \<longrightarrow> tasks s' q = tasks s q) \<and>
    (\<forall>j t. j < length xs \<longrightarrow> tasks s (xs ! j) = Some t \<longrightarrow>
       (\<exists>t'. tasks s' (xs ! j) = Some t' \<and> prev_task t' = prev_task t))"
proof -
  obtain t where t: "tasks s (xs ! i) = Some t" "next_task t = (if Suc i < length xs then xs ! Suc i else 0)"
    using task_list_nth [OF l i] by blast
  have pt: "prev_task t = (if i = 0 then 0 else xs ! (i - 1))" by (rule prev_ok_nth [OF p i t(1)])
  obtain s1 where s1: "(if prev_task t \<noteq> 0
        then do { pt \<leftarrow> tasks s (prev_task t); Some (set_task s (prev_task t) (pt\<lparr>next_task := next_task t\<rparr>)) }
        else Some s) = Some s1"
    and hd1: "task_head s1 = task_head s" "task_tail s1 = task_tail s" "current_task s1 = current_task s"
    and ts: "\<And>q. tasks s1 q = (if 0 < i \<and> q = xs ! (i - 1)
        then map_option (\<lambda>u. u\<lparr>next_task := next_task t\<rparr>) (tasks s q) else tasks s q)"
  proof (cases "i = 0")
    case True
    then show thesis using pt by (intro that [of s]) simp_all
  next
    case False
    then have "i - 1 < length xs" using i by simp
    then obtain u where "tasks s (xs ! (i - 1)) = Some u" "xs ! (i - 1) \<noteq> 0"
      using task_list_nth [OF l] by blast
    then show thesis using pt False
      by (intro that [of "set_task s (xs ! (i - 1)) (u\<lparr>next_task := next_task t\<rparr>)"])
        (auto simp: set_task_def)
  qed
  have ne: "xs ! i \<noteq> xs ! (i - 1)" if "0 < i" using task_list_index [OF l i, of "i - 1"] i that by auto
  have t1: "tasks s1 (xs ! i) = Some t" using ts [of "xs ! i"] t(1) ne by auto
  have xs: "xs \<noteq> []" using i by auto
  have hd_iff: "xs ! i = task_head s1 \<longleftrightarrow> i = 0"
    using task_list_index [OF l i, of 0] l i xs hd1 by (auto simp: task_list_def hd_conv_nth)
  have tl_iff: "xs ! i = task_tail s1 \<longleftrightarrow> Suc i = length xs"
    using task_list_index [OF l i, of "length xs - 1"] l i xs hd1 by (auto simp: task_list_def last_conv_nth)
  define s2 where "s2 = (if xs ! i = task_head s1 then s1\<lparr>task_head := next_task t\<rparr> else s1)"
  define s3 where "s3 = (if xs ! i = task_tail s2 then s2\<lparr>task_tail := prev_task t\<rparr> else s2)"
  have f3: "task_head s3 = (if i = 0 then next_task t else task_head s)"
    "task_tail s3 = (if Suc i = length xs then prev_task t else task_tail s)"
    "tasks s3 = tasks s1" "current_task s3 = current_task s"
  proof -
    have s2: "s2 = (if i = 0 then s1\<lparr>task_head := next_task t\<rparr> else s1)"
      unfolding s2_def by (simp only: hd_iff)
    then have "task_tail s2 = task_tail s1" by simp
    then have "xs ! i = task_tail s2 \<longleftrightarrow> Suc i = length xs" using tl_iff by (simp only:)
    then have "s3 = (if Suc i = length xs then s2\<lparr>task_tail := prev_task t\<rparr> else s2)"
      unfolding s3_def by (simp only:)
    then show "task_head s3 = (if i = 0 then next_task t else task_head s)"
      "task_tail s3 = (if Suc i = length xs then prev_task t else task_tail s)"
      "tasks s3 = tasks s1" "current_task s3 = current_task s"
      using s2 hd1 by simp_all
  qed
  let ?s' = "if xs ! i = current_task s
    then s3\<lparr>current_task := (if next_task t = 0 then task_head s3 else next_task t)\<rparr> else s3"
  have "task_list_remove s (xs ! i) = (if xs ! i = current_task s3
      then do { n \<leftarrow> task_get_next s3; Some (s3\<lparr>current_task := n\<rparr>) } else Some s3)"
    unfolding task_list_remove_def s2_def s3_def
    by (simp only: t(1) s1 t1 Option.bind.bind_lunit Let_def)
  also have "\<dots> = Some ?s'"
  proof (cases "xs ! i = current_task s")
    case True
    then have "tasks s3 (current_task s3) = Some t" using t1 f3(3,4) by simp
    then show ?thesis using True f3(4) by (simp add: task_get_next_def)
  next
    case False
    then show ?thesis using f3(4) by simp
  qed
  finally have r: "task_list_remove s (xs ! i) = Some ?s'" .
  have f': "task_head ?s' = task_head s3" "task_tail ?s' = task_tail s3" "tasks ?s' = tasks s1"
    using f3(3) by simp_all
  have "task_list ?s' (take i xs @ drop (Suc i) xs)"
  proof (rule task_list_removed [OF l i])
    fix j assume j: "j < length xs" "j \<noteq> i"
    obtain u where u: "tasks s (xs ! j) = Some u" "next_task u = (if Suc j < length xs then xs ! Suc j else 0)"
      using task_list_nth [OF l j(1)] by blast
    have "xs ! j = xs ! (i - 1) \<longleftrightarrow> Suc j = i" if "0 < i"
      using task_list_index [OF l j(1), of "i - 1"] i that by auto
    then show "\<exists>u. tasks ?s' (xs ! j) = Some u \<and>
        next_task u = (if Suc j = i then (if Suc i < length xs then xs ! Suc i else 0)
          else if Suc j < length xs then xs ! Suc j else 0)"
      unfolding f'(3) using ts [of "xs ! j"] u t(2) by auto
  next
    show "task_head ?s' = (if i = 0 then (if Suc 0 < length xs then xs ! 1 else 0) else task_head s)"
      unfolding f' unfolding f3 using t(2) by auto
    show "task_tail ?s' = (if Suc i = length xs then (if i = 0 then 0 else xs ! (i - 1)) else task_tail s)"
      unfolding f' unfolding f3 using pt by auto
  qed
  moreover have "current_task ?s' = (if current_task s \<noteq> xs ! i then current_task s
      else if Suc i < length xs then xs ! Suc i else task_head ?s')"
  proof -
    have "xs ! Suc i \<noteq> 0" if "Suc i < length xs" using task_list_nth [OF l that] by blast
    then show ?thesis using t(2) f3(4) f'(1) by auto
  qed
  moreover have "tasks ?s' q = tasks s q" if "q \<notin> set xs" for q
  proof -
    have "q \<noteq> xs ! (i - 1)" using that i by auto
    then show ?thesis unfolding f'(3) using ts [of q] by simp
  qed
  moreover have "\<exists>t'. tasks ?s' (xs ! j) = Some t' \<and> prev_task t' = prev_task u"
    if "tasks s (xs ! j) = Some u" for j u
    unfolding f'(3) using ts [of "xs ! j"] that by auto
  ultimately show ?thesis using r by blast
qed

text \<open>
  C33. Removing a task from an intact list bypasses exactly that task: the others stay in order,
  head and tail are adjusted, and the current task is again one of the list, or NULL when none is
  left.
\<close>

theorem task_list_remove_ok:
  assumes "task_list s xs" "prev_ok s xs" "i < length xs" "current_task s \<in> set xs"
  shows "\<exists>s'. task_list_remove s (xs ! i) = Some s' \<and> task_list s' (take i xs @ drop (Suc i) xs) \<and>
    (if length xs = 1 then current_task s' = 0 else current_task s' \<in> set xs - {xs ! i})"
proof -
  let ?ys = "take i xs @ drop (Suc i) xs"
  obtain s' where s': "task_list_remove s (xs ! i) = Some s'" "task_list s' ?ys"
      "current_task s' = (if current_task s \<noteq> xs ! i then current_task s
        else if Suc i < length xs then xs ! Suc i else task_head s')"
    using task_list_remove_eq [OF assms(1-3)] by blast
  have h: "task_head s' = (if ?ys = [] then 0 else hd ?ys)" using s'(2) by (simp add: task_list_def)
  have i0: "xs ! i \<noteq> xs ! j" if "j < length xs" "j \<noteq> i" for j
    using task_list_index [OF assms(1,3) that(1)] that(2) by auto
  show ?thesis
  proof (cases "length xs = 1")
    case True
    then have "i = 0" "set xs = {xs ! 0}" using assms(3) by (auto simp: length_Suc_conv)
    then show ?thesis using True s' h assms(4) by auto
  next
    case False
    have "current_task s' \<in> set xs - {xs ! i}"
    proof (cases "current_task s = xs ! i")
      case True
      show ?thesis
      proof (cases "Suc i < length xs")
        case True
        then show ?thesis using s'(3) \<open>current_task s = xs ! i\<close> i0 [of "Suc i"] by auto
      next
        case False
        then have "0 < i" using assms(3) \<open>length xs \<noteq> 1\<close> by arith
        then have "task_head s' = xs ! 0" using h assms(3) by (cases xs; cases i) auto
        then show ?thesis
          using s'(3) True False i0 [of 0] \<open>0 < i\<close> assms(3) nth_mem [of 0 xs] by (cases xs) auto
      qed
    qed (use s'(3) assms(4) in auto)
    then show ?thesis using s'(1,2) False by auto
  qed
qed

subsection \<open>What the memory operations leave alone\<close>

lemma release_all_kfree_more: "release_all kfree s ps = Some s' \<Longrightarrow> kframe s' = kframe s"
  by (induction ps arbitrary: s) (auto split: bind_splits dest: kfree_more)

lemma paging_free_4gb_more: "paging_free_4gb s c = Some s' \<Longrightarrow> kframe s' = kframe s"
  unfolding paging_free_4gb_eq by (rule release_all_kfree_more)

lemma new_tables_loop_more: "new_tables_loop n i s d off f = Some s' \<Longrightarrow> kframe s' = kframe s"
proof (induction n arbitrary: i s off)
  case (Suc n)
  then obtain e s1 where "kzalloc s (4 * PAGING_TOTAL_ENTRIES_PER_TABLE) = Some (e, s1)"
      "new_tables_loop n (Suc i) (s1\<lparr>ram := store32 (fill_table_loop 1024 0 (ram s1) e off f) (word_at d i)
        (e OR f OR PAGING_IS_WRITABLE)\<rparr>) d (off + PAGING_TOTAL_ENTRIES_PER_TABLE * PAGING_PAGE_SIZE) f = Some s'"
    by (auto simp: Let_def split: bind_splits if_splits)
  then show ?case using Suc.IH kzalloc_more by fastforce
qed simp

lemma paging_new_4gb_more: "paging_new_4gb s f = Some (c, s') \<Longrightarrow> kframe s' = kframe s"
  by (auto simp: paging_new_4gb_def simp del: new_tables_loop.simps split: bind_splits if_splits
      dest!: new_tables_loop_more kzalloc_more)

lemma tstate_more:
  assumes "kframe (s' :: 'z tstate_scheme) = kframe s"
  shows "tasks s' = tasks s" "current_task s' = current_task s" "task_head s' = task_head s"
    "task_tail s' = task_tail s" "kernel_chunk s' = kernel_chunk s" "cr3 s' = cr3 s"
    "task_list s' xs = task_list s xs" "prev_ok s' xs = prev_ok s xs"
  using kframe_more [OF assms] by (cases s; cases s'; simp add: task_list_def prev_ok_def)+

text \<open>
  Removal never repairs the \<open>prev\<close> pointer of the next task. In an intact list, freeing a task
  that has a successor and then freeing that successor follows the dangling pointer into the task
  that is already freed.
\<close>

theorem task_free_dangling_prev:
  assumes l: "task_list s xs" and p: "prev_ok s xs" and i: "Suc i < length xs"
    and f: "task_free s (xs ! i) = Some s1"
  shows "task_free s1 (xs ! Suc i) = None"
proof -
  obtain t sa sb sc where t: "tasks s (xs ! i) = Some t" "paging_free_4gb s (page_directory t) = Some sa"
      "task_list_remove sa (xs ! i) = Some sb" "kfree sb (xs ! i) = Some sc"
      and s1: "s1 = sc\<lparr>tasks := (tasks sc)(xs ! i := None)\<rparr>"
    using f by (auto simp: task_free_def split: bind_splits)
  note sa = tstate_more [OF paging_free_4gb_more [OF t(2)]]
  have il: "i < length xs" using i by simp
  have "\<exists>s'. task_list_remove sa (xs ! i) = Some s' \<and> (\<forall>j t. j < length xs \<longrightarrow> tasks sa (xs ! j) = Some t \<longrightarrow>
       (\<exists>t'. tasks s' (xs ! j) = Some t' \<and> prev_task t' = prev_task t))"
    using task_list_remove_eq [of sa xs i] l p il sa(7,8) by blast
  then have pv: "\<exists>t'. tasks sb (xs ! j) = Some t' \<and> prev_task t' = prev_task u"
    if "j < length xs" "tasks sa (xs ! j) = Some u" for j u
    using t(3) that by auto
  obtain u where u: "tasks s (xs ! Suc i) = Some u"
    using task_list_nth [OF l i] by blast
  then have pu: "prev_task u = xs ! i" using prev_ok_nth [OF p i] by simp
  then obtain u' where u': "tasks sb (xs ! Suc i) = Some u'" "prev_task u' = xs ! i"
    using pv [OF i] u sa(1) by auto
  have "tasks sc = tasks sb" using kfree_more [OF t(4)] tstate_more(1) by blast
  moreover have "xs ! Suc i \<noteq> xs ! i" "xs ! i \<noteq> 0"
    using task_list_index [OF l i il] task_list_nth [OF l il] by auto
  ultimately have s1t: "tasks s1 (xs ! Suc i) = Some u'" "tasks s1 (xs ! i) = None" "xs ! i \<noteq> 0"
    using u' s1 by auto
  show ?thesis
  proof (cases "paging_free_4gb s1 (page_directory u')")
    case None
    then show ?thesis using s1t by (simp add: task_free_def)
  next
    case (Some s2)
    then have "tasks s2 = tasks s1" using paging_free_4gb_more tstate_more(1) by blast
    then have "task_list_remove s2 (xs ! Suc i) = None"
      using s1t u'(2) by (simp add: task_list_remove_def)
    then show ?thesis using s1t Some by (simp add: task_free_def)
  qed
qed

subsection \<open>A new task\<close>

text \<open>Every task lives in a block of the heap.\<close>

definition tasks_live :: "'z tstate_scheme \<Rightarrow> bool" where
  "tasks_live s \<longleftrightarrow> dom (tasks s) \<subseteq> dom (k_live s)"

text \<open>Every task keeps its registers, its address space and its process.\<close>

definition tasks_kept :: "'z tstate_scheme \<Rightarrow> 'z tstate_scheme \<Rightarrow> bool" where
  "tasks_kept s s' \<longleftrightarrow> (\<forall>a t. tasks s a = Some t \<longrightarrow> (\<exists>t'. tasks s' a = Some t' \<and> registers t' = registers t \<and>
     page_directory t' = page_directory t \<and> process t' = process t))"

lemma tasks_keptD:
  assumes "tasks_kept s s'" "tasks s a = Some t"
  obtains t' where "tasks s' a = Some t'" "registers t' = registers t" "page_directory t' = page_directory t" "process t' = process t"
  using assms by (auto simp: tasks_kept_def)

lemma task_block [simp]: "ok_size sizeof_task" "blocks_of sizeof_task = 1"
  by (simp_all add: ok_size_def blocks_of_def sizeof_task_def)

lemma set_task_heap [simp]:
  "k_inv (set_task s p t) = k_inv s" "k_live (set_task s p t) = k_live s"
  "free_blocks (set_task s p t) = free_blocks s" "ram (set_task s p t) = ram s"
  "kernel_heap (set_task s p t) = kernel_heap s"
  by (simp_all add: set_task_def k_inv_def k_live_def free_blocks_def)

lemma prev_ok_append:
  assumes "prev_ok s xs" "xs \<noteq> [] \<Longrightarrow> prev_task t = last xs" "xs = [] \<Longrightarrow> prev_task t = 0"
    "tasks s' p = Some t" "\<And>i. i < length xs \<Longrightarrow> \<exists>u. tasks s' (xs ! i) = Some u \<and>
      (\<forall>v. tasks s (xs ! i) = Some v \<longrightarrow> prev_task u = prev_task v)"
  shows "prev_ok s' (xs @ [p])"
proof -
  have "\<exists>u. tasks s' ((xs @ [p]) ! i) = Some u \<and> prev_task u = (if i = 0 then 0 else (xs @ [p]) ! (i - 1))"
    if "i < Suc (length xs)" for i
  proof (cases "i < length xs")
    case True
    obtain v where "tasks s (xs ! i) = Some v" "prev_task v = (if i = 0 then 0 else xs ! (i - 1))"
      using assms(1) True by (auto simp: prev_ok_def)
    then show ?thesis using assms(5) [OF True] True by (auto simp: nth_append)
  next
    case False
    then have "i = length xs" using that by simp
    then show ?thesis using assms(2-4) by (cases "xs = []") (auto simp: nth_append last_conv_nth)
  qed
  then show ?thesis by (simp add: prev_ok_def)
qed

lemma task_list_append:
  assumes l: "task_list s xs" and p: "p \<notin> set xs" "p \<noteq> 0" "tasks s' p = Some t" "next_task t = 0"
    and h: "task_head s' = (if xs = [] then p else task_head s)" "task_tail s' = p"
    and ts: "\<And>i. i < length xs \<Longrightarrow> \<exists>u. tasks s' (xs ! i) = Some u \<and>
      next_task u = (if Suc i < length xs then xs ! Suc i else p)"
  shows "task_list s' (xs @ [p])"
proof -
  have "\<exists>u. tasks s' ((xs @ [p]) ! i) = Some u \<and> next_task u = (if Suc i < Suc (length xs) then (xs @ [p]) ! Suc i else 0)"
    if "i < Suc (length xs)" for i
  proof (cases "i < length xs")
    case True
    then show ?thesis using ts [OF True] by (auto simp: nth_append)
  next
    case False
    then show ?thesis using that p by (auto simp: nth_append)
  qed
  then show ?thesis using l p h by (auto simp: task_list_def)
qed

definition initial_registers :: "u32 option \<Rightarrow> registers" where
  "initial_registers elf_entry = zero_registers\<lparr>
     ip := (case elf_entry of None \<Rightarrow> BENOS_PROGRAM_VIRTUAL_ADDRESS | Some e \<Rightarrow> e),
     ss := USER_DATA_SEGMENT, cs := USER_CODE_SEGMENT, esp := BENOS_PROGRAM_VIRTUAL_STACK_ADDRESS_START\<rparr>"

lemma task_init_eq:
  assumes "k_inv s" "1026 \<le> free_blocks s" "tasks s p = Some t0"
  shows "\<exists>chunk dir ts s'. task_init s p proc entry = Some (0, set_task s' p
      \<lparr>page_directory = chunk, registers = initial_registers entry, process = proc, next_task = 0, prev_task = 0\<rparr>) \<and>
    space_built s 5 chunk dir ts s' \<and> kframe s' = kframe s \<and> free_blocks s' = free_blocks s - 1026 \<and>
    keeps s s'"
proof -
  have f: "ucast (PAGING_IS_PRESENT OR PAGING_ACCESS_FROM_ALL) = (5 :: byte)" "ucast (5 :: byte) = (5 :: u32)"
    by (simp_all add: paging_consts)
  obtain chunk dir ts s' where n: "paging_new_4gb s 5 = Some (chunk, s')"
      "space_built s 5 chunk dir ts s'" "free_blocks s' = free_blocks s - 1026"
    using paging_new_4gb_result [OF assms(1,2), of 5] f(2) by auto
  have "chunk \<noteq> 0"
    using kz.live_aligned [OF space_builtD(1) [OF n(2)], of chunk 1] space_builtD(5) [OF n(2)] by auto
  then have "task_init s p proc entry = Some (0, set_task s' p
      \<lparr>page_directory = chunk, registers = initial_registers entry, process = proc, next_task = 0, prev_task = 0\<rparr>)"
    using n(1) assms(3) f by (simp add: task_init_def zero_task_def initial_registers_def Let_def)
  then show ?thesis using n paging_new_4gb_more paging_new_4gb_keeps [OF assms(1) n(1)] by blast
qed

lemma task_new_eq:
  assumes inv: "k_inv s" and n: "1027 \<le> free_blocks s" and l: "task_list s xs" and p: "prev_ok s xs"
    and tl: "tasks_live s"
  shows "\<exists>task chunk s'. task_new s proc entry = Some (task, s') \<and> task \<noteq> 0 \<and> task \<notin> set xs \<and> k_inv s' \<and>
    task_list s' (xs @ [task]) \<and> prev_ok s' (xs @ [task]) \<and> tasks_live s' \<and>
    chunk_wf chunk s' \<and> (\<forall>v. paging_get_phys_addr s' (chunk_dir s' chunk) v = v) \<and>
    (\<exists>t. tasks s' task = Some t \<and> page_directory t = chunk \<and> registers t = initial_registers entry \<and> process t = proc) \<and>
    current_task s' = (if xs = [] then task else current_task s) \<and> free_blocks s' = free_blocks s - 1027 \<and>
    k_live s \<subseteq>\<^sub>m k_live s' \<and> k_live s task = None \<and> cr3 s' = cr3 s \<and> kernel_chunk s' = kernel_chunk s \<and>
    space_ok s' chunk \<and> set (space_pages s' chunk) \<inter> dom (k_live s) = {} \<and>
    (\<forall>v. page_aligned v \<longrightarrow> page_of s' chunk v = v OR 5) \<and> keeps s s' \<and> tstate.more s' = tstate.more s \<and>
    (\<exists>ps. length ps = 1027 \<and> acquired s (singles ps) s' \<and> set ps = insert task (set (space_pages s' chunk))) \<and>
    tasks_kept s s'"
proof -
  obtain q s1 where z: "kzalloc s sizeof_task = Some (q, s1)" "q \<noteq> 0" "free_blocks s1 = free_blocks s - 1"
    using kzalloc_one_block [OF inv task_block] n by auto
  note a = kz.alloc_after [OF inv task_block(1) z(1,2)]
  note m1 = tstate_more [OF kzalloc_more [OF z(1)]]
  have q: "tasks s q = None" using a tl by (auto simp: tasks_live_def dom_def)
  let ?s1 = "set_task s1 q zero_task"
  have "1026 \<le> free_blocks ?s1" "k_inv ?s1" "tasks ?s1 q = Some zero_task"
    using z(3) n a by (simp_all add: set_task_tasks)
  then obtain chunk dir ts s2 where i: "task_init ?s1 q proc entry = Some (0, set_task s2 q
      \<lparr>page_directory = chunk, registers = initial_registers entry, process = proc, next_task = 0, prev_task = 0\<rparr>)"
      (is "_ = Some (0, set_task s2 q ?t)")
      "space_built ?s1 5 chunk dir ts s2" "kframe s2 = kframe ?s1" "free_blocks s2 = free_blocks ?s1 - 1026"
      "keeps ?s1 s2"
    using task_init_eq by blast
  note m2 = tstate_more [OF i(3)]
  have five: "(5 :: u32) = ucast (5 :: byte)" by simp
  note sp = i(2) [unfolded five]
  let ?s3 = "set_task s2 q ?t"
  have nodes: "tasks ?s3 x = (if x = q then Some ?t else tasks s x)" for x
    using m1(1) m2(1) by (simp add: set_task_def)
  have lists: "task_head ?s3 = task_head s" "task_tail ?s3 = task_tail s" "current_task ?s3 = current_task s"
    "kernel_chunk ?s3 = kernel_chunk s" "cr3 ?s3 = cr3 s"
    using m1 m2 by (simp_all add: set_task_def)
  have qxs: "q \<notin> set xs"
    using q task_list_nth [OF l] by (metis in_set_conv_nth option.distinct(1))
  have live: "k_live ?s3 = k_live s2" "k_live s \<subseteq>\<^sub>m k_live s2" "k_live s2 q = Some 1" "k_live s q = None"
    using a space_builtD(4,5) [OF i(2)] by (auto simp: map_le_def dom_def fun_eq_iff)
  let ?s' = "if xs = [] then ?s3\<lparr>task_head := q, task_tail := q, current_task := q\<rparr>
    else (set_task (set_task ?s3 (last xs) ((the (tasks s (last xs)))\<lparr>next_task := q\<rparr>)) q
      (?t\<lparr>prev_task := last xs\<rparr>))\<lparr>task_tail := q\<rparr>"
  obtain tt where tt: "tasks s (last xs) = Some tt" if "xs \<noteq> []"
    using task_list_nth [OF l, of "length xs - 1"] by (metis diff_less last_conv_nth length_greater_0_conv zero_less_one)
  have h: "task_head s = 0 \<longleftrightarrow> xs = []" "xs \<noteq> [] \<Longrightarrow> task_tail s = last xs"
    using l by (auto simp: task_list_def) (metis hd_in_set)
  have r: "task_new s proc entry = Some (q, ?s')"
  proof (cases "xs = []")
    case True
    then show ?thesis
      using z(1,2) i(1) h(1) lists(1) by (simp add: task_new_def status_simps)
  next
    case False
    then have "last xs \<noteq> q" using qxs by auto
    then show ?thesis
      using False z(1,2) i(1) h lists(1,2) nodes tt [OF False]
      by (simp add: task_new_def status_simps Let_def set_task_tasks del: fun_upd_apply)
        (simp add: set_task_def)
  qed
  have ns: "tasks ?s' x = (if x = q then Some (if xs = [] then ?t else ?t\<lparr>prev_task := last xs\<rparr>)
      else if xs \<noteq> [] \<and> x = last xs then Some (tt\<lparr>next_task := q\<rparr>) else tasks s x)" for x
    using nodes [of x] tt by (auto simp: set_task_tasks split: if_splits)
  have tl': "task_list ?s' (xs @ [q])"
  proof (rule task_list_append [OF l qxs z(2)])
    show "tasks ?s' q = Some (if xs = [] then ?t else ?t\<lparr>prev_task := last xs\<rparr>)" using ns by simp
    show "task_head ?s' = (if xs = [] then q else task_head s)" using lists by (simp add: set_task_def)
    show "task_tail ?s' = q" by simp
    fix j assume j: "j < length xs"
    obtain u where u: "tasks s (xs ! j) = Some u" "next_task u = (if Suc j < length xs then xs ! Suc j else 0)"
      using task_list_nth [OF l j] by blast
    have "xs ! j \<noteq> q" using qxs j by auto
    moreover have "xs \<noteq> []" using j by auto
    moreover from this have "xs ! j = last xs \<longleftrightarrow> Suc j = length xs"
      using task_list_index [OF l j, of "length xs - 1"] j by (auto simp: last_conv_nth)
    ultimately show "\<exists>u. tasks ?s' (xs ! j) = Some u \<and> next_task u = (if Suc j < length xs then xs ! Suc j else q)"
      unfolding ns using u j by auto
  qed simp
  have pv: "prev_ok ?s' (xs @ [q])"
  proof (rule prev_ok_append [OF p])
    show "tasks ?s' q = Some (if xs = [] then ?t else ?t\<lparr>prev_task := last xs\<rparr>)" using ns by simp
    fix j assume j: "j < length xs"
    obtain u where "tasks s (xs ! j) = Some u" using task_list_nth [OF l j] by blast
    moreover have "xs ! j \<noteq> q" using qxs j by auto
    ultimately show "\<exists>u. tasks ?s' (xs ! j) = Some u \<and> (\<forall>v. tasks s (xs ! j) = Some v \<longrightarrow> prev_task u = prev_task v)"
      unfolding ns using tt by auto
  qed simp_all
  have same: "k_inv ?s' = k_inv s2" "k_live ?s' = k_live s2" "free_blocks ?s' = free_blocks s2" "ram ?s' = ram s2"
    "cr3 ?s' = cr3 s" "kernel_chunk ?s' = kernel_chunk s"
    using lists by (auto simp: k_inv_def k_live_def free_blocks_def set_task_def)
  have "tasks_live ?s'"
    unfolding tasks_live_def same(2)
  proof
    fix x assume "x \<in> dom (tasks ?s')"
    then have "x = q \<or> x \<in> dom (tasks s)"
      unfolding domIff ns using tt by (auto split: if_splits)
    then have "x = q \<or> x \<in> dom (k_live s)" using tl by (auto simp: tasks_live_def)
    then show "x \<in> dom (k_live s2)" using live(2,3) by (auto simp: map_le_def dom_def)
  qed
  moreover have "chunk_wf chunk ?s'" "chunk_dir ?s' chunk = dir"
    using space_chunk_wf [OF sp] space_tables(3) [OF sp] same(4) by (simp_all add: chunk_wf_def chunk_dir_def)
  moreover have "paging_get_phys_addr ?s' dir v = v" for v
    using space_phys [OF sp, of v] same(4)
    by (simp add: paging_get_phys_addr_def paging_get_def)
  moreover have "\<exists>t. tasks ?s' q = Some t \<and> page_directory t = chunk \<and> registers t = initial_registers entry \<and> process t = proc"
    using ns [of q] by auto
  moreover have "current_task ?s' = (if xs = [] then q else current_task s)"
    using lists(3) by (simp add: set_task_def)
  moreover have "free_blocks ?s' = free_blocks s - 1027" using same(3) i(4) z(3) n by simp
  moreover have "space_ok ?s' chunk" "set (space_pages ?s' chunk) \<inter> dom (k_live s) = {}"
    "\<forall>v. page_aligned v \<longrightarrow> page_of ?s' chunk v = v OR 5"
  proof -
    have eq: "space_pages ?s' chunk = space_pages s2 chunk" "page_of ?s' chunk v = page_of s2 chunk v" for v
      unfolding space_pages_def page_of_def paging_get_def chunk_dir_def same(4) by (rule refl)+
    show "space_ok ?s' chunk" "set (space_pages ?s' chunk) \<inter> dom (k_live s) = {}"
      "\<forall>v. page_aligned v \<longrightarrow> page_of ?s' chunk v = v OR 5"
      using space_built_ok(1-3) [OF sp] live(2) a same(2,4) unfolding space_ok_def eq chunk_wf_def chunk_dir_def
      by (auto simp: map_le_def dom_def)
  qed
  moreover have "keeps s ?s'"
  proof -
    have "keeps s1 s2" using i(5) by (simp add: keeps_def)
    then have "keeps s s2"
      using keeps_trans [OF kzalloc_keeps [OF inv task_block(1) z(1)]] a by (auto simp: map_le_def dom_def)
    then show ?thesis unfolding keeps_def same(4) .
  qed
  moreover have "tstate.more ?s' = tstate.more s"
    using kframe_more [OF i(3)] kframe_more [OF kzalloc_more [OF z(1)]] by (cases s; cases s1; cases s2; simp add: set_task_def)
  moreover have "acquired s (singles (q # ts @ [dir, chunk])) ?s'"
  proof -
    have "acquired s [(q, 1)] ?s1" using acquired_alloc [OF inv task_block(1) z(1,2)] acquired_cong [of ?s1 s1] by simp
    from acquired_trans [OF this space_built_acquired [OF i(2,3)]]
    have "acquired s (singles (q # ts @ [dir, chunk])) s2" by (simp add: singles_def)
    then show ?thesis using acquired_cong [of ?s' s2] by (simp add: set_task_def)
  qed
  moreover have "length (q # ts @ [dir, chunk]) = 1027" using space_builtD(2) [OF i(2)] by simp
  moreover have "k_inv ?s'" "k_live s \<subseteq>\<^sub>m k_live ?s'" using same(1,2) space_builtD(1) [OF i(2)] live by simp_all
  moreover have "set (q # ts @ [dir, chunk]) = insert q (set (space_pages ?s' chunk))"
  proof -
    have "space_pages ?s' chunk = space_pages s2 chunk"
      unfolding space_pages_def chunk_dir_def same(4) by (rule refl)
    then show ?thesis using space_built_ok(4) [OF sp] by auto
  qed
  moreover have "\<exists>ps. length ps = 1027 \<and> acquired s (singles ps) ?s' \<and> set ps = insert q (set (space_pages ?s' chunk))"
    using calculation by blast
  moreover have "tasks_kept s ?s'" unfolding tasks_kept_def ns using q tt by auto
  ultimately show ?thesis
    using r z(2) qxs tl' pv same(5,6) live(4)
    by (rule_tac exI [of _ q], rule_tac exI [of _ chunk], rule_tac exI [of _ ?s']) (simp only: simp_thms not_False_eq_True, blast?)
qed


text \<open>
  C28. With enough memory \<open>task_new\<close> appends a task to the list, in a block that was free, with an address space of
  its own: its chunk, directory and tables are blocks that were free before and are allocated now, and each of its
  pages is mapped to itself, present and readable for the user (flags 5). The registers are set up to start user code at the
  entry point on the user stack; the first task becomes the current one; what was allocated stays so and keeps its contents.
\<close>

theorem task_new_ok:
  assumes "k_inv s" "1027 \<le> free_blocks s" "task_list s xs" "prev_ok s xs" "tasks_live s"
  shows "\<exists>task s'. task_new s proc entry = Some (task, s') \<and> task \<notin> set xs \<and>
    task_list s' (xs @ [task]) \<and> prev_ok s' (xs @ [task]) \<and> k_inv s' \<and> tasks_live s' \<and>
    current_task s' = (if xs = [] then task else current_task s) \<and>
    k_live s task = None \<and> k_live s \<subseteq>\<^sub>m k_live s' \<and> keeps s s' \<and>
    (\<exists>t. tasks s' task = Some t \<and> process t = proc \<and> space_ok s' (page_directory t) \<and>
      set (space_pages s' (page_directory t)) \<inter> dom (k_live s) = {} \<and> task \<notin> set (space_pages s' (page_directory t)) \<and>
      (\<forall>v. page_aligned v \<longrightarrow> page_of s' (page_directory t) v = v OR 5) \<and>
      (\<forall>v. paging_get_phys_addr s' (chunk_dir s' (page_directory t)) v = v) \<and>
      ip (registers t) = (case entry of None \<Rightarrow> 0x400000 | Some e \<Rightarrow> e) \<and>
      esp (registers t) = 0x3FF000 \<and> cs (registers t) = 0x1B \<and> ss (registers t) = 0x23)"
proof -
  have r: "ip (initial_registers entry) = (case entry of None \<Rightarrow> 0x400000 | Some e \<Rightarrow> e)"
    "esp (initial_registers entry) = 0x3FF000" "cs (initial_registers entry) = 0x1B"
    "ss (initial_registers entry) = 0x23"
    by (simp_all add: initial_registers_def status_simps split: option.split)
  obtain task chunk s' t ps where n: "task_new s proc entry = Some (task, s')" "task \<notin> set xs" "k_inv s'"
      "task_list s' (xs @ [task])" "prev_ok s' (xs @ [task])" "tasks_live s'"
      "\<forall>v. paging_get_phys_addr s' (chunk_dir s' chunk) v = v"
      "tasks s' task = Some t" "page_directory t = chunk" "registers t = initial_registers entry" "process t = proc"
      "current_task s' = (if xs = [] then task else current_task s)" "k_live s \<subseteq>\<^sub>m k_live s'" "k_live s task = None"
      "space_ok s' chunk" "set (space_pages s' chunk) \<inter> dom (k_live s) = {}"
      "\<forall>v. page_aligned v \<longrightarrow> page_of s' chunk v = v OR 5" "keeps s s'" "length ps = 1027" "acquired s (singles ps) s'"
      "set ps = insert task (set (space_pages s' chunk))"
    using task_new_eq [OF assms, of proc entry] by blast
  have "card (set ps) = 1027" using n(19) acquiredD(3) [OF n(20)] by (simp add: distinct_card)
  moreover have "card (set (space_pages s' chunk)) \<le> 1026"
    using card_length [of "space_pages s' chunk"] by (simp add: space_pages_def)
  ultimately have "task \<notin> set (space_pages s' chunk)" unfolding n(21) by (auto simp: insert_absorb)
  then show ?thesis using n r by (intro exI [of _ task] exI [of _ s'] conjI exI [of _ t]) simp_all
qed

subsection \<open>Instances\<close>

definition fresh_tstate :: tstate where
  "fresh_tstate = kmem.extend fresh_kmem \<lparr>curr_dir = 0, cr3 = 0, tasks = Map.empty, current_task = 0,
     task_head = 0, task_tail = 0, kernel_chunk = 0, data_segment = 0x10, cpu = zero_registers\<rparr>"

lemma fresh_tstate: "k_inv fresh_tstate" "free_blocks fresh_tstate = 25600" "task_list fresh_tstate []"
  "prev_ok fresh_tstate []" "tasks_live fresh_tstate"
  using fresh_kmem
  by (simp_all add: fresh_tstate_def k_inv_def free_blocks_def task_list_def prev_ok_def tasks_live_def
      kmem.extend_def)

theorem task_new_ok_witness:
  "\<exists>task s'. task_new fresh_tstate 7 (Some 0x8048000) = Some (task, s') \<and> task_list s' [task] \<and>
     current_task s' = task \<and> (\<exists>t. tasks s' task = Some t \<and> ip (registers t) = 0x8048000)"
  using task_new_ok [OF fresh_tstate(1) _ fresh_tstate(3-5), of 7 "Some 0x8048000"] fresh_tstate(2) by auto

text \<open>Two and three tasks on a heap of 32 free blocks, every word of the memory 0x01010101.\<close>

definition small_task :: "addr \<Rightarrow> addr \<Rightarrow> task" where
  "small_task n p = \<lparr>page_directory = 0x01001000, registers = zero_registers, process = 0,
     next_task = n, prev_task = p\<rparr>"

definition small_tstate :: tstate where
  "small_tstate = \<lparr>kernel_heap = \<lparr>table = \<lparr>entries = replicate 32 0, total = 32\<rparr>, saddr = 0x01000000\<rparr>,
     ram = (\<lambda>_. 1), curr_dir = 0, cr3 = 0,
     tasks = [0x01002000 \<mapsto> small_task 0x01003000 0, 0x01003000 \<mapsto> small_task 0x01004000 0x01002000,
       0x01004000 \<mapsto> small_task 0 0x01003000],
     current_task = 0x01003000, task_head = 0x01002000, task_tail = 0x01004000,
     kernel_chunk = 0, data_segment = 0x10, cpu = zero_registers\<rparr>"

abbreviation small_tasks :: "addr list" where
  "small_tasks \<equiv> [0x01002000, 0x01003000, 0x01004000]"

lemma less_3: "(\<forall>i < length [x, y, z]. P i) \<longleftrightarrow> P 0 \<and> P 1 \<and> P (2 :: nat)"
  by (auto simp: less_Suc_eq numeral_2_eq_2)

lemma small_tstate: "task_list small_tstate small_tasks" "prev_ok small_tstate small_tasks"
  "current_task small_tstate = 0x01003000"
  unfolding task_list_def prev_ok_def less_3
  by (simp_all add: small_tstate_def small_task_def)

theorem task_next_fair_witness:
  "\<exists>n s'. n < 3 \<and> steps (task_step 2) n small_tstate = Some s' \<and> current_task s' = 0x01002000"
  using task_next_fair [OF small_tstate(1), of "0x01002000" 2] small_tstate(3)
  by (auto simp: numeral_3_eq_3)

theorem context_switch_roundtrip_witness:
  "\<exists>s1 s'. task_current_save_state small_tstate \<lparr>f_edi = 1, f_esi = 2, f_ebp = 3, f_reserved = 0, f_ebx = 4,
       f_edx = 5, f_ecx = 6, f_eax = 7, f_ip = 8, f_cs = 0x1B, f_flags = 0x202, f_esp = 9, f_ss = 0x23\<rparr> = Some (Inr s1) \<and>
     steps (task_step 2) 3 s1 = Some s' \<and> ip (cpu s') = 8 \<and> eax (cpu s') = 7"
  using context_switch_roundtrip [OF small_tstate(1), of "\<lparr>f_edi = 1, f_esi = 2, f_ebp = 3, f_reserved = 0, f_ebx = 4,
       f_edx = 5, f_ecx = 6, f_eax = 7, f_ip = 8, f_cs = 0x1B, f_flags = 0x202, f_esp = 9, f_ss = 0x23\<rparr>" 2]
    small_tstate(3) by (auto simp: numeral_3_eq_3)

theorem task_list_remove_ok_witness:
  "\<exists>s'. task_list_remove small_tstate 0x01003000 = Some s' \<and> task_list s' [0x01002000, 0x01004000] \<and>
     current_task s' \<in> {0x01002000, 0x01004000}"
  using task_list_remove_ok [OF small_tstate(1,2), of 1] small_tstate(3) by auto

lemma small_kfree:
  assumes "kernel_heap (s :: 'z kmem_scheme) = kernel_heap small_tstate"
    "p \<in> {0x01010000, 0x01010101, 0x01001000, 0x01002000}"
  shows "kfree s p = Some s"
proof -
  have "list_all (\<lambda>p. heap_free (kernel_heap small_tstate) p = Some (kernel_heap small_tstate))
      [0x01010000, 0x01010101, 0x01001000, 0x01002000]"
    by code_simp
  then have "heap_free (kernel_heap small_tstate) p = Some (kernel_heap small_tstate)"
    using assms(2) by (auto simp: list_all_iff)
  then show ?thesis using assms(1) by (cases s) (simp add: kfree_def)
qed

lemma small_release:
  assumes "kernel_heap (s :: 'z kmem_scheme) = kernel_heap small_tstate"
    "set ps \<subseteq> {0x01010000, 0x01010101, 0x01001000, 0x01002000}"
  shows "release_all kfree s ps = Some s"
  using assms(2) by (induction ps) (use small_kfree [OF assms(1)] in auto)

theorem task_free_dangling_prev_witness:
  "\<exists>s1. task_free small_tstate 0x01002000 = Some s1 \<and> task_free s1 0x01003000 = None"
proof -
  have w: "load32 (ram small_tstate) a = 0x01010101" for a
    by (simp add: small_tstate_def load32_def)
  have t: "table_of (ram small_tstate) d i = 0x01010000" for d i by (simp add: table_of_def w)
  have "paging_free_4gb small_tstate 0x01001000 = Some small_tstate"
    unfolding paging_free_4gb_eq chunk_dir_def w t [abs_def]
    by (rule small_release) auto
  moreover obtain sb where sb: "task_list_remove small_tstate 0x01002000 = Some sb"
    using task_list_remove_eq [OF small_tstate(1,2), of 0] by auto
  moreover have "kernel_heap sb = kernel_heap small_tstate"
    using sb by (auto simp: task_list_remove_def set_task_def Let_def split: bind_splits if_splits)
  ultimately have "\<exists>s1. task_free small_tstate 0x01002000 = Some s1"
    using small_kfree [of sb "0x01002000"] by (simp add: task_free_def small_tstate_def small_task_def)
  then show ?thesis using task_free_dangling_prev [OF small_tstate(1,2), of 0] by auto
qed

end
