(* ===== verification/Vfs.thy ===== *)
theory Vfs
  imports FatMount Task
begin

text \<open>
  The virtual file system (\<^verbatim>\<open>src/fs/file.c\<close>, \<^verbatim>\<open>file.h\<close>, and \<open>disk_search_and_init\<close> of
  \<^verbatim>\<open>src/disk/disk.c\<close>). A file system is the table of its functions over the state; a pointer to one
  is its number, which a map \<open>F\<close> takes to the functions, and the private data of an open file are of
  a type \<open>'p\<close>. Descriptors live in the table \<open>file_descriptors\<close> with the address of their block.
\<close>

subsection \<open>State\<close>

record ('st, 'p) filesystem =
  resolve_fs :: "'st \<Rightarrow> (int \<times> 'st) option"
  open_fs :: "'st \<Rightarrow> path_part list \<Rightarrow> FILE_MODE \<Rightarrow> ((int + 'p) \<times> 'st) option"
  read_fs :: "'st \<Rightarrow> 'p \<Rightarrow> u32 \<Rightarrow> u32 \<Rightarrow> (int \<times> byte list \<times> 'st) option"
  seek_fs :: "'p \<Rightarrow> u32 \<Rightarrow> u32 \<Rightarrow> (int \<times> 'p) option"
  stat_fs :: "'st \<Rightarrow> 'p \<Rightarrow> file_stat \<Rightarrow> (int \<times> file_stat) option"
  close_fs :: "'st \<Rightarrow> 'p \<Rightarrow> (int \<times> 'st) option"

record 'p file_descriptor =
  file_addr :: addr
  index :: int
  file_fs :: nat
  private_data :: 'p
  file_disk :: disk_ptr

record 'p fstate = tstate +
  filesystems :: "nat option list"
  file_descriptors :: "'p file_descriptor option list"
  the_disk :: disk
  disk_filesystem :: "nat option"
  disk_private :: "fat_private option"

definition BENOS_MAX_FILESYSTEMS :: nat where [status_simps]: "BENOS_MAX_FILESYSTEMS = 12"

text \<open>The first free slot of a table, \<open>i\<close> slots from its start.\<close>

fun free_slot :: "'a option list \<Rightarrow> nat \<Rightarrow> nat option" where
  "free_slot [] i = None"
| "free_slot (None # xs) i = Some i"
| "free_slot (Some x # xs) i = free_slot xs (Suc i)"

definition fs_get_free_filesystem :: "('p, 'z) fstate_scheme \<Rightarrow> nat option" where
  "fs_get_free_filesystem s = free_slot (filesystems s) 0"

text \<open>Without a free slot the kernel prints a message and loops forever.\<close>

definition fs_insert_filesystem :: "('p, 'z) fstate_scheme \<Rightarrow> nat \<Rightarrow> ('p, 'z) fstate_scheme option" where
  "fs_insert_filesystem s fs =
     (case fs_get_free_filesystem s of
        None \<Rightarrow> None
      | Some i \<Rightarrow> Some (s\<lparr>filesystems := (filesystems s)[i := Some fs]\<rparr>))"

text \<open>The number of the FAT16 file system, the only one.\<close>

definition fat16_init :: nat where "fat16_init = 0"

definition fs_static_load :: "('p, 'z) fstate_scheme \<Rightarrow> ('p, 'z) fstate_scheme option" where
  "fs_static_load s = fs_insert_filesystem s fat16_init"

definition fs_load :: "('p, 'z) fstate_scheme \<Rightarrow> ('p, 'z) fstate_scheme option" where
  "fs_load s = fs_static_load (s\<lparr>filesystems := replicate BENOS_MAX_FILESYSTEMS None\<rparr>)"

definition fs_init :: "('p, 'z) fstate_scheme \<Rightarrow> ('p, 'z) fstate_scheme option" where
  "fs_init s = fs_load (s\<lparr>file_descriptors := replicate BENOS_MAX_FILE_DESCRIPTORS None\<rparr>)"

text \<open>The loop of \<open>fs_resolve\<close> over the slots.\<close>

fun resolve_loop ::
  "(nat \<Rightarrow> ('s, 'p) filesystem) \<Rightarrow> 's \<Rightarrow> nat option list \<Rightarrow> (nat option \<times> 's) option" where
  "resolve_loop F s [] = Some (None, s)"
| "resolve_loop F s (None # fss) = resolve_loop F s fss"
| "resolve_loop F s (Some i # fss) =
     do {
       (res, s1) \<leftarrow> resolve_fs (F i) s;
       if res = 0 then Some (Some i, s1) else resolve_loop F s1 fss }"

definition fs_resolve ::
  "(nat \<Rightarrow> (('p, 'z) fstate_scheme, 'p) filesystem) \<Rightarrow> ('p, 'z) fstate_scheme \<Rightarrow>
   (nat option \<times> ('p, 'z) fstate_scheme) option" where
  "fs_resolve F s = resolve_loop F s (filesystems s)"

definition disk_search_and_init ::
  "(nat \<Rightarrow> (('p, 'z) fstate_scheme, 'p) filesystem) \<Rightarrow> ('p, 'z) fstate_scheme \<Rightarrow>
   ('p, 'z) fstate_scheme option" where
  "disk_search_and_init F s =
     do {
       let s1 = s\<lparr>the_disk := \<lparr>disk_type = 0, sector_size = BENOS_SECTOR_SIZE, disk_id = 0\<rparr>,
                  disk_filesystem := None, disk_private := None\<rparr>;
       (fs, s2) \<leftarrow> fs_resolve F s1;
       Some (s2\<lparr>disk_filesystem := fs\<rparr>) }"

subsection \<open>Descriptors\<close>

text \<open>A NULL block for the descriptor is dereferenced.\<close>

definition file_new_descriptor ::
  "('p, 'z) fstate_scheme \<Rightarrow> nat \<Rightarrow> 'p \<Rightarrow> disk_ptr \<Rightarrow> (int \<times> ('p, 'z) fstate_scheme) option" where
  "file_new_descriptor s fs private_d disk =
     (case free_slot (file_descriptors s) 0 of
        None \<Rightarrow> Some (- ENOMEM, s)
      | Some i \<Rightarrow> do {
          (p, s1) \<leftarrow> kzalloc s 16;
          if p = 0 then None
          else
            (let desc = \<lparr>file_addr = p, index = int i + 1, file_fs = fs, private_data = private_d,
                   file_disk = disk\<rparr>
             in Some (index desc, s1\<lparr>file_descriptors := (file_descriptors s1)[i := Some desc]\<rparr>)) })"

definition file_free_descriptor ::
  "('p, 'z) fstate_scheme \<Rightarrow> 'p file_descriptor \<Rightarrow> ('p, 'z) fstate_scheme option" where
  "file_free_descriptor s desc =
     do {
       ds \<leftarrow> wr (file_descriptors s) (index desc - 1) None;
       kfree (s\<lparr>file_descriptors := ds\<rparr>) (file_addr desc) }"

definition file_get_descriptor :: "('p, 'z) fstate_scheme \<Rightarrow> int \<Rightarrow> 'p file_descriptor option option" where
  "file_get_descriptor s fd =
     (if fd \<le> 0 \<or> fd \<ge> int BENOS_MAX_FILE_DESCRIPTORS then Some None
      else rd (file_descriptors s) (fd - 1))"

subsection \<open>The operations\<close>

definition file_get_mode_by_string :: "byte list \<Rightarrow> FILE_MODE option" where
  "file_get_mode_by_string str =
     do {
       r \<leftarrow> strncmp str [0x72, 0] 1;
       if r = 0 then Some FILE_MODE_READ
       else do {
         w \<leftarrow> strncmp str [0x77, 0] 1;
         if w = 0 then Some FILE_MODE_WRITE
         else do {
           a \<leftarrow> strncmp str [0x61, 0] 1;
           Some (if a = 0 then FILE_MODE_APPEND else FILE_MODE_INVALID) } } }"

text \<open>The body of \<open>fopen\<close> up to its label \<open>out\<close>.\<close>

definition fopen_res ::
  "(nat \<Rightarrow> (('p, 'z) fstate_scheme, 'p) filesystem) \<Rightarrow> ('p, 'z) fstate_scheme \<Rightarrow> byte list \<Rightarrow> byte list \<Rightarrow>
   (int \<times> ('p, 'z) fstate_scheme) option" where
  "fopen_res F s filename mode_str =
     do {
       (root_path, s1) \<leftarrow> pathparser_parse s filename;
       case root_path of
         None \<Rightarrow> Some (- EINVARG, s1)
       | Some root \<Rightarrow>
           if first root = [] then Some (- EINVARG, s1)
           else if disk_get (drive_no root) = None then Some (- EIO, s1)
           else
             (case disk_filesystem s1 of
                None \<Rightarrow> Some (- EIO, s1)
              | Some fs \<Rightarrow> do {
                  mode \<leftarrow> file_get_mode_by_string mode_str;
                  if mode = FILE_MODE_INVALID then Some (- EINVARG, s1)
                  else do {
                    (r, s2) \<leftarrow> open_fs (F fs) s1 (first root) mode;
                    case r of
                      Inl err \<Rightarrow> Some (err, s2)
                    | Inr private_d \<Rightarrow> file_new_descriptor s2 fs private_d (disk_get (drive_no root)) } }) }"

definition fopen ::
  "(nat \<Rightarrow> (('p, 'z) fstate_scheme, 'p) filesystem) \<Rightarrow> ('p, 'z) fstate_scheme \<Rightarrow> byte list \<Rightarrow> byte list \<Rightarrow>
   (int \<times> ('p, 'z) fstate_scheme) option" where
  "fopen F s filename mode_str =
     do { (res, s1) \<leftarrow> fopen_res F s filename mode_str; Some (if res < 0 then 0 else res, s1) }"

definition fstat ::
  "(nat \<Rightarrow> (('p, 'z) fstate_scheme, 'p) filesystem) \<Rightarrow> ('p, 'z) fstate_scheme \<Rightarrow> int \<Rightarrow> file_stat \<Rightarrow>
   (int \<times> file_stat) option" where
  "fstat F s fd stat =
     do {
       d \<leftarrow> file_get_descriptor s fd;
       case d of
         None \<Rightarrow> Some (- EIO, stat)
       | Some desc \<Rightarrow> stat_fs (F (file_fs desc)) s (private_data desc) stat }"

definition fclose ::
  "(nat \<Rightarrow> (('p, 'z) fstate_scheme, 'p) filesystem) \<Rightarrow> ('p, 'z) fstate_scheme \<Rightarrow> int \<Rightarrow>
   (int \<times> ('p, 'z) fstate_scheme) option" where
  "fclose F s fd =
     do {
       d \<leftarrow> file_get_descriptor s fd;
       case d of
         None \<Rightarrow> Some (- EIO, s)
       | Some desc \<Rightarrow> do {
           (res, s1) \<leftarrow> close_fs (F (file_fs desc)) s (private_data desc);
           if res = BENOS_ALL_OK then do { s2 \<leftarrow> file_free_descriptor s1 desc; Some (res, s2) }
           else Some (res, s1) } }"

text \<open>The private data change in place.\<close>

definition fseek ::
  "(nat \<Rightarrow> (('p, 'z) fstate_scheme, 'p) filesystem) \<Rightarrow> ('p, 'z) fstate_scheme \<Rightarrow> int \<Rightarrow> int \<Rightarrow> u32 \<Rightarrow>
   (int \<times> ('p, 'z) fstate_scheme) option" where
  "fseek F s fd offset whence =
     do {
       d \<leftarrow> file_get_descriptor s fd;
       case d of
         None \<Rightarrow> Some (- EIO, s)
       | Some desc \<Rightarrow> do {
           (res, private_d) \<leftarrow> seek_fs (F (file_fs desc)) (private_data desc) (word_of_int offset) whence;
           ds \<leftarrow> wr (file_descriptors s) (fd - 1) (Some (desc\<lparr>private_data := private_d\<rparr>));
           Some (res, s\<lparr>file_descriptors := ds\<rparr>) } }"

definition store_bytes :: "(addr \<Rightarrow> byte) \<Rightarrow> addr \<Rightarrow> byte list \<Rightarrow> addr \<Rightarrow> byte" where
  "store_bytes m p bs = (\<lambda>a. if unat (a - p) < length bs then bs ! unat (a - p) else m a)"

definition fread ::
  "(nat \<Rightarrow> (('p, 'z) fstate_scheme, 'p) filesystem) \<Rightarrow> ('p, 'z) fstate_scheme \<Rightarrow> addr \<Rightarrow> u32 \<Rightarrow> u32 \<Rightarrow> int \<Rightarrow>
   (int \<times> ('p, 'z) fstate_scheme) option" where
  "fread F s ptr sz nmemt fd =
     (if sz = 0 \<or> nmemt = 0 then Some (- EINVARG, s)
      else do {
        d \<leftarrow> file_get_descriptor s fd;
        case d of
          None \<Rightarrow> Some (- EINVARG, s)
        | Some desc \<Rightarrow> do {
            (res, bytes, s1) \<leftarrow> read_fs (F (file_fs desc)) s (private_data desc) sz nmemt;
            Some (res, s1\<lparr>ram := store_bytes (ram s1) ptr bytes\<rparr>) } })"

subsection \<open>FAT16 as a file system\<close>

text \<open>The functions of \<open>fat16_fs\<close>; a NULL private pointer of the disk is dereferenced.\<close>

definition fat16_fs :: "device \<Rightarrow> ((fat_file_descriptor, 'z) fstate_scheme, fat_file_descriptor) filesystem" where
  "fat16_fs dev =
     \<lparr>resolve_fs = (\<lambda>s. do {
        (res, s1, fp) \<leftarrow> fat16_resolve dev (the_disk s) s;
        Some (res, s1\<lparr>disk_filesystem := Some fat16_init, disk_private := fp\<rparr>) }),
      open_fs = (\<lambda>s path mode. do {
        if mode \<noteq> FILE_MODE_READ then Some (Inl (- EREADONLY), s)
        else do {
          fp \<leftarrow> disk_private s;
          (r, s1, fp1) \<leftarrow> fat16_open dev (the_disk s) s fp path mode;
          Some (r, s1\<lparr>disk_private := Some fp1\<rparr>) } }),
      read_fs = (\<lambda>s desc sz nmemb. do {
        fp \<leftarrow> disk_private s;
        (res, bytes, fp1) \<leftarrow> fat16_read dev (the_disk s) fp desc sz nmemb;
        Some (res, bytes, s\<lparr>disk_private := Some fp1\<rparr>) }),
      seek_fs = fat16_seek,
      stat_fs = (\<lambda>s. fat16_stat),
      close_fs = fat16_close\<rparr>"

definition kernel_fs :: "device \<Rightarrow> nat \<Rightarrow> ((fat_file_descriptor, 'z) fstate_scheme, fat_file_descriptor) filesystem" where
  "kernel_fs dev = (\<lambda>i. fat16_fs dev)"

end
