(* ===== verification/VfsContract.thy ===== *)
theory VfsContract
  imports Vfs
begin

text \<open>
  The contract of a file system as \<^verbatim>\<open>src/fs/file.c\<close> relies on it, what the operations on files do
  for every file system that keeps it, and the proof that FAT16 keeps it.
\<close>

subsection \<open>What memory operations leave alone\<close>

definition volume :: "('p, 'z) fstate_scheme \<Rightarrow> disk \<times> nat option \<times> fat_private option" where
  "volume s = (the_disk s, disk_filesystem s, disk_private s)"

lemma fstate_more:
  assumes "kframe (s' :: ('p, 'z) fstate_scheme) = kframe s"
  shows "volume s' = volume s" "file_descriptors s' = file_descriptors s" "filesystems s' = filesystems s"
    "pool s' = pool s"
  using kframe_more [OF assms] kframe_pool [OF assms] by (cases s; cases s'; simp add: volume_def)+

text \<open>Everything but the heap, the memory, the descriptors and the data of the mounted disk.\<close>

definition outer :: "('p, 'z) fstate_scheme \<Rightarrow> ('p, 'z) fstate_scheme" where
  "outer s = s\<lparr>kernel_heap := kernel_heap fresh_kmem, ram := (\<lambda>_. 0), file_descriptors := [], disk_private := None\<rparr>"

lemma outer_kframe: "kframe s' = kframe s \<Longrightarrow> outer s' = outer s"
  using kframe_more [of s' s] by (cases s; cases s'; simp add: outer_def)

lemma outer_simps [simp]:
  "outer (s\<lparr>file_descriptors := ds\<rparr>) = outer s" "outer (s\<lparr>ram := m\<rparr>) = outer s"
  "outer (s\<lparr>disk_private := fp\<rparr>) = outer s"
  by (simp_all add: outer_def)

lemma volume_simps [simp]:
  "volume (s\<lparr>file_descriptors := ds\<rparr>) = volume s" "volume (s\<lparr>ram := m\<rparr>) = volume s"
  by (simp_all add: volume_def)

lemma parse_path_part_more:
  "pathparser_parse_path_part s parts path = Some (b, parts', path', s') \<Longrightarrow> kframe s' = kframe s"
  by (auto simp: pathparser_parse_path_part_def pathparser_get_path_part_def Let_def split: bind_splits if_splits
      dest!: kzalloc_more kfree_more)

lemma path_parts_loop_more:
  "path_parts_loop s parts path = Some (parts', s') \<Longrightarrow> kframe s' = kframe s"
proof (induction s parts path arbitrary: parts' s' rule: path_parts_loop.induct)
  case (1 s parts path)
  from "1.prems" obtain b ps p s1 where p: "pathparser_parse_path_part s parts path = Some (b, ps, p, s1)"
      and r: "if b then path_parts_loop s1 ps p = Some (parts', s') else parts' = ps \<and> s' = s1"
    by (subst (asm) path_parts_loop.simps) (auto split: option.splits if_splits)
  have "kframe s1 = kframe s" by (rule parse_path_part_more [OF p])
  then show ?case using "1.IH" [OF p refl refl refl] r by (cases b) auto
qed

lemma pathparser_parse_more:
  "pathparser_parse s path = Some (r, s') \<Longrightarrow> kframe s' = kframe s"
  by (auto simp: pathparser_parse_def pathparser_create_root_def split: bind_splits if_splits
      dest!: kzalloc_more parse_path_part_more path_parts_loop_more)

subsection \<open>The descriptor table\<close>

text \<open>Every descriptor knows its own slot.\<close>

definition fd_inv :: "('p, 'z) fstate_scheme \<Rightarrow> bool" where
  "fd_inv s \<longleftrightarrow> length (file_descriptors s) = BENOS_MAX_FILE_DESCRIPTORS \<and>
     (\<forall>i < length (file_descriptors s). \<forall>d. file_descriptors s ! i = Some d \<longrightarrow> index d = int i + 1)"

lemma free_slot_Some: "free_slot xs i = Some k \<longleftrightarrow>
    (\<exists>j < length xs. k = i + j \<and> xs ! j = None \<and> (\<forall>m < j. xs ! m \<noteq> None))"
  by (induction xs i rule: free_slot.induct) (simp_all add: Ex_less_Suc2 All_less_Suc2 del: Ex_less_Suc All_less_Suc, blast?)

lemma free_slot_0: "free_slot xs 0 = Some k \<longleftrightarrow> k < length xs \<and> xs ! k = None \<and> (\<forall>m < k. xs ! m \<noteq> None)"
  by (auto simp: free_slot_Some)

lemma free_slot_None: "free_slot xs i = None \<longleftrightarrow> (\<forall>x \<in> set xs. x \<noteq> None)"
  by (induction xs i rule: free_slot.induct) auto

lemma descriptor_request [simp]: "ok_size 16" "blocks_of 16 = 1"
  by (simp_all add: ok_size_def blocks_of_def)

lemma mode_r [simp]: "file_get_mode_by_string (0x72 # 0 # xs) = Some FILE_MODE_READ"
  by (simp add: file_get_mode_by_string_def)

lemma length_node_addrs: "length (node_addrs xs) = 2 * length xs"
  by (induction xs) (simp_all add: node_addrs_def)

subsection \<open>The contract of a file system\<close>

text \<open>
  What \<open>file.c\<close> relies on. \<open>is_file v path c\<close>: on the volume \<open>v\<close> the path names a file whose contents
  are \<open>c\<close>; \<open>handle v p c\<close>: \<open>p\<close> are the private data of such a file; \<open>owns p\<close>: the blocks that
  belong to them.
\<close>

locale file_system =
  fixes fs :: "(('p, 'z) fstate_scheme, 'p) filesystem"
    and is_file :: "disk \<times> nat option \<times> fat_private option \<Rightarrow> byte list list \<Rightarrow> byte list \<Rightarrow> bool"
    and handle :: "disk \<times> nat option \<times> fat_private option \<Rightarrow> 'p \<Rightarrow> byte list \<Rightarrow> bool"
    and owns :: "'p \<Rightarrow> addr list"
    and cost :: nat
  assumes open_law: "k_inv s \<Longrightarrow> cost \<le> free_blocks s \<Longrightarrow> is_file (volume s) (map part_text path) c \<Longrightarrow>
      \<forall>x \<in> set path. length (part_str x) = 108 \<and> terminated (part_str x) \<Longrightarrow>
      \<exists>p s'. open_fs fs s path FILE_MODE_READ = Some (Inr p, s') \<and> handle (volume s') p c \<and>
        kgrown s (owns p) s' \<and> free_blocks s' = free_blocks s - cost \<and>
        volume s' = volume s \<and> file_descriptors s' = file_descriptors s \<and> outer s' = outer s"
    and read_law: "handle (volume s) p c \<Longrightarrow> 0 < sz \<Longrightarrow> sz < 2147483648 \<Longrightarrow> n < 2147483648 \<Longrightarrow>
      unat n * unat sz \<le> length c \<Longrightarrow>
      \<exists>s'. read_fs fs s p sz n = Some (int (unat n), take (unat n * unat sz) c, s') \<and>
        kernel_heap s' = kernel_heap s \<and> ram s' = ram s \<and> file_descriptors s' = file_descriptors s \<and>
        outer s' = outer s \<and> (\<forall>q c'. handle (volume s) q c' \<longrightarrow> handle (volume s') q c') \<and>
        (\<forall>path c'. is_file (volume s) path c' \<longrightarrow> is_file (volume s') path c')"
    and stat_law: "handle (volume s) p c \<Longrightarrow>
      \<exists>fl. stat_fs fs s p st = Some (0, \<lparr>stat_flags = fl, stat_size = word_of_nat (length c)\<rparr>)"
    and close_law: "k_inv s \<Longrightarrow> handle (volume s) p c \<Longrightarrow> distinct (owns p) \<Longrightarrow> set (owns p) \<subseteq> dom (k_live s) \<Longrightarrow>
      \<exists>s'. close_fs fs s p = Some (0, s') \<and> k_inv s' \<and> k_live s' = k_live s |` (- set (owns p)) \<and>
        volume s' = volume s \<and> file_descriptors s' = file_descriptors s \<and> outer s' = outer s \<and>
        ram s' = ram s \<and> pool s' = pool s"
begin

text \<open>The descriptor that \<open>fopen\<close> leaves in slot \<open>i\<close>.\<close>

lemma fopen_file:
  assumes "F fid = fs" "disk_filesystem s = Some fid" "k_inv s"
    and path: "terminated path" "length (cstr path) \<le> 108" "valid_path (cstr path)" "tonum (cstr path ! 0) = 0"
    and f: "is_file (volume s) (components (drop 3 (cstr path))) c" "components (drop 3 (cstr path)) \<noteq> []"
    and room: "2 * length (components (drop 3 (cstr path))) + 2 + cost \<le> free_blocks s"
    and slot: "free_slot (file_descriptors s) 0 = Some i"
  obtains p a ns s' where "fopen F s path (0x72 # 0 # xs) = Some (int i + 1, s')"
    "handle (volume s') p c" "volume s' = volume s"
    "file_descriptors s' = (file_descriptors s)[i := Some \<lparr>file_addr = a, index = int i + 1, file_fs = fid,
       private_data = p, file_disk = Some 0\<rparr>]"
    "kgrown s (ns @ owns p @ [a]) s'" "length ns = 1 + 2 * length (components (drop 3 (cstr path)))"
    "outer s' = outer s"
proof -
  let ?cs = "components (drop 3 (cstr path))"
  obtain root s1 where r: "pathparser_parse s path = Some (Some root, s1)"
      "drive_no root = tonum (cstr path ! 0)" "map part_text (first root) = ?cs"
      "\<forall>x \<in> set (first root). length (part_str x) = 108 \<and> terminated (part_str x)"
      and g1: "kgrown s (root_addr root # node_addrs (first root)) s1"
      and n1: "free_blocks s1 = free_blocks s - 1 - 2 * length (first root)"
    using parse_valid [OF assms(3) path(1-3)] room by auto
  note m1 = fstate_more [OF pathparser_parse_more [OF r(1)]]
  have len: "length (first root) = length ?cs" using arg_cong [OF r(3), of length] by simp
  have c1: "cost \<le> free_blocks s1" using n1 len room by linarith
  have f1: "is_file (volume s1) (map part_text (first root)) c" using f(1) r(3) m1(1) by simp
  obtain p s2 where o: "open_fs fs s1 (first root) FILE_MODE_READ = Some (Inr p, s2)" "handle (volume s2) p c"
      "kgrown s1 (owns p) s2" "free_blocks s2 = free_blocks s1 - cost"
      "volume s2 = volume s1" "file_descriptors s2 = file_descriptors s1" "outer s2 = outer s1"
    using open_law [OF kgrownD(1) [OF g1] c1 f1 r(4)] by blast
  obtain a s3 where z: "kzalloc s2 16 = Some (a, s3)" "a \<noteq> 0"
    using kzalloc_one_block [OF kgrownD(1) [OF o(3)] descriptor_request] n1 len room o(4) by auto
  have g3: "kgrown s2 [a] s3"
    by (rule kgrown_alloc [OF kgrownD(1) [OF o(3)] descriptor_request z])
  note m3 = fstate_more [OF kzalloc_more [OF z(1)]]
  let ?s' = "s3\<lparr>file_descriptors := (file_descriptors s3)[i := Some \<lparr>file_addr = a, index = int i + 1, file_fs = fid,
       private_data = p, file_disk = Some 0\<rparr>]\<rparr>"
  have ne: "first root \<noteq> []" using f(2) r(3) by auto
  have dk: "disk_filesystem s1 = Some fid" using m1(1) assms(2) by (simp add: volume_def)
  have "fopen F s path (0x72 # 0 # xs) = Some (int i + 1, ?s')"
    using r(1,2) ne dk o(1,6) z slot m1(2) assms(1) path(4)
    by (simp add: fopen_def fopen_res_def disk_get_def file_new_descriptor_def Let_def)
  moreover have "kgrown s ((root_addr root # node_addrs (first root)) @ owns p @ [a]) ?s'"
    using kgrown_trans [OF g1 kgrown_trans [OF o(3) g3]] by (simp add: kgrown_def grown_def keeps_def k_inv_def k_live_def pool_def)
  moreover have "length (root_addr root # node_addrs (first root)) = 1 + 2 * length ?cs"
    using len length_node_addrs by simp
  moreover have "volume ?s' = volume s" "handle (volume ?s') p c"
    "file_descriptors ?s' = (file_descriptors s)[i := Some \<lparr>file_addr = a, index = int i + 1, file_fs = fid,
       private_data = p, file_disk = Some 0\<rparr>]"
    using m1 m3 o(2,5,6) by simp_all
  moreover have "outer ?s' = outer s"
    using outer_kframe [OF pathparser_parse_more [OF r(1)]] outer_kframe [OF kzalloc_more [OF z(1)]] o(7) by simp
  ultimately show ?thesis using that by blast
qed

end

text \<open>An open file: its descriptor and the handle behind it.\<close>

definition open_at :: "(('p, 'z) fstate_scheme) \<Rightarrow> nat \<Rightarrow> nat \<Rightarrow> 'p \<Rightarrow> addr \<Rightarrow> bool" where
  "open_at s fid i p a \<longleftrightarrow> i < 511 \<and> i < length (file_descriptors s) \<and>
     file_descriptors s ! i = Some \<lparr>file_addr = a, index = int i + 1, file_fs = fid, private_data = p, file_disk = Some 0\<rparr>"

lemma open_at_get:
  "open_at s fid i p a \<Longrightarrow> file_get_descriptor s (int i + 1) =
    Some (Some \<lparr>file_addr = a, index = int i + 1, file_fs = fid, private_data = p, file_disk = Some 0\<rparr>)"
  by (simp add: open_at_def file_get_descriptor_def status_simps rd_nat)

lemma open_at_cong: "file_descriptors s' = file_descriptors s \<Longrightarrow> open_at s' fid i p a = open_at s fid i p a"
  by (simp add: open_at_def)

context file_system
begin

lemma fstat_open:
  assumes "F fid = fs" "open_at s fid i p a" "handle (volume s) p c"
  shows "\<exists>fl. fstat F s (int i + 1) st = Some (0, \<lparr>stat_flags = fl, stat_size = word_of_nat (length c)\<rparr>)"
  using open_at_get [OF assms(2)] stat_law [OF assms(3)] assms(1) by (simp add: fstat_def)

lemma fread_open:
  assumes "F fid = fs" "open_at s fid i p a" "handle (volume s) p c"
    and n: "0 < sz" "sz < 2147483648" "0 < n" "n < 2147483648" "unat n * unat sz \<le> length c"
  shows "\<exists>s'. fread F s ptr sz n (int i + 1) = Some (int (unat n), s') \<and>
    ram s' = store_bytes (ram s) ptr (take (unat n * unat sz) c) \<and> kernel_heap s' = kernel_heap s \<and>
    file_descriptors s' = file_descriptors s \<and> handle (volume s') p c \<and> outer s' = outer s \<and>
    (\<forall>path c'. is_file (volume s) path c' \<longrightarrow> is_file (volume s') path c')"
proof -
  obtain s2 where r: "read_fs fs s p sz n = Some (int (unat n), take (unat n * unat sz) c, s2)"
      "kernel_heap s2 = kernel_heap s" "ram s2 = ram s" "file_descriptors s2 = file_descriptors s"
      "outer s2 = outer s" "\<forall>q c'. handle (volume s) q c' \<longrightarrow> handle (volume s2) q c'"
      "\<forall>path c'. is_file (volume s) path c' \<longrightarrow> is_file (volume s2) path c'"
    using read_law [OF assms(3) n(1,2,4,5)] by blast
  let ?s2 = "s2\<lparr>ram := store_bytes (ram s2) ptr (take (unat n * unat sz) c)\<rparr>"
  have "\<not> (sz = 0 \<or> n = 0)" using n(1,3) by auto
  then have "fread F s ptr sz n (int i + 1) = Some (int (unat n), ?s2)"
    using open_at_get [OF assms(2)] r(1) unfolding fread_def assms(1) [symmetric] by simp
  then show ?thesis using r(2-7) assms(3) by (intro exI [of _ ?s2]) simp
qed

lemma fclose_open:
  assumes "F fid = fs" "open_at s fid i p a" "handle (volume s) p c" "k_inv s"
    and own: "distinct (owns p @ [a])" "set (owns p @ [a]) \<subseteq> dom (k_live s)"
  shows "\<exists>s'. fclose F s (int i + 1) = Some (0, s') \<and> k_inv s' \<and>
    k_live s' = k_live s |` (- set (owns p @ [a])) \<and> file_descriptors s' = (file_descriptors s)[i := None] \<and>
    ram s' = ram s \<and> pool s' = pool s \<and> outer s' = outer s \<and> volume s' = volume s"
proof -
  obtain s1 where c: "close_fs fs s p = Some (0, s1)" "k_inv s1" "k_live s1 = k_live s |` (- set (owns p))"
      "file_descriptors s1 = file_descriptors s" "outer s1 = outer s" "ram s1 = ram s" "pool s1 = pool s"
      "volume s1 = volume s"
    using close_law [OF assms(4,3)] own by auto
  let ?s1 = "s1\<lparr>file_descriptors := (file_descriptors s)[i := None]\<rparr>"
  have eq: "k_live ?s1 = k_live s1" "k_inv ?s1" "pool ?s1 = pool s1"
    using c(2) by (simp_all add: k_live_def k_inv_def pool_def)
  obtain n where n: "k_live ?s1 a = Some n" using own by (auto simp: eq c(3) restrict_map_def)
  obtain s2 where k: "kfree ?s1 a = Some s2" "k_inv s2" "k_live s2 = (k_live ?s1)(a := None)"
    using kz.release_live [OF eq(2) n] by blast
  note m = fstate_more [OF conjunct1 [OF kfree_more [OF k(1)]]] outer_kframe [OF conjunct1 [OF kfree_more [OF k(1)]]]
  have "wr (file_descriptors s1) (int i + 1 - 1) None = Some ((file_descriptors s)[i := None])"
    using assms(2) c(4) by (simp add: open_at_def wr_nat)
  then have "fclose F s (int i + 1) = Some (0, s2)"
    using open_at_get [OF assms(2)] c(1) k(1) assms(1) by (simp add: fclose_def status_simps file_free_descriptor_def)
  moreover have "k_live s2 = k_live s |` (- set (owns p @ [a]))"
    by (auto simp: k(3) eq(1) c(3) restrict_map_def)
  ultimately show ?thesis
    using k(2) m(1,2,4,5) kfree_more [OF k(1)] c(5-8) eq(3) by (intro exI [of _ s2]) simp
qed

text \<open>A file is opened, read and closed; the nodes of the parsed path are what is left.\<close>

lemma file_io:
  assumes "F fid = fs" "disk_filesystem s = Some fid" "k_inv s"
    and path: "terminated path" "length (cstr path) \<le> 108" "valid_path (cstr path)" "tonum (cstr path ! 0) = 0"
    and f: "is_file (volume s) (components (drop 3 (cstr path))) c" "components (drop 3 (cstr path)) \<noteq> []"
    and room: "2 * length (components (drop 3 (cstr path))) + 2 + cost \<le> free_blocks s"
    and slot: "free_slot (file_descriptors s) 0 = Some i" "i < 511"
    and n: "0 < sz" "sz < 2147483648" "0 < n" "n < 2147483648" "unat n * unat sz \<le> length c"
  shows "\<exists>s1 s2 s3 ns. fopen F s path (0x72 # 0 # xs) = Some (int i + 1, s1) \<and>
    fread F s1 ptr sz n (int i + 1) = Some (int (unat n), s2) \<and>
    ram s2 = store_bytes (ram s1) ptr (take (unat n * unat sz) c) \<and>
    fclose F s2 (int i + 1) = Some (0, s3) \<and> file_descriptors s3 = file_descriptors s \<and>
    grown k_live k_inv s ns s3 \<and> length ns = 1 + 2 * length (components (drop 3 (cstr path)))"
proof -
  obtain p a ns s1 where o: "fopen F s path (0x72 # 0 # xs) = Some (int i + 1, s1)" "handle (volume s1) p c"
      "file_descriptors s1 = (file_descriptors s)[i := Some \<lparr>file_addr = a, index = int i + 1, file_fs = fid,
         private_data = p, file_disk = Some 0\<rparr>]"
      "kgrown s (ns @ owns p @ [a]) s1" "length ns = 1 + 2 * length (components (drop 3 (cstr path)))"
    by (rule fopen_file [where F = F and fid = fid and xs = xs, OF assms(1-3) path f room slot(1)]) (rule that)
  have i: "i < length (file_descriptors s)" "file_descriptors s ! i = None"
    using slot(1) by (simp_all add: free_slot_0)
  have oa: "open_at s1 fid i p a" using o(3) i(1) slot(2) by (simp add: open_at_def)
  obtain s2 where r: "fread F s1 ptr sz n (int i + 1) = Some (int (unat n), s2)"
      "ram s2 = store_bytes (ram s1) ptr (take (unat n * unat sz) c)" "kernel_heap s2 = kernel_heap s1"
      "file_descriptors s2 = file_descriptors s1" "handle (volume s2) p c"
    using fread_open [where F = F and fid = fid, OF assms(1) oa o(2) n] by blast
  have oa2: "open_at s2 fid i p a" using oa open_at_cong [OF r(4)] by simp
  have k2: "k_inv s2" "k_live s2 = k_live s1" using kgrownD(1) [OF o(4)] r(3) by (simp_all add: k_inv_def k_live_def)
  have live1: "k_live s1 x = (if x \<in> set (ns @ owns p @ [a]) then Some 1 else k_live s x)" for x
    by (rule kgrownD(4) [OF o(4)])
  have dist: "distinct (ns @ owns p @ [a])" by (rule kgrownD(2) [OF o(4)])
  have own: "distinct (owns p @ [a])" "set (owns p @ [a]) \<subseteq> dom (k_live s2)"
    using dist by (auto simp: k2(2) live1 dom_def)
  obtain s3 where c: "fclose F s2 (int i + 1) = Some (0, s3)" "k_inv s3"
      "k_live s3 = k_live s2 |` (- set (owns p @ [a]))" "file_descriptors s3 = (file_descriptors s2)[i := None]"
    using fclose_open [where F = F and fid = fid, OF assms(1) oa2 r(5) k2(1) own] by blast
  have "file_descriptors s3 = file_descriptors s"
    using c(4) r(4) o(3) list_update_id [of "file_descriptors s" i] i(2) by simp
  moreover have "grown k_live k_inv s ns s3"
    using c(2) dist kgrownD(3) [OF o(4)] by (auto simp: grown_def c(3) k2(2) live1 restrict_map_def fun_eq_iff)
  ultimately show ?thesis
    using o(1,5) r(1,2) c(1) by (intro exI [of _ s1] exI [of _ s2] exI [of _ s3] exI [of _ ns]) simp
qed

end

subsection \<open>FAT16 keeps the contract\<close>

definition fat_file :: "device \<Rightarrow> disk \<times> nat option \<times> fat_private option \<Rightarrow> byte list list \<Rightarrow> byte list \<Rightarrow> bool" where
  "fat_file dev v path c \<longleftrightarrow>
     (case v of (d, _, priv) \<Rightarrow>
        \<exists>fp t k cl. priv = Some fp \<and> path = [t] \<and> sectors_512 dev \<and> dir_ok (root_dir fp) \<and>
          only_entry (root_dir fp) (t @ [0]) k \<and> \<not> is_subdirectory (entry_at (root_dir fp) k) \<and>
          fat16_get_first_cluster (entry_at (root_dir fp) k) = int cl \<and> cluster_ok d fp cl \<and>
          unat (file_size (entry_at (root_dir fp) k)) \<le> cluster_bytes fp \<and>
          c = disk_bytes dev (data_pos fp cl) (unat (file_size (entry_at (root_dir fp) k))))"

definition fat_handle :: "device \<Rightarrow> disk \<times> nat option \<times> fat_private option \<Rightarrow> fat_file_descriptor \<Rightarrow> byte list \<Rightarrow> bool" where
  "fat_handle dev v desc c \<longleftrightarrow>
     (case v of (d, _, priv) \<Rightarrow>
        \<exists>fp r it cl. priv = Some fp \<and> sectors_512 dev \<and> body (desc_item desc) = File_item r it \<and> desc_pos desc = 0 \<and>
          fat16_get_first_cluster it = int cl \<and> cluster_ok d fp cl \<and>
          unat (file_size it) \<le> cluster_bytes fp \<and> c = disk_bytes dev (data_pos fp cl) (unat (file_size it)))"

definition fat_owns :: "fat_file_descriptor \<Rightarrow> addr list" where
  "fat_owns desc = [desc_addr desc, item_addr (desc_item desc),
     (case body (desc_item desc) of File_item r _ \<Rightarrow> r | _ \<Rightarrow> 0)]"

lemma name_matches_cstr: "name_matches (t @ [0]) it \<longleftrightarrow> name_matches name it" if "t = cstr name"
  using that zero_notin_cstr [of name] by (simp add: name_matches_def)

lemma only_entry_cstr: "only_entry dir (cstr name @ [0]) k \<longleftrightarrow> only_entry dir name k"
  by (simp add: only_entry_def name_matches_cstr [OF refl])

lemma take_disk_bytes: "m \<le> n \<Longrightarrow> take m (disk_bytes dev p n) = disk_bytes dev p m"
  using take_drop_disk_bytes [of 0 m n dev p] by simp

lemma cluster_bytes_simp [simp]: "cluster_bytes (fp\<lparr>cluster_read_stream := st\<rparr>) = cluster_bytes fp"
  by (simp add: cluster_bytes_def)

lemma data_pos_simp [simp]: "data_pos (fp\<lparr>cluster_read_stream := st\<rparr>) c = data_pos fp c"
  by (simp add: data_pos_def)

lemma release_all_ram: "release_all kfree s ps = Some s' \<Longrightarrow> ram s' = ram s"
  by (induction ps arbitrary: s) (auto split: bind_splits dest: kfree_more)

interpretation fat: file_system "fat16_fs dev" "fat_file dev" "fat_handle dev" fat_owns 3 for dev
proof
  fix s :: "(fat_file_descriptor, 'z) fstate_scheme" and path c
  assume k: "k_inv s" "3 \<le> free_blocks s" and f: "fat_file dev (volume s) (map part_text path) c"
    and p: "\<forall>x \<in> set path. length (part_str x) = 108 \<and> terminated (part_str x)"
  obtain fp t e cl where v: "disk_private s = Some fp" "map part_text path = [t]" "sectors_512 dev"
      "dir_ok (root_dir fp)" "only_entry (root_dir fp) (t @ [0]) e" "\<not> is_subdirectory (entry_at (root_dir fp) e)"
      "fat16_get_first_cluster (entry_at (root_dir fp) e) = int cl" "cluster_ok (the_disk s) fp cl"
      "unat (file_size (entry_at (root_dir fp) e)) \<le> cluster_bytes fp"
      "c = disk_bytes dev (data_pos fp cl) (unat (file_size (entry_at (root_dir fp) e)))"
    using f by (auto simp: fat_file_def volume_def)
  obtain x where x: "path = [x]" "t = cstr (part_str x)" using v(2) by (auto simp: part_text_def)
  have n: "is_name (part_str x)" using p x length_cstr_less [of "part_str x"] by (simp add: is_name_def)
  have oe: "only_entry (root_dir fp) (part_str x) e" using v(5) x(2) only_entry_cstr by simp
  obtain a b r s' where o: "fat16_open dev (the_disk s) s fp [x] FILE_MODE_READ = Some (Inr \<lparr>desc_addr = a,
       desc_item = \<lparr>item_addr = b, body = File_item r (entry_at (root_dir fp) e)\<rparr>, desc_pos = 0\<rparr>, s', fp)"
      "kgrown s [a, b, r] s'" "free_blocks s' = free_blocks s - 3" "kframe s' = kframe s"
    by (rule fat16_open_file [OF k v(4) n oe v(6)]) (rule that)
  let ?p = "\<lparr>desc_addr = a, desc_item = \<lparr>item_addr = b, body = File_item r (entry_at (root_dir fp) e)\<rparr>, desc_pos = 0\<rparr>"
  note m = fstate_more [OF o(4)]
  have keep: "s'\<lparr>disk_private := Some fp\<rparr> = s'" using m(1) v(1) by (cases s') (simp add: volume_def)
  have "open_fs (fat16_fs dev) s path FILE_MODE_READ = Some (Inr ?p, s')"
    using o(1) v(1) x(1) keep by (simp add: fat16_fs_def)
  moreover have "fat_handle dev (volume s') ?p c"
    using v(1,3,7-10) m(1) by (auto simp: fat_handle_def volume_def)
  moreover have "fat_owns ?p = [a, b, r]" by (simp add: fat_owns_def)
  moreover note outer_kframe [OF o(4)]
  ultimately show "\<exists>p s'. open_fs (fat16_fs dev) s path FILE_MODE_READ = Some (Inr p, s') \<and>
        fat_handle dev (volume s') p c \<and> kgrown s (fat_owns p) s' \<and>
        free_blocks s' = free_blocks s - 3 \<and> volume s' = volume s \<and> file_descriptors s' = file_descriptors s \<and> outer s' = outer s"
    using o(2,3) m(1,2) by (intro exI [of _ ?p] exI [of _ s']) simp
next
  fix s :: "(fat_file_descriptor, 'z) fstate_scheme" and p c and sz n :: u32
  assume h: "fat_handle dev (volume s) p c" and n: "0 < sz" "sz < 2147483648" "n < 2147483648" "unat n * unat sz \<le> length c"
  obtain fp r it cl where v: "disk_private s = Some fp" "sectors_512 dev" "body (desc_item p) = File_item r it"
      "desc_pos p = 0" "fat16_get_first_cluster it = int cl" "cluster_ok (the_disk s) fp cl"
      "unat (file_size it) \<le> cluster_bytes fp" "c = disk_bytes dev (data_pos fp cl) (unat (file_size it))"
    using h by (auto simp: fat_handle_def volume_def)
  have l: "0 + unat n * unat sz \<le> cluster_bytes fp" "unat n * unat sz \<le> unat (file_size it)"
    using n(4) v(7,8) by simp_all
  obtain st where st: "stream_disk st = Some 0" "fat16_read_loop (unat n) dev (the_disk s) fp it (int 0) sz =
      Some (0, disk_bytes dev (data_pos fp cl + 0) (unat n * unat sz), fp\<lparr>cluster_read_stream := Some st\<rparr>)"
    using read_loop_first [OF v(2,6,5) n(2) l(1) n(1)] by blast
  have "sint n = int (unat n)"
    using n(3) by (intro sint_small) (simp add: word_less_nat_alt)
  then have "read_fs (fat16_fs dev) s p sz n = Some (int (unat n), take (unat n * unat sz) c,
      s\<lparr>disk_private := Some (fp\<lparr>cluster_read_stream := Some st\<rparr>)\<rparr>)"
    using v(1,3,4,8) st(2) l(2) by (simp add: fat16_fs_def fat16_read_def take_disk_bytes)
  moreover have "fat_handle dev (volume (s\<lparr>disk_private := Some (fp\<lparr>cluster_read_stream := Some st\<rparr>)\<rparr>)) q c'"
    if "fat_handle dev (volume s) q c'" for q c'
    using that v(1) cluster_ok_moved(1) [OF _ st(1)] by (auto simp: fat_handle_def volume_def)
  moreover have "fat_file dev (volume (s\<lparr>disk_private := Some (fp\<lparr>cluster_read_stream := Some st\<rparr>)\<rparr>)) path c'"
    if "fat_file dev (volume s) path c'" for path c'
    using that v(1) cluster_ok_moved(1) [OF _ st(1)] by (fastforce simp: fat_file_def volume_def)
  ultimately show "\<exists>s'. read_fs (fat16_fs dev) s p sz n = Some (int (unat n), take (unat n * unat sz) c, s') \<and>
        kernel_heap s' = kernel_heap s \<and> ram s' = ram s \<and> file_descriptors s' = file_descriptors s \<and>
        outer s' = outer s \<and> (\<forall>q c'. fat_handle dev (volume s) q c' \<longrightarrow> fat_handle dev (volume s') q c') \<and>
        (\<forall>path c'. fat_file dev (volume s) path c' \<longrightarrow> fat_file dev (volume s') path c')"
    by auto
next
  fix s :: "(fat_file_descriptor, 'z) fstate_scheme" and p c
  assume "fat_handle dev (volume s) p c"
  then show "\<exists>fl. stat_fs (fat16_fs dev) s p st = Some (0, \<lparr>stat_flags = fl, stat_size = word_of_nat (length c)\<rparr>)"
    for st by (auto simp: fat_handle_def volume_def fat16_fs_def fat16_stat_def)
next
  fix s :: "(fat_file_descriptor, 'z) fstate_scheme" and p c
  assume a: "k_inv s" "fat_handle dev (volume s) p c" "distinct (fat_owns p)" "set (fat_owns p) \<subseteq> dom (k_live s)"
  obtain r it where b: "body (desc_item p) = File_item r it" using a(2) by (auto simp: fat_handle_def)
  let ?ps = "[r, item_addr (desc_item p), desc_addr p]"
  have ps: "distinct ?ps" "set ?ps \<subseteq> dom (k_live s)" "set ?ps = set (fat_owns p)"
    using a(3,4) b by (auto simp: fat_owns_def)
  obtain s' where s': "release_all kfree s ?ps = Some s'" "k_inv s'" "k_live s' = k_live s |` (- set ?ps)"
    using kz.release_all_live [OF a(1) ps(1,2)] by blast
  have "close_fs (fat16_fs dev) s p = Some (0, s')"
    using s'(1) b by (auto simp: fat16_fs_def fat16_close_def fat16_free_file_descriptor_def
        fat16_fat_item_free_def split: bind_splits)
  moreover note fstate_more [OF release_all_kfree_more [OF s'(1)]] outer_kframe [OF release_all_kfree_more [OF s'(1)]]
    release_all_ram [OF s'(1)]
  ultimately show "\<exists>s'. close_fs (fat16_fs dev) s p = Some (0, s') \<and> k_inv s' \<and>
      k_live s' = k_live s |` (- set (fat_owns p)) \<and> volume s' = volume s \<and> file_descriptors s' = file_descriptors s \<and>
      outer s' = outer s \<and> ram s' = ram s \<and> pool s' = pool s"
    using s'(2,3) ps(3) by metis
qed

end
