(* ===== verification/VfsOk.thy ===== *)
theory VfsOk
  imports VfsContract
begin

text \<open>
  The descriptor table in every reachable state, and files read through \<^verbatim>\<open>src/fs/file.c\<close>.
\<close>

subsection \<open>Reachable descriptor tables\<close>

lemma fat16_free_dir_more: "fat16_free_dir s d = Some s' \<Longrightarrow> kframe s' = kframe s"
  by (auto simp: fat16_free_dir_def split: dir_ptr.splits if_splits bind_splits dest!: kfree_more)

lemma fat16_item_free_more: "fat16_fat_item_free s it = Some s' \<Longrightarrow> kframe s' = kframe s"
  by (auto simp: fat16_fat_item_free_def split: fat_item_body.splits bind_splits dest!: kfree_more fat16_free_dir_more)

lemma fat16_load_more: "fat16_load_fat_dir dev d s fp it = Some (r, s', fp') \<Longrightarrow> kframe s' = kframe s"
  by (auto simp: fat16_load_fat_dir_def Let_def split: if_splits bind_splits dest!: kzalloc_more fat16_free_dir_more)

lemma fat16_new_item_more:
  "fat16_new_fat_item_for_dir_item dev d s fp it = Some (r, s', fp') \<Longrightarrow> kframe s' = kframe s"
  by (auto simp: fat16_new_fat_item_for_dir_item_def fat16_clone_dir_item_def
      split: if_splits bind_splits dest!: kzalloc_more fat16_load_more)

lemma find_item_more:
  "find_item_loop n i dev d s fp dir name tmp f = Some (r, s', fp') \<Longrightarrow> kframe s' = kframe s"
proof (induction n arbitrary: i s fp tmp f)
  case (Suc n)
  from Suc.prems show ?case
    by (auto split: if_splits bind_splits dest!: Suc.IH fat16_new_item_more)
qed simp

lemma walk_path_more: "walk_path dev d s fp cur ps = Some (r, s', fp') \<Longrightarrow> kframe s' = kframe s"
proof (induction ps arbitrary: s fp cur)
  case (Cons x ps)
  from Cons.prems show ?case
    by (auto simp: fat16_find_item_in_dir_def split: option.splits fat_item_body.splits dir_ptr.splits bind_splits
        dest!: Cons.IH find_item_more fat16_item_free_more)
qed simp

lemma fat16_open_more: "fat16_open dev d s fp ps m = Some (r, s', fp') \<Longrightarrow> kframe s' = kframe s"
  by (auto simp: fat16_open_def fat16_get_dir_entry_def fat16_find_item_in_dir_def
      split: if_splits bind_splits option.splits list.splits
      dest!: kzalloc_more kfree_more walk_path_more find_item_more)

lemma fat16_open_error: "fat16_open dev d s fp ps m = Some (Inl e, s', fp') \<Longrightarrow> e < 0"
  by (auto simp: fat16_open_def status_simps split: if_splits bind_splits option.splits)

lemma fat16_close_more: "fat16_close s desc = Some (r, s') \<Longrightarrow> kframe s' = kframe s"
  by (auto simp: fat16_close_def fat16_free_file_descriptor_def split: bind_splits dest!: kfree_more fat16_item_free_more)

lemma new_stream_more: "diskstreamer_new s i = Some (r, s') \<Longrightarrow> kframe s' = kframe s"
  by (auto simp: diskstreamer_new_def Let_def split: if_splits bind_splits dest!: kzalloc_more)

lemma fat16_root_more: "fat16_get_root_dir dev d s fp = Some (r, s', fp') \<Longrightarrow> kframe s' = kframe s"
  by (auto simp: fat16_get_root_dir_def Let_def split: if_splits bind_splits prod.splits dest!: kzalloc_more kfree_more)

lemma fat16_resolve_more: "fat16_resolve dev d s = Some (r, s', fp) \<Longrightarrow> kframe s' = kframe s"
  by (auto simp: fat16_resolve_def fat16_init_private_def diskstreamer_close_def Let_def
      split: if_splits bind_splits option.splits
      dest!: kzalloc_more kfree_more new_stream_more fat16_root_more)

lemma fat16_open_keeps:
  assumes "fat16_open dev d s fp ps m = Some (r, s', fp')"
  shows "file_descriptors s' = file_descriptors s \<and> (\<forall>e. r = Inl e \<longrightarrow> e < 0)"
  using fstate_more(2) [OF fat16_open_more [OF assms]] fat16_open_error assms by blast

lemma open_fs_descriptors:
  "open_fs (fat16_fs dev) s path m = Some (r, s') \<Longrightarrow>
    file_descriptors s' = file_descriptors s \<and> (\<forall>e. r = Inl e \<longrightarrow> e < 0)"
  by (auto simp: fat16_fs_def status_simps split: if_splits bind_splits
      dest!: fat16_open_keeps)

lemma close_fs_descriptors:
  "close_fs (fat16_fs dev) s p = Some (r, s') \<Longrightarrow> file_descriptors s' = file_descriptors s"
  by (auto simp: fat16_fs_def dest!: fat16_close_more [THEN fstate_more(2)])

lemma read_fs_descriptors:
  "read_fs (fat16_fs dev) s p sz n = Some (r, bs, s') \<Longrightarrow> file_descriptors s' = file_descriptors s"
  by (auto simp: fat16_fs_def split: bind_splits)

lemma resolve_fs_descriptors:
  "resolve_fs (fat16_fs dev) s = Some (r, s') \<Longrightarrow> file_descriptors s' = file_descriptors s"
  by (auto simp: fat16_fs_def split: bind_splits dest!: fat16_resolve_more [THEN fstate_more(2)])

lemma resolve_loop_descriptors:
  "resolve_loop (kernel_fs dev) s fss = Some (r, s') \<Longrightarrow> file_descriptors s' = file_descriptors s"
proof (induction fss arbitrary: s)
  case (Cons i fss)
  from Cons.prems show ?case
    by (cases i) (auto simp: kernel_fs_def split: bind_splits if_splits
        dest!: resolve_fs_descriptors Cons.IH [unfolded kernel_fs_def])
qed simp

lemma fd_invD:
  assumes "fd_inv s"
  shows "length (file_descriptors s) = 512" "file_descriptors s ! i = Some d \<Longrightarrow> i < 512 \<Longrightarrow> index d = int i + 1"
  using assms by (auto simp: fd_inv_def status_simps)

lemma fd_inv_cong: "file_descriptors s' = file_descriptors s \<Longrightarrow> fd_inv s' = fd_inv s"
  by (simp add: fd_inv_def)

lemma fd_inv_update:
  assumes "fd_inv s" "file_descriptors s' = (file_descriptors s)[i := v]" "\<forall>d. v = Some d \<longrightarrow> index d = int i + 1"
  shows "fd_inv s'"
  unfolding fd_inv_def assms(2)
proof (intro conjI allI impI)
  fix j d assume j: "j < length ((file_descriptors s)[i := v])" and d: "(file_descriptors s)[i := v] ! j = Some d"
  show "index d = int j + 1"
  proof (cases "i = j")
    case True
    then show ?thesis using j d assms(3) by simp
  next
    case False
    then show ?thesis using j d assms(1) by (simp add: fd_inv_def)
  qed
qed (use assms(1) in \<open>simp add: fd_inv_def\<close>)

text \<open>A new descriptor in the first free slot, and nothing else.\<close>

definition new_descriptor :: "('p, 'z) fstate_scheme \<Rightarrow> ('p, 'z) fstate_scheme \<Rightarrow> int \<Rightarrow> bool" where
  "new_descriptor s s' fd \<longleftrightarrow> (\<exists>i d. free_slot (file_descriptors s) 0 = Some i \<and> fd = int i + 1 \<and>
     index d = int i + 1 \<and> file_descriptors s' = (file_descriptors s)[i := Some d])"

lemma new_descriptor_cong: "file_descriptors t = file_descriptors s \<Longrightarrow> new_descriptor t s' fd = new_descriptor s s' fd"
  by (simp add: new_descriptor_def)

lemma file_new_descriptor_cases:
  assumes "file_new_descriptor s f p k = Some (res, s')"
  shows "(res < 0 \<and> s' = s) \<or> new_descriptor s s' res"
proof (cases "free_slot (file_descriptors s) 0")
  case None
  then show ?thesis using assms by (simp add: file_new_descriptor_def status_simps)
next
  case (Some i)
  note i = this
  show ?thesis
  proof (cases "kzalloc s 16")
    case None
    then show ?thesis using assms i by (simp add: file_new_descriptor_def)
  next
    case (Some as1)
    obtain a s1 where z: "kzalloc s 16 = Some (a, s1)" using Some by (cases as1) auto
    let ?d = "\<lparr>file_addr = a, index = int i + 1, file_fs = f, private_data = p, file_disk = k\<rparr>"
    have "s1\<lparr>file_descriptors := (file_descriptors s1)[i := Some ?d]\<rparr> = s' \<and> int i + 1 = res"
      using assms i z by (simp add: file_new_descriptor_def Let_def split: if_splits) auto
    moreover have "file_descriptors s1 = file_descriptors s" by (rule fstate_more(2) [OF kzalloc_more [OF z]])
    ultimately show ?thesis using i
      unfolding new_descriptor_def by (intro disjI2 exI [of _ i] exI [of _ ?d]) auto
  qed
qed

lemma fopen_fd_inv:
  assumes "fd_inv s" "fopen (kernel_fs dev) s path m = Some (fd, s')"
  shows "fd_inv s' \<and> 0 \<le> fd \<and>
    (0 < fd \<longrightarrow> (\<exists>d. file_descriptors s ! nat (fd - 1) = None \<and>
       file_descriptors s' = (file_descriptors s)[nat (fd - 1) := Some d] \<and> index d = fd))"
proof -
  obtain res where r: "fopen_res (kernel_fs dev) s path m = Some (res, s')" "fd = (if res < 0 then 0 else res)"
    using assms(2) by (auto simp: fopen_def split: bind_splits)
  have "(res \<le> 0 \<and> file_descriptors s' = file_descriptors s) \<or> new_descriptor s s' res"
  proof -
    obtain rp s1 where p: "pathparser_parse s path = Some (rp, s1)"
      using r(1) by (auto simp: fopen_res_def split: bind_splits)
    have "(res \<le> 0 \<and> file_descriptors s' = file_descriptors s1) \<or>
        (\<exists>s2 fs pd k. file_descriptors s2 = file_descriptors s1 \<and> file_new_descriptor s2 fs pd k = Some (res, s'))"
      using r(1) p by (auto simp: fopen_res_def kernel_fs_def status_simps
        split: bind_splits option.splits if_splits sum.splits dest!: open_fs_descriptors)
    then show ?thesis
      using fstate_more(2) [OF pathparser_parse_more [OF p]] file_new_descriptor_cases new_descriptor_cong
      by (metis less_imp_le)
  qed
  then show ?thesis
  proof
    assume "res \<le> 0 \<and> file_descriptors s' = file_descriptors s"
    then show ?thesis using assms(1) r(2) fd_inv_cong by auto
  next
    assume "new_descriptor s s' res"
    then obtain i d where i: "free_slot (file_descriptors s) 0 = Some i" "res = int i + 1" "index d = int i + 1"
        "file_descriptors s' = (file_descriptors s)[i := Some d]"
      unfolding new_descriptor_def by blast
    then show ?thesis using fd_inv_update [OF assms(1) i(4)] r(2) by (auto simp: free_slot_0)
  qed
qed

text \<open>The states that the kernel reaches from \<open>fs_init\<close> by the operations of \<open>file.c\<close>.\<close>

inductive file_reachable :: "device \<Rightarrow> (fat_file_descriptor, 'z) fstate_scheme \<Rightarrow> bool" for dev where
  init: "fs_init s = Some s' \<Longrightarrow> file_reachable dev s'"
| search: "file_reachable dev s \<Longrightarrow> disk_search_and_init (kernel_fs dev) s = Some s' \<Longrightarrow> file_reachable dev s'"
| fopen: "file_reachable dev s \<Longrightarrow> fopen (kernel_fs dev) s path m = Some (fd, s') \<Longrightarrow> file_reachable dev s'"
| fread: "file_reachable dev s \<Longrightarrow> fread (kernel_fs dev) s ptr sz n fd = Some (res, s') \<Longrightarrow> file_reachable dev s'"
| fseek: "file_reachable dev s \<Longrightarrow> fseek (kernel_fs dev) s fd off wh = Some (res, s') \<Longrightarrow> file_reachable dev s'"
| fclose: "file_reachable dev s \<Longrightarrow> fclose (kernel_fs dev) s fd = Some (res, s') \<Longrightarrow> file_reachable dev s'"

lemma get_descriptor_Some:
  assumes "file_get_descriptor s fd = Some (Some d)"
  shows "0 < fd \<and> fd < 512 \<and> nat (fd - 1) < length (file_descriptors s) \<and> file_descriptors s ! nat (fd - 1) = Some d"
  using assms by (auto simp: file_get_descriptor_def status_simps rd_def split: if_splits)

lemma fs_init_fd_inv: "fs_init s = Some s' \<Longrightarrow> fd_inv s'"
  by (auto simp: fs_init_def fs_load_def fs_static_load_def fs_insert_filesystem_def fs_get_free_filesystem_def
      fd_inv_def status_simps split: option.splits)

lemma search_descriptors:
  "disk_search_and_init (kernel_fs dev) s = Some s' \<Longrightarrow> file_descriptors s' = file_descriptors s"
  by (auto simp: disk_search_and_init_def fs_resolve_def Let_def split: bind_splits dest!: resolve_loop_descriptors)

lemma fread_descriptors:
  "fread (kernel_fs dev) s ptr sz n fd = Some (res, s') \<Longrightarrow> file_descriptors s' = file_descriptors s"
  by (auto simp: fread_def kernel_fs_def split: if_splits bind_splits option.splits dest!: read_fs_descriptors)

lemma fseek_descriptors:
  assumes "fseek (kernel_fs dev) s fd off wh = Some (res, s')"
  shows "file_descriptors s' = file_descriptors s \<or>
    (\<exists>d p. file_get_descriptor s fd = Some (Some d) \<and>
       file_descriptors s' = (file_descriptors s)[nat (fd - 1) := Some (d\<lparr>private_data := p\<rparr>)])"
  using assms by (auto simp: fseek_def wr_def split: bind_splits option.splits if_splits; blast)

lemma fclose_descriptors:
  assumes "fd_inv s" "fclose (kernel_fs dev) s fd = Some (res, s')"
  shows "if res = 0 then 0 < fd \<and> file_descriptors s' = (file_descriptors s)[nat (fd - 1) := None]
    else file_descriptors s' = file_descriptors s"
proof -
  obtain d where d: "file_get_descriptor s fd = Some d" using assms(2) by (auto simp: fclose_def split: bind_splits)
  show ?thesis
  proof (cases d)
    case None
    then show ?thesis using assms(2) d by (auto simp: fclose_def status_simps)
  next
    case (Some desc)
    note g = get_descriptor_Some [of s fd desc, OF d [unfolded Some]]
    have i: "index desc = fd" using fd_invD [OF assms(1)] g by auto
    obtain res1 s1 where c: "close_fs (fat16_fs dev) s (private_data desc) = Some (res1, s1)"
      using assms(2) d Some by (auto simp: fclose_def kernel_fs_def split: bind_splits)
    note k = close_fs_descriptors [OF c]
    show ?thesis
    proof (cases "res1 = 0")
      case False
      then show ?thesis using assms(2) d Some c k by (auto simp: fclose_def kernel_fs_def status_simps)
    next
      case True
      have "file_free_descriptor s1 desc = Some s'" "res = 0"
        using assms(2) d Some c True by (auto simp: fclose_def kernel_fs_def status_simps split: bind_splits)
      moreover have "file_descriptors s' = (file_descriptors s1)[nat (fd - 1) := None]"
        if "file_free_descriptor s1 desc = Some s'"
        using that i by (auto simp: file_free_descriptor_def wr_def split: bind_splits if_splits
            dest!: kfree_more [THEN conjunct1, THEN fstate_more(2)])
      ultimately show ?thesis using k g by simp
    qed
  qed
qed

lemma file_reachable_fd_inv: "file_reachable dev s \<Longrightarrow> fd_inv s"
proof (induction rule: file_reachable.induct)
  case (init s s')
  then show ?case by (rule fs_init_fd_inv)
next
  case (search s s')
  then show ?case using fd_inv_cong [OF search_descriptors] by blast
next
  case (fopen s path m fd s')
  then show ?case using fopen_fd_inv by blast
next
  case (fread s ptr sz n fd res s')
  then show ?case using fd_inv_cong [OF fread_descriptors] by blast
next
  case (fseek s fd off wh res s')
  show ?case
    using fseek_descriptors [OF fseek.hyps(2)]
  proof
    assume "file_descriptors s' = file_descriptors s"
    then show ?thesis using fd_inv_cong fseek.IH by blast
  next
    assume "\<exists>d p. file_get_descriptor s fd = Some (Some d) \<and>
       file_descriptors s' = (file_descriptors s)[nat (fd - 1) := Some (d\<lparr>private_data := p\<rparr>)]"
    then obtain d p where d: "file_get_descriptor s fd = Some (Some d)"
        "file_descriptors s' = (file_descriptors s)[nat (fd - 1) := Some (d\<lparr>private_data := p\<rparr>)]" by blast
    have "index d = int (nat (fd - 1)) + 1" using fd_invD [OF fseek.IH] get_descriptor_Some [OF d(1)] by auto
    then show ?thesis using fd_inv_update [OF fseek.IH d(2)] by simp
  qed
next
  case (fclose s fd res s')
  show ?case
    using fclose_descriptors [OF fclose.IH fclose.hyps(2)] fd_inv_update [OF fclose.IH, of s' _ None]
      fd_inv_cong [of s' s] fclose.IH by (auto split: if_splits)
qed

text \<open>
  C13. In every state that the kernel reaches with the operations of \<open>file.c\<close> from \<open>fs_init\<close> the
  descriptor table has 512 slots and each descriptor knows its own slot; hence closing a file frees
  exactly the slot of the number that was given, and opening one takes the slot of the number that is
  returned, which was free, and touches no other.
\<close>

theorem file_descriptors_ok:
  assumes "file_reachable dev s"
  shows "fd_inv s \<and>
    (\<forall>fd s'. fclose (kernel_fs dev) s fd = Some (0, s') \<longrightarrow>
       0 < fd \<and> file_descriptors s' = (file_descriptors s)[nat (fd - 1) := None]) \<and>
    (\<forall>path m fd s'. fopen (kernel_fs dev) s path m = Some (fd, s') \<and> 0 < fd \<longrightarrow>
       file_descriptors s ! nat (fd - 1) = None \<and>
       (\<exists>d. index d = fd \<and> file_descriptors s' = (file_descriptors s)[nat (fd - 1) := Some d]))"
proof -
  note i = file_reachable_fd_inv [OF assms]
  show ?thesis using i fclose_descriptors [OF i] fopen_fd_inv [OF i] by fastforce
qed

text \<open>
  C12. Reading a file through the system. The file lies in the root directory of a mounted disk, its entry is the only
  one of its name and among those that the lookup visits (not hidden behind deleted entries), its size is at most one
  cluster (64 KiB on the boot disk), the descriptor is not the last of the table, and enough blocks are free. Then
  \<open>fopen\<close> for reading returns the number of the first free descriptor, \<open>fread\<close> stores exactly the
  first bytes of the file at the pointer and returns the number of elements, and \<open>fclose\<close> succeeds and
  restores the descriptor table. What is left allocated are the nodes of the parsed path, which
  \<open>fopen\<close> never frees: one block and two more for each component.
\<close>

theorem file_io_ok:
  assumes "disk_filesystem s = Some i0" "k_inv s"
    "terminated path" "length (cstr path) \<le> 108" "valid_path (cstr path)" "tonum (cstr path ! 0) = 0"
    "fat_file dev (volume s) (components (drop 3 (cstr path))) c" "components (drop 3 (cstr path)) \<noteq> []"
    "2 * length (components (drop 3 (cstr path))) + 5 \<le> free_blocks s"
    "free_slot (file_descriptors s) 0 = Some i" "i < 511"
    "0 < sz" "sz < 2147483648" "0 < n" "n < 2147483648" "unat n * unat sz \<le> length c"
  shows "\<exists>s1 s2 s3 ns. fopen (kernel_fs dev) s path [0x72, 0] = Some (int i + 1, s1) \<and>
    fread (kernel_fs dev) s1 ptr sz n (int i + 1) = Some (int (unat n), s2) \<and>
    ram s2 = store_bytes (ram s1) ptr (take (unat n * unat sz) c) \<and>
    fclose (kernel_fs dev) s2 (int i + 1) = Some (0, s3) \<and> file_descriptors s3 = file_descriptors s \<and>
    grown k_live k_inv s ns s3 \<and> length ns = 1 + 2 * length (components (drop 3 (cstr path)))"
proof -
  have F: "kernel_fs dev i0 = fat16_fs dev" by (simp add: kernel_fs_def)
  have room: "2 * length (components (drop 3 (cstr path))) + 2 + 3 \<le> free_blocks s" using assms(9) by simp
  show ?thesis
    by (rule fat.file_io [where F = "kernel_fs dev" and xs = "[]", OF F assms(1-8) room assms(10-16)])
qed

text \<open>
  C37. The last descriptor can be opened but not used: when only the last slot is free, \<open>fopen\<close> of a file as in
  \<open>file_io_ok\<close> returns 512, one more than the other functions of \<^verbatim>\<open>file.c\<close> accept: \<open>fread\<close> (of at least one
  byte) refuses it with \<open>-EINVARG\<close>, \<open>fseek\<close> and \<open>fclose\<close> with \<open>-EIO\<close>, nothing changes, and the file stays open.
\<close>

theorem last_descriptor_unusable:
  assumes "disk_filesystem s = Some i0" "k_inv s"
    "terminated path" "length (cstr path) \<le> 108" "valid_path (cstr path)" "tonum (cstr path ! 0) = 0"
    "fat_file dev (volume s) (components (drop 3 (cstr path))) c" "components (drop 3 (cstr path)) \<noteq> []"
    "2 * length (components (drop 3 (cstr path))) + 5 \<le> free_blocks s"
    "free_slot (file_descriptors s) 0 = Some 511" "sz \<noteq> 0" "n \<noteq> 0"
  shows "\<exists>s'. fopen (kernel_fs dev) s path [0x72, 0] = Some (512, s') \<and>
    fread (kernel_fs dev) s' ptr sz n 512 = Some (- EINVARG, s') \<and>
    fseek (kernel_fs dev) s' 512 off wh = Some (- EIO, s') \<and>
    fclose (kernel_fs dev) s' 512 = Some (- EIO, s')"
proof -
  have F: "kernel_fs dev i0 = fat16_fs dev" by (simp add: kernel_fs_def)
  have room: "2 * length (components (drop 3 (cstr path))) + 2 + 3 \<le> free_blocks s" using assms(9) by simp
  obtain p a ns s' where "fopen (kernel_fs dev) s path (0x72 # 0 # []) = Some (int 511 + 1, s')"
    by (rule fat.fopen_file [where F = "kernel_fs dev" and xs = "[]", OF F assms(1-8) room assms(10)]) (rule that)
  then show ?thesis
    using assms(11,12) by (intro exI [of _ s']) (simp add: fread_def fseek_def fclose_def file_get_descriptor_def status_simps)
qed

subsection \<open>The file system on the boot disk\<close>

text \<open>
  The state in which a disk whose file \<open>blank.elf\<close> starts with the bytes \<open>d\<close> is mounted and \<open>k\<close>
  descriptors are in use.
\<close>

definition busy_descriptor :: "nat \<Rightarrow> fat_file_descriptor file_descriptor" where
  "busy_descriptor i = \<lparr>file_addr = 0, index = int i + 1, file_fs = 0,
     private_data = \<lparr>desc_addr = 0, desc_item = \<lparr>item_addr = 0, body = Null_item\<rparr>, desc_pos = 0\<rparr>, file_disk = Some 0\<rparr>"

definition mounted_state :: "byte list \<Rightarrow> nat \<Rightarrow> fat_file_descriptor fstate" where
  "mounted_state d k = tstate.extend fresh_tstate
     \<lparr>filesystems = Some 0 # replicate 11 None,
      file_descriptors = map (Some \<circ> busy_descriptor) [0..<k] @ replicate (512 - k) None,
      the_disk = boot_drive, disk_filesystem = Some 0,
      disk_private = Some (boot_private (benos_disk d [blank_elf]) 1)\<rparr>"

text \<open>The path \<open>0:/blank.elf\<close>.\<close>

definition blank_path :: "byte list" where
  "blank_path = [0x30, 0x3A, 0x2F, 0x62, 0x6C, 0x61, 0x6E, 0x6B, 0x2E, 0x65, 0x6C, 0x66, 0]"

lemma blank_path: "terminated blank_path" "length (cstr blank_path) \<le> 108" "valid_path (cstr blank_path)"
  "tonum (cstr blank_path ! 0) = 0"
  "components (drop 3 (cstr blank_path)) = [[0x62, 0x6C, 0x61, 0x6E, 0x6B, 0x2E, 0x65, 0x6C, 0x66]]"
  unfolding terminated_def valid_path_def by code_simp+

lemma mounted_state:
  "disk_filesystem (mounted_state d k) = Some 0" "k_inv (mounted_state d k)" "free_blocks (mounted_state d k) = 25600"
  "file_descriptors (mounted_state d k) = map (Some \<circ> busy_descriptor) [0..<k] @ replicate (512 - k) None"
  "k < 512 \<Longrightarrow> free_slot (file_descriptors (mounted_state d k)) 0 = Some k"
  "fat_file (benos_disk d [blank_elf]) (volume (mounted_state d k)) (components (drop 3 (cstr blank_path)))
     (disk_bytes (benos_disk d [blank_elf]) 432128 4096)"
proof -
  have h: "kernel_heap (mounted_state d k) = kernel_heap fresh_tstate"
    by (simp add: mounted_state_def tstate.defs fresh_tstate_def kmem.defs)
  show "k_inv (mounted_state d k)" "free_blocks (mounted_state d k) = 25600"
    using fresh_tstate(1,2) k_heap_cong [of "mounted_state d k" fresh_kmem] h
    by (simp_all add: k_inv_def free_blocks_def)
  show "disk_filesystem (mounted_state d k) = Some 0"
    "file_descriptors (mounted_state d k) = map (Some \<circ> busy_descriptor) [0..<k] @ replicate (512 - k) None"
    by (simp_all add: mounted_state_def tstate.defs)
  then show "free_slot (file_descriptors (mounted_state d k)) 0 = Some k" if "k < 512"
    using that by (auto simp: free_slot_0 nth_append)
  have oe: "only_entry (root_dir (boot_private (benos_disk d [blank_elf]) 1))
      ([0x62, 0x6C, 0x61, 0x6E, 0x6B, 0x2E, 0x65, 0x6C, 0x66] @ [0]) 0"
    using boot_root(2) only_entry_cstr [of _ "part_str blank_part" 0] unfolding part_names(3) by blast
  have sec: "sectors_512 (benos_disk d [blank_elf])" by (rule benos_disk) simp
  have dk: "the_disk (mounted_state d k) = boot_drive"
    "disk_private (mounted_state d k) = Some (boot_private (benos_disk d [blank_elf]) 1)"
    by (simp_all add: mounted_state_def tstate.defs)
  have db: "disk_bytes (benos_disk d [blank_elf]) 432128 4096 =
      disk_bytes (benos_disk d [blank_elf]) (data_pos (boot_private (benos_disk d [blank_elf]) 1) 3)
        (unat (file_size (entry_at (root_dir (boot_private (benos_disk d [blank_elf]) 1)) 0)))"
    by (simp only: boot_cluster(2) boot_root(4) blank_item(4)) simp
  have sz: "unat (file_size (entry_at (root_dir (boot_private (benos_disk d [blank_elf]) 1)) 0))
      \<le> cluster_bytes (boot_private (benos_disk d [blank_elf]) 1)"
    by (simp only: boot_cluster(3) boot_root(4) blank_item(4)) simp
  have it: "fat16_get_first_cluster (entry_at (root_dir (boot_private (benos_disk d [blank_elf]) 1)) 0) = int 3"
    "\<not> is_subdirectory (entry_at (root_dir (boot_private (benos_disk d [blank_elf]) 1)) 0)"
    using blank_item boot_root(4) by simp_all
  show "fat_file (benos_disk d [blank_elf]) (volume (mounted_state d k)) (components (drop 3 (cstr blank_path)))
     (disk_bytes (benos_disk d [blank_elf]) 432128 4096)"
    unfolding fat_file_def volume_def blank_path(5) prod.case dk
    by (intro exI conjI; (rule refl sec boot_root(1) oe it boot_cluster(1) sz db)?)
qed

theorem file_io_ok_witness:
  "\<exists>s1 s2 s3. fopen (kernel_fs (benos_disk [] [blank_elf])) (mounted_state [] 0) blank_path [0x72, 0] = Some (1, s1) \<and>
     fread (kernel_fs (benos_disk [] [blank_elf])) s1 0x400000 4 1 1 = Some (1, s2) \<and>
     ram s2 = store_bytes (ram s1) 0x400000 [76, 76, 76, 76] \<and>
     fclose (kernel_fs (benos_disk [] [blank_elf])) s2 1 = Some (0, s3) \<and>
     file_descriptors s3 = replicate 512 None"
proof -
  have d: "sectors_512 (benos_disk [] [blank_elf])" by (rule benos_disk) simp
  have "disk_bytes (benos_disk [] [blank_elf]) 432128 4 = take 4 (drop 0 (benos_disk [] [blank_elf] 844))"
    by (rule disk_bytes_at [OF d]) simp_all
  moreover have "replicate 4 (844 :: byte) = [76, 76, 76, 76]" by code_simp
  ultimately have b: "take 4 (disk_bytes (benos_disk [] [blank_elf]) 432128 4096) = [76, 76, 76, 76]"
    by (simp add: take_disk_bytes benos_disk_def)
  show ?thesis
    using file_io_ok [OF mounted_state(1,2) blank_path(1-4) mounted_state(6) _ _ mounted_state(5),
        of "[]" 0 4 1 "0x400000"] b
    by (simp add: mounted_state(3,4) blank_path(5)) blast
qed

theorem last_descriptor_unusable_witness:
  "\<exists>s'. fopen (kernel_fs (benos_disk [] [blank_elf])) (mounted_state [] 511) blank_path [0x72, 0] = Some (512, s') \<and>
     fclose (kernel_fs (benos_disk [] [blank_elf])) s' 512 = Some (-1, s')"
  using last_descriptor_unusable [OF mounted_state(1,2) blank_path(1-4) mounted_state(6) _ _ mounted_state(5), of "[]" 511 1 1]
  by (auto simp: mounted_state(3) blank_path(5) status_simps)

theorem file_descriptors_ok_witness:
  "\<exists>s. fs_init (mounted_state [] 3) = Some s \<and> fd_inv s \<and> file_descriptors s = replicate 512 None"
proof -
  obtain s where s: "fs_init (mounted_state [] 3) = Some s" "file_descriptors s = replicate 512 None"
  proof -
    have "free_slot (replicate BENOS_MAX_FILESYSTEMS (None :: nat option)) 0 = Some 0"
      by (simp add: free_slot_0 status_simps)
    then show ?thesis
      using that by (simp add: fs_init_def fs_load_def fs_static_load_def fs_insert_filesystem_def
          fs_get_free_filesystem_def BENOS_MAX_FILE_DESCRIPTORS_def)
  qed
  have "file_reachable numbered_disk s" by (rule file_reachable.init [OF s(1)])
  then show ?thesis using file_descriptors_ok s by blast
qed

end
