(* ===== verification/ElfLoader.thy ===== *)
theory ElfLoader
  imports VfsOk
begin

text \<open>
  The ELF loader: the format (\<^verbatim>\<open>src/loader/formats/elf.h\<close>, \<^verbatim>\<open>elf.c\<close>) and \<^verbatim>\<open>elfloader.c\<close>. The
  loaded bytes are read where they are in memory.
\<close>

subsection \<open>The format\<close>

definition PF_X :: u32 where "PF_X = 0x01"
definition PF_W :: u32 where "PF_W = 0x02"
definition PF_R :: u32 where "PF_R = 0x04"
definition PT_LOAD :: u32 where "PT_LOAD = 1"
definition ET_EXEC :: u16 where "ET_EXEC = 2"
definition EI_NIDENT :: nat where "EI_NIDENT = 16"
definition EI_CLASS :: nat where "EI_CLASS = 4"
definition EI_DATA :: nat where "EI_DATA = 5"
definition ELFCLASSNONE :: byte where "ELFCLASSNONE = 0"
definition ELFCLASS32 :: byte where "ELFCLASS32 = 1"
definition ELFDATANONE :: byte where "ELFDATANONE = 0"
definition ELFDATA2LSB :: byte where "ELFDATA2LSB = 1"

text \<open>
  The packed structures of \<^verbatim>\<open>elf.h\<close>. Offsets are declared as \<open>int32_t\<close>; they are only compared with
  0 and added to 32-bit addresses, where the sign makes no difference.
\<close>

record elf32_phdr =
  p_type :: u32
  p_offset :: u32
  p_vaddr :: addr
  p_paddr :: addr
  p_filesz :: u32
  p_memsz :: u32
  p_flags :: u32
  p_align :: u32

record elf32_shdr =
  sh_name :: u32
  sh_type :: u32
  sh_flags :: u32
  sh_addr :: addr
  sh_offset :: u32
  sh_size :: u32
  sh_link :: u32
  sh_info :: u32
  sh_addralign :: u32
  sh_entsize :: u32

record elf32_header =
  e_ident :: "byte list"
  e_type :: u16
  e_machine :: u16
  e_version :: u32
  e_entry :: addr
  e_phoff :: u32
  e_shoff :: u32
  e_flags :: u32
  e_ehsize :: u16
  e_phentsize :: u16
  e_phnum :: u16
  e_shentsize :: u16
  e_shnum :: u16
  e_shstrndx :: u16

text \<open>What a pointer to one of them denotes: the fields are read from memory, little endian.\<close>

definition ram_bytes :: "(addr \<Rightarrow> byte) \<Rightarrow> addr \<Rightarrow> nat \<Rightarrow> byte list" where
  "ram_bytes m p n = map (\<lambda>i. m (p + of_nat i)) [0..<n]"

definition load16 :: "(addr \<Rightarrow> byte) \<Rightarrow> addr \<Rightarrow> u16" where
  "load16 m a = ucast (m a) OR push_bit 8 (ucast (m (a + 1)))"

definition elf32_phdr_at :: "(addr \<Rightarrow> byte) \<Rightarrow> addr \<Rightarrow> elf32_phdr" where
  "elf32_phdr_at m p =
     \<lparr>p_type = load32 m p, p_offset = load32 m (p + 4), p_vaddr = load32 m (p + 8),
      p_paddr = load32 m (p + 12), p_filesz = load32 m (p + 16), p_memsz = load32 m (p + 20),
      p_flags = load32 m (p + 24), p_align = load32 m (p + 28)\<rparr>"

definition elf32_shdr_at :: "(addr \<Rightarrow> byte) \<Rightarrow> addr \<Rightarrow> elf32_shdr" where
  "elf32_shdr_at m p =
     \<lparr>sh_name = load32 m p, sh_type = load32 m (p + 4), sh_flags = load32 m (p + 8),
      sh_addr = load32 m (p + 12), sh_offset = load32 m (p + 16), sh_size = load32 m (p + 20),
      sh_link = load32 m (p + 24), sh_info = load32 m (p + 28), sh_addralign = load32 m (p + 32),
      sh_entsize = load32 m (p + 36)\<rparr>"

definition elf32_header_at :: "(addr \<Rightarrow> byte) \<Rightarrow> addr \<Rightarrow> elf32_header" where
  "elf32_header_at m p =
     \<lparr>e_ident = ram_bytes m p EI_NIDENT, e_type = load16 m (p + 16), e_machine = load16 m (p + 18),
      e_version = load32 m (p + 20), e_entry = load32 m (p + 24), e_phoff = load32 m (p + 28),
      e_shoff = load32 m (p + 32), e_flags = load32 m (p + 36), e_ehsize = load16 m (p + 40),
      e_phentsize = load16 m (p + 42), e_phnum = load16 m (p + 44), e_shentsize = load16 m (p + 46),
      e_shnum = load16 m (p + 48), e_shstrndx = load16 m (p + 50)\<rparr>"

definition elf_get_entry :: "(addr \<Rightarrow> byte) \<Rightarrow> addr \<Rightarrow> u32" where
  "elf_get_entry m hdr = e_entry (elf32_header_at m hdr)"

definition elf_get_entry_ptr :: "(addr \<Rightarrow> byte) \<Rightarrow> addr \<Rightarrow> addr" where
  "elf_get_entry_ptr m hdr = e_entry (elf32_header_at m hdr)"

subsection \<open>A loaded file\<close>

text \<open>The structures \<open>elf_file\<close> live in blocks of the kernel heap; \<open>elf_files\<close> holds their contents.\<close>

record elf_file =
  elf_fname :: "byte list"
  in_mem_size :: int
  elf_mem :: addr
  virt_base_address :: addr
  virt_end_address :: addr
  phys_base_address :: addr
  phys_end_address :: addr

record estate = "fat_file_descriptor fstate" +
  elf_files :: "addr \<rightharpoonup> elf_file"

definition sizeof_elf_file :: u32 where "sizeof_elf_file = 132"

definition zero_elf_file :: elf_file where
  "zero_elf_file = \<lparr>elf_fname = replicate BENOS_MAX_PATH 0, in_mem_size = 0, elf_mem = 0,
     virt_base_address = 0, virt_end_address = 0, phys_base_address = 0, phys_end_address = 0\<rparr>"

definition set_elf :: "'z estate_scheme \<Rightarrow> addr \<Rightarrow> elf_file \<Rightarrow> 'z estate_scheme" where
  "set_elf s p f = s\<lparr>elf_files := (elf_files s)(p \<mapsto> f)\<rparr>"

definition elf_signature :: "byte list" where "elf_signature = [0x7F, 0x45, 0x4C, 0x46]"

definition elf_valid_signature :: "(addr \<Rightarrow> byte) \<Rightarrow> addr \<Rightarrow> bool" where
  "elf_valid_signature m buf = (memcmp (ram_bytes m buf 4) elf_signature 4 = Some 0)"

definition elf_valid_class :: "elf32_header \<Rightarrow> bool" where
  "elf_valid_class h = (e_ident h ! EI_CLASS = ELFCLASSNONE \<or> e_ident h ! EI_CLASS = ELFCLASS32)"

definition elf_valid_encoding :: "elf32_header \<Rightarrow> bool" where
  "elf_valid_encoding h = (e_ident h ! EI_DATA = ELFDATANONE \<or> e_ident h ! EI_DATA = ELFDATA2LSB)"

definition elf_is_executable :: "elf32_header \<Rightarrow> bool" where
  "elf_is_executable h = (e_type h = ET_EXEC \<and> e_entry h \<ge> BENOS_PROGRAM_VIRTUAL_ADDRESS)"

definition elf_has_program_header :: "elf32_header \<Rightarrow> bool" where
  "elf_has_program_header h = (e_phoff h \<noteq> 0)"

definition elf_memory :: "elf_file \<Rightarrow> addr" where "elf_memory f = elf_mem f"

definition elf_header :: "elf_file \<Rightarrow> addr" where "elf_header f = elf_mem f"

definition elf_sheader :: "(addr \<Rightarrow> byte) \<Rightarrow> addr \<Rightarrow> addr" where
  "elf_sheader m hdr = hdr + e_shoff (elf32_header_at m hdr)"

definition elf_pheader :: "(addr \<Rightarrow> byte) \<Rightarrow> addr \<Rightarrow> addr" where
  "elf_pheader m hdr =
     (if e_phoff (elf32_header_at m hdr) = 0 then 0 else hdr + e_phoff (elf32_header_at m hdr))"

definition elf_program_header :: "(addr \<Rightarrow> byte) \<Rightarrow> addr \<Rightarrow> int \<Rightarrow> addr" where
  "elf_program_header m hdr i = elf_pheader m hdr + word_of_int (32 * i)"

definition elf_section :: "(addr \<Rightarrow> byte) \<Rightarrow> addr \<Rightarrow> int \<Rightarrow> addr" where
  "elf_section m hdr i = elf_sheader m hdr + word_of_int (40 * i)"

definition elf_phdr_phys_address :: "elf_file \<Rightarrow> elf32_phdr \<Rightarrow> addr" where
  "elf_phdr_phys_address f phdr = elf_memory f + p_offset phdr"

definition elf_str_table :: "(addr \<Rightarrow> byte) \<Rightarrow> addr \<Rightarrow> addr" where
  "elf_str_table m hdr =
     hdr + sh_offset (elf32_shdr_at m (elf_section m hdr (uint (e_shstrndx (elf32_header_at m hdr)))))"

definition elf_virtual_base :: "elf_file \<Rightarrow> addr" where "elf_virtual_base f = virt_base_address f"
definition elf_virtual_end :: "elf_file \<Rightarrow> addr" where "elf_virtual_end f = virt_end_address f"
definition elf_phys_base :: "elf_file \<Rightarrow> addr" where "elf_phys_base f = phys_base_address f"
definition elf_phys_end :: "elf_file \<Rightarrow> addr" where "elf_phys_end f = phys_end_address f"

definition elf_validate_loaded :: "(addr \<Rightarrow> byte) \<Rightarrow> addr \<Rightarrow> int" where
  "elf_validate_loaded m hdr =
     (let h = elf32_header_at m hdr
      in if elf_valid_signature m hdr \<and> elf_valid_class h \<and> elf_valid_encoding h \<and>
            elf_has_program_header h
         then BENOS_ALL_OK else - EINFORMAT)"

definition elf_process_phdr_pt_load :: "elf_file \<Rightarrow> elf32_phdr \<Rightarrow> int \<times> elf_file" where
  "elf_process_phdr_pt_load f phdr =
     (let f1 = (if virt_base_address f \<ge> p_vaddr phdr \<or> virt_base_address f = 0
                then f\<lparr>virt_base_address := p_vaddr phdr, phys_base_address := elf_memory f + p_offset phdr\<rparr>
                else f);
          end_virt_address = p_vaddr phdr + p_filesz phdr;
          f2 = (if virt_end_address f1 \<le> end_virt_address \<or> virt_end_address f1 = 0
                then f1\<lparr>virt_end_address := end_virt_address,
                        phys_end_address := elf_memory f1 + p_offset phdr + p_filesz phdr\<rparr>
                else f1)
      in (0, f2))"

definition elf_process_pheader :: "elf_file \<Rightarrow> elf32_phdr \<Rightarrow> int \<times> elf_file" where
  "elf_process_pheader f phdr =
     (if p_type phdr = PT_LOAD then elf_process_phdr_pt_load f phdr else (0, f))"

fun process_pheaders_loop :: "nat \<Rightarrow> int \<Rightarrow> int \<Rightarrow> (addr \<Rightarrow> byte) \<Rightarrow> addr \<Rightarrow> elf_file \<Rightarrow> int \<times> elf_file" where
  "process_pheaders_loop 0 i res m hdr f = (res, f)"
| "process_pheaders_loop (Suc n) i res m hdr f =
     (let (res, f') = elf_process_pheader f (elf32_phdr_at m (elf_program_header m hdr i))
      in if res < 0 then (res, f') else process_pheaders_loop n (i + 1) res m hdr f')"

definition elf_process_pheaders :: "(addr \<Rightarrow> byte) \<Rightarrow> elf_file \<Rightarrow> int \<times> elf_file" where
  "elf_process_pheaders m f =
     (let hdr = elf_header f
      in process_pheaders_loop (unat (e_phnum (elf32_header_at m hdr))) 0 0 m hdr f)"

definition elf_process_loaded :: "(addr \<Rightarrow> byte) \<Rightarrow> elf_file \<Rightarrow> int \<times> elf_file" where
  "elf_process_loaded m f =
     (let res = elf_validate_loaded m (elf_header f)
      in if res < 0 then (res, f) else elf_process_pheaders m f)"

text \<open>
  \<open>elf_load\<close> from \<open>fstat\<close> up to the label \<open>out\<close>, and the whole function: its second result is what it
  stores through \<open>file_out\<close>, if anything. A write through a null \<open>file\<close> or a null \<open>elf_mem\<close> is \<open>None\<close>. \<open>fstat\<close> fills the
  local \<open>stat\<close>, which is not read when it fails.
\<close>

definition elf_load_file ::
  "device \<Rightarrow> 'z estate_scheme \<Rightarrow> addr \<Rightarrow> int \<Rightarrow> (int \<times> 'z estate_scheme) option" where
  "elf_load_file dev s file_ptr fd =
     do {
       (res, stat) \<leftarrow> fstat (kernel_fs dev) s fd \<lparr>stat_flags = 0, stat_size = 0\<rparr>;
       if res < 0 then Some (res, s)
       else do {
         (mem, s1) \<leftarrow> kzalloc s (stat_size stat);
         f \<leftarrow> elf_files s1 file_ptr;
         let s2 = set_elf s1 file_ptr (f\<lparr>elf_mem := mem\<rparr>);
         (res, s3) \<leftarrow> (if mem = 0 \<and> stat_size stat \<noteq> 0 then None else fread (kernel_fs dev) s2 mem (stat_size stat) 1 fd);
         if res < 0 then Some (res, s3)
         else do {
           f \<leftarrow> elf_files s3 file_ptr;
           let (res, f') = elf_process_loaded (ram s3) f;
           Some (res, set_elf s3 file_ptr f') } } }"

definition elf_load ::
  "device \<Rightarrow> 'z estate_scheme \<Rightarrow> byte list \<Rightarrow> (int \<times> addr option \<times> 'z estate_scheme) option" where
  "elf_load dev s path =
     do {
       (file_ptr, s1) \<leftarrow> kzalloc s sizeof_elf_file;
       let s1 = (if file_ptr = 0 then s1 else set_elf s1 file_ptr zero_elf_file);
       (fd, s2) \<leftarrow> fopen (kernel_fs dev) s1 path [0x72, 0];
       (res, s3) \<leftarrow> (if fd \<le> 0 then Some (- EIO, s2) else elf_load_file dev s2 file_ptr fd);
       (_, s4) \<leftarrow> fclose (kernel_fs dev) s3 (if fd \<le> 0 then 0 else fd);
       Some (0, if res < 0 then None else Some file_ptr, s4) }"

definition elf_close :: "'z estate_scheme \<Rightarrow> addr \<Rightarrow> 'z estate_scheme option" where
  "elf_close s file_ptr =
     (if file_ptr = 0 then Some s
      else do {
        f \<leftarrow> elf_files s file_ptr;
        s1 \<leftarrow> kfree s (elf_mem f);
        s2 \<leftarrow> kfree s1 file_ptr;
        Some (s2\<lparr>elf_files := (elf_files s2)(file_ptr := None)\<rparr>) })"

end
