(* ===== verification/Process.thy ===== *)
theory Process
  imports ElfLoader Keyboard Terminal
begin

text \<open>
  Processes (\<^verbatim>\<open>src/task/process.c\<close>, \<^verbatim>\<open>process.h\<close>): their memory, arguments, program and
  address space, and their end.
\<close>

subsection \<open>Processes\<close>

definition PROCESS_FILETYPE_ELF :: byte where "PROCESS_FILETYPE_ELF = 0"
definition PROCESS_FILETYPE_BINARY :: byte where "PROCESS_FILETYPE_BINARY = 1"

record process_allocation =
  alloc_ptr :: addr
  alloc_size :: u32

record process_args =
  argc :: int
  argv :: addr

text \<open>\<open>proc_data\<close> is the union of \<open>ptr\<close> and \<open>elf\<close>.\<close>

record process =
  proc_id :: u16
  proc_filename :: "byte list"
  proc_task :: addr
  allocations :: "process_allocation list"
  filetype :: byte
  proc_data :: addr
  proc_stack :: addr
  proc_size :: u32
  keyboard :: keyboard_buffer
  args :: process_args

text \<open>
  The structures live in blocks of the kernel heap, whose contents \<open>processes\<close> holds; \<open>process_table\<close> is
  the array \<open>processes\<close> of \<^verbatim>\<open>process.c\<close>, and a null pointer is 0.
\<close>

record pstate = estate +
  processes :: "addr \<rightharpoonup> process"
  process_table :: "addr list"
  curr_process :: addr
  screen :: terminal

definition sizeof_process :: u32 where "sizeof_process = 9364"

definition zero_process :: process where
  "zero_process = \<lparr>proc_id = 0, proc_filename = replicate BENOS_MAX_PATH 0, proc_task = 0,
     allocations = replicate BENOS_MAX_PROGRAM_ALLOCATIONS \<lparr>alloc_ptr = 0, alloc_size = 0\<rparr>,
     filetype = 0, proc_data = 0, proc_stack = 0, proc_size = 0,
     keyboard = \<lparr>buffer = replicate BENOS_KEYBOARD_BUFFER_SIZE 0, tail = 0, head = 0\<rparr>,
     args = \<lparr>argc = 0, argv = 0\<rparr>\<rparr>"

definition set_process :: "'z pstate_scheme \<Rightarrow> addr \<Rightarrow> process \<Rightarrow> 'z pstate_scheme" where
  "set_process s proc p = s\<lparr>processes := (processes s)(proc \<mapsto> p)\<rparr>"

definition process_init :: "'z pstate_scheme \<Rightarrow> addr \<Rightarrow> 'z pstate_scheme" where
  "process_init s proc = set_process s proc zero_process"

definition process_current :: "'z pstate_scheme \<Rightarrow> addr" where
  "process_current s = curr_process s"

definition process_get :: "'z pstate_scheme \<Rightarrow> int \<Rightarrow> addr" where
  "process_get s process_id =
     (if process_id < 0 \<or> process_id \<ge> int BENOS_MAX_PROCESSES then 0
      else process_table s ! nat process_id)"

definition process_switch :: "'z pstate_scheme \<Rightarrow> addr \<Rightarrow> int \<times> 'z pstate_scheme" where
  "process_switch s proc = (0, s\<lparr>curr_process := proc\<rparr>)"

subsection \<open>Memory of a process\<close>

fun free_alloc_loop :: "process_allocation list \<Rightarrow> int \<Rightarrow> int" where
  "free_alloc_loop [] i = - ENOMEM"
| "free_alloc_loop (a # as) i = (if alloc_ptr a = 0 then i else free_alloc_loop as (i + 1))"

definition process_find_free_alloc_index :: "process \<Rightarrow> int" where
  "process_find_free_alloc_index p = free_alloc_loop (allocations p) 0"

definition process_malloc :: "'z pstate_scheme \<Rightarrow> addr \<Rightarrow> u32 \<Rightarrow> (addr \<times> 'z pstate_scheme) option" where
  "process_malloc s proc sz =
     do {
       (ptr, s1) \<leftarrow> kzalloc s sz;
       if ptr = 0 then Some (0, s1)
       else do {
         p \<leftarrow> processes s1 proc;
         let i = process_find_free_alloc_index p;
         if i < 0 then do { s2 \<leftarrow> kfree s1 ptr; Some (0, s2) }
         else do {
           t \<leftarrow> tasks s1 (proc_task p);
           let (res, s2) = paging_map_to s1 (page_directory t) ptr ptr (paging_align_address (ptr + sz))
                 (PAGING_IS_WRITABLE OR PAGING_IS_PRESENT OR PAGING_ACCESS_FROM_ALL);
           if res < 0 then do { s3 \<leftarrow> kfree s2 ptr; Some (0, s3) }
           else do {
             as \<leftarrow> wr (allocations p) i \<lparr>alloc_ptr = ptr, alloc_size = sz\<rparr>;
             Some (ptr, set_process s2 proc (p\<lparr>allocations := as\<rparr>)) } } } }"

fun is_pointer_loop :: "process_allocation list \<Rightarrow> addr \<Rightarrow> bool" where
  "is_pointer_loop [] ptr = False"
| "is_pointer_loop (a # as) ptr = (if alloc_ptr a = ptr then True else is_pointer_loop as ptr)"

definition process_is_process_pointer :: "process \<Rightarrow> addr \<Rightarrow> bool" where
  "process_is_process_pointer p ptr = is_pointer_loop (allocations p) ptr"

definition process_allocation_ujoin :: "process \<Rightarrow> addr \<Rightarrow> process" where
  "process_allocation_ujoin p ptr =
     p\<lparr>allocations := map (\<lambda>a. if alloc_ptr a = ptr then \<lparr>alloc_ptr = 0, alloc_size = 0\<rparr> else a) (allocations p)\<rparr>"

fun allocation_loop :: "process_allocation list \<Rightarrow> addr \<Rightarrow> process_allocation option" where
  "allocation_loop [] ptr = None"
| "allocation_loop (a # as) ptr = (if alloc_ptr a = ptr then Some a else allocation_loop as ptr)"

definition process_get_allocation_by_addr :: "process \<Rightarrow> addr \<Rightarrow> process_allocation option" where
  "process_get_allocation_by_addr p ptr = allocation_loop (allocations p) ptr"

definition process_free :: "'z pstate_scheme \<Rightarrow> addr \<Rightarrow> addr \<Rightarrow> 'z pstate_scheme option" where
  "process_free s proc ptr =
     do {
       p \<leftarrow> processes s proc;
       case process_get_allocation_by_addr p ptr of
         None \<Rightarrow> Some s
       | Some a \<Rightarrow> do {
           t \<leftarrow> tasks s (proc_task p);
           let (res, s1) = paging_map_to s (page_directory t) (alloc_ptr a) (alloc_ptr a)
                 (paging_align_address (alloc_ptr a + alloc_size a)) 0;
           if res < 0 then Some s1
           else kfree (set_process s1 proc (process_allocation_ujoin p ptr)) ptr } }"

fun terminate_allocations_loop :: "nat \<Rightarrow> int \<Rightarrow> 'z pstate_scheme \<Rightarrow> addr \<Rightarrow> 'z pstate_scheme option" where
  "terminate_allocations_loop 0 i s proc = Some s"
| "terminate_allocations_loop (Suc n) i s proc =
     do {
       p \<leftarrow> processes s proc;
       a \<leftarrow> rd (allocations p) i;
       s1 \<leftarrow> process_free s proc (alloc_ptr a);
       terminate_allocations_loop n (i + 1) s1 proc }"

definition process_terminate_allocations :: "'z pstate_scheme \<Rightarrow> addr \<Rightarrow> (int \<times> 'z pstate_scheme) option" where
  "process_terminate_allocations s proc =
     do { s1 \<leftarrow> terminate_allocations_loop BENOS_MAX_PROGRAM_ALLOCATIONS 0 s proc; Some (0, s1) }"

subsection \<open>The end of a process\<close>

definition process_free_binary_data :: "'z pstate_scheme \<Rightarrow> process \<Rightarrow> (int \<times> 'z pstate_scheme) option" where
  "process_free_binary_data s p = do { s1 \<leftarrow> kfree s (proc_data p); Some (0, s1) }"

definition process_free_elf_data :: "'z pstate_scheme \<Rightarrow> process \<Rightarrow> (int \<times> 'z pstate_scheme) option" where
  "process_free_elf_data s p = do { s1 \<leftarrow> elf_close s (proc_data p); Some (0, s1) }"

definition process_free_progran_data :: "'z pstate_scheme \<Rightarrow> process \<Rightarrow> (int \<times> 'z pstate_scheme) option" where
  "process_free_progran_data s p =
     (if filetype p = PROCESS_FILETYPE_BINARY then process_free_binary_data s p
      else if filetype p = PROCESS_FILETYPE_ELF then process_free_elf_data s p
      else Some (- EINVARG, s))"

fun switch_to_any_loop :: "addr list \<Rightarrow> addr option" where
  "switch_to_any_loop [] = None"
| "switch_to_any_loop (p # ps) = (if p \<noteq> 0 then Some p else switch_to_any_loop ps)"

definition process_switch_to_any :: "'z pstate_scheme \<Rightarrow> panic + 'z pstate_scheme" where
  "process_switch_to_any s =
     (case switch_to_any_loop (process_table s) of
        None \<Rightarrow> Inl (Panic ''No processes left to switch to'')
      | Some p \<Rightarrow> Inr (snd (process_switch s p)))"

definition process_unlink :: "'z pstate_scheme \<Rightarrow> addr \<Rightarrow> (panic + 'z pstate_scheme) option" where
  "process_unlink s proc =
     do {
       p \<leftarrow> processes s proc;
       tbl \<leftarrow> wr (process_table s) (uint (proc_id p)) 0;
       let s1 = s\<lparr>process_table := tbl\<rparr>;
       Some (if curr_process s1 = proc then process_switch_to_any s1 else Inr s1) }"

definition c_string :: "string \<Rightarrow> byte list" where
  "c_string str = map of_char str @ [0]"

definition kprint :: "'z pstate_scheme \<Rightarrow> byte list \<Rightarrow> 'z pstate_scheme option" where
  "kprint s str = do { t \<leftarrow> print (screen s) str; Some (s\<lparr>screen := t\<rparr>) }"

definition process_terminate :: "'z pstate_scheme \<Rightarrow> addr \<Rightarrow> (panic + int \<times> 'z pstate_scheme) option" where
  "process_terminate s proc =
     do {
       (res, s1) \<leftarrow> process_terminate_allocations s proc;
       if res < 0 then Some (Inr (res, s1))
       else do {
         p \<leftarrow> processes s1 proc;
         (res, s2) \<leftarrow> process_free_progran_data s1 p;
         if res < 0 then Some (Inr (res, s2))
         else do {
           s3 \<leftarrow> kfree s2 (proc_stack p);
           s4 \<leftarrow> task_free s3 (proc_task p);
           r \<leftarrow> process_unlink s4 proc;
           case r of
             Inl m \<Rightarrow> Some (Inl m)
           | Inr s5 \<Rightarrow> do { s6 \<leftarrow> kprint s5 (c_string ''Process was terminated''); Some (Inr (res, s6)) } } } }"

subsection \<open>Arguments\<close>

text \<open>
  A \<open>command_arg\<close> is 512 characters and the pointer to the next one; the list is read from memory under
  the kernel's page directory, which maps each address to itself.
\<close>

definition arg_next :: "(addr \<Rightarrow> byte) \<Rightarrow> addr \<Rightarrow> addr" where
  "arg_next m cur = load32 m (cur + 512)"

partial_function (option) count_args_loop :: "(addr \<Rightarrow> byte) \<Rightarrow> addr \<Rightarrow> int \<Rightarrow> int option" where
  "count_args_loop m cur res = (if cur = 0 then Some res else count_args_loop m (arg_next m cur) (res + 1))"

definition process_count_command_args :: "(addr \<Rightarrow> byte) \<Rightarrow> addr \<Rightarrow> int option" where
  "process_count_command_args m root = count_args_loop m root 0"

fun ram_strncpy_loop :: "nat \<Rightarrow> (addr \<Rightarrow> byte) \<Rightarrow> addr \<Rightarrow> addr \<Rightarrow> addr \<Rightarrow> byte" where
  "ram_strncpy_loop 0 m dst src = m(dst := 0)"
| "ram_strncpy_loop (Suc n) m dst src =
     (if m src = 0 then m(dst := 0) else ram_strncpy_loop n (m(dst := m src)) (dst + 1) (src + 1))"

text \<open>\<open>strncpy\<close> between two places in memory.\<close>

definition ram_strncpy :: "(addr \<Rightarrow> byte) \<Rightarrow> addr \<Rightarrow> addr \<Rightarrow> nat \<Rightarrow> addr \<Rightarrow> byte" where
  "ram_strncpy m dst src count = ram_strncpy_loop (count - 1) m dst src"

partial_function (option) inject_args_loop ::
  "'z pstate_scheme \<Rightarrow> addr \<Rightarrow> addr \<Rightarrow> u32 \<Rightarrow> addr \<Rightarrow> int \<Rightarrow> (int \<times> 'z pstate_scheme) option" where
  "inject_args_loop s proc av sz cur i =
     (if cur = 0 then Some (0, s)
      else do {
        (arg_str, s1) \<leftarrow> process_malloc s proc 512;
        if arg_str = 0 then Some (- ENOMEM, s1)
        else if uint sz < 4 * i + 4 then None
        else
          (let m = store32 (ram_strncpy (ram s1) arg_str cur 512) (av + word_of_int (4 * i)) arg_str
           in inject_args_loop (s1\<lparr>ram := m\<rparr>) proc av sz (arg_next m cur) (i + 1)) })"

definition process_inject_args :: "'z pstate_scheme \<Rightarrow> addr \<Rightarrow> addr \<Rightarrow> (int \<times> 'z pstate_scheme) option" where
  "process_inject_args s proc root =
     do {
       n \<leftarrow> process_count_command_args (ram s) root;
       if n = 0 then Some (- EIO, s)
       else do {
         (av, s1) \<leftarrow> process_malloc s proc (4 * word_of_int n);
         if av = 0 then Some (- ENOMEM, s1)
         else do {
           (res, s2) \<leftarrow> inject_args_loop s1 proc av (4 * word_of_int n) root 0;
           if res < 0 then Some (res, s2)
           else do {
             p \<leftarrow> processes s2 proc;
             Some (res, set_process s2 proc (p\<lparr>args := \<lparr>argc = n, argv = av\<rparr>\<rparr>)) } } } }"

definition process_get_args :: "process \<Rightarrow> int \<times> addr" where
  "process_get_args p = (argc (args p), argv (args p))"

subsection \<open>Loading a program\<close>

text \<open>The part of \<open>process_load_binary\<close> before the label \<open>out\<close>: the result and \<open>program_data_ptr\<close>.\<close>

definition load_binary_data ::
  "device \<Rightarrow> 'z pstate_scheme \<Rightarrow> addr \<Rightarrow> int \<Rightarrow> (int \<times> addr \<times> 'z pstate_scheme) option" where
  "load_binary_data dev s proc fd =
     do {
       (res, stat) \<leftarrow> fstat (kernel_fs dev) s fd \<lparr>stat_flags = 0, stat_size = 0\<rparr>;
       if res \<noteq> BENOS_ALL_OK then Some (res, 0, s)
       else do {
         (data, s1) \<leftarrow> kzalloc s (stat_size stat);
         if data = 0 then Some (- ENOMEM, 0, s1)
         else do {
           (n, s2) \<leftarrow> fread (kernel_fs dev) s1 data (stat_size stat) 1 fd;
           if n \<noteq> 1 then Some (- EIO, data, s2)
           else do {
             p \<leftarrow> processes s2 proc;
             Some (res, data, set_process s2 proc
               (p\<lparr>filetype := PROCESS_FILETYPE_BINARY, proc_data := data, proc_size := stat_size stat\<rparr>)) } } } }"

definition process_load_binary ::
  "device \<Rightarrow> 'z pstate_scheme \<Rightarrow> byte list \<Rightarrow> addr \<Rightarrow> (int \<times> 'z pstate_scheme) option" where
  "process_load_binary dev s path proc =
     do {
       (fd, s1) \<leftarrow> fopen (kernel_fs dev) s path [0x72, 0];
       (res, data, s2) \<leftarrow> (if fd = 0 then Some (- EIO, 0, s1) else load_binary_data dev s1 proc fd);
       s3 \<leftarrow> (if res < 0 \<and> data \<noteq> 0 then kfree s2 data else Some s2);
       (_, s4) \<leftarrow> fclose (kernel_fs dev) s3 fd;
       Some (res, s4) }"

definition process_load_elf ::
  "device \<Rightarrow> 'z pstate_scheme \<Rightarrow> byte list \<Rightarrow> addr \<Rightarrow> (int \<times> 'z pstate_scheme) option" where
  "process_load_elf dev s path proc =
     do {
       (res, file_out, s1) \<leftarrow> elf_load dev s path;
       if res < 0 then Some (res, s1)
       else do {
         p \<leftarrow> processes s1 proc;
         Some (res, set_process s1 proc
           (p\<lparr>filetype := PROCESS_FILETYPE_ELF, proc_data := (case file_out of None \<Rightarrow> 0 | Some f \<Rightarrow> f)\<rparr>)) } }"

definition process_load_data ::
  "device \<Rightarrow> 'z pstate_scheme \<Rightarrow> byte list \<Rightarrow> addr \<Rightarrow> (int \<times> 'z pstate_scheme) option" where
  "process_load_data dev s path proc =
     do {
       (res, s1) \<leftarrow> process_load_elf dev s path proc;
       if res = - EINFORMAT then process_load_binary dev s1 path proc else Some (res, s1) }"

subsection \<open>The address space of a process\<close>

definition process_map_binary :: "'z pstate_scheme \<Rightarrow> addr \<Rightarrow> (int \<times> 'z pstate_scheme) option" where
  "process_map_binary s proc =
     do {
       p \<leftarrow> processes s proc;
       t \<leftarrow> tasks s (proc_task p);
       let (_, s1) = paging_map_to s (page_directory t) BENOS_PROGRAM_VIRTUAL_ADDRESS (proc_data p)
             (paging_align_address (proc_data p + proc_size p))
             (PAGING_IS_PRESENT OR PAGING_ACCESS_FROM_ALL OR PAGING_IS_WRITABLE);
       Some (0, s1) }"

definition phdr_flags :: "elf32_phdr \<Rightarrow> u32" where
  "phdr_flags phdr =
     (let fl = PAGING_IS_PRESENT OR PAGING_ACCESS_FROM_ALL
      in if p_flags phdr AND PF_W \<noteq> 0 then fl OR PAGING_IS_WRITABLE else fl)"

function map_elf_loop ::
  "int \<Rightarrow> int \<Rightarrow> 'z pstate_scheme \<Rightarrow> addr \<Rightarrow> elf_file \<Rightarrow> addr \<Rightarrow> int \<times> 'z pstate_scheme" where
  "map_elf_loop i res s chunk f phdrs =
     (if i < uint (e_phnum (elf32_header_at (ram s) (elf_header f))) then
        (let phdr = elf32_phdr_at (ram s) (phdrs + word_of_int (32 * i));
             phys = elf_phdr_phys_address f phdr;
             (res, s1) = paging_map_to s chunk (paging_align_to_lower_page (p_vaddr phdr))
               (paging_align_to_lower_page phys) (paging_align_address (phys + p_memsz phdr)) (phdr_flags phdr)
         in if res < 0 then (res, s1) else map_elf_loop (i + 1) res s1 chunk f phdrs)
      else (res, s))"
  by pat_completeness auto

lemma phnum_bound: "uint (w :: u16) < 65536"
  using uint_lt2p [of w] by simp

termination map_elf_loop
  by (relation "measure (\<lambda>(i, res, s, chunk, f, phdrs). nat (65536 - i))")
    (simp_all add: less_le_trans [OF _ less_imp_le [OF phnum_bound]])

definition process_map_elf :: "'z pstate_scheme \<Rightarrow> addr \<Rightarrow> (int \<times> 'z pstate_scheme) option" where
  "process_map_elf s proc =
     do {
       p \<leftarrow> processes s proc;
       f \<leftarrow> elf_files s (proc_data p);
       t \<leftarrow> tasks s (proc_task p);
       Some (map_elf_loop 0 0 s (page_directory t) f (elf_pheader (ram s) (elf_header f))) }"

definition process_map_memory :: "'z pstate_scheme \<Rightarrow> addr \<Rightarrow> (panic + int \<times> 'z pstate_scheme) option" where
  "process_map_memory s proc =
     do {
       p \<leftarrow> processes s proc;
       if filetype p \<noteq> PROCESS_FILETYPE_ELF \<and> filetype p \<noteq> PROCESS_FILETYPE_BINARY
       then Some (Inl (Panic ''Unknown process filetype''))
       else do {
         (_, s1) \<leftarrow> (if filetype p = PROCESS_FILETYPE_ELF then process_map_elf s proc else process_map_binary s proc);
         (res, s2) \<leftarrow> process_map_binary s1 proc;
         if res < 0 then Some (Inr (res, s2))
         else do {
           p \<leftarrow> processes s2 proc;
           t \<leftarrow> tasks s2 (proc_task p);
           let (_, s3) = paging_map_to s2 (page_directory t) BENOS_PROGRAM_VIRTUAL_STACK_ADDRESS_END (proc_stack p)
                 (paging_align_address (proc_stack p + BENOS_USER_PROGRAM_STACK_SIZE))
                 (PAGING_IS_PRESENT OR PAGING_ACCESS_FROM_ALL OR PAGING_IS_WRITABLE);
           Some (Inr (res, s3)) } } }"

fun free_slot_loop :: "addr list \<Rightarrow> int \<Rightarrow> int" where
  "free_slot_loop [] i = - EISTKN"
| "free_slot_loop (p # ps) i = (if p = 0 then i else free_slot_loop ps (i + 1))"

definition process_get_free_slot :: "'z pstate_scheme \<Rightarrow> int" where
  "process_get_free_slot s = free_slot_loop (process_table s) 0"

subsection \<open>A new process\<close>

text \<open>
  What \<open>task_init\<close> reads from the process: the entry point of an ELF file. It is read here before the
  tables of the new address space are built, which only writes to blocks that were free.
\<close>

definition process_entry :: "'z pstate_scheme \<Rightarrow> process \<Rightarrow> u32 option option" where
  "process_entry s p =
     (if filetype p = PROCESS_FILETYPE_ELF
      then do { f \<leftarrow> elf_files s (proc_data p); Some (Some (e_entry (elf32_header_at (ram s) (elf_header f)))) }
      else Some None)"

text \<open>The label \<open>out\<close> with an error.\<close>

definition process_load_fail :: "'z pstate_scheme \<Rightarrow> addr \<Rightarrow> 'z pstate_scheme option" where
  "process_load_fail s proc =
     do {
       s1 \<leftarrow> (if proc \<noteq> 0
              then do { p \<leftarrow> processes s proc; if proc_task p \<noteq> 0 then task_free s (proc_task p) else Some s }
              else Some s);
       s2 \<leftarrow> kfree s1 proc;
       Some (s2\<lparr>processes := (processes s2)(proc := None)\<rparr>) }"

text \<open>
  The result is the code of the operation and what it stores through \<open>process\<close>, if anything. The
  parameter \<open>process\<close> is the address of a local variable of the caller, so the last line,
  \<open>process[process_slot] = _process\<close>, stores in that variable for slot 0 and outside of it for any other
  slot (\<open>None\<close>); the static table \<open>processes\<close> is not written. When the slot is taken the code
  reads \<open>_process\<close> without having set it (\<open>None\<close>).
\<close>

definition process_load_for_slot ::
  "device \<Rightarrow> 'z pstate_scheme \<Rightarrow> byte list \<Rightarrow> int \<Rightarrow> (panic + int \<times> addr option \<times> 'z pstate_scheme) option" where
  "process_load_for_slot dev s path process_slot =
     (if process_get s process_slot \<noteq> 0 then None
      else do {
        (proc, s1) \<leftarrow> kzalloc s sizeof_process;
        if proc = 0 then do { s2 \<leftarrow> process_load_fail s1 proc; Some (Inr (- ENOMEM, None, s2)) }
        else do {
          (res, s2) \<leftarrow> process_load_data dev (process_init s1 proc) path proc;
          if res < 0 then do { s3 \<leftarrow> process_load_fail s2 proc; Some (Inr (res, None, s3)) }
          else do {
            (stack, s3) \<leftarrow> kzalloc s2 BENOS_USER_PROGRAM_STACK_SIZE;
            if stack = 0 then do { s4 \<leftarrow> process_load_fail s3 proc; Some (Inr (- ENOMEM, None, s4)) }
            else do {
              p \<leftarrow> processes s3 proc;
              fn \<leftarrow> strncpy (proc_filename p) path (int BENOS_MAX_PATH);
              let p1 = p\<lparr>proc_filename := fn, proc_stack := stack, proc_id := word_of_int process_slot\<rparr>;
              let s4 = set_process s3 proc p1;
              entry \<leftarrow> process_entry s4 p1;
              (task, s5) \<leftarrow> task_new s4 proc entry;
              if task = 0 then Some (Inr (0, None, s5))
              else do {
                p \<leftarrow> processes s5 proc;
                r \<leftarrow> process_map_memory (set_process s5 proc (p\<lparr>proc_task := task\<rparr>)) proc;
                case r of
                  Inl m \<Rightarrow> Some (Inl m)
                | Inr (res, s6) \<Rightarrow>
                    if res < 0 then do { s7 \<leftarrow> process_load_fail s6 proc; Some (Inr (res, None, s7)) }
                    else if process_slot = 0 then Some (Inr (res, Some proc, s6))
                    else None } } } } })"

definition process_load ::
  "device \<Rightarrow> 'z pstate_scheme \<Rightarrow> byte list \<Rightarrow> (panic + int \<times> addr option \<times> 'z pstate_scheme) option" where
  "process_load dev s path =
     (let process_slot = process_get_free_slot s
      in if process_slot < 0 then Some (Inr (- EISTKN, None, s))
         else process_load_for_slot dev s path process_slot)"

text \<open>\<open>old\<close> is what the caller's variable holds before the call.\<close>

definition process_load_switch ::
  "device \<Rightarrow> 'z pstate_scheme \<Rightarrow> byte list \<Rightarrow> addr \<Rightarrow> (panic + int \<times> addr \<times> 'z pstate_scheme) option" where
  "process_load_switch dev s path old =
     do {
       r \<leftarrow> process_load dev s path;
       case r of
         Inl m \<Rightarrow> Some (Inl m)
       | Inr (res, new, s1) \<Rightarrow>
           (let proc = (case new of None \<Rightarrow> old | Some p \<Rightarrow> p)
            in Some (Inr (res, proc, if res = 0 then snd (process_switch s1 proc) else s1))) }"

end
