(* ===== verification/ClassicKeyboard.thy ===== *)
theory ClassicKeyboard
  imports Process Idt
begin

text \<open>
  The whole state of the kernel, the keyboard buffer of the current process
  (\<^verbatim>\<open>src/keyboard/keyboard.c\<close>) and the driver of the PS/2 keyboard (\<^verbatim>\<open>classic.c\<close>).
\<close>

subsection \<open>The state of the kernel\<close>

datatype interrupt_callback = Idt_handle_exception | Idt_clock | Classic_keyboard_handle_interrupt

text \<open>
  \<open>keyboards\<close> is the list of keyboards in \<open>next\<close> order, by name; \<open>caps_lock\<close> is the state of the
  keyboard \<open>classic\<close>; \<open>ports\<close> are the bytes written to I/O ports so far, newest last.
\<close>

record kstate = pstate +
  keyboards :: "byte list list"
  caps_lock :: int
  interrupt_callbacks :: "interrupt_callback option list"
  isr80h_commands :: "isr80h_command option list"
  ports :: "(nat \<times> byte) list"

definition outb :: "'z kstate_scheme \<Rightarrow> nat \<Rightarrow> byte \<Rightarrow> 'z kstate_scheme" where
  "outb s port val = s\<lparr>ports := ports s @ [(port, val)]\<rparr>"

subsection \<open>The keyboard buffer of the current process\<close>

definition kernel_keyboard_push :: "'z kstate_scheme \<Rightarrow> byte \<Rightarrow> 'z kstate_scheme option" where
  "kernel_keyboard_push s c =
     (if process_current s = 0 then Some s
      else do {
        p \<leftarrow> processes s (process_current s);
        kb \<leftarrow> keyboard_push (Some (keyboard p)) c;
        Some (set_process s (process_current s) (p\<lparr>keyboard := the kb\<rparr>)) })"

definition kernel_keyboard_pop :: "'z kstate_scheme \<Rightarrow> (byte \<times> 'z kstate_scheme) option" where
  "kernel_keyboard_pop s =
     (if current_task s = 0 then Some (0, s)
      else do {
        t \<leftarrow> tasks s (current_task s);
        p \<leftarrow> processes s (Task.task.process t);
        (c, kb) \<leftarrow> keyboard_pop (Some (keyboard p));
        Some (c, set_process s (Task.task.process t) (p\<lparr>keyboard := the kb\<rparr>)) })"

subsection \<open>The PS/2 keyboard\<close>

definition CLASSIC_KEYBOARD_CAPSLOCK :: byte where "CLASSIC_KEYBOARD_CAPSLOCK = 0x3A"
definition CLASSIC_KEYBOARD_KEY_RELEASED :: byte where "CLASSIC_KEYBOARD_KEY_RELEASED = 0x80"
definition KEYBOARD_CAPS_LOCK_ON :: int where "KEYBOARD_CAPS_LOCK_ON = 1"
definition KEYBOARD_CAPS_LOCK_OFF :: int where "KEYBOARD_CAPS_LOCK_OFF = 0"
definition PS2_PORT :: nat where "PS2_PORT = 0x64"
definition PS2_COMMAND_ENABLE_FIRST_PORT :: byte where "PS2_COMMAND_ENABLE_FIRST_PORT = 0xAE"
definition ISR_KEYBOARD_INTERRUPT :: int where "ISR_KEYBOARD_INTERRUPT = 0x21"

definition keyboard_scan_set_one :: "byte list" where
  "keyboard_scan_set_one =
    [0x00, 0x1B, 0x31, 0x32, 0x33, 0x34, 0x35, 0x36, 0x37, 0x38, 0x39, 0x30, 0x2D, 0x3D, 0x08, 0x09,
     0x51, 0x57, 0x45, 0x52, 0x54, 0x59, 0x55, 0x49, 0x4F, 0x50, 0x5B, 0x5D, 0x0D, 0x00, 0x41, 0x53,
     0x44, 0x46, 0x47, 0x48, 0x4A, 0x4B, 0x4C, 0x3B, 0x27, 0x60, 0x00, 0x5C, 0x5A, 0x58, 0x43, 0x56,
     0x42, 0x4E, 0x4D, 0x2C, 0x2E, 0x2F, 0x00, 0x2A, 0x00, 0x20, 0x00, 0x00, 0x00, 0x00, 0x00, 0x00,
     0x00, 0x00, 0x00, 0x00, 0x00, 0x37, 0x38, 0x39, 0x2D, 0x34, 0x35, 0x36, 0x2B, 0x31, 0x32, 0x33,
     0x30, 0x2E]"

definition keyboard_set_capslock :: "'z kstate_scheme \<Rightarrow> int \<Rightarrow> 'z kstate_scheme" where
  "keyboard_set_capslock s st = s\<lparr>caps_lock := st\<rparr>"

definition keyboard_get_capslock :: "'z kstate_scheme \<Rightarrow> int" where
  "keyboard_get_capslock s = caps_lock s"

definition classic_keyboard_init :: "'z kstate_scheme \<Rightarrow> (int \<times> 'z kstate_scheme) option" where
  "classic_keyboard_init s =
     do {
       (_, cs) \<leftarrow> idt_register_interrupt_callback (interrupt_callbacks s) ISR_KEYBOARD_INTERRUPT
          (Some Classic_keyboard_handle_interrupt);
       let s1 = keyboard_set_capslock (s\<lparr>interrupt_callbacks := cs\<rparr>) KEYBOARD_CAPS_LOCK_OFF;
       Some (0, outb s1 PS2_PORT PS2_COMMAND_ENABLE_FIRST_PORT) }"

text \<open>A keyboard: its name and its \<open>init\<close> function, if it has one.\<close>

record 's keyboard_driver =
  kname :: "byte list"
  kinit :: "('s \<Rightarrow> (int \<times> 's) option) option"

definition classic_keyboard :: "'z kstate_scheme keyboard_driver" where
  "classic_keyboard = \<lparr>kname = c_string ''classic'', kinit = Some classic_keyboard_init\<rparr>"

definition classic_init :: "'z kstate_scheme keyboard_driver" where
  "classic_init = classic_keyboard"

definition keyboard_insert ::
  "'z kstate_scheme \<Rightarrow> 'z kstate_scheme keyboard_driver \<Rightarrow> (int \<times> 'z kstate_scheme) option" where
  "keyboard_insert s k =
     (case kinit k of
        None \<Rightarrow> Some (- EINVARG, s)
      | Some f \<Rightarrow> f (s\<lparr>keyboards := keyboards s @ [kname k]\<rparr>))"

definition keyboard_init :: "'z kstate_scheme \<Rightarrow> 'z kstate_scheme option" where
  "keyboard_init s = do { (_, s1) \<leftarrow> keyboard_insert s classic_init; Some s1 }"

text \<open>\<open>char\<close> is signed; the table is read out of bounds at its length, 82 (\<open>None\<close>).\<close>

definition classic_keyboad_scancode_to_char :: "'z kstate_scheme \<Rightarrow> byte \<Rightarrow> byte option" where
  "classic_keyboad_scancode_to_char s scancode =
     (if uint scancode > int (length keyboard_scan_set_one) then Some 0
      else do {
        c \<leftarrow> rd keyboard_scan_set_one (uint scancode);
        Some (if keyboard_get_capslock s = KEYBOARD_CAPS_LOCK_OFF \<and> sint c \<ge> 65 \<and> sint c \<le> 90
              then c + 32 else c) })"

text \<open>\<open>scancode\<close> is the byte that the first \<open>insb\<close> reads from the controller; the second is ignored.\<close>

definition classic_keyboard_handle_interrupt :: "'z kstate_scheme \<Rightarrow> byte \<Rightarrow> 'z kstate_scheme option" where
  "classic_keyboard_handle_interrupt s scancode =
     (let s1 = kernel_page s
      in if scancode AND CLASSIC_KEYBOARD_KEY_RELEASED \<noteq> 0 then Some s1
         else do {
           let s2 = (if scancode = CLASSIC_KEYBOARD_CAPSLOCK
                     then keyboard_set_capslock s1
                       (if keyboard_get_capslock s1 = KEYBOARD_CAPS_LOCK_ON then KEYBOARD_CAPS_LOCK_OFF
                        else KEYBOARD_CAPS_LOCK_ON)
                     else s1);
           c \<leftarrow> classic_keyboad_scancode_to_char s2 scancode;
           s3 \<leftarrow> (if c \<noteq> 0 then kernel_keyboard_push s2 c else Some s2);
           task_page s3 })"

end
