(* ===== verification/Isr80h.thy ===== *)
theory Isr80h
  imports ClassicKeyboard
begin

text \<open>
  The system calls (\<^verbatim>\<open>src/isr80h/\<close>) and the handlers of \<^verbatim>\<open>src/idt/idt.c\<close> that dispatch them and
  the interrupts. \<open>buf\<close> is the address of the local array of the call on the kernel stack, \<open>eflags\<close> the
  flags that \<open>task_return\<close> finds, \<open>scancode\<close> the byte waiting in the keyboard controller. A user pointer
  that is null or unmapped where it is read is \<^term>\<open>None\<close>.
\<close>

subsection \<open>Where control goes\<close>

text \<open>
  How a system call or an interrupt ends: the kernel halts; \<open>task_return\<close> or \<open>task_next\<close> has sent the
  processor to a task, and the C function never returns; or the function returns with a value.
\<close>

datatype 's control = Halted panic | In_task 's | Returned u32 's

text \<open>\<open>task_current()->process\<close>\<close>

definition task_process :: "'z kstate_scheme \<Rightarrow> addr option" where
  "task_process s = do { t \<leftarrow> tasks s (current_task s); Some (Task.task.process t) }"

subsection \<open>The system calls\<close>

definition isr80h_command0_sum :: "'z kstate_scheme \<Rightarrow> 'z kstate_scheme control option" where
  "isr80h_command0_sum s =
     do {
       (v2, s1) \<leftarrow> task_get_stack_item s (current_task s) 1;
       (v1, s2) \<leftarrow> task_get_stack_item s1 (current_task s1) 0;
       Some (Returned (v1 + v2) s2) }"

definition isr80h_command1_print :: "'z kstate_scheme \<Rightarrow> addr \<Rightarrow> 'z kstate_scheme control option" where
  "isr80h_command1_print s buf =
     do {
       (msg, s1) \<leftarrow> task_get_stack_item s (current_task s) 0;
       (_, s2) \<leftarrow> copy_string_from_task s1 (current_task s1) msg buf 1024;
       s3 \<leftarrow> kprint s2 (ram_bytes (ram s2) buf 1024);
       Some (Returned 0 s3) }"

definition isr80h_command2_getkey :: "'z kstate_scheme \<Rightarrow> 'z kstate_scheme control option" where
  "isr80h_command2_getkey s = do { (c, s1) \<leftarrow> kernel_keyboard_pop s; Some (Returned (scast c) s1) }"

definition isr80h_command3_putchar :: "'z kstate_scheme \<Rightarrow> 'z kstate_scheme control option" where
  "isr80h_command3_putchar s =
     do {
       (v, s1) \<leftarrow> task_get_stack_item s (current_task s) 0;
       t \<leftarrow> ter_writechar (screen s1) (ucast v) 15;
       Some (Returned 0 (s1\<lparr>screen := t\<rparr>)) }"

definition isr80h_command4_malloc :: "'z kstate_scheme \<Rightarrow> 'z kstate_scheme control option" where
  "isr80h_command4_malloc s =
     do {
       (sz, s1) \<leftarrow> task_get_stack_item s (current_task s) 0;
       proc \<leftarrow> task_process s1;
       (ptr, s2) \<leftarrow> process_malloc s1 proc sz;
       Some (Returned ptr s2) }"

definition isr80h_command5_free :: "'z kstate_scheme \<Rightarrow> 'z kstate_scheme control option" where
  "isr80h_command5_free s =
     do {
       (ptr, s1) \<leftarrow> task_get_stack_item s (current_task s) 0;
       proc \<leftarrow> task_process s1;
       s2 \<leftarrow> process_free s1 proc ptr;
       Some (Returned 0 s2) }"

text \<open>Switching to a new process: \<open>task_switch\<close> and \<open>task_return\<close> with its saved registers.\<close>

definition enter_process :: "'z kstate_scheme \<Rightarrow> addr \<Rightarrow> u32 \<Rightarrow> 'z kstate_scheme control option" where
  "enter_process s proc eflags =
     do {
       p \<leftarrow> processes s proc;
       s1 \<leftarrow> task_switch s (proc_task p);
       t \<leftarrow> tasks s1 (proc_task p);
       Some (In_task (task_return s1 eflags (registers t))) }"

text \<open>\<open>"0:/"\<close> at the start of a buffer of 108 bytes.\<close>

definition drive_prefix :: "byte list" where
  "drive_prefix = [0x30, 0x3A, 0x2F]"

definition isr80h_command6_process_load_start ::
  "device \<Rightarrow> 'z kstate_scheme \<Rightarrow> addr \<Rightarrow> u32 \<Rightarrow> 'z kstate_scheme control option" where
  "isr80h_command6_process_load_start dev s fname_buf eflags =
     do {
       (ptr, s1) \<leftarrow> task_get_stack_item s (current_task s) 0;
       (res, s2) \<leftarrow> copy_string_from_task s1 (current_task s1) ptr fname_buf (int BENOS_MAX_PATH);
       if res < 0 then Some (Returned 0 s2)
       else do {
         path \<leftarrow> strcpy (replicate (BENOS_MAX_PATH - 3) 0) (ram_bytes (ram s2) fname_buf BENOS_MAX_PATH);
         r \<leftarrow> process_load_switch dev s2 (drive_prefix @ path) 0;
         case r of
           Inl m \<Rightarrow> Some (Halted m)
         | Inr (res, proc, s3) \<Rightarrow> if res < 0 then Some (Returned 0 s3) else enter_process s3 proc eflags } }"

definition isr80h_command7_invoke_system_command ::
  "device \<Rightarrow> 'z kstate_scheme \<Rightarrow> u32 \<Rightarrow> 'z kstate_scheme control option" where
  "isr80h_command7_invoke_system_command dev s eflags =
     do {
       (ptr, s1) \<leftarrow> task_get_stack_item s (current_task s) 0;
       command_args \<leftarrow> task_virt_addr_to_phys s1 (current_task s1) ptr;
       len \<leftarrow> (if command_args = 0 then Some 0 else strlen (ram_bytes (ram s1) command_args 512));
       if command_args = 0 \<or> len = 0 then Some (Returned (word_of_int (- EINVARG)) s1)
       else do {
         path \<leftarrow> strncpy (replicate (BENOS_MAX_PATH - 3) 0) (ram_bytes (ram s1) command_args 512) (int BENOS_MAX_PATH);
         r \<leftarrow> process_load_switch dev s1 (drive_prefix @ path) 0;
         case r of
           Inl m \<Rightarrow> Some (Halted m)
         | Inr (res, proc, s2) \<Rightarrow>
             if res < 0 then Some (Returned (word_of_int res) s2)
             else do {
               (_, s3) \<leftarrow> process_inject_args s2 proc command_args;
               enter_process s3 proc eflags } } }"

text \<open>
  The blocks of a process: its stack, its program and what it has allocated. The system call 8 writes through a
  pointer of the program, to the physical address where it leads, without a test. The model is defined as long as this is
  memory of the process; elsewhere the C code overwrites memory that belongs to others, the structures of the
  kernel among them, which the model does not keep as bytes.
\<close>

definition process_blocks :: "'z pstate_scheme \<Rightarrow> process \<Rightarrow> addr list" where
  "process_blocks s p = proc_stack p #
     (if filetype p = PROCESS_FILETYPE_ELF
      then (case elf_files s (proc_data p) of None \<Rightarrow> [] | Some f \<Rightarrow> [elf_mem f]) else [proc_data p]) @
     map alloc_ptr (allocations p)"

definition in_process_memory :: "'z pstate_scheme \<Rightarrow> process \<Rightarrow> addr \<Rightarrow> nat \<Rightarrow> bool" where
  "in_process_memory s p a n \<longleftrightarrow> list_ex (\<lambda>b. case k_live s b of None \<Rightarrow> False
     | Some k \<Rightarrow> unat (a - b) + n \<le> k * 4096) (process_blocks s p)"

definition isr80h_command8_get_program_arguments :: "'z kstate_scheme \<Rightarrow> 'z kstate_scheme control option" where
  "isr80h_command8_get_program_arguments s =
     do {
       proc \<leftarrow> task_process s;
       (ptr, s1) \<leftarrow> task_get_stack_item s (current_task s) 0;
       out \<leftarrow> task_virt_addr_to_phys s1 (current_task s1) ptr;
       p \<leftarrow> processes s1 proc;
       let (n, v) = process_get_args p;
       if in_process_memory s1 p out 8
       then Some (Returned 0 (s1\<lparr>ram := store32 (store32 (ram s1) out (word_of_int n)) (out + 4) v\<rparr>))
       else None }"

text \<open>\<open>process_terminate\<close> and \<open>task_next\<close>, which end a process on request and after an exception.\<close>

definition end_process :: "'z kstate_scheme \<Rightarrow> u32 \<Rightarrow> 'z kstate_scheme control option" where
  "end_process s eflags =
     do {
       proc \<leftarrow> task_process s;
       r \<leftarrow> process_terminate s proc;
       case r of
         Inl m \<Rightarrow> Some (Halted m)
       | Inr (_, s1) \<Rightarrow> do {
           n \<leftarrow> task_next s1 eflags;
           case n of Inl m \<Rightarrow> Some (Halted m) | Inr s2 \<Rightarrow> Some (In_task s2) } }"

definition isr80h_command9_exit :: "'z kstate_scheme \<Rightarrow> u32 \<Rightarrow> 'z kstate_scheme control option" where
  "isr80h_command9_exit s eflags = end_process s eflags"

definition run_command ::
  "device \<Rightarrow> addr \<Rightarrow> u32 \<Rightarrow> 'z kstate_scheme \<Rightarrow> isr80h_command \<Rightarrow> 'z kstate_scheme control option" where
  "run_command dev buf eflags s c =
     (case c of
        command0_sum \<Rightarrow> isr80h_command0_sum s
      | command1_print \<Rightarrow> isr80h_command1_print s buf
      | command2_getkey \<Rightarrow> isr80h_command2_getkey s
      | command3_putchar \<Rightarrow> isr80h_command3_putchar s
      | command4_malloc \<Rightarrow> isr80h_command4_malloc s
      | command5_free \<Rightarrow> isr80h_command5_free s
      | command6_process_load_start \<Rightarrow> isr80h_command6_process_load_start dev s buf eflags
      | command7_invoke_system_command \<Rightarrow> isr80h_command7_invoke_system_command dev s eflags
      | command8_get_program_arguments \<Rightarrow> isr80h_command8_get_program_arguments s
      | command9_exit \<Rightarrow> isr80h_command9_exit s eflags)"

subsection \<open>The handlers\<close>

definition isr80h_handle_command ::
  "device \<Rightarrow> addr \<Rightarrow> u32 \<Rightarrow> 'z kstate_scheme \<Rightarrow> int \<Rightarrow> 'z kstate_scheme control option" where
  "isr80h_handle_command dev buf eflags s command =
     do {
       c \<leftarrow> isr80h_find_command (isr80h_commands s) command;
       case c of
         None \<Rightarrow> Some (Returned 0 s)
       | Some command_func \<Rightarrow> run_command dev buf eflags s command_func }"

definition isr80h_handler ::
  "device \<Rightarrow> addr \<Rightarrow> u32 \<Rightarrow> 'z kstate_scheme \<Rightarrow> int \<Rightarrow> interrupt_frame \<Rightarrow> 'z kstate_scheme control option" where
  "isr80h_handler dev buf eflags s command frame =
     do {
       r \<leftarrow> task_current_save_state (kernel_page s) frame;
       case r of
         Inl m \<Rightarrow> Some (Halted m)
       | Inr s1 \<Rightarrow> do {
           res \<leftarrow> isr80h_handle_command dev buf eflags s1 command;
           case res of
             Returned v s2 \<Rightarrow> do { s3 \<leftarrow> task_page s2; Some (Returned v s3) }
           | other \<Rightarrow> Some other } }"

definition no_interrupt_handler :: "'z kstate_scheme \<Rightarrow> 'z kstate_scheme" where
  "no_interrupt_handler s = outb s 0x20 0x20"

definition idt_zero :: "'z kstate_scheme \<Rightarrow> 'z kstate_scheme option" where
  "idt_zero s = kprint s (0x0A # c_string ''Divide by zero error'')"

definition idt_handle_exception :: "'z kstate_scheme \<Rightarrow> u32 \<Rightarrow> 'z kstate_scheme control option" where
  "idt_handle_exception s eflags = end_process s eflags"

definition idt_clock :: "'z kstate_scheme \<Rightarrow> u32 \<Rightarrow> 'z kstate_scheme control option" where
  "idt_clock s eflags =
     do {
       n \<leftarrow> task_next (outb s 0x20 0x20) eflags;
       case n of Inl m \<Rightarrow> Some (Halted m) | Inr s1 \<Rightarrow> Some (In_task s1) }"

definition run_callback ::
  "u32 \<Rightarrow> byte \<Rightarrow> 'z kstate_scheme \<Rightarrow> interrupt_callback \<Rightarrow> 'z kstate_scheme control option" where
  "run_callback eflags scancode s c =
     (case c of
        Idt_handle_exception \<Rightarrow> idt_handle_exception s eflags
      | Idt_clock \<Rightarrow> idt_clock s eflags
      | Classic_keyboard_handle_interrupt \<Rightarrow> do { s1 \<leftarrow> classic_keyboard_handle_interrupt s scancode; Some (Returned 0 s1) })"

definition interrupt_handler ::
  "u32 \<Rightarrow> byte \<Rightarrow> 'z kstate_scheme \<Rightarrow> int \<Rightarrow> interrupt_frame \<Rightarrow> 'z kstate_scheme control option" where
  "interrupt_handler eflags scancode s interrupt frame =
     do {
       let s1 = kernel_page s;
       callback \<leftarrow> rd (interrupt_callbacks s1) interrupt;
       res \<leftarrow> (case callback of
           None \<Rightarrow> Some (Returned 0 s1)
         | Some c \<Rightarrow> do {
             r \<leftarrow> task_current_save_state s1 frame;
             case r of Inl m \<Rightarrow> Some (Halted m) | Inr s2 \<Rightarrow> run_callback eflags scancode s2 c });
       case res of
         Returned v s3 \<Rightarrow> do { s4 \<leftarrow> task_page s3; Some (Returned 0 (outb s4 0x20 0x20)) }
       | other \<Rightarrow> Some other }"

end
