(* ===== verification/Kernel.thy ===== *)
theory Kernel
  imports Isr80h Terminal Gdt
begin

text \<open>
  The start of the kernel (\<^verbatim>\<open>src/kernel.c\<close>): \<open>kernel_main\<close> with every initialisation in the order of the
  code. The state gains the tables that the processor is given; the addresses that the linker chooses and
  the bytes found in memory are arguments.
\<close>

subsection \<open>The state of the machine\<close>

text \<open>\<open>gdtr\<close> is the size and the address that \<open>gdt_load\<close> stores, \<open>tr\<close> the task register.\<close>

record bstate = kstate +
  gdt_real :: "byte list list"
  gdtr :: "u16 \<times> addr"
  idt_descriptors :: "idt_desc list"
  idtr :: idtr_desc
  tss_esp0 :: u32
  tss_ss0 :: u32
  tr :: u16
  paging_enabled :: bool

text \<open>
  What the linker and the boot code leave: the addresses of the tables and of the entry points, the bytes
  where the table of the heap is put, and the address of the local variable \<open>arg\<close>.
\<close>

record image =
  gdt_addr :: addr
  tss_addr :: addr
  idt_addr :: addr
  interrupt_pointer_table :: "u32 list"
  idt_zero_addr :: u32
  isr80h_wrapper_addr :: u32
  heap_table_bytes :: "byte list"
  arg_addr :: addr

subsection \<open>\<open>kernel_main\<close>\<close>

text \<open>The descriptor tables, the heap, the file system and the disk; a panic ends it.\<close>

definition load_gdt :: "image \<Rightarrow> 'z bstate_scheme \<Rightarrow> panic + 'z bstate_scheme" where
  "load_gdt im s =
     (case gdt_structured_to_gdt (kernel_gdt (tss_addr im)) of
        Inl p \<Rightarrow> Inl p
      | Inr g \<Rightarrow> Inr (s\<lparr>gdt_real := g, gdtr := (48, gdt_addr im)\<rparr>))"

definition init_heap :: "image \<Rightarrow> 'z bstate_scheme \<Rightarrow> 'z bstate_scheme option" where
  "init_heap im s =
     do {
       (res, s1) \<leftarrow> kheap_init s (heap_table_bytes im);
       if res < 0 then kprint s1 (0x0A # c_string ''Failed to create kernel heap'') else Some s1 }"

definition load_idt :: "image \<Rightarrow> 'z bstate_scheme \<Rightarrow> 'z bstate_scheme option" where
  "load_idt im s =
     do {
       (idt, r, fs) \<leftarrow> idt_init (interrupt_pointer_table im) (idt_zero_addr im) (isr80h_wrapper_addr im) (idt_addr im)
          Idt_handle_exception Idt_clock (interrupt_callbacks s);
       Some (s\<lparr>idt_descriptors := idt, idtr := r, interrupt_callbacks := fs\<rparr>) }"

definition load_tss :: "'z bstate_scheme \<Rightarrow> 'z bstate_scheme" where
  "load_tss s = s\<lparr>tss_esp0 := 0x600000, tss_ss0 := ucast KERNEL_DATA_SELECTOR, tr := 0x28\<rparr>"

definition start_paging :: "'z bstate_scheme \<Rightarrow> 'z bstate_scheme option" where
  "start_paging s =
     do {
       (chunk, s1) \<leftarrow> paging_new_4gb s (ucast (PAGING_IS_WRITABLE OR PAGING_IS_PRESENT OR PAGING_ACCESS_FROM_ALL));
       Some ((paging_switch (s1\<lparr>kernel_chunk := chunk\<rparr>) chunk)\<lparr>paging_enabled := True\<rparr>) }"

definition register_isr80h :: "'z bstate_scheme \<Rightarrow> (panic + 'z bstate_scheme) option" where
  "register_isr80h s =
     do {
       r \<leftarrow> isr80h_register_commands (isr80h_commands s);
       Some (case r of Inl p \<Rightarrow> Inl p | Inr fs \<Rightarrow> Inr (s\<lparr>isr80h_commands := fs\<rparr>)) }"

text \<open>
  Up to the first process. \<open>Inl\<close> is a panic.
\<close>

definition kernel_init :: "device \<Rightarrow> image \<Rightarrow> 'z bstate_scheme \<Rightarrow> (panic + 'z bstate_scheme) option" where
  "kernel_init dev im s =
     do {
       t \<leftarrow> ter_init (screen s);
       case load_gdt im (s\<lparr>screen := t\<rparr>) of
         Inl p \<Rightarrow> Some (Inl p)
       | Inr s1 \<Rightarrow> do {
           s2 \<leftarrow> init_heap im s1;
           s3 \<leftarrow> fs_init s2;
           s4 \<leftarrow> disk_search_and_init (kernel_fs dev) s3;
           s5 \<leftarrow> load_idt im s4;
           s6 \<leftarrow> start_paging (load_tss s5);
           r \<leftarrow> register_isr80h s6;
           case r of
             Inl p \<Rightarrow> Some (Inl p)
           | Inr s7 \<Rightarrow> do { s8 \<leftarrow> keyboard_init s7; Some (Inr s8) } } }"

text \<open>\<open>"0:/blank.elf"\<close>\<close>

definition shell_path :: "byte list" where
  "shell_path = c_string ''0:/blank.elf''"

text \<open>
  One of the two starts of the program, with its argument: the new value of the variable \<open>process\<close> and the
  state. The argument is written into the local variable \<open>arg\<close>; the result of \<open>process_inject_args\<close> is
  ignored.
\<close>

definition start_shell ::
  "device \<Rightarrow> addr \<Rightarrow> 'z bstate_scheme \<Rightarrow> addr \<Rightarrow> string \<Rightarrow> (panic + addr \<times> 'z bstate_scheme) option" where
  "start_shell dev arg s proc txt =
     do {
       r \<leftarrow> process_load_switch dev s shell_path proc;
       case r of
         Inl p \<Rightarrow> Some (Inl p)
       | Inr (res, proc', s1) \<Rightarrow>
           if res \<noteq> BENOS_ALL_OK then Some (Inl (Panic ''Failed to load shell!''))
           else do {
             let m = store32 (store_bytes (ram s1) arg (c_string txt)) (arg + 512) 0;
             (_, s2) \<leftarrow> process_inject_args (s1\<lparr>ram := m\<rparr>) proc' arg;
             Some (Inr (proc', s2)) } }"

definition kernel_main :: "device \<Rightarrow> image \<Rightarrow> u32 \<Rightarrow> 'z bstate_scheme \<Rightarrow> 'z bstate_scheme control option" where
  "kernel_main dev im eflags s =
     do {
       i \<leftarrow> kernel_init dev im s;
       case i of
         Inl p \<Rightarrow> Some (Halted p)
       | Inr s1 \<Rightarrow> do {
           r1 \<leftarrow> start_shell dev (arg_addr im) s1 0 ''Testing!'';
           case r1 of
             Inl p \<Rightarrow> Some (Halted p)
           | Inr (proc, s2) \<Rightarrow> do {
               r2 \<leftarrow> start_shell dev (arg_addr im) s2 proc ''ABC!'';
               case r2 of
                 Inl p \<Rightarrow> Some (Halted p)
               | Inr (proc2, s3) \<Rightarrow> do {
                   t \<leftarrow> task_run_first_ever_task s3 eflags;
                   Some (case t of Inl p \<Rightarrow> Halted p | Inr s4 \<Rightarrow> In_task s4) } } } }"

end
