(* ===== verification/ElfOk.thy ===== *)
theory ElfOk
  imports ElfLoader
begin

text \<open>
  Which files the ELF loader accepts, the bounds it computes, and what loading a file does.
\<close>

subsection \<open>Which files are accepted\<close>

lemma memcmp_zero: "memcmp xs ys (int n) = Some 0 \<longleftrightarrow> take n xs = take n ys"
  if "n \<le> length xs" "n \<le> length ys"
  using that
proof (induction xs ys "int n" arbitrary: n rule: memcmp.induct)
  case (1 a c1 b c2)
  then show ?case by (cases n) (auto split: if_splits)
qed (auto simp: take_Cons')

lemma length_ram_bytes [simp]: "length (ram_bytes m p n) = n"
  by (simp add: ram_bytes_def)

lemma nth_ram_bytes [simp]: "i < n \<Longrightarrow> ram_bytes m p n ! i = m (p + of_nat i)"
  by (simp add: ram_bytes_def)

text \<open>The four bytes of the signature, a class and an encoding that are not wrong, and a program header.\<close>

definition elf_accepted :: "byte list \<Rightarrow> bool" where
  "elf_accepted c \<longleftrightarrow> take 4 c = elf_signature \<and> c ! 4 \<in> {0, 1} \<and> c ! 5 \<in> {0, 1} \<and> le32 c 28 \<noteq> 0"

lemma load32_bytes: "i + 4 \<le> n \<Longrightarrow> load32 m (p + of_nat i) = le32 (ram_bytes m p n) i"
  by (simp add: load32_def le32_def ac_simps)

lemma elf_validate_bytes:
  assumes "52 \<le> n"
  shows "elf_validate_loaded m p = (if elf_accepted (ram_bytes m p n) then 0 else - EINFORMAT)"
proof -
  have t: "take 4 (ram_bytes m p n) = ram_bytes m p 4" using assms by (intro nth_equalityI) auto
  have s: "elf_valid_signature m p \<longleftrightarrow> take 4 (ram_bytes m p n) = elf_signature"
    using memcmp_zero [of 4 "ram_bytes m p 4" elf_signature] t
    by (simp add: elf_valid_signature_def elf_signature_def)
  have "load32 m (p + 28) = le32 (ram_bytes m p n) 28" using load32_bytes [of 28 n m p] assms by simp
  then show ?thesis
    using assms s
    by (auto simp: elf_validate_loaded_def elf_accepted_def elf_valid_class_def elf_valid_encoding_def
        elf_has_program_header_def elf32_header_at_def EI_NIDENT_def EI_CLASS_def EI_DATA_def ELFCLASSNONE_def
        ELFCLASS32_def ELFDATANONE_def ELFDATA2LSB_def status_simps)
qed

subsection \<open>The bounds of the segments\<close>

definition program_headers :: "(addr \<Rightarrow> byte) \<Rightarrow> addr \<Rightarrow> elf32_phdr list" where
  "program_headers m hdr = map (\<lambda>i. elf32_phdr_at m (elf_program_header m hdr (int i)))
     [0..<unat (e_phnum (elf32_header_at m hdr))]"

definition load_segments :: "(addr \<Rightarrow> byte) \<Rightarrow> addr \<Rightarrow> elf32_phdr list" where
  "load_segments m hdr = filter (\<lambda>ph. p_type ph = PT_LOAD) (program_headers m hdr)"

lemma process_pheaders_loop_eq:
  "process_pheaders_loop n (int i) 0 m hdr f =
    (0, fold (\<lambda>ph f. snd (elf_process_phdr_pt_load f ph))
      (filter (\<lambda>ph. p_type ph = PT_LOAD) (map (\<lambda>j. elf32_phdr_at m (elf_program_header m hdr (int j))) [i..<i + n])) f)"
proof (induction n arbitrary: i f)
  case (Suc n)
  have "[i..<i + Suc n] = i # [Suc i..<Suc i + n]" by (simp add: upt_rec)
  then show ?case
    using Suc.IH [of "Suc i"]
    by (simp add: elf_process_pheader_def elf_process_phdr_pt_load_def Let_def add.commute)
qed simp

lemma elf_process_loaded_eq:
  assumes "elf_validate_loaded m (elf_mem f) = 0"
  shows "elf_process_loaded m f =
    (0, fold (\<lambda>ph f. snd (elf_process_phdr_pt_load f ph)) (load_segments m (elf_mem f)) f)"
  using assms process_pheaders_loop_eq [of _ 0 m "elf_mem f" f]
  by (simp add: elf_process_loaded_def elf_process_pheaders_def elf_header_def load_segments_def program_headers_def Let_def)

text \<open>\<open>f\<close> describes the hull of the segments \<open>gs\<close> of a file loaded at \<open>mem\<close>.\<close>

definition hull :: "addr \<Rightarrow> elf32_phdr list \<Rightarrow> elf_file \<Rightarrow> bool" where
  "hull mem gs f \<longleftrightarrow> elf_mem f = mem \<and>
     (\<exists>g \<in> set gs. virt_base_address f = p_vaddr g \<and> phys_base_address f = mem + p_offset g) \<and>
     (\<forall>h \<in> set gs. virt_base_address f \<le> p_vaddr h) \<and>
     (\<exists>g \<in> set gs. virt_end_address f = p_vaddr g + p_filesz g \<and>
       phys_end_address f = mem + p_offset g + p_filesz g) \<and>
     (\<forall>h \<in> set gs. p_vaddr h + p_filesz h \<le> virt_end_address f)"

lemma hull_fold:
  assumes "gs \<noteq> []" "\<forall>g \<in> set gs. p_vaddr g \<noteq> 0" "virt_base_address f = 0" "virt_end_address f = 0"
  shows "hull (elf_mem f) gs (fold (\<lambda>ph f. snd (elf_process_phdr_pt_load f ph)) gs f)"
  using assms(1,2)
proof (induction gs rule: rev_nonempty_induct)
  case (single g)
  then show ?case using assms(3,4) by (simp add: hull_def elf_process_phdr_pt_load_def elf_memory_def Let_def)
next
  case (snoc g gs)
  have h: "hull (elf_mem f) gs (fold (\<lambda>ph f. snd (elf_process_phdr_pt_load f ph)) gs f)"
    using snoc by simp
  then have "virt_base_address (fold (\<lambda>ph f. snd (elf_process_phdr_pt_load f ph)) gs f) \<noteq> 0"
    using snoc.prems by (auto simp: hull_def)
  then show ?case
    using h by (auto simp: hull_def elf_process_phdr_pt_load_def elf_memory_def Let_def not_le
        intro: order_trans less_imp_le)
qed

subsection \<open>Loading\<close>

lemma elf_files_outer: "outer s' = outer s \<Longrightarrow> elf_files s' = elf_files (s :: 'z estate_scheme)"
  by (drule arg_cong [of _ _ elf_files]) (simp add: outer_def)

lemma set_elf_simps [simp]:
  "kernel_heap (set_elf s p f) = kernel_heap s" "ram (set_elf s p f) = ram s"
  "file_descriptors (set_elf s p f) = file_descriptors s" "volume (set_elf s p f) = volume s"
  "disk_filesystem (set_elf s p f) = disk_filesystem s" "elf_files (set_elf s p f) = (elf_files s)(p \<mapsto> f)"
  "k_inv (set_elf s p f) = k_inv s" "k_live (set_elf s p f) = k_live s" "free_blocks (set_elf s p f) = free_blocks s"
  "pool (set_elf s p f) = pool s" "run_count n (set_elf s p f) = run_count n s"
  by (simp_all add: set_elf_def volume_def k_inv_def k_live_def free_blocks_def pool_def
      run_count_def free_runs_def block_count_def block_free_def)

lemma heap_set_elf [simp]: "acquired s ps (set_elf s' p f) = acquired s ps s'"
  "acquired (set_elf s p f) ps s' = acquired s ps s'" "keeps s (set_elf s' p f) = keeps s s'"
  "keeps (set_elf s p f) s' = keeps s s'" "kgrown (set_elf s p f) ns s' = kgrown s ns s'"
  by (simp_all add: acquired_def keeps_def kgrown_def grown_def cong del: if_weak_cong)

text \<open>Everything but the heap, the memory, the descriptors, the data of the mounted disk and the ELF files.\<close>

definition elf_outer :: "'z estate_scheme \<Rightarrow> 'z estate_scheme" where
  "elf_outer s = (outer s)\<lparr>elf_files := Map.empty\<rparr>"

lemma elf_outer_set [simp]: "elf_outer (set_elf s p f) = elf_outer s"
  by (simp add: elf_outer_def set_elf_def outer_def)

lemma elf_outerI: "outer s' = outer s \<Longrightarrow> elf_outer s' = elf_outer s"
  by (simp add: elf_outer_def)

lemma acquired_keeps_le: "acquired s ps s' \<Longrightarrow> k_live s \<subseteq>\<^sub>m k_live s'"
  using acquiredD(4,5) by (fastforce simp: map_le_def map_add_def dest: map_of_SomeD split: option.splits)

lemma acquired_kgrown: "kgrown s ns s' \<Longrightarrow> acquired s (singles ns) s'"
  using acquired_grown kgrownD(6,7) by blast

lemma elf_file_request [simp]: "ok_size sizeof_elf_file" "blocks_of sizeof_elf_file = 1"
  by (simp_all add: sizeof_elf_file_def ok_size_def blocks_of_def)

lemma store_bytes_region:
  "unat (a - p) < length c \<Longrightarrow> store_bytes m p c a = c ! unat (a - p)"
  "\<not> unat (a - p) < length c \<Longrightarrow> store_bytes m p c a = m a"
  by (simp_all add: store_bytes_def)

lemma ram_bytes_store:
  assumes "length c < 4294967296"
  shows "ram_bytes (store_bytes m p c) p (length c) = c"
proof (rule nth_equalityI)
  fix i assume i: "i < length (ram_bytes (store_bytes m p c) p (length c))"
  then have "unat (p + of_nat i - p) = i" using assms by (simp add: unat_of_nat_u32)
  then show "ram_bytes (store_bytes m p c) p (length c) ! i = c ! i"
    using i by (simp add: store_bytes_region)
qed simp

text \<open>
  A file that \<open>elf_load\<close> finds: what it needs of the path, the descriptors and the memory, where
  \<open>n\<close> is the number of components of the path.
\<close>

definition loadable :: "device \<Rightarrow> 'z estate_scheme \<Rightarrow> byte list \<Rightarrow> byte list \<Rightarrow> nat \<Rightarrow> bool" where
  "loadable dev s path c i \<longleftrightarrow>
     disk_filesystem s \<noteq> None \<and> terminated path \<and> length (cstr path) \<le> 108 \<and> valid_path (cstr path) \<and>
     tonum (cstr path ! 0) = 0 \<and> fat_file dev (volume s) (components (drop 3 (cstr path))) c \<and>
     components (drop 3 (cstr path)) \<noteq> [] \<and> free_slot (file_descriptors s) 0 = Some i \<and> i < 511 \<and>
     52 \<le> length c \<and> length c < 2147483648"

definition path_nodes :: "byte list \<Rightarrow> nat" where
  "path_nodes path = 1 + 2 * length (components (drop 3 (cstr path)))"

text \<open>What a call of \<open>elf_load\<close> has done, whatever the file is.\<close>

definition elf_loaded ::
  "'z estate_scheme \<Rightarrow> byte list \<Rightarrow> byte list \<Rightarrow> addr \<Rightarrow> addr \<Rightarrow> addr list \<Rightarrow> 'z estate_scheme \<Rightarrow> bool" where
  "elf_loaded s path c fl mem ns s' \<longleftrightarrow>
     acquired s ((fl, 1) # singles ns @ [(mem, blocks_of (word_of_nat (length c)))]) s' \<and>
     length ns = path_nodes path \<and> keeps s s' \<and> ram_bytes (ram s') mem (length c) = c \<and>
     file_descriptors s' = file_descriptors s \<and> elf_outer s' = elf_outer s \<and>
     elf_files s' = (elf_files s)(fl \<mapsto> snd (elf_process_loaded (ram s') (zero_elf_file\<lparr>elf_mem := mem\<rparr>)))"

lemma length_request:
  assumes "0 < length c" "length c < 2147483648"
  shows "ok_size (word_of_nat (length c))" "unat (word_of_nat (length c) :: u32) = length c"
    "0 < (word_of_nat (length c) :: u32)" "(word_of_nat (length c) :: u32) < 2147483648"
proof -
  show u: "unat (word_of_nat (length c) :: u32) = length c"
    by (rule unat_of_nat_u32) (use assms in linarith)
  show "0 < (word_of_nat (length c) :: u32)" "(word_of_nat (length c) :: u32) < 2147483648"
    using u assms by (simp_all add: word_less_nat_alt)
  then show "ok_size (word_of_nat (length c))"
    using u assms by (simp add: ok_size_def word_le_nat_alt) 
qed

lemma kgrown_set_elf [simp]: "kgrown s ns (set_elf s' p f) = kgrown s ns s'"
  by (simp add: kgrown_def grown_def cong del: if_weak_cong)

lemma run_count_le:
  assumes "k_inv s" "0 < n"
  shows "run_count n s \<le> free_blocks s"
proof -
  have "(\<lambda>j. j * n) ` free_runs n s \<subseteq> free_runs 1 s"
    using assms(2) by (auto simp: free_runs_def le_simps)
  moreover have "inj_on (\<lambda>j. j * n) (free_runs n s)" using assms(2) by (simp add: inj_on_def)
  ultimately have "card (free_runs n s) \<le> card (free_runs 1 s)"
    using card_inj_on_le finite_free_runs by (metis zero_less_one)
  then show ?thesis using run_count_1 [OF assms(1)] by (simp add: run_count_def)
qed

lemma acquired_restrict:
  assumes "acquired s (xs @ ys @ zs) s'" "k_inv s''" "pool s'' = pool s'"
    "k_live s'' = k_live s' |` (- fst ` set ys)"
  shows "acquired s (xs @ zs) s''"
proof -
  note d = acquiredD(3,4) [OF assms(1)]
  have n: "k_live s x = None" if "x \<in> fst ` set ys" for x
    using assms(1) that by (auto simp: acquired_def)
  have "k_live s'' x = (k_live s ++ map_of (xs @ zs)) x" for x
  proof (cases "x \<in> fst ` set ys")
    case True
    then have "map_of xs x = None" "map_of zs x = None"
      using d(1) by (auto simp: map_of_eq_None_iff)
    then show ?thesis using True n by (simp add: assms(4) restrict_map_def map_add_def)
  next
    case False
    then have "map_of ys x = None" by (simp add: map_of_eq_None_iff)
    then show ?thesis using False by (auto simp: assms(4) d(2) map_add_def split: option.splits)
  qed
  moreover have "fst ` set (xs @ zs) \<inter> dom (k_live s) = {}" using assms(1) by (auto simp: acquired_def)
  ultimately show ?thesis using assms(2,3) d(1) acquiredD(2) [OF assms(1)] by (auto simp: acquired_def)
qed

lemma keeps_store:
  assumes "k_inv s1" "keeps s s1" "k_live s \<subseteq>\<^sub>m k_live s1" "k_live s mem = None" "k_live s1 mem = Some n"
    "length c \<le> n * 4096" "ram s2 = store_bytes (ram s1) mem c"
  shows "keeps s s2"
proof -
  have "ram s2 a = ram s a" if l: "k_live s p = Some m" "unat (a - p) < m * 4096" for a p m
  proof -
    have l1: "k_live s1 p = Some m" using assms(3) l(1) by (auto simp: map_le_def dom_def)
    have "p \<noteq> mem" using l(1) assms(4) by auto
    then have "\<not> unat (a - mem) < n * 4096" using live_regions_apart [OF assms(1) l1 assms(5)] l(2) by blast
    then show ?thesis using assms(6,7) keepsD [OF assms(2) l] by (simp add: store_bytes_region)
  qed
  then show ?thesis by (auto simp: keeps_def)
qed

text \<open>
  The file is opened, read into memory and closed, whatever it contains; \<open>file_out\<close> is set exactly
  when the contents are accepted.
\<close>

lemma elf_load_run:
  assumes l: "loadable dev s path c i" and k: "k_inv s"
    and room: "path_nodes path + 5 < run_count (blocks_of (word_of_nat (length c))) s"
  shows "\<exists>fl mem ns s'. elf_load dev s path = Some (0, (if elf_accepted c then Some fl else None), s') \<and>
    elf_loaded s path c fl mem ns s' \<and>
    (\<forall>q c'. fat_file dev (volume s) q c' \<longrightarrow> fat_file dev (volume s') q c')"
proof -
  obtain fid where fid: "disk_filesystem s = Some fid" using l by (auto simp: loadable_def)
  have path: "terminated path" "length (cstr path) \<le> 108" "valid_path (cstr path)" "tonum (cstr path ! 0) = 0"
    and f: "fat_file dev (volume s) (components (drop 3 (cstr path))) c" "components (drop 3 (cstr path)) \<noteq> []"
    and slot: "free_slot (file_descriptors s) 0 = Some i" "i < 511" and len: "52 \<le> length c" "length c < 2147483648"
    using l by (simp_all add: loadable_def)
  have lc: "0 < length c" using len(1) by linarith
  let ?sz = "word_of_nat (length c) :: u32"
  note rq = length_request [OF lc len(2)]
  have nb: "0 < blocks_of ?sz" using rq(1) by (simp add: blocks_of_def rq(2)) (use lc in linarith)
  have fr: "path_nodes path + 5 < free_blocks s" using run_count_le [OF k nb] room by linarith
  obtain fl s0 where z: "kzalloc s sizeof_elf_file = Some (fl, s0)" "fl \<noteq> 0" "free_blocks s0 = free_blocks s - 1"
    using kzalloc_one_block [OF k elf_file_request] fr by auto
  have g0: "kgrown s [fl] s0" by (rule kgrown_alloc [OF k elf_file_request z(1,2)])
  note m0 = fstate_more [OF kzalloc_more [OF z(1)]]
  let ?s1 = "set_elf s0 fl zero_elf_file"
  have F: "kernel_fs dev fid = fat16_fs dev" by (simp add: kernel_fs_def)
  have g1: "kgrown s [fl] ?s1" using g0 by simp
  obtain p a ns s2 where o: "fopen (kernel_fs dev) ?s1 path [0x72, 0] = Some (int i + 1, s2)"
      "fat_handle dev (volume s2) p c" "volume s2 = volume ?s1"
      "file_descriptors s2 = (file_descriptors ?s1)[i := Some \<lparr>file_addr = a, index = int i + 1, file_fs = fid,
         private_data = p, file_disk = Some 0\<rparr>]"
      "kgrown ?s1 (ns @ fat_owns p @ [a]) s2" "length ns = 1 + 2 * length (components (drop 3 (cstr path)))"
      "outer s2 = outer ?s1"
  proof (rule fat.fopen_file [where F = "kernel_fs dev" and fid = fid and xs = "[]" and s = ?s1])
    show "disk_filesystem ?s1 = Some fid" using m0(1) fid by (simp add: volume_def)
    show "2 * length (components (drop 3 (cstr path))) + 2 + 3 \<le> free_blocks ?s1"
      using fr z(3) by (simp add: path_nodes_def)
  qed (use F kgrownD(1) [OF g1] path f slot m0 in \<open>auto intro: that\<close>)
  have g2: "kgrown s (fl # ns @ fat_owns p @ [a]) s2" using kgrown_trans [OF g1 o(5)] by simp
  have ac2: "acquired s (singles (fl # ns @ fat_owns p @ [a])) s2" by (rule acquired_kgrown [OF g2])
  have i: "i < length (file_descriptors s)" "file_descriptors s ! i = None"
    using slot(1) by (simp_all add: free_slot_0)
  have fd2: "file_descriptors s2 = (file_descriptors s)[i := Some \<lparr>file_addr = a, index = int i + 1, file_fs = fid,
         private_data = p, file_disk = Some 0\<rparr>]"
    using o(4) m0(2) by simp
  have oa: "open_at s2 fid i p a" using fd2 i(1) slot(2) by (simp add: open_at_def)
  obtain fl' where st: "fstat (kernel_fs dev) s2 (int i + 1) \<lparr>stat_flags = 0, stat_size = 0\<rparr> =
      Some (0, \<lparr>stat_flags = fl', stat_size = ?sz\<rparr>)"
    using fat.fstat_open [where F = "kernel_fs dev" and fid = fid, OF F oa o(2)] by blast
  have "path_nodes path + 5 = blocks (singles (fl # ns @ fat_owns p @ [a]))"
    using o(6) by (simp add: path_nodes_def fat_owns_def)
  then have "0 < run_count (blocks_of ?sz) s2"
    using run_count_acquired [OF k ac2 nb] room by linarith
  then obtain mem s3 where m: "kzalloc s2 ?sz = Some (mem, s3)" "mem \<noteq> 0" "acquired s2 [(mem, blocks_of ?sz)] s3"
    using kzalloc_run [OF kgrownD(1) [OF g2] rq(1)] by metis
  note m3 = fstate_more [OF kzalloc_more [OF m(1)]] elf_files_outer [OF outer_kframe [OF kzalloc_more [OF m(1)]]]
  have e2: "elf_files s2 = (elf_files s)(fl \<mapsto> zero_elf_file)"
    using elf_files_outer [OF o(7)] elf_files_outer [OF outer_kframe [OF kzalloc_more [OF z(1)]]] by simp
  let ?f = "zero_elf_file\<lparr>elf_mem := mem\<rparr>"
  let ?s3 = "set_elf s3 fl ?f"
  have oa3: "open_at ?s3 fid i p a" using oa open_at_cong [of s3 s2] m3(2) by (simp add: open_at_def)
  have h3: "fat_handle dev (volume ?s3) p c" using o(2) m3(1) by simp
  have n1: "unat (1 :: u32) * unat ?sz \<le> length c" "(0 :: u32) < 1" "(1 :: u32) < 2147483648" using rq(2) by simp_all
  obtain s4 where r: "fread (kernel_fs dev) ?s3 mem ?sz 1 (int i + 1) = Some (int (unat (1 :: u32)), s4)"
      "ram s4 = store_bytes (ram ?s3) mem (take (unat (1 :: u32) * unat ?sz) c)" "kernel_heap s4 = kernel_heap ?s3"
      "file_descriptors s4 = file_descriptors ?s3" "fat_handle dev (volume s4) p c" "outer s4 = outer ?s3"
      "\<forall>q c'. fat_file dev (volume ?s3) q c' \<longrightarrow> fat_file dev (volume s4) q c'"
    using fat.fread_open [where F = "kernel_fs dev" and fid = fid and ptr = mem, OF F oa3 h3 rq(3,4) n1(2,3,1)] by blast
  have ram4: "ram s4 = store_bytes (ram s3) mem c" using r(2) rq(2) by simp
  have lk: "length c < 4294967296" using len(2) by linarith
  have bytes: "ram_bytes (ram s4) mem (length c) = c" unfolding ram4 by (rule ram_bytes_store [OF lk])
  obtain g where pl: "elf_process_loaded (ram s4) ?f = ((if elf_accepted c then 0 else - EINFORMAT), g)"
  proof (cases "elf_accepted c")
    case True
    then show ?thesis using that elf_process_loaded_eq [of "ram s4" ?f] elf_validate_bytes [OF len(1), of "ram s4" mem]
      by (simp add: bytes)
  next
    case False
    then show ?thesis using that elf_validate_bytes [OF len(1), of "ram s4" mem]
      by (simp add: bytes elf_process_loaded_def elf_header_def status_simps)
  qed
  have e4: "elf_files s4 = (elf_files s)(fl \<mapsto> ?f)"
    using elf_files_outer [OF r(6)] m3(5) e2 by simp
  let ?s5 = "set_elf s4 fl g"
  have ac3: "acquired s (singles (fl # ns @ fat_owns p @ [a]) @ [(mem, blocks_of ?sz)]) s4"
    using acquired_trans [OF ac2 m(3)] acquired_cong [of s4 s3] r(3) by simp
  have oa5: "open_at ?s5 fid i p a" using oa3 r(4) by (simp add: open_at_def)
  have h5: "fat_handle dev (volume ?s5) p c" using r(5) by simp
  have own: "distinct (fat_owns p @ [a])" "set (fat_owns p @ [a]) \<subseteq> dom (k_live ?s5)"
    using kgrownD(2) [OF g2] acquiredD(4) [OF ac3]
    by (simp, simp add: dom_map_of_conv_image_fst image_Un del: map_of_append, blast?)
  obtain s6 where cl: "fclose (kernel_fs dev) ?s5 (int i + 1) = Some (0, s6)" "k_inv s6"
      "k_live s6 = k_live ?s5 |` (- set (fat_owns p @ [a]))" "file_descriptors s6 = (file_descriptors ?s5)[i := None]"
      "ram s6 = ram ?s5" "pool s6 = pool ?s5" "outer s6 = outer ?s5"
      "volume s6 = volume ?s5"
    using fat.fclose_open [where F = "kernel_fs dev" and fid = fid, OF F oa5 h5 _ own] acquiredD(1) [OF ac3] by auto
  have "acquired s (((fl, 1) # singles ns) @ [(mem, blocks_of ?sz)]) s6"
  proof (rule acquired_restrict [OF _ cl(2)])
    show "acquired s (((fl, 1) # singles ns) @ singles (fat_owns p @ [a]) @ [(mem, blocks_of ?sz)]) s4"
      using ac3 by (simp add: singles_def)
  qed (use cl(3,6) in simp_all)
  moreover have "keeps s s4"
  proof (rule keeps_store [OF _ _ _ _ acquiredD(6) [OF m(3)] _ ram4])
    show "k_inv s3" by (rule acquiredD(1) [OF m(3)])
    show "keeps s s3"
      by (rule keeps_trans [OF kgrownD(5) [OF g2] kzalloc_keeps [OF kgrownD(1) [OF g2] rq(1) m(1)] kgrown_le [OF g2]])
    show "k_live s \<subseteq>\<^sub>m k_live s3" using map_le_trans [OF kgrown_le [OF g2] acquired_keeps_le [OF m(3)]] .
    show "k_live s mem = None" by (rule acquiredD(5) [OF ac3, of _ "blocks_of ?sz"]) simp
    show "length c \<le> blocks_of ?sz * 4096" using blocks_of_covers [of ?sz] rq(2) by simp
  qed simp
  moreover have "file_descriptors s6 = file_descriptors s"
    using cl(4) r(4) m3(2) fd2 list_update_id [of "file_descriptors s" i] i by simp
  moreover have "elf_files s6 = (elf_files s)(fl \<mapsto> g)" using elf_files_outer [OF cl(7)] e4 by simp
  moreover have "elf_outer s6 = elf_outer s"
    using elf_outerI [OF cl(7)] elf_outerI [OF r(6)] elf_outerI [OF outer_kframe [OF kzalloc_more [OF m(1)]]]
      elf_outerI [OF o(7)] elf_outerI [OF outer_kframe [OF kzalloc_more [OF z(1)]]] by simp
  moreover have "length ns = path_nodes path" using o(6) by (simp add: path_nodes_def)
  ultimately have "elf_loaded s path c fl mem ns s6"
    using cl(5) bytes pl by (simp add: elf_loaded_def keeps_def)
  moreover have "elf_load dev s path = Some (0, (if elf_accepted c then Some fl else None), s6)"
    using z(1,2) o(1) st m(1,2) e2 r(1) e4 pl cl(1) m3(5)
    by (simp add: elf_load_def elf_load_file_def Let_def status_simps)
  moreover have "\<forall>q c'. fat_file dev (volume s) q c' \<longrightarrow> fat_file dev (volume s6) q c'"
    using r(7) cl(8) m3(1) o(3) m0(1) by simp
  ultimately show ?thesis by blast
qed

subsection \<open>What the file says\<close>

text \<open>The program headers as the bytes of the file give them, when they lie inside of it.\<close>

definition half :: "byte list \<Rightarrow> nat \<Rightarrow> u16" where
  "half c i = ucast (c ! i) OR push_bit 8 (ucast (c ! (i + 1)))"

definition phdr_of :: "byte list \<Rightarrow> nat \<Rightarrow> elf32_phdr" where
  "phdr_of c j = \<lparr>p_type = le32 c j, p_offset = le32 c (j + 4), p_vaddr = le32 c (j + 8),
     p_paddr = le32 c (j + 12), p_filesz = le32 c (j + 16), p_memsz = le32 c (j + 20),
     p_flags = le32 c (j + 24), p_align = le32 c (j + 28)\<rparr>"

definition file_segments :: "byte list \<Rightarrow> elf32_phdr list" where
  "file_segments c = filter (\<lambda>ph. p_type ph = PT_LOAD)
     (map (\<lambda>i. phdr_of c (unat (le32 c 28) + 32 * i)) [0..<unat (half c 44)])"

definition headers_inside :: "byte list \<Rightarrow> bool" where
  "headers_inside c \<longleftrightarrow> 52 \<le> length c \<and> unat (le32 c 28) + 32 * unat (half c 44) \<le> length c"

lemma load32_in:
  assumes "ram_bytes m p n = c" "i + 4 \<le> n"
  shows "load32 m (p + of_nat i) = le32 c i"
  using load32_bytes [OF assms(2)] assms(1) by blast

lemma phdr_in:
  assumes "ram_bytes m p n = c" "j + 32 \<le> n"
  shows "elf32_phdr_at m (p + of_nat j) = phdr_of c j"
  using load32_in [OF assms(1), of j] load32_in [OF assms(1), of "j + 4"] load32_in [OF assms(1), of "j + 8"]
    load32_in [OF assms(1), of "j + 12"] load32_in [OF assms(1), of "j + 16"] load32_in [OF assms(1), of "j + 20"]
    load32_in [OF assms(1), of "j + 24"] load32_in [OF assms(1), of "j + 28"] assms(2)
  by (simp add: elf32_phdr_at_def phdr_of_def add.assoc [symmetric])

lemma program_headers_file:
  assumes "ram_bytes m p (length c) = c" "headers_inside c" "le32 c 28 \<noteq> 0"
  shows "program_headers m p = map (\<lambda>i. phdr_of c (unat (le32 c 28) + 32 * i)) [0..<unat (half c 44)]"
proof -
  have l: "44 + 1 < length c" "28 + 4 \<le> length c" using assms(2) by (simp_all add: headers_inside_def)
  have "c ! 44 = m (p + of_nat 44)" "c ! 45 = m (p + of_nat 45)"
    using nth_ram_bytes [of 44 "length c" m p] nth_ram_bytes [of 45 "length c" m p] assms(1) l(1) by simp_all
  then have n: "e_phnum (elf32_header_at m p) = half c 44"
    by (simp add: elf32_header_at_def load16_def half_def add.assoc)
  have o: "e_phoff (elf32_header_at m p) = le32 c 28"
    using load32_in [OF assms(1) l(2)] by (simp add: elf32_header_at_def)
  have "elf32_phdr_at m (elf_program_header m p (int i)) = phdr_of c (unat (le32 c 28) + 32 * i)"
    if "i < unat (half c 44)" for i
  proof -
    have "unat (le32 c 28) + 32 * i + 32 \<le> length c" using that assms(2) by (simp add: headers_inside_def)
    then show ?thesis
      using phdr_in [OF assms(1), of "unat (le32 c 28) + 32 * i"] assms(3)
      by (simp add: elf_program_header_def elf_pheader_def o add.assoc)
  qed
  then show ?thesis by (simp add: program_headers_def n)
qed

lemma load_segments_file:
  assumes "ram_bytes m p (length c) = c" "headers_inside c" "le32 c 28 \<noteq> 0"
  shows "load_segments m p = file_segments c"
  by (simp add: load_segments_def file_segments_def program_headers_file [OF assms])

lemma elf_mem_fold: "elf_mem (fold (\<lambda>ph f. snd (elf_process_phdr_pt_load f ph)) gs f) = elf_mem f"
  by (induction gs arbitrary: f) (simp_all add: elf_process_phdr_pt_load_def Let_def)

lemma zero_elf_file_simps [simp]: "virt_base_address zero_elf_file = 0" "virt_end_address zero_elf_file = 0"
  by (simp_all add: zero_elf_file_def)

lemma elf_loaded_mem:
  assumes "elf_loaded s path c fl mem ns s'" "52 \<le> length c"
  shows "\<exists>f. elf_files s' fl = Some f \<and> elf_mem f = mem \<and>
    (elf_accepted c \<and> headers_inside c \<and> file_segments c \<noteq> [] \<and> (\<forall>g \<in> set (file_segments c). p_vaddr g \<noteq> 0) \<longrightarrow>
       hull mem (file_segments c) f)"
proof -
  let ?f = "zero_elf_file\<lparr>elf_mem := mem\<rparr>"
  have b: "ram_bytes (ram s') mem (length c) = c" using assms(1) by (simp add: elf_loaded_def)
  note v = elf_validate_bytes [OF assms(2), of "ram s'" mem]
  show ?thesis
  proof (cases "elf_accepted c")
    case True
    then have e: "elf_process_loaded (ram s') ?f =
        (0, fold (\<lambda>ph f. snd (elf_process_phdr_pt_load f ph)) (load_segments (ram s') mem) ?f)"
      using elf_process_loaded_eq [of "ram s'" ?f] v b by simp
    have "hull (elf_mem ?f) (file_segments c) (snd (elf_process_loaded (ram s') ?f))"
      if "headers_inside c" "file_segments c \<noteq> []" "\<forall>g \<in> set (file_segments c). p_vaddr g \<noteq> 0"
      using hull_fold [OF that(2,3), of ?f] load_segments_file [OF b that(1)] True by (simp add: e elf_accepted_def)
    then show ?thesis using assms(1) e elf_mem_fold by (auto simp: elf_loaded_def)
  next
    case False
    then have "snd (elf_process_loaded (ram s') ?f) = ?f"
      using v b by (simp add: elf_process_loaded_def elf_header_def status_simps)
    then show ?thesis using assms(1) False by (auto simp: elf_loaded_def)
  qed
qed

text \<open>
  C19. Loading an ELF file. If enough memory is free, the file is accepted, its program headers lie inside of it, and
  it has loadable segments, none of them at the address 0 (which \<open>elf_load\<close> takes for no bound yet),
  \<open>elf_load\<close> returns 0 and a file structure; the memory at \<open>elf_mem\<close> holds the contents of the
  file; the virtual bounds are the lowest address and the highest end of its loadable segments and the
  physical bounds are where those lie in memory; the descriptor is closed, no block that was allocated
  before is written, and what stays allocated are the structure, the contents and the nodes of the
  parsed path.
\<close>

theorem elf_load_ok:
  assumes "loadable dev s path c i" "k_inv s"
    "path_nodes path + 5 < run_count (blocks_of (word_of_nat (length c))) s"
    "elf_accepted c" "headers_inside c" "file_segments c \<noteq> []" "\<forall>g \<in> set (file_segments c). p_vaddr g \<noteq> 0"
  shows "\<exists>fl mem ns s' f. elf_load dev s path = Some (0, Some fl, s') \<and>
    elf_files s' = (elf_files s)(fl \<mapsto> f) \<and> elf_mem f = mem \<and> ram_bytes (ram s') mem (length c) = c \<and>
    hull mem (file_segments c) f \<and> file_descriptors s' = file_descriptors s \<and> keeps s s' \<and>
    acquired s ((fl, 1) # singles ns @ [(mem, blocks_of (word_of_nat (length c)))]) s' \<and>
    length ns = path_nodes path"
proof -
  obtain fl mem ns s' where r: "elf_load dev s path = Some (0, Some fl, s')" "elf_loaded s path c fl mem ns s'"
    using elf_load_run [OF assms(1-3)] assms(4) by auto
  have "52 \<le> length c" using assms(1) by (simp add: loadable_def)
  from elf_loaded_mem [OF r(2) this] show ?thesis
    using r assms(4-7) by (intro exI [of _ fl] exI [of _ mem] exI [of _ ns] exI [of _ s'])
      (auto simp: elf_loaded_def)
qed

text \<open>
  Loading a file and closing it again. \<open>elf_close\<close> releases the contents and the structure: what
  is left are the nodes of the parsed path.
\<close>

theorem elf_load_close:
  assumes "loadable dev s path c i" "k_inv s"
    "path_nodes path + 5 < run_count (blocks_of (word_of_nat (length c))) s" "elf_accepted c"
  shows "\<exists>fl ns s1 s2. elf_load dev s path = Some (0, Some fl, s1) \<and> elf_close s1 fl = Some s2 \<and>
    elf_files s2 = (elf_files s)(fl := None) \<and> file_descriptors s2 = file_descriptors s \<and>
    acquired s (singles ns) s2 \<and> length ns = path_nodes path"
proof -
  obtain fl mem ns s1 where r: "elf_load dev s path = Some (0, Some fl, s1)" "elf_loaded s path c fl mem ns s1"
    using elf_load_run [OF assms(1-3)] assms(4) by auto
  have "52 \<le> length c" using assms(1) by (simp add: loadable_def)
  then obtain f where f: "elf_files s1 fl = Some f" "elf_mem f = mem" using elf_loaded_mem [OF r(2)] by blast
  have ac: "acquired s (((fl, 1) # singles ns) @ (mem, blocks_of (word_of_nat (length c))) # []) s1"
    using r(2) by (simp add: elf_loaded_def)
  obtain t where t: "kfree s1 mem = Some t" "acquired s (((fl, 1) # singles ns) @ []) t"
    using acquired_release [OF ac] by blast
  have "acquired s ([] @ (fl, 1) # singles ns) t" using t(2) by simp
  from acquired_release [OF this] obtain u where u: "kfree t fl = Some u" "acquired s (singles ns) u" by auto
  have "fl \<noteq> 0"
    using kz.live_aligned [OF acquiredD(1) [OF ac] acquiredD(6) [OF ac, of fl 1]] by simp
  then have c: "elf_close s1 fl = Some (u\<lparr>elf_files := (elf_files u)(fl := None)\<rparr>)"
    using f t(1) u(1) by (simp add: elf_close_def)
  have k: "kframe t = kframe s1" "kframe u = kframe t" using kfree_more t(1) u(1) by blast+
  have "elf_files u = elf_files s1" "file_descriptors u = file_descriptors s1"
    using elf_files_outer [OF outer_kframe [OF k(1)]] elf_files_outer [OF outer_kframe [OF k(2)]]
      fstate_more(2) [OF k(1)] fstate_more(2) [OF k(2)] by simp_all
  moreover have "elf_files s fl = None" if "(elf_files s1)(fl := None) \<noteq> (elf_files s)(fl := None)"
    using that r(2) by (auto simp: elf_loaded_def)
  ultimately show ?thesis
    using r c u(2) acquired_cong [of "u\<lparr>elf_files := (elf_files u)(fl := None)\<rparr>" u s "singles ns"]
    by (intro exI [of _ fl] exI [of _ ns] exI [of _ s1] exI [of _ "u\<lparr>elf_files := (elf_files u)(fl := None)\<rparr>"])
      (auto simp: elf_loaded_def)
qed

text \<open>
  A file that is not in the ELF format. \<open>elf_load\<close> still returns 0 but sets no file: the caller
  cannot tell from the code, and the file structure and the contents stay allocated for good.
\<close>

theorem elf_load_hides_errors:
  assumes "loadable dev s path c i" "k_inv s"
    "path_nodes path + 5 < run_count (blocks_of (word_of_nat (length c))) s" "\<not> elf_accepted c"
  shows "\<exists>fl mem ns s'. elf_load dev s path = Some (0, None, s') \<and> file_descriptors s' = file_descriptors s \<and>
    acquired s ((fl, 1) # singles ns @ [(mem, blocks_of (word_of_nat (length c)))]) s' \<and>
    length ns = path_nodes path"
  using elf_load_run [OF assms(1-3)] assms(4) by (auto simp: elf_loaded_def)



subsection \<open>A file on the boot disk\<close>

text \<open>An ELF file with one loadable segment, and the state in which the disk that holds it is mounted.\<close>

definition small_elf :: "byte list" where
  "small_elf = [0x7F, 0x45, 0x4C, 0x46, 1, 1, 1, 0, 0, 0, 0, 0, 0, 0, 0, 0, 2, 0, 3, 0, 1, 0, 0, 0,
     0, 0, 0x40, 0, 52, 0, 0, 0, 0, 0, 0, 0, 0, 0, 0, 0, 52, 0, 32, 0, 1, 0, 40, 0, 0, 0, 0, 0,
     1, 0, 0, 0, 0, 0, 0, 0, 0, 0, 0x40, 0, 0, 0, 0x40, 0, 84, 0, 0, 0, 0, 16, 0, 0, 5, 0, 0, 0, 0, 16, 0, 0]"

definition elf_disk :: "byte list \<Rightarrow> device" where
  "elf_disk d = benos_disk d [blank_elf]"

definition elf_state :: "byte list \<Rightarrow> estate" where
  "elf_state d = fstate.extend (mounted_state d 0) \<lparr>elf_files = Map.empty\<rparr>"

definition elf_contents :: "byte list \<Rightarrow> byte list" where
  "elf_contents d = disk_bytes (elf_disk d) 432128 4096"

lemma elf_contents:
  assumes "length d \<le> 512"
  shows "length (elf_contents d) = 4096" "take (length d) (elf_contents d) = d"
proof -
  have s: "sectors_512 (elf_disk d)" unfolding elf_disk_def by (rule benos_disk) simp
  have "disk_bytes (elf_disk d) 432128 (length d) = take (length d) (drop 0 (elf_disk d 844))"
    by (rule disk_bytes_at [OF s]) (use assms in simp_all)
  also have "\<dots> = d" using assms by (simp add: elf_disk_def benos_disk_def)
  finally show "take (length d) (elf_contents d) = d"
    using take_disk_bytes [of "length d" 4096 "elf_disk d" 432128] assms by (simp add: elf_contents_def)
  show "length (elf_contents d) = 4096" by (simp add: elf_contents_def disk_bytes_def)
qed

lemma elf_state_heap: "kernel_heap (elf_state d) = kernel_heap fresh_kmem"
  by (simp add: elf_state_def mounted_state_def fstate.defs tstate.defs fresh_tstate_def kmem.defs)

lemma elf_state: "k_inv (elf_state d)" "0 < n \<Longrightarrow> run_count n (elf_state d) = 25600 div n"
  using fresh_kmem(1) fresh_runs [OF elf_state_heap] by (simp_all add: k_inv_def elf_state_heap)

lemma elf_loadable: "loadable (elf_disk d) (elf_state d) blank_path (elf_contents d) 0"
proof -
  have e: "disk_filesystem (elf_state d) = disk_filesystem (mounted_state d 0)"
    "volume (elf_state d) = volume (mounted_state d 0)"
    "file_descriptors (elf_state d) = file_descriptors (mounted_state d 0)"
    by (simp_all add: elf_state_def mounted_state_def fstate.defs tstate.defs volume_def)
  have "length (elf_contents d) = 4096" by (simp add: elf_contents_def disk_bytes_def)
  moreover have "components (drop 3 (cstr blank_path)) \<noteq> []" using blank_path(5) by simp
  ultimately show ?thesis
    unfolding loadable_def e using blank_path(1-4) mounted_state(1) [of d 0] mounted_state(5) [of 0 d] mounted_state(6) [of d 0]
    by (simp add: elf_contents_def elf_disk_def)
qed

lemma elf_room: "path_nodes blank_path + 5 < run_count (blocks_of (word_of_nat (length (elf_contents d)))) (elf_state d)"
proof -
  have "blocks_of (word_of_nat (length (elf_contents d)) :: u32) = 1"
    by (simp add: elf_contents_def disk_bytes_def blocks_of_def)
  then show ?thesis using elf_state(2) [of 1 d] by (simp add: path_nodes_def blank_path(5))
qed


lemma small_elf:
  obtains r where "elf_contents small_elf = small_elf @ r"
proof -
  have "take (length small_elf) (elf_contents small_elf) = small_elf"
    by (rule elf_contents(2)) (simp add: small_elf_def)
  then show ?thesis using that append_take_drop_id by metis
qed

lemma small_elf_fields:
  "elf_accepted (small_elf @ r)" "le32 (small_elf @ r) 28 = 52" "half (small_elf @ r) 44 = 1"
  "phdr_of (small_elf @ r) 52 = \<lparr>p_type = 1, p_offset = 0, p_vaddr = 0x400000, p_paddr = 0x400000,
     p_filesz = 84, p_memsz = 4096, p_flags = 5, p_align = 4096\<rparr>"
  by (simp_all add: small_elf_def elf_accepted_def elf_signature_def le32_def half_def phdr_of_def)

lemma small_elf_segments:
  "headers_inside (elf_contents small_elf)"
  "file_segments (elf_contents small_elf) = [\<lparr>p_type = 1, p_offset = 0, p_vaddr = 0x400000, p_paddr = 0x400000,
     p_filesz = 84, p_memsz = 4096, p_flags = 5, p_align = 4096\<rparr>]"
  "elf_accepted (elf_contents small_elf)"
proof -
  obtain r where r: "elf_contents small_elf = small_elf @ r" by (rule small_elf)
  have l: "length (small_elf @ r) = 4096" using elf_contents(1) [of small_elf] r by (simp add: small_elf_def)
  show "headers_inside (elf_contents small_elf)"
    unfolding headers_inside_def r l by (simp add: small_elf_fields)
  show "file_segments (elf_contents small_elf) = [\<lparr>p_type = 1, p_offset = 0, p_vaddr = 0x400000, p_paddr = 0x400000,
     p_filesz = 84, p_memsz = 4096, p_flags = 5, p_align = 4096\<rparr>]"
    by (simp add: file_segments_def r small_elf_fields PT_LOAD_def)
  show "elf_accepted (elf_contents small_elf)" by (simp add: r small_elf_fields)
qed

theorem elf_load_ok_witness:
  "\<exists>fl mem s' f. elf_load (elf_disk small_elf) (elf_state small_elf) blank_path = Some (0, Some fl, s') \<and>
     elf_files s' fl = Some f \<and> virt_base_address f = 0x400000 \<and> virt_end_address f = 0x400054 \<and>
     phys_base_address f = elf_mem f \<and> phys_end_address f = elf_mem f + 84"
proof -
  have "\<forall>g \<in> set (file_segments (elf_contents small_elf)). p_vaddr g \<noteq> 0" "file_segments (elf_contents small_elf) \<noteq> []"
    by (simp_all add: small_elf_segments(2))
  from elf_load_ok [OF elf_loadable elf_state(1) elf_room small_elf_segments(3,1) this(2,1)]
  show ?thesis by (auto simp: small_elf_segments(2) hull_def) force?
qed

theorem elf_load_close_witness:
  "\<exists>fl s1 s2. elf_load (elf_disk small_elf) (elf_state small_elf) blank_path = Some (0, Some fl, s1) \<and>
     elf_close s1 fl = Some s2 \<and> elf_files s2 = Map.empty"
  using elf_load_close [OF elf_loadable elf_state(1) elf_room small_elf_segments(3)]
  by (auto simp: elf_state_def fstate.defs estate.defs) blast?

lemma no_elf: "\<not> elf_accepted (elf_contents [0])"
proof -
  have "elf_contents [0] ! 0 = 0" using elf_contents(2) [of "[0]"] by (cases "elf_contents [0]") simp_all
  then show ?thesis by (cases "elf_contents [0]") (auto simp: elf_accepted_def elf_signature_def)
qed

theorem elf_load_hides_errors_witness:
  "\<exists>s'. elf_load (elf_disk [0]) (elf_state [0]) blank_path = Some (0, None, s')"
  using elf_load_hides_errors [OF elf_loadable elf_state(1) elf_room no_elf] by blast

end
