(* ===== verification/ProcessMem.thy ===== *)
theory ProcessMem
  imports Process ElfOk
begin

text \<open>
  Memory that a process asks for (\<open>task/process.c\<close>): \<open>process_malloc\<close> and \<open>process_free\<close> as operations on the
  heap, on the address space of the process and on its list of allocations.
\<close>

subsection \<open>Fields\<close>

lemma kzalloc_frame:
  assumes "kzalloc s sz = Some (p, s')"
  shows "s' = s\<lparr>kernel_heap := kernel_heap s', ram := ram s'\<rparr>"
  using kframe_more [OF kzalloc_more [OF assms]] by (cases s; cases s') simp

lemma kfree_frame:
  assumes "kfree s p = Some s'"
  shows "s' = s\<lparr>kernel_heap := kernel_heap s'\<rparr>"
  using kfree_more [OF assms] kframe_more [of s' s] by (cases s; cases s') simp

lemma set_process_simps [simp]:
  "kernel_heap (set_process s a p) = kernel_heap s" "ram (set_process s a p) = ram s" "tasks (set_process s a p) = tasks s"
  "elf_files (set_process s a p) = elf_files s" "processes (set_process s a p) = (processes s)(a \<mapsto> p)"
  "file_descriptors (set_process s a p) = file_descriptors s" "process_table (set_process s a p) = process_table s"
  "curr_process (set_process s a p) = curr_process s" "pool (set_process s a p) = pool s"
  "screen (set_process s a p) = screen s"
  by (simp_all add: set_process_def pool_def)

lemma k_set_process [simp]:
  "k_inv (set_process s a p) = k_inv s" "k_live (set_process s a p) = k_live s"
  "acquired s0 ps (set_process s a p) = acquired s0 ps s" "acquired (set_process s a p) ps s1 = acquired s ps s1"
  "chunk_dir (set_process s a p) c = chunk_dir s c" "page_of (set_process s a p) c w = page_of s c w"
  "space_pages (set_process s a p) c = space_pages s c" "space_ok (set_process s a p) c = space_ok s c"
  "keeps_but X s0 (set_process s a p) = keeps_but X s0 s" "keeps_but X (set_process s a p) s1 = keeps_but X s s1"
  "free_blocks (set_process s a p) = free_blocks s" "run_count n (set_process s a p) = run_count n s"
  by (simp_all add: k_inv_def k_live_def acquired_def pool_def chunk_dir_def page_of_def paging_get_def
      space_pages_def space_ok_def chunk_wf_def keeps_but_def free_blocks_def run_count_def free_runs_def
      block_count_def block_free_def cong del: if_weak_cong)

lemma k_ram_update [simp]: "k_inv (s\<lparr>ram := m\<rparr>) = k_inv s" "k_live (s\<lparr>ram := m\<rparr>) = k_live s"
  "acquired s0 ps (s\<lparr>ram := m\<rparr>) = acquired s0 ps s" "acquired (s\<lparr>ram := m\<rparr>) ps s1 = acquired s ps s1"
  "free_blocks (s\<lparr>ram := m\<rparr>) = free_blocks s" "run_count n (s\<lparr>ram := m\<rparr>) = run_count n s"
  by (simp_all add: k_inv_def k_live_def acquired_def pool_def free_blocks_def run_count_def free_runs_def
      block_count_def block_free_def cong del: if_weak_cong)

subsection \<open>Sizes and pages\<close>

lemma aligned_sum:
  fixes p sz :: u32
  assumes "unat p mod 4096 = 0" "unat p + blocks_of sz * 4096 < 4294967296" "0 < sz"
  shows "page_aligned (paging_align_address (p + sz))" "p < paging_align_address (p + sz)"
    "unat (paging_align_address (p + sz) - p) = blocks_of sz * 4096"
proof -
  let ?b = "blocks_of sz * 4096"
  have c: "unat sz \<le> ?b" by (rule blocks_of_covers)
  have pos: "0 < unat sz" using assms(3) by (simp add: word_less_nat_alt)
  have s: "unat (p + sz) = unat p + unat sz" using assms(2) c by (intro unat_add_u32) linarith
  have m: "unat ((p + sz) mod 4096) = unat sz mod 4096"
    using assms(1) by (simp add: unat_mod_distrib s) (metis add_0 mod_add_left_eq)
  have e: "unat (paging_align_address (p + sz)) = unat p + ?b"
  proof (cases "unat sz mod 4096 = 0")
    case True
    then have z: "(p + sz) mod 4096 = 0" using m by (simp add: unat_eq_0 [symmetric])
    then obtain q where q: "unat sz = 4096 * q" using True by auto
    have "(unat sz + 4095) div 4096 * 4096 = unat sz" unfolding q by simp
    then show ?thesis using z s by (simp add: paging_align_address_def PAGING_PAGE_SIZE_def blocks_of_def)
  next
    case False
    let ?r = "(p + sz) mod 4096"
    have nz: "?r \<noteq> 0" using False m by (metis unat_0)
    have r: "unat ?r = unat sz mod 4096" by (rule m)
    have b: "?b = unat sz - unat sz mod 4096 + 4096"
    proof -
      obtain q r where qr: "unat sz = 4096 * q + r" "r < 4096" by (metis mod_less_divisor mult_div_mod_eq zero_less_numeral)
      then have r0: "0 < r" using False by simp
      have "(4096 * q + r + 4095) div 4096 = q + 1"
        using r0 qr(2) div_nat_eqI [of 4096 "q + 1" "4096 * q + r + 4095"] by simp
      then show ?thesis using qr by (simp add: blocks_of_def)
    qed
    have x: "unat (p + sz - ?r) = unat p + unat sz - unat sz mod 4096"
      using r s by (subst unat_sub) (auto simp: word_le_nat_alt intro: le_trans [OF mod_less_eq_dividend])
    have le: "unat sz mod 4096 \<le> unat sz" and u: "unat (4096 :: u32) = 4096" by simp_all
    have "unat (p + sz - ?r) + unat (4096 :: u32) < 4294967296" using x b assms(2) le u by linarith
    then have "unat (p + sz - ?r + 4096) = unat p + unat sz - unat sz mod 4096 + 4096"
      using unat_add_u32 x u by metis
    then have "unat (p + sz + 4096 - ?r) = unat p + ?b"
      using b by (simp add: algebra_simps)
    then show ?thesis using nz by (simp add: paging_align_address_def PAGING_PAGE_SIZE_def)
  qed
  then show "page_aligned (paging_align_address (p + sz))" using assms(1) by (simp add: page_aligned_def mod_add_eq [symmetric])
  show l: "p < paging_align_address (p + sz)" using e c pos by (simp add: word_less_nat_alt)
  show "unat (paging_align_address (p + sz) - p) = ?b"
    using e l by (subst unat_sub) (simp_all add: word_le_nat_alt word_less_nat_alt)
qed

subsection \<open>Memory of a process\<close>

text \<open>The process \<open>proc\<close> is \<open>p\<close> and runs in the address space \<open>chunk\<close>.\<close>

definition runs_in :: "'z pstate_scheme \<Rightarrow> addr \<Rightarrow> process \<Rightarrow> addr \<Rightarrow> bool" where
  "runs_in s proc p chunk \<longleftrightarrow> processes s proc = Some p \<and> space_ok s chunk \<and>
     (\<exists>t. tasks s (proc_task p) = Some t \<and> page_directory t = chunk)"

lemma free_alloc_loop_result: "free_alloc_loop xs i = - ENOMEM \<or>
    (\<exists>k < length xs. free_alloc_loop xs i = i + int k \<and> alloc_ptr (xs ! k) = 0)"
proof (induction xs i rule: free_alloc_loop.induct)
  case (2 a xs i)
  show ?case
  proof (cases "alloc_ptr a = 0")
    case False
    from "2.IH" [OF False] show ?thesis
    proof (elim disjE exE conjE)
      fix k assume "k < length xs" "free_alloc_loop xs (i + 1) = i + 1 + int k" "alloc_ptr (xs ! k) = 0"
      then show ?thesis using False by (intro disjI2 exI [of _ "Suc k"]) simp
    qed (use False in simp)
  qed (auto intro!: exI [of _ 0])
qed simp

lemma find_free_alloc_index:
  assumes "0 \<le> process_find_free_alloc_index p"
  shows "nat (process_find_free_alloc_index p) < length (allocations p)"
    "alloc_ptr (allocations p ! nat (process_find_free_alloc_index p)) = 0"
  using free_alloc_loop_result [of "allocations p" 0] assms
  by (auto simp: process_find_free_alloc_index_def status_simps)

definition with_allocation :: "process \<Rightarrow> nat \<Rightarrow> addr \<Rightarrow> u32 \<Rightarrow> process" where
  "with_allocation p i ptr sz = p\<lparr>allocations := (allocations p)[i := \<lparr>alloc_ptr = ptr, alloc_size = sz\<rparr>]\<rparr>"

lemma flags_7: "PAGING_IS_WRITABLE OR PAGING_IS_PRESENT OR PAGING_ACCESS_FROM_ALL = 7"
  by (simp add: paging_consts)

lemma acquired_live_le: "acquired s ps s' \<Longrightarrow> k_live s \<subseteq>\<^sub>m k_live s'"
  by (rule acquired_keeps_le)

lemma process_malloc_run:
  assumes r: "runs_in s proc p chunk" and k: "k_inv s" "ok_size sz" "0 < run_count (blocks_of sz) s"
    and i: "process_find_free_alloc_index p = int i"
  obtains ptr h m where "process_malloc s proc sz =
      Some (ptr, (set_process s proc (with_allocation p i ptr sz))\<lparr>kernel_heap := h, ram := m\<rparr>)"
    "ptr \<noteq> 0" "acquired s [(ptr, blocks_of sz)] (s\<lparr>kernel_heap := h, ram := m\<rparr>)"
    "space_ok (s\<lparr>kernel_heap := h, ram := m\<rparr>) chunk"
    "space_pages (s\<lparr>kernel_heap := h, ram := m\<rparr>) chunk = space_pages s chunk"
    "keeps_but (set (space_pages s chunk)) s (s\<lparr>kernel_heap := h, ram := m\<rparr>)"
    "\<And>w. page_aligned w \<Longrightarrow> page_of (s\<lparr>kernel_heap := h, ram := m\<rparr>) chunk w =
       (if unat (w - ptr) < blocks_of sz * 4096 then w OR 7 else page_of s chunk w)"
    "\<And>a. unat (a - ptr) < unat sz \<Longrightarrow> m a = 0"
proof -
  obtain t where pr: "processes s proc = Some p" "space_ok s chunk" "tasks s (proc_task p) = Some t" "page_directory t = chunk"
    using r by (auto simp: runs_in_def)
  obtain ptr s1 where z: "kzalloc s sz = Some (ptr, s1)" "ptr \<noteq> 0" "acquired s [(ptr, blocks_of sz)] s1"
    by (rule kzalloc_run [OF k]) (rule that)
  note f1 = kzalloc_frame [OF z(1)]
  have k1: "k_inv s1" "k_live s1 ptr = Some (blocks_of sz)" "k_live s ptr = None"
    using acquiredD(1,5,6) [OF z(3)] by simp_all
  have keep: "keeps_but (set (space_pages s chunk)) s s1" "keeps_but {} s s1"
    using keeps_keeps_but [OF kzalloc_keeps [OF k(1,2) z(1)]] by blast+
  have le: "k_live s \<subseteq>\<^sub>m k_live s1" by (rule acquired_keeps_le [OF z(3)])
  note sp1 = space_keeps_but [OF k(1) pr(2) keep(2) _ le]
  have al: "unat ptr mod 4096 = 0" "unat ptr + blocks_of sz * 4096 < 4294967296"
    using kz.live_aligned [OF k1(1,2)] by simp_all
  have pos: "0 < sz" using k(2) by (simp add: ok_size_def word_neq_0_conv)
  note e = aligned_sum [OF al pos]
  have pa: "page_aligned ptr" using al(1) by (simp add: page_aligned_def)
  obtain m where mp: "paging_map_to s1 chunk ptr ptr (paging_align_address (ptr + sz)) 7 = (0, s1\<lparr>ram := m\<rparr>)"
      "space_ok (s1\<lparr>ram := m\<rparr>) chunk" "space_pages (s1\<lparr>ram := m\<rparr>) chunk = space_pages s1 chunk"
      "keeps_but (set (space_pages s1 chunk)) s1 (s1\<lparr>ram := m\<rparr>)"
      "\<And>w. page_aligned w \<Longrightarrow> page_of (s1\<lparr>ram := m\<rparr>) chunk w =
         (if unat (w - ptr) < unat (paging_align_address (ptr + sz) - ptr) then (ptr + (w - ptr)) OR 7
          else page_of s1 chunk w)"
    by (rule paging_map_to_space [OF k1(1) sp1(1) pa pa e(1,2), where f = 7]) auto
  let ?h = "kernel_heap s1"
  let ?t = "s\<lparr>kernel_heap := ?h, ram := m\<rparr>"
  have st: "s1\<lparr>ram := m\<rparr> = ?t" by (subst f1) simp
  have pr1: "processes s1 = processes s" "tasks s1 = tasks s" by (subst f1, simp)+
  have "wr (allocations p) (int i) \<lparr>alloc_ptr = ptr, alloc_size = sz\<rparr> =
      Some ((allocations p)[i := \<lparr>alloc_ptr = ptr, alloc_size = sz\<rparr>])"
    using find_free_alloc_index(1) [of p] i by (simp add: wr_nat)
  then have "process_malloc s proc sz = Some (ptr, set_process (s1\<lparr>ram := m\<rparr>) proc (with_allocation p i ptr sz))"
    using z(1,2) pr pr1 i mp(1) by (simp add: process_malloc_def flags_7 with_allocation_def)
  then have "process_malloc s proc sz = Some (ptr, (set_process s proc (with_allocation p i ptr sz))\<lparr>kernel_heap := ?h, ram := m\<rparr>)"
    by (simp add: st set_process_def)
  moreover have "acquired s [(ptr, blocks_of sz)] ?t" using z(3) unfolding st [symmetric] by simp
  moreover have "space_ok ?t chunk" "space_pages ?t chunk = space_pages s chunk"
    using mp(2,3) sp1(2) unfolding st [symmetric] by simp_all
  moreover have "keeps_but (set (space_pages s chunk)) s ?t"
    using keeps_but_trans [OF keep(1) _ le] mp(4) sp1(2) unfolding st [symmetric] by simp
  moreover have "page_of ?t chunk w = (if unat (w - ptr) < blocks_of sz * 4096 then w OR 7 else page_of s chunk w)"
    if "page_aligned w" for w
    using mp(5) [OF that] sp1(4) [OF _ that] e(3) unfolding st [symmetric] by simp
  moreover have "m a = 0" if "unat (a - ptr) < unat sz" for a
  proof -
    have "unat (a - ptr) < blocks_of sz * 4096" using that blocks_of_covers [of sz] by linarith
    moreover have "ptr \<notin> set (space_pages s1 chunk)" using pr(2) k1(3) sp1(2) by (auto simp: space_ok_def)
    ultimately have "ram (s1\<lparr>ram := m\<rparr>) a = ram s1 a" using keeps_butD [OF mp(4) k1(2)] by blast
    then show ?thesis using kzalloc_ram [OF z(1,2), of a] that by simp
  qed
  ultimately show ?thesis using that z(2) by blast
qed

lemma allocation_loop_ptr: "allocation_loop xs ptr = Some a \<Longrightarrow> alloc_ptr a = ptr"
  by (induction xs ptr rule: allocation_loop.induct) (auto split: if_splits)

lemma process_free_run:
  assumes r: "runs_in s proc p chunk" and k: "k_inv s"
    and a: "allocation_loop (allocations p) ptr = Some a" "0 < alloc_size a" "k_live s ptr = Some (blocks_of (alloc_size a))"
    and out: "ptr \<notin> set (space_pages s chunk)"
  obtains h m where "process_free s proc ptr =
      Some ((set_process s proc (process_allocation_ujoin p ptr))\<lparr>kernel_heap := h, ram := m\<rparr>)"
    "k_inv (s\<lparr>kernel_heap := h, ram := m\<rparr>)" "k_live (s\<lparr>kernel_heap := h, ram := m\<rparr>) = (k_live s)(ptr := None)"
    "space_ok (s\<lparr>kernel_heap := h, ram := m\<rparr>) chunk"
    "keeps_but (set (space_pages s chunk)) s (s\<lparr>kernel_heap := h, ram := m\<rparr>)"
    "\<And>w. page_aligned w \<Longrightarrow> page_of (s\<lparr>kernel_heap := h, ram := m\<rparr>) chunk w =
       (if unat (w - ptr) < blocks_of (alloc_size a) * 4096 then w else page_of s chunk w)"
proof -
  obtain t where pr: "processes s proc = Some p" "space_ok s chunk" "tasks s (proc_task p) = Some t" "page_directory t = chunk"
    using r by (auto simp: runs_in_def)
  have ap: "alloc_ptr a = ptr" by (rule allocation_loop_ptr [OF a(1)])
  have al: "unat ptr mod 4096 = 0" "unat ptr + blocks_of (alloc_size a) * 4096 < 4294967296"
    using kz.live_aligned [OF k a(3)] by simp_all
  note e = aligned_sum [OF al a(2)]
  have pa: "page_aligned ptr" using al(1) by (simp add: page_aligned_def)
  obtain m where mp: "paging_map_to s chunk ptr ptr (paging_align_address (ptr + alloc_size a)) 0 = (0, s\<lparr>ram := m\<rparr>)"
      "space_ok (s\<lparr>ram := m\<rparr>) chunk" "space_pages (s\<lparr>ram := m\<rparr>) chunk = space_pages s chunk"
      "keeps_but (set (space_pages s chunk)) s (s\<lparr>ram := m\<rparr>)"
      "\<And>w. page_aligned w \<Longrightarrow> page_of (s\<lparr>ram := m\<rparr>) chunk w =
         (if unat (w - ptr) < unat (paging_align_address (ptr + alloc_size a) - ptr) then (ptr + (w - ptr)) OR 0
          else page_of s chunk w)"
    by (rule paging_map_to_space [OF k pr(2) pa pa e(1,2), where f = 0]) auto
  let ?s1 = "set_process (s\<lparr>ram := m\<rparr>) proc (process_allocation_ujoin p ptr)"
  obtain s2 where f: "kfree ?s1 ptr = Some s2" "k_inv s2" "k_live s2 = (k_live ?s1)(ptr := None)"
    using kz.release_live [of ?s1 ptr] k a(3) by auto
  let ?h = "kernel_heap s2"
  have s2: "s2 = (set_process s proc (process_allocation_ujoin p ptr))\<lparr>kernel_heap := ?h, ram := m\<rparr>"
    by (subst kfree_frame [OF f(1)]) (simp add: set_process_def)
  have "process_free s proc ptr = Some s2"
    using pr a(1) ap mp(1) f(1) by (simp add: process_free_def process_get_allocation_by_addr_def)
  moreover have t: "k_inv (s\<lparr>kernel_heap := ?h, ram := m\<rparr>)" "k_live (s\<lparr>kernel_heap := ?h, ram := m\<rparr>) = (k_live s)(ptr := None)"
    using f(2,3) by (simp_all add: k_inv_def k_live_def)
  moreover have "space_ok (s\<lparr>kernel_heap := ?h, ram := m\<rparr>) chunk"
    using mp(2,3) out t(2) unfolding space_ok_def chunk_wf_def space_pages_def chunk_dir_def by auto
  moreover have "keeps_but (set (space_pages s chunk)) s (s\<lparr>kernel_heap := ?h, ram := m\<rparr>)"
    using mp(4) by (simp add: keeps_but_def)
  moreover have "page_of (s\<lparr>kernel_heap := ?h, ram := m\<rparr>) chunk w =
      (if unat (w - ptr) < blocks_of (alloc_size a) * 4096 then w else page_of s chunk w)" if "page_aligned w" for w
    using mp(5) [OF that] e(3) by (simp add: page_of_def paging_get_def chunk_dir_def)
  ultimately show ?thesis using that s2 by metis
qed

text \<open>The pointers that a process holds are live blocks outside of its address space structures.\<close>

definition allocations_live :: "'z pstate_scheme \<Rightarrow> process \<Rightarrow> bool" where
  "allocations_live s p \<longleftrightarrow> (\<forall>a \<in> set (allocations p). alloc_ptr a \<noteq> 0 \<longrightarrow> alloc_ptr a \<in> dom (k_live s))"

lemma allocation_loop_update:
  assumes "i < length xs" "\<forall>a \<in> set xs. alloc_ptr a \<noteq> ptr"
  shows "allocation_loop (xs[i := \<lparr>alloc_ptr = ptr, alloc_size = sz\<rparr>]) ptr = Some \<lparr>alloc_ptr = ptr, alloc_size = sz\<rparr>"
  using assms
proof (induction xs arbitrary: i)
  case (Cons a xs)
  then show ?case by (cases i) auto
qed simp

lemma ujoin_update:
  assumes "i < length (allocations p)" "\<forall>a \<in> set (allocations p). alloc_ptr a \<noteq> ptr"
  shows "process_allocation_ujoin (with_allocation p i ptr sz) ptr = with_allocation p i 0 0"
  using assms by (simp add: process_allocation_ujoin_def with_allocation_def)
    (intro arg_cong [where f = "\<lambda>x. p\<lparr>allocations := x\<rparr>"] nth_equalityI; auto simp: nth_list_update)

end
