(* ===== verification/ProcessMap.thy ===== *)
theory ProcessMap
  imports ProcessMem
begin

text \<open>
  The address space of a program (\<open>task/process.c\<close>): what \<open>process_map_elf\<close> and \<open>process_map_memory\<close>
  make of the program headers of a file, as a function from pages to page entries.
\<close>

subsection \<open>The address space of a program\<close>

text \<open>All program headers of a file: \<open>process_map_elf\<close> maps each of them, whatever its type.\<close>

definition all_phdrs :: "byte list \<Rightarrow> elf32_phdr list" where
  "all_phdrs c = map (\<lambda>i. phdr_of c (unat (le32 c 28) + 32 * i)) [0..<unat (half c 44)]"

definition lower_page :: "addr \<Rightarrow> addr" where
  "lower_page a = paging_align_to_lower_page a"

definition phdr_bytes :: "addr \<Rightarrow> elf32_phdr \<Rightarrow> nat" where
  "phdr_bytes mem g = unat (paging_align_address (mem + p_offset g + p_memsz g) - lower_page (mem + p_offset g))"

text \<open>The page entries after the headers \<open>gs\<close> of a file at \<open>mem\<close> have been mapped one after the other.\<close>

fun elf_space :: "addr \<Rightarrow> elf32_phdr list \<Rightarrow> (addr \<Rightarrow> u32) \<Rightarrow> addr \<Rightarrow> u32" where
  "elf_space mem [] pg w = pg w"
| "elf_space mem (g # gs) pg w = elf_space mem gs
     (\<lambda>w. if unat (w - lower_page (p_vaddr g)) < phdr_bytes mem g
          then (lower_page (mem + p_offset g) + (w - lower_page (p_vaddr g))) OR phdr_flags g else pg w) w"

text \<open>Every header describes a part of the file that is not empty.\<close>

definition phdrs_inside :: "byte list \<Rightarrow> bool" where
  "phdrs_inside c \<longleftrightarrow> (\<forall>g \<in> set (all_phdrs c). 0 < p_memsz g \<and> unat (p_offset g) + unat (p_memsz g) \<le> length c)"

lemma elf_space_cong: "(\<And>w. page_aligned w \<Longrightarrow> pg w = pg' w) \<Longrightarrow> page_aligned w \<Longrightarrow> elf_space mem gs pg w = elf_space mem gs pg' w"
proof (induction gs arbitrary: pg pg')
  case (Cons g gs)
  show ?case unfolding elf_space.simps by (rule Cons.IH) (simp_all add: Cons.prems)
qed simp

lemma ram_bytes_keeps:
  assumes "keeps_but X s s'" "k_live s mem = Some n" "mem \<notin> X" "l \<le> n * 4096" "n * 4096 < 4294967296"
  shows "ram_bytes (ram s') mem l = ram_bytes (ram s) mem l"
proof (rule nth_equalityI)
  fix i assume i: "i < length (ram_bytes (ram s') mem l)"
  have "unat (mem + of_nat i - mem) < n * 4096"
    using i assms(4,5) by (simp add: unat_of_nat_u32)
  then have "ram s' (mem + of_nat i) = ram s (mem + of_nat i)" by (rule keeps_butD [OF assms(1-3)])
  then show "ram_bytes (ram s') mem l ! i = ram_bytes (ram s) mem l ! i" using i by simp
qed simp

lemma lower_page_le: "unat (lower_page a) = unat a - unat a mod 4096"
proof -
  have "a mod 4096 \<le> a" by (simp add: word_le_nat_alt unat_mod_distrib)
  then show ?thesis
    by (simp add: lower_page_def paging_align_to_lower_page_def PAGING_PAGE_SIZE_def unat_sub unat_mod_distrib)
qed

lemma page_aligned_lower [simp]: "page_aligned (lower_page a)"
  unfolding lower_page_def by (rule lower_page)

lemma align_upper:
  assumes "unat a \<le> k * 4096" "k * 4096 < 4294967296"
  shows "page_aligned (paging_align_address a)" "unat a \<le> unat (paging_align_address a)"
    "unat (paging_align_address a) \<le> k * 4096"
proof -
  let ?r = "a mod 4096"
  have ur: "unat ?r = unat a mod 4096" by (simp add: unat_mod_distrib)
  have *: "page_aligned (paging_align_address a) \<and> unat a \<le> unat (paging_align_address a) \<and>
    unat (paging_align_address a) \<le> k * 4096"
  proof (cases "?r = 0")
    case True
    then show ?thesis using assms by (simp add: paging_align_address_def PAGING_PAGE_SIZE_def page_aligned_def ur [symmetric])
  next
    case False
    obtain q r where qr: "unat a = 4096 * q + r" "r < 4096" by (metis mod_less_divisor mult_div_mod_eq zero_less_numeral)
    have r: "unat ?r = r" using qr ur by simp
    have "unat ?r \<noteq> 0" using False unat_eq_0 by metis
    then have r0: "0 < r" using r by linarith
    have qk: "q < k" using assms(1) qr(1) r0 by linarith
    then have qb: "4096 * (q + 1) \<le> k * 4096" by simp
    have le: "?r \<le> a" using r qr by (simp add: word_le_nat_alt)
    have "unat (a - ?r) = 4096 * q" using unat_sub [OF le] r qr(1) by simp
    then have "unat (a - ?r + 4096) = 4096 * (q + 1)"
      using unat_add_u32 [of "a - ?r" 4096] qb assms(2) by simp
    moreover have "paging_align_address a = a - ?r + 4096" using False by (simp add: paging_align_address_def PAGING_PAGE_SIZE_def)
    ultimately show ?thesis using qb qr by (simp add: page_aligned_def)
  qed
  show "page_aligned (paging_align_address a)" "unat a \<le> unat (paging_align_address a)"
    "unat (paging_align_address a) \<le> k * 4096" using * by simp_all
qed

lemma phdr_range:
  assumes "k_inv s" "k_live s mem = Some n" "length c \<le> n * 4096" "0 < p_memsz g"
    "unat (p_offset g) + unat (p_memsz g) \<le> length c"
  shows "page_aligned (paging_align_address (mem + p_offset g + p_memsz g))"
    "lower_page (mem + p_offset g) < paging_align_address (mem + p_offset g + p_memsz g)"
proof -
  have l: "unat mem mod 4096 = 0" "unat mem + n * 4096 < 4294967296" using kz.live_aligned [OF assms(1,2)] by simp_all
  have m: "0 < unat (p_memsz g)" using assms(4) by (simp add: word_less_nat_alt)
  have o: "unat (mem + p_offset g) = unat mem + unat (p_offset g)"
    using l(2) assms(3,5) by (intro unat_add_u32) linarith
  have e: "unat (mem + p_offset g + p_memsz g) = unat mem + unat (p_offset g) + unat (p_memsz g)"
    using l(2) assms(3,5) by (subst unat_add_u32) (simp_all add: o)
  obtain q where q: "unat mem = 4096 * q" using l(1) by auto
  have k: "(q + n) * 4096 = unat mem + n * 4096" using q by simp
  have "unat (mem + p_offset g + p_memsz g) \<le> (q + n) * 4096" "(q + n) * 4096 < 4294967296"
    unfolding k e using assms(3,5) l(2) by linarith+
  note a = align_upper [OF this]
  show "page_aligned (paging_align_address (mem + p_offset g + p_memsz g))" by (rule a(1))
  show "lower_page (mem + p_offset g) < paging_align_address (mem + p_offset g + p_memsz g)"
    using a(2) m by (simp add: word_less_nat_alt lower_page_le o e)
qed

text \<open>The file \<open>c\<close> lies in the block at \<open>mem\<close>, outside of the address space structures of \<open>chunk\<close>.\<close>

definition file_at :: "'z kmem_scheme \<Rightarrow> addr \<Rightarrow> byte list \<Rightarrow> addr \<Rightarrow> bool" where
  "file_at s mem c chunk \<longleftrightarrow> mem \<notin> set (space_pages s chunk) \<and> ram_bytes (ram s) mem (length c) = c \<and>
     (\<exists>n. k_live s mem = Some n \<and> length c \<le> n * 4096)"

lemma file_at_keeps:
  assumes "k_inv s" "file_at s mem c chunk" "keeps_but (set (space_pages s chunk)) s s'"
    "space_pages s' chunk = space_pages s chunk" "k_live s \<subseteq>\<^sub>m k_live s'"
  shows "file_at s' mem c chunk"
proof -
  obtain n where n: "k_live s mem = Some n" "length c \<le> n * 4096" "mem \<notin> set (space_pages s chunk)"
      "ram_bytes (ram s) mem (length c) = c"
    using assms(2) by (auto simp: file_at_def)
  have "n * 4096 < 4294967296" using kz.live_aligned [OF assms(1) n(1)] by simp
  from ram_bytes_keeps [OF assms(3) n(1,3,2) this] show ?thesis
    using n assms(4,5) by (auto simp: file_at_def map_le_def dom_def)
qed

declare map_elf_loop.simps [simp del]

lemma map_elf_loop_run:
  assumes "k_inv s" "space_ok s chunk" "file_at s mem c chunk" "headers_inside c" "le32 c 28 \<noteq> 0" "phdrs_inside c"
    "elf_mem f = mem" "i \<le> length (all_phdrs c)"
  shows "\<exists>m. map_elf_loop (int i) 0 s chunk f (mem + le32 c 28) = (0, s\<lparr>ram := m\<rparr>) \<and> space_ok (s\<lparr>ram := m\<rparr>) chunk \<and>
    space_pages (s\<lparr>ram := m\<rparr>) chunk = space_pages s chunk \<and> keeps_but (set (space_pages s chunk)) s (s\<lparr>ram := m\<rparr>) \<and>
    (\<forall>w. page_aligned w \<longrightarrow> page_of (s\<lparr>ram := m\<rparr>) chunk w = elf_space mem (drop i (all_phdrs c)) (page_of s chunk) w)"
  using assms(1-3,8)
proof (induction "length (all_phdrs c) - i" arbitrary: i s)
  case (0 i s)
  obtain n where n: "k_live s mem = Some n" "length c \<le> n * 4096" "ram_bytes (ram s) mem (length c) = c"
    using "0.prems"(3) by (auto simp: file_at_def)
  note ph = program_headers_file [OF n(3) assms(4,5)]
  have e: "unat (e_phnum (elf32_header_at (ram s) mem)) = length (all_phdrs c)"
    using arg_cong [OF ph, of length] by (simp add: program_headers_def all_phdrs_def)
  have "i = length (all_phdrs c)" using 0 by simp
  then have "map_elf_loop (int i) 0 s chunk f (mem + le32 c 28) = (0, s\<lparr>ram := ram s\<rparr>)"
    using e assms(7) by (subst map_elf_loop.simps) (simp add: elf_header_def flip: int_unat)
  then show ?case using "0.prems" \<open>i = _\<close> by (intro exI [of _ "ram s"]) (simp add: keeps_but_refl)
next
  case (Suc x i s)
  obtain n where n: "k_live s mem = Some n" "length c \<le> n * 4096" "ram_bytes (ram s) mem (length c) = c"
    using Suc.prems(3) by (auto simp: file_at_def)
  note ph = program_headers_file [OF n(3) assms(4,5)]
  have e: "unat (e_phnum (elf32_header_at (ram s) mem)) = length (all_phdrs c)"
    using arg_cong [OF ph, of length] by (simp add: program_headers_def all_phdrs_def)
  have i: "i < length (all_phdrs c)" using Suc.hyps(2) Suc.prems(4) by simp
  let ?g = "all_phdrs c ! i"
  have "28 + 4 \<le> length c" using assms(4) by (simp add: headers_inside_def)
  from load32_in [OF n(3) this] have off: "e_phoff (elf32_header_at (ram s) mem) = le32 c 28"
    by (simp add: elf32_header_at_def)
  have "program_headers (ram s) mem ! i = elf32_phdr_at (ram s) (elf_program_header (ram s) mem (int i))"
    using i e by (simp add: program_headers_def)
  then have g: "elf32_phdr_at (ram s) (mem + le32 c 28 + word_of_int (32 * int i)) = ?g"
    using ph assms(5) by (simp add: all_phdrs_def elf_program_header_def elf_pheader_def off)
  have gi: "0 < p_memsz ?g" "unat (p_offset ?g) + unat (p_memsz ?g) \<le> length c"
    using assms(6) i by (auto simp: phdrs_inside_def)
  note rg = phdr_range [OF Suc.prems(1) n(1,2) gi]
  obtain m where mp: "paging_map_to s chunk (lower_page (p_vaddr ?g)) (lower_page (mem + p_offset ?g))
        (paging_align_address (mem + p_offset ?g + p_memsz ?g)) (phdr_flags ?g) = (0, s\<lparr>ram := m\<rparr>)"
      "space_ok (s\<lparr>ram := m\<rparr>) chunk" "space_pages (s\<lparr>ram := m\<rparr>) chunk = space_pages s chunk"
      "keeps_but (set (space_pages s chunk)) s (s\<lparr>ram := m\<rparr>)"
      "\<And>w. page_aligned w \<Longrightarrow> page_of (s\<lparr>ram := m\<rparr>) chunk w =
         (if unat (w - lower_page (p_vaddr ?g)) < phdr_bytes mem ?g
          then (lower_page (mem + p_offset ?g) + (w - lower_page (p_vaddr ?g))) OR phdr_flags ?g else page_of s chunk w)"
    by (rule paging_map_to_space [OF Suc.prems(1,2) page_aligned_lower page_aligned_lower rg, where f = "phdr_flags ?g"])
      (auto simp: phdr_bytes_def)
  let ?s1 = "s\<lparr>ram := m\<rparr>"
  have k1: "k_inv ?s1" using Suc.prems(1) by simp
  have f1: "file_at ?s1 mem c chunk"
    by (rule file_at_keeps [OF Suc.prems(1,3) mp(4,3)]) simp
  have x: "x = length (all_phdrs c) - Suc i" "Suc i \<le> length (all_phdrs c)" using Suc.hyps(2) i by simp_all
  obtain m2 where ih: "map_elf_loop (int (Suc i)) 0 ?s1 chunk f (mem + le32 c 28) = (0, ?s1\<lparr>ram := m2\<rparr>)"
      "space_ok (?s1\<lparr>ram := m2\<rparr>) chunk" "space_pages (?s1\<lparr>ram := m2\<rparr>) chunk = space_pages ?s1 chunk"
      "keeps_but (set (space_pages ?s1 chunk)) ?s1 (?s1\<lparr>ram := m2\<rparr>)"
      "\<forall>w. page_aligned w \<longrightarrow> page_of (?s1\<lparr>ram := m2\<rparr>) chunk w = elf_space mem (drop (Suc i) (all_phdrs c)) (page_of ?s1 chunk) w"
    using Suc.hyps(1) [OF x(1) k1 mp(2) f1 x(2)] by blast
  have up: "?s1\<lparr>ram := m2\<rparr> = s\<lparr>ram := m2\<rparr>" by simp
  have "map_elf_loop (int i) 0 s chunk f (mem + le32 c 28) = map_elf_loop (int i + 1) 0 ?s1 chunk f (mem + le32 c 28)"
    using i e assms(7) g mp(1) by (subst map_elf_loop.simps)
      (simp add: elf_header_def elf_phdr_phys_address_def elf_memory_def lower_page_def Let_def flip: int_unat)
  then have "map_elf_loop (int i) 0 s chunk f (mem + le32 c 28) = (0, s\<lparr>ram := m2\<rparr>)"
    using ih(1) by (simp add: add.commute)
  moreover have "keeps_but (set (space_pages s chunk)) s (s\<lparr>ram := m2\<rparr>)"
    using keeps_but_trans [OF mp(4), of "?s1\<lparr>ram := m2\<rparr>"] ih(4) mp(3) unfolding up by simp
  moreover have "page_of (s\<lparr>ram := m2\<rparr>) chunk w = elf_space mem (drop i (all_phdrs c)) (page_of s chunk) w"
    if "page_aligned w" for w
  proof -
    have "page_of (s\<lparr>ram := m2\<rparr>) chunk w = elf_space mem (drop (Suc i) (all_phdrs c)) (page_of ?s1 chunk) w"
      using ih(5) that unfolding up by blast
    also have "\<dots> = elf_space mem (?g # drop (Suc i) (all_phdrs c)) (page_of s chunk) w"
      unfolding elf_space.simps by (rule elf_space_cong [OF mp(5) that])
    finally show ?thesis using Cons_nth_drop_Suc [OF i] by simp
  qed
  ultimately show ?case using ih(2,3) mp(3) unfolding up by (intro exI [of _ m2]) simp
qed

definition stack_space :: "addr \<Rightarrow> (addr \<Rightarrow> u32) \<Rightarrow> addr \<Rightarrow> u32" where
  "stack_space stk pg w = (if unat (w - 0x3FB000) < 16384 then (stk + (w - 0x3FB000)) OR 7 else pg w)"

lemma process_map_elf_run:
  assumes "k_inv s" "runs_in s proc p chunk" "elf_files s (proc_data p) = Some f" "elf_mem f = mem"
    "file_at s mem c chunk" "headers_inside c" "le32 c 28 \<noteq> 0" "phdrs_inside c"
  shows "\<exists>m. process_map_elf s proc = Some (0, s\<lparr>ram := m\<rparr>) \<and> space_ok (s\<lparr>ram := m\<rparr>) chunk \<and>
    space_pages (s\<lparr>ram := m\<rparr>) chunk = space_pages s chunk \<and> keeps_but (set (space_pages s chunk)) s (s\<lparr>ram := m\<rparr>) \<and>
    (\<forall>w. page_aligned w \<longrightarrow> page_of (s\<lparr>ram := m\<rparr>) chunk w = elf_space mem (all_phdrs c) (page_of s chunk) w)"
proof -
  obtain t where pr: "processes s proc = Some p" "space_ok s chunk" "tasks s (proc_task p) = Some t" "page_directory t = chunk"
    using assms(2) by (auto simp: runs_in_def)
  have b: "ram_bytes (ram s) mem (length c) = c" using assms(5) by (auto simp: file_at_def)
  have "28 + 4 \<le> length c" using assms(6) by (simp add: headers_inside_def)
  from load32_in [OF b this] have off: "e_phoff (elf32_header_at (ram s) mem) = le32 c 28"
    by (simp add: elf32_header_at_def)
  from map_elf_loop_run [OF assms(1) pr(2) assms(5-8,4), of 0] show ?thesis
    using pr assms(3,4,7) by (simp add: process_map_elf_def elf_header_def elf_pheader_def off)
qed

lemma blocks_stack [simp]: "blocks_of BENOS_USER_PROGRAM_STACK_SIZE = 4" "ok_size BENOS_USER_PROGRAM_STACK_SIZE"
  by (simp_all add: blocks_of_def ok_size_def status_simps)

lemma process_map_memory_run:
  assumes "k_inv s" "runs_in s proc p chunk" "elf_files s (proc_data p) = Some f" "elf_mem f = mem"
    "file_at s mem c chunk" "headers_inside c" "le32 c 28 \<noteq> 0" "phdrs_inside c"
    and t: "filetype p = PROCESS_FILETYPE_ELF" "proc_size p = 0" "page_aligned (proc_data p)"
    and stk: "k_live s (proc_stack p) = Some 4"
  shows "\<exists>m. process_map_memory s proc = Some (Inr (0, s\<lparr>ram := m\<rparr>)) \<and> space_ok (s\<lparr>ram := m\<rparr>) chunk \<and>
    space_pages (s\<lparr>ram := m\<rparr>) chunk = space_pages s chunk \<and> keeps_but (set (space_pages s chunk)) s (s\<lparr>ram := m\<rparr>) \<and>
    (\<forall>w. page_aligned w \<longrightarrow> page_of (s\<lparr>ram := m\<rparr>) chunk w =
      stack_space (proc_stack p) (elf_space mem (all_phdrs c) (page_of s chunk)) w)"
proof -
  obtain u where pr: "processes s proc = Some p" "space_ok s chunk" "tasks s (proc_task p) = Some u" "page_directory u = chunk"
    using assms(2) by (auto simp: runs_in_def)
  obtain m where e: "process_map_elf s proc = Some (0, s\<lparr>ram := m\<rparr>)" "space_ok (s\<lparr>ram := m\<rparr>) chunk"
      "space_pages (s\<lparr>ram := m\<rparr>) chunk = space_pages s chunk" "keeps_but (set (space_pages s chunk)) s (s\<lparr>ram := m\<rparr>)"
      "\<And>w. page_aligned w \<Longrightarrow> page_of (s\<lparr>ram := m\<rparr>) chunk w = elf_space mem (all_phdrs c) (page_of s chunk) w"
    using process_map_elf_run [OF assms(1-8)] by blast
  let ?s1 = "s\<lparr>ram := m\<rparr>"
  have "paging_align_address (proc_data p) = proc_data p"
    using t(3) by (simp add: paging_align_address_def page_aligned_mod)
  then have b: "process_map_binary ?s1 proc = Some (0, ?s1)"
    using pr t(2) paging_map_to_refuses [of ?s1 chunk BENOS_PROGRAM_VIRTUAL_ADDRESS "proc_data p" "proc_data p"]
    by (simp add: process_map_binary_def)
  have al: "unat (proc_stack p) mod 4096 = 0" "unat (proc_stack p) + 4 * 4096 < 4294967296"
    using kz.live_aligned [OF assms(1) stk] by simp_all
  note se = aligned_sum [OF al(1), of BENOS_USER_PROGRAM_STACK_SIZE]
  have ss: "page_aligned (paging_align_address (proc_stack p + BENOS_USER_PROGRAM_STACK_SIZE))"
    "proc_stack p < paging_align_address (proc_stack p + BENOS_USER_PROGRAM_STACK_SIZE)"
    "unat (paging_align_address (proc_stack p + BENOS_USER_PROGRAM_STACK_SIZE) - proc_stack p) = 16384"
    using se al(2) by (simp_all add: status_simps blocks_of_def)
  have pa: "page_aligned (proc_stack p)" using al(1) by (simp add: page_aligned_def)
  have va: "page_aligned (0x3FB000 :: addr)" by (simp add: page_aligned_def)
  have k1: "k_inv ?s1" using assms(1) by simp
  obtain m2 where mp: "paging_map_to ?s1 chunk 0x3FB000 (proc_stack p)
        (paging_align_address (proc_stack p + BENOS_USER_PROGRAM_STACK_SIZE)) 7 = (0, ?s1\<lparr>ram := m2\<rparr>)"
      "space_ok (?s1\<lparr>ram := m2\<rparr>) chunk" "space_pages (?s1\<lparr>ram := m2\<rparr>) chunk = space_pages ?s1 chunk"
      "keeps_but (set (space_pages ?s1 chunk)) ?s1 (?s1\<lparr>ram := m2\<rparr>)"
      "\<And>w. page_aligned w \<Longrightarrow> page_of (?s1\<lparr>ram := m2\<rparr>) chunk w = stack_space (proc_stack p) (page_of ?s1 chunk) w"
    by (rule paging_map_to_space [OF k1 e(2) va pa ss(1,2), where f = 7]) (auto simp: stack_space_def ss(3))
  have up: "?s1\<lparr>ram := m2\<rparr> = s\<lparr>ram := m2\<rparr>" by simp
  have fl: "PAGING_IS_PRESENT OR PAGING_ACCESS_FROM_ALL OR PAGING_IS_WRITABLE = 7" by (simp add: paging_consts)
  have ed: "BENOS_PROGRAM_VIRTUAL_STACK_ADDRESS_END = 0x3FB000" by (simp add: status_simps)
  have "process_map_memory s proc = Some (Inr (0, s\<lparr>ram := m2\<rparr>))"
    using pr e(1) b mp(1) t(1) unfolding up by (simp add: process_map_memory_def fl ed)
  moreover have "keeps_but (set (space_pages s chunk)) s (s\<lparr>ram := m2\<rparr>)"
    using keeps_but_trans [OF e(4), of "?s1\<lparr>ram := m2\<rparr>"] mp(4) e(3) unfolding up by simp
  moreover have "page_of (s\<lparr>ram := m2\<rparr>) chunk w = stack_space (proc_stack p) (elf_space mem (all_phdrs c) (page_of s chunk)) w"
    if "page_aligned w" for w
    using mp(5) [OF that] e(5) [OF that] unfolding up by (simp add: stack_space_def)
  ultimately show ?thesis using mp(2,3) e(3) unfolding up by (intro exI [of _ m2]) simp
qed

end
