(* ===== verification/ProcessOk.thy ===== *)
theory ProcessOk
  imports ProcessMap
begin

text \<open>
  Loading a process (\<open>task/process.c\<close>): \<open>process_load\<close> on a file of the volume, what the program then
  sees in its address space, memory on request, and the count of the arguments.
\<close>

subsection \<open>Loading a program\<close>

lemma elf_outer_fields:
  assumes "elf_outer s' = elf_outer (s :: 'z estate_scheme)"
  shows "tasks s' = tasks s" "current_task s' = current_task s" "task_head s' = task_head s" "task_tail s' = task_tail s"
    "kernel_chunk s' = kernel_chunk s" "cr3 s' = cr3 s" "estate.more s' = estate.more s"
    "the_disk s' = the_disk s" "disk_filesystem s' = disk_filesystem s" "filesystems s' = filesystems s"
  using assms by (simp_all add: elf_outer_def outer_def) (cases s; cases s'; simp)+

lemma upper_fields:
  assumes "estate.more s' = estate.more (s :: 'z pstate_scheme)"
  shows "processes s' = processes s" "process_table s' = process_table s" "curr_process s' = curr_process s"
    "screen s' = screen s" "pstate.more s' = pstate.more s"
  using assms by (cases s; cases s'; simp)+

lemma estate_more_k: "kframe s' = kframe s \<Longrightarrow> estate.more s' = estate.more s \<and> elf_files s' = elf_files s"
  by (drule kframe_more) (cases s; cases s'; simp)

lemma tstate_more_fields:
  assumes "tstate.more s' = tstate.more (s :: 'z estate_scheme)"
  shows "file_descriptors s' = file_descriptors s" "volume s' = volume s" "elf_files s' = elf_files s"
    "estate.more s' = estate.more s" "disk_filesystem s' = disk_filesystem s"
  using assms by (cases s; cases s'; simp add: volume_def)+

text \<open>Room for a process whose file has \<open>n\<close> blocks and whose path has \<open>k\<close> nodes.\<close>

definition load_room :: "'z kmem_scheme \<Rightarrow> nat \<Rightarrow> nat \<Rightarrow> bool" where
  "load_room s k n \<longleftrightarrow> 0 < run_count 3 s \<and> k + 8 < run_count n s \<and> k + n + 4 < run_count 4 s \<and>
     k + n + 1035 \<le> free_blocks s"

text \<open>What a loaded process looks like.\<close>

definition new_process :: "byte list \<Rightarrow> addr \<Rightarrow> addr \<Rightarrow> addr \<Rightarrow> process" where
  "new_process path fl stk task = zero_process\<lparr>proc_filename := strncpy_text path 108 @ 0 #
       drop (Suc (length (strncpy_text path 108))) (replicate 108 0),
     proc_task := task, filetype := PROCESS_FILETYPE_ELF, proc_data := fl, proc_stack := stk\<rparr>"

text \<open>
  \<open>proc\<close> is a process that has been loaded from the file \<open>c\<close>: the file is in memory, its program
  headers and the stack are mapped over the identity mapping of the kernel, and the task starts at the
  entry point of the file.
\<close>

definition process_loaded ::
  "byte list \<Rightarrow> byte list \<Rightarrow> 'z pstate_scheme \<Rightarrow> addr \<Rightarrow> addr \<Rightarrow> addr \<Rightarrow> addr \<Rightarrow> addr \<Rightarrow> addr \<Rightarrow> bool" where
  "process_loaded path c s proc fl mem stk task chunk \<longleftrightarrow>
     runs_in s proc (new_process path fl stk task) chunk \<and> file_at s mem c chunk \<and>
     (\<exists>f. elf_files s fl = Some f \<and> elf_mem f = mem) \<and>
     (\<exists>t. tasks s task = Some t \<and> registers t = initial_registers (Some (le32 c 24)) \<and>
       page_directory t = chunk \<and> Task.task.process t = proc) \<and>
     (\<forall>a. unat (a - stk) < 16384 \<longrightarrow> ram s a = 0) \<and>
     (\<forall>w. page_aligned w \<longrightarrow> page_of s chunk w = stack_space stk (elf_space mem (all_phdrs c) (\<lambda>w. w OR 5)) w)"

lemma sizeof_process [simp]: "ok_size sizeof_process" "blocks_of sizeof_process = 3"
  by (simp_all add: sizeof_process_def ok_size_def blocks_of_def)

lemma load_room_steps:
  assumes "k_inv s" "load_room s k n" "0 < n"
  shows "acquired s ps s1 \<Longrightarrow> blocks ps = 3 \<Longrightarrow> k + 5 < run_count n s1"
    "acquired s ps s1 \<Longrightarrow> blocks ps = k + n + 4 \<Longrightarrow> 0 < run_count 4 s1"
    "acquired s ps s1 \<Longrightarrow> blocks ps = k + n + 8 \<Longrightarrow> 1027 \<le> free_blocks s1"
  using run_count_acquired [OF assms(1), of ps s1 n] run_count_acquired [OF assms(1), of ps s1 4]
    free_blocks_acquired [OF assms(1), of ps s1] assms(2,3)
  by (simp_all add: load_room_def)

lemma loadable_cong:
  assumes "volume s' = volume s" "file_descriptors s' = file_descriptors s"
  shows "loadable dev s' path c i = loadable dev s path c i"
  using assms by (simp add: loadable_def volume_def)

lemma volume_set_process [simp]: "volume (set_process s a p) = volume s"
  by (simp add: set_process_def volume_def)


text \<open>What loading a program leaves alone.\<close>

definition load_frame :: "device \<Rightarrow> 'z pstate_scheme \<Rightarrow> 'z pstate_scheme \<Rightarrow> bool" where
  "load_frame dev s s' \<longleftrightarrow> process_table s' = process_table s \<and> curr_process s' = curr_process s \<and>
     screen s' = screen s \<and> pstate.more s' = pstate.more s \<and> file_descriptors s' = file_descriptors s \<and>
     disk_filesystem s' = disk_filesystem s \<and> kernel_chunk s' = kernel_chunk s \<and> cr3 s' = cr3 s \<and>
     tasks_kept s s' \<and> (\<forall>q c'. fat_file dev (volume s) q c' \<longrightarrow> fat_file dev (volume s') q c')"

lemma acquired_blocks_k: "acquired s ps s1 \<Longrightarrow> acquired s1 qs s2 \<Longrightarrow> acquired s (ps @ qs) s2 \<and> blocks (ps @ qs) = blocks ps + blocks qs"
  using acquired_trans by auto

lemma keeps_set_process [simp]: "keeps s0 (set_process s a p) = keeps s0 s" "keeps (set_process s a p) s1 = keeps s s1"
  by (simp_all add: keeps_def)

text \<open>The blocks of a loaded process.\<close>

definition load_blocks ::
  "nat \<Rightarrow> addr \<Rightarrow> addr \<Rightarrow> addr \<Rightarrow> addr \<Rightarrow> addr \<Rightarrow> addr list \<Rightarrow> (addr \<times> nat) list \<Rightarrow> bool" where
  "load_blocks n proc fl mem stk task pages ps \<longleftrightarrow>
     (\<exists>ns qs. ps = ((proc, 3) # (fl, 1) # singles ns @ [(mem, n), (stk, 4)]) @ singles qs \<and>
        set qs = insert task (set pages) \<and> length qs = 1027)"

lemma process_load_run:
  assumes l: "loadable dev s path c i" and k: "k_inv s" and room: "load_room s (path_nodes path) (blocks_of (word_of_nat (length c)))"
    and c: "elf_accepted c" "headers_inside c" "phdrs_inside c" and pt: "process_table s = 0 # pts"
    and ts: "task_list s xs" "prev_ok s xs" "tasks_live s"
  shows "\<exists>proc fl mem stk task chunk ps s'. process_load dev s path = Some (Inr (0, Some proc, s')) \<and>
    process_loaded path c s' proc fl mem stk task chunk \<and> keeps s s' \<and>
    acquired s ps s' \<and> blocks ps = path_nodes path + blocks_of (word_of_nat (length c)) + 1035 \<and>
    task_list s' (xs @ [task]) \<and> prev_ok s' (xs @ [task]) \<and> tasks_live s' \<and>
    current_task s' = (if xs = [] then task else current_task s) \<and> load_frame dev s s' \<and>
    processes s' = (processes s)(proc \<mapsto> new_process path fl stk task) \<and>
    load_blocks (blocks_of (word_of_nat (length c))) proc fl mem stk task (space_pages s' chunk) ps"
proof -
  let ?n = "blocks_of (word_of_nat (length c))"
  have len: "52 \<le> length c" "length c < 2147483648" "terminated path" using l by (simp_all add: loadable_def)
  have lc: "0 < length c" using len(1) by linarith
  note rq = length_request [OF lc len(2)]
  have n: "0 < ?n" using rq(1) by (simp add: blocks_of_def rq(2)) (use lc in linarith)
  have r3: "0 < run_count (blocks_of sizeof_process) s" using room by (simp add: load_room_def)
  obtain proc s1 where z: "kzalloc s sizeof_process = Some (proc, s1)" "proc \<noteq> 0" "acquired s [(proc, 3)] s1"
    using kzalloc_run [OF k sizeof_process(1) r3] by auto
  note m1 = fstate_more [OF kzalloc_more [OF z(1)]] tstate_more [OF kzalloc_more [OF z(1)]]
    estate_more_k [OF kzalloc_more [OF z(1)]]
  note u1 = upper_fields [OF conjunct1 [OF m1(13)]]
  let ?s1 = "set_process s1 proc zero_process"
  have l1: "loadable dev ?s1 path c i" using l loadable_cong [of ?s1 s] m1(1,2) by simp
  have k1: "k_inv ?s1" using acquiredD(1) [OF z(3)] by simp
  have ac1: "acquired s [(proc, 3)] ?s1" using z(3) by simp
  have "path_nodes path + 5 < run_count ?n ?s1" using load_room_steps(1) [OF k room n ac1] by simp
  from elf_load_run [OF l1 k1 this] obtain fl mem ns s2 where
      e: "elf_load dev ?s1 path = Some (0, Some fl, s2)" "elf_loaded ?s1 path c fl mem ns s2"
      "\<forall>q c'. fat_file dev (volume ?s1) q c' \<longrightarrow> fat_file dev (volume s2) q c'"
    using c(1) by auto
  have ac2: "acquired s ((proc, 3) # (fl, 1) # singles ns @ [(mem, ?n)]) s2" "keeps ?s1 s2"
      "ram_bytes (ram s2) mem (length c) = c" "elf_outer s2 = elf_outer ?s1" "length ns = path_nodes path"
      "file_descriptors s2 = file_descriptors ?s1"
    using e(2) acquired_trans [OF ac1] by (auto simp: elf_loaded_def)
  note o2 = elf_outer_fields [OF ac2(4)]
  note u2 = upper_fields [OF o2(7)]
  obtain f where f: "elf_files s2 fl = Some f" "elf_mem f = mem" using elf_loaded_mem [OF e(2) len(1)] by blast
  have pc2: "processes s2 proc = Some zero_process" using u2(1) by simp
  let ?p2 = "zero_process\<lparr>filetype := PROCESS_FILETYPE_ELF, proc_data := fl\<rparr>"
  let ?s2 = "set_process s2 proc ?p2"
  have data: "process_load_data dev (process_init s1 proc) path proc = Some (0, ?s2)"
    using e(1) pc2 by (simp add: process_load_data_def process_load_elf_def process_init_def status_simps)
  have k2: "k_inv ?s2" using acquiredD(1) [OF ac2(1)] by simp
  have "0 < run_count 4 ?s2" using load_room_steps(2) [OF k room n ac2(1)] ac2(5) by simp
  then obtain stk s3 where st: "kzalloc ?s2 BENOS_USER_PROGRAM_STACK_SIZE = Some (stk, s3)" "stk \<noteq> 0" "acquired ?s2 [(stk, 4)] s3"
    using kzalloc_run [OF k2 blocks_stack(2)] blocks_stack(1) by metis
  note m3 = fstate_more [OF kzalloc_more [OF st(1)]] tstate_more [OF kzalloc_more [OF st(1)]]
    estate_more_k [OF kzalloc_more [OF st(1)]]
  note u3 = upper_fields [OF conjunct1 [OF m3(13)]]
  have ac3: "acquired s ((proc, 3) # (fl, 1) # singles ns @ [(mem, ?n), (stk, 4)]) s3"
    using acquired_trans [OF ac2(1)] st(3) by fastforce
  have pc3: "processes s3 proc = Some ?p2" using u3(1) by simp
  have "length (strncpy_text path 108) < 108" by (simp add: strncpy_text_def)
  then have fn: "strncpy (proc_filename ?p2) path (int BENOS_MAX_PATH) = Some (proc_filename (new_process path fl stk 0))"
    using strncpy_eq [OF len(3)] by (simp add: new_process_def zero_process_def status_simps Let_def)
  let ?p3 = "new_process path fl stk 0"
  have p3: "?p2\<lparr>proc_filename := proc_filename ?p3, proc_stack := stk, proc_id := word_of_int 0\<rparr> = ?p3"
    by (simp add: new_process_def zero_process_def)
  let ?s4 = "set_process s3 proc ?p3"
  have keep13: "keeps s s3"
  proof -
    have "keeps s ?s1" using kzalloc_keeps [OF k sizeof_process(1) z(1)] by simp
    then have "keeps s s2" using keeps_trans [OF _ ac2(2)] acquired_keeps_le [OF ac1] by blast
    moreover have "keeps s2 s3" using kzalloc_keeps [OF k2 blocks_stack(2) st(1)] by simp
    ultimately show ?thesis using keeps_trans acquired_keeps_le [OF ac2(1)] by blast
  qed
  have mem2: "k_live s2 mem = Some ?n" by (rule acquiredD(6) [OF ac2(1)]) simp
  have cn: "length c \<le> ?n * 4096" using blocks_of_covers [of "word_of_nat (length c)"] rq(2) by simp
  have k3: "k_inv s3" by (rule acquiredD(1) [OF ac3])
  have mem3: "k_live s3 mem = Some ?n" by (rule acquiredD(6) [OF ac3]) simp
  have nb: "?n * 4096 < 4294967296" using kz.live_aligned [OF k3 mem3] by simp
  have bytes3: "ram_bytes (ram s3) mem (length c) = c"
    using ram_bytes_keeps [OF keeps_keeps_but [OF kzalloc_keeps [OF k2 blocks_stack(2) st(1)], of "{}"], of mem ?n "length c"]
      mem2 cn nb ac2(3) by simp
  have "24 + 4 \<le> length c" using len(1) by simp
  from load32_in [OF bytes3 this] have en: "e_entry (elf32_header_at (ram s3) mem) = le32 c 24"
    by (simp add: elf32_header_at_def)
  have f3: "elf_files s3 fl = Some f" using f(1) m3(13) by simp
  have entry: "process_entry ?s4 ?p3 = Some (Some (le32 c 24))"
    using f3 f(2) en by (simp add: process_entry_def new_process_def elf_header_def)
  have ts3: "task_list ?s4 xs" "prev_ok ?s4 xs" "tasks_live ?s4" "tasks ?s4 = tasks s"
    "current_task ?s4 = current_task s" "kernel_chunk ?s4 = kernel_chunk s" "cr3 ?s4 = cr3 s"
  proof -
    show t: "tasks ?s4 = tasks s" using m3(5) o2(1) m1(5) by simp
    have hd: "task_head ?s4 = task_head s" "task_tail ?s4 = task_tail s"
      using m3(7,8) o2(3,4) m1(7,8) by (simp_all add: set_process_def)
    show "task_list ?s4 xs" using task_list_cong [OF hd t] ts(1) by simp
    show "prev_ok ?s4 xs" using ts(2) t by (simp add: prev_ok_def)
    show "tasks_live ?s4" using ts(3) t acquired_keeps_le [OF ac3] by (auto simp: tasks_live_def map_le_def dom_def)
    show "current_task ?s4 = current_task s" "kernel_chunk ?s4 = kernel_chunk s" "cr3 ?s4 = cr3 s"
      using m3(6,9,10) o2(2,5,6) m1(6,9,10) by (simp_all add: set_process_def)
  qed
  have "1027 \<le> free_blocks s3" using load_room_steps(3) [OF k room n ac3] ac2(5) by simp
  then have k4: "k_inv ?s4" "1027 \<le> free_blocks ?s4" using k3 by simp_all
  obtain task chunk s5 qs where t: "task_new ?s4 proc (Some (le32 c 24)) = Some (task, s5)" "task \<noteq> 0" "k_inv s5"
      "task_list s5 (xs @ [task])" "prev_ok s5 (xs @ [task])" "tasks_live s5"
      "\<exists>t. tasks s5 task = Some t \<and> page_directory t = chunk \<and> registers t = initial_registers (Some (le32 c 24)) \<and>
        Task.task.process t = proc"
      "current_task s5 = (if xs = [] then task else current_task ?s4)"
      "cr3 s5 = cr3 ?s4" "kernel_chunk s5 = kernel_chunk ?s4" "space_ok s5 chunk"
      "set (space_pages s5 chunk) \<inter> dom (k_live ?s4) = {}"
      "\<forall>v. page_aligned v \<longrightarrow> page_of s5 chunk v = v OR 5" "keeps ?s4 s5" "tstate.more s5 = tstate.more ?s4"
      "length qs = 1027" "acquired ?s4 (singles qs) s5"
      "set qs = insert task (set (space_pages s5 chunk))" "tasks_kept ?s4 s5"
    using task_new_eq [OF k4 ts3(1-3), of proc "Some (le32 c 24)"] by blast
  note m5 = tstate_more_fields [OF t(15)]
  note u5 = upper_fields [OF m5(4)]
  let ?p = "new_process path fl stk task"
  have pp: "?p3\<lparr>proc_task := task\<rparr> = ?p" by (simp add: new_process_def)
  let ?s6 = "set_process s5 proc ?p"
  have ac5: "acquired s (((proc, 3) # (fl, 1) # singles ns @ [(mem, ?n), (stk, 4)]) @ singles qs) s5"
    using acquired_trans [OF ac3, of "singles qs" s5] t(17) by simp
  have run6: "runs_in ?s6 proc ?p chunk"
    using t(7,11) by (auto simp: runs_in_def new_process_def)
  have live4: "(a, b) \<in> set ((proc, 3) # (fl, 1) # singles ns @ [(mem, ?n), (stk, 4)]) \<Longrightarrow>
      a \<notin> set (space_pages ?s6 chunk) \<and> k_live s3 a = Some b" for a b
    using t(12) acquiredD(6) [OF ac3] by fastforce
  have keep45: "keeps_but {} s3 s5" using keeps_keeps_but [OF t(14)] by simp
  have bytes5: "ram_bytes (ram s5) mem (length c) = c"
    using ram_bytes_keeps [OF keep45 mem3 _ cn nb] bytes3 by simp
  have mem5: "k_live s5 mem = Some ?n" by (rule acquiredD(6) [OF ac5]) simp
  have file6: "file_at ?s6 mem c chunk"
    using bytes5 mem5 cn live4 [of mem ?n] by (simp add: file_at_def)
  have fl5: "elf_files s5 fl = Some f" using f3 m5(3) by simp
  have h28: "le32 c 28 \<noteq> 0" using c(1) by (simp add: elf_accepted_def)
  have k6: "k_inv ?s6" using t(3) by simp
  have "k_live s5 fl = Some 1" by (rule acquiredD(6) [OF ac5]) simp
  then have pf: "page_aligned fl" using kz.live_aligned [OF t(3)] by (simp add: page_aligned_def)
  have stk5: "k_live s5 stk = Some 4" by (rule acquiredD(6) [OF ac5]) simp
  have "\<exists>m. process_map_memory ?s6 proc = Some (Inr (0, ?s6\<lparr>ram := m\<rparr>)) \<and> space_ok (?s6\<lparr>ram := m\<rparr>) chunk \<and>
    space_pages (?s6\<lparr>ram := m\<rparr>) chunk = space_pages ?s6 chunk \<and>
    keeps_but (set (space_pages ?s6 chunk)) ?s6 (?s6\<lparr>ram := m\<rparr>) \<and>
    (\<forall>w. page_aligned w \<longrightarrow> page_of (?s6\<lparr>ram := m\<rparr>) chunk w =
      stack_space (proc_stack ?p) (elf_space mem (all_phdrs c) (page_of ?s6 chunk)) w)"
    by (rule process_map_memory_run [OF k6 run6 _ f(2) file6 c(2) h28 c(3)])
      (use fl5 pf stk5 in \<open>simp_all add: new_process_def zero_process_def\<close>)
  then obtain m where mp: "process_map_memory ?s6 proc = Some (Inr (0, ?s6\<lparr>ram := m\<rparr>))" "space_ok (?s6\<lparr>ram := m\<rparr>) chunk"
      "space_pages (?s6\<lparr>ram := m\<rparr>) chunk = space_pages ?s6 chunk"
      "keeps_but (set (space_pages ?s6 chunk)) ?s6 (?s6\<lparr>ram := m\<rparr>)"
      "\<And>w. page_aligned w \<Longrightarrow> page_of (?s6\<lparr>ram := m\<rparr>) chunk w =
        stack_space (proc_stack ?p) (elf_space mem (all_phdrs c) (page_of ?s6 chunk)) w"
    by blast
  let ?s' = "?s6\<lparr>ram := m\<rparr>"
  have stkp: "proc_stack ?p = stk" by (simp add: new_process_def)
  have res: "process_load dev s path = Some (Inr (0, Some proc, ?s'))"
    using pt z(1,2) data st(1,2) pc3 fn p3 entry t(1,2) u5(1) pp mp(1)
    by (simp add: process_load_def process_get_free_slot_def process_load_for_slot_def process_get_def status_simps)
  have pages: "page_of ?s' chunk w = stack_space stk (elf_space mem (all_phdrs c) (\<lambda>w. w OR 5)) w" if "page_aligned w" for w
  proof -
    have "elf_space mem (all_phdrs c) (page_of ?s6 chunk) w = elf_space mem (all_phdrs c) (\<lambda>w. w OR 5) w"
      by (rule elf_space_cong [OF _ that]) (use t(13) in simp)
    then show ?thesis using mp(5) [OF that] by (simp add: stack_space_def stkp)
  qed
  have stack0: "ram ?s' a = 0" if "unat (a - stk) < 16384" for a
  proof -
    have sz: "unat (a - stk) < unat BENOS_USER_PROGRAM_STACK_SIZE" using that by (simp add: status_simps)
    have l3: "k_live s3 stk = Some 4" by (rule acquiredD(6) [OF ac3]) simp
    have "ram ?s' a = ram ?s6 a"
      by (rule keeps_butD [OF mp(4), of stk 4]) (use live4 [of stk 4] stk5 that in simp_all)
    also have "\<dots> = ram s3 a" using keepsD [OF t(14), of stk 4 a] l3 that by simp
    finally show ?thesis using kzalloc_ram [OF st(1,2), of a] sz by simp
  qed
  have file': "file_at ?s' mem c chunk"
    by (rule file_at_keeps [OF k6 file6 mp(4,3)]) simp
  have keep': "keeps s ?s'"
  proof -
    have "keeps s s5" using keeps_trans [OF keep13, of s5] t(14) acquired_keeps_le [OF ac3] by simp
    moreover have "ram ?s' a = ram s5 a" if a: "k_live s q = Some j" "unat (a - q) < j * 4096" for a q j
    proof -
      have "k_live s3 q = Some j" "k_live s5 q = Some j"
        using a(1) acquired_keeps_le [OF ac3] acquired_keeps_le [OF ac5] by (auto simp: map_le_def dom_def)
      then have "q \<notin> set (space_pages ?s6 chunk)" using t(12) by auto
      then show ?thesis using keeps_butD [OF mp(4), of q j a] \<open>k_live s5 q = Some j\<close> a(2) by simp
    qed
    ultimately show ?thesis unfolding keeps_def by metis
  qed
  have loaded: "process_loaded path c ?s' proc fl mem stk task chunk"
    unfolding process_loaded_def using run6 mp(2) file' fl5 f(2) t(7) stack0 pages by (auto simp: runs_in_def)
  have "tasks_kept s ?s'" using t(19) ts3(4) by (simp add: tasks_kept_def)
  then have frame: "load_frame dev s ?s'"
    using u1 u2 u3 u5 m5 ts3(6,7) t(9,10) m1(1,2) m3(1,2) ac2(6) o2(9) e(3)
    by (simp add: load_frame_def set_process_def volume_def)
  have lists: "task_list ?s' (xs @ [task])" "prev_ok ?s' (xs @ [task])" "tasks_live ?s'"
    "current_task ?s' = (if xs = [] then task else current_task s)"
    using t(4-6,8) ts3(5) by (simp_all add: set_process_def task_list_def prev_ok_def tasks_live_def k_live_def)
  have procs: "processes ?s' = (processes s)(proc \<mapsto> ?p)"
    using u5(1) u3(1) u2(1) u1(1) by simp
  have "acquired s (((proc, 3) # (fl, 1) # singles ns @ [(mem, ?n), (stk, 4)]) @ singles qs) ?s'"
    using ac5 by simp
  moreover have "blocks (((proc, 3) # (fl, 1) # singles ns @ [(mem, ?n), (stk, 4)]) @ singles qs) =
      path_nodes path + ?n + 1035"
    using ac2(5) t(16) by simp
  moreover have "load_blocks ?n proc fl mem stk task (space_pages ?s' chunk)
      (((proc, 3) # (fl, 1) # singles ns @ [(mem, ?n), (stk, 4)]) @ singles qs)"
    unfolding load_blocks_def using mp(3) t(16,18) by auto
  ultimately show ?thesis using res loaded keep' lists frame procs by blast
qed

subsection \<open>What the program sees\<close>

text \<open>The pages that the header \<open>g\<close> maps.\<close>

definition maps_page :: "addr \<Rightarrow> elf32_phdr \<Rightarrow> addr \<Rightarrow> bool" where
  "maps_page mem g w \<longleftrightarrow> unat (w - lower_page (p_vaddr g)) < phdr_bytes mem g"

lemma elf_space_other: "\<forall>g \<in> set gs. \<not> maps_page mem g w \<Longrightarrow> elf_space mem gs pg w = pg w"
  by (induction gs arbitrary: pg) (simp_all add: maps_page_def)

lemma elf_space_at:
  assumes "i < length gs" "maps_page mem (gs ! i) w" "\<forall>k < length gs. i < k \<longrightarrow> \<not> maps_page mem (gs ! k) w"
  shows "elf_space mem gs pg w =
    (lower_page (mem + p_offset (gs ! i)) + (w - lower_page (p_vaddr (gs ! i)))) OR phdr_flags (gs ! i)"
  using assms
proof (induction gs arbitrary: i pg)
  case (Cons g gs)
  show ?case
  proof (cases i)
    case 0
    have "\<not> maps_page mem (gs ! k) w" if "k < length gs" for k
      using Cons.prems(3) [rule_format, of "Suc k"] that 0 by simp
    then have "\<forall>h \<in> set gs. \<not> maps_page mem h w" by (auto simp: in_set_conv_nth)
    then show ?thesis using elf_space_other [of gs mem w] Cons.prems(2) 0 by (simp add: maps_page_def)
  next
    case (Suc k)
    then show ?thesis using Cons.IH [of k] Cons.prems by force
  qed
qed simp

lemma page_offset_unat:
  assumes "unat (v :: addr) mod 4096 + j < 4294967296"
  shows "unat (v + of_nat j - lower_page v) = unat v mod 4096 + j"
    "unat (lower_page (v + of_nat j) - lower_page v) \<le> unat v mod 4096 + j"
proof -
  have vl: "v - lower_page v = of_nat (unat v mod 4096)"
    by (simp add: lower_page_def paging_align_to_lower_page_def PAGING_PAGE_SIZE_def word_unat_eq_iff
        unat_mod_distrib unat_of_nat_u32 del: of_nat_mod)
  have a: "v + of_nat j - lower_page v = of_nat (unat v mod 4096 + j)"
    using vl by (simp add: algebra_simps del: of_nat_mod)
  show u: "unat (v + of_nat j - lower_page v) = unat v mod 4096 + j"
    unfolding a by (rule unat_of_nat_u32 [OF assms])
  let ?d = "unat v mod 4096 + j" and ?a = "v + of_nat j"
  have m: "unat ?a mod 4096 = ?d mod 4096"
  proof -
    obtain q where q: "unat (lower_page v) = 4096 * q" using page_aligned_lower [of v] by (auto simp: page_aligned_def)
    have "?a = lower_page v + of_nat ?d" using a by (simp add: algebra_simps del: of_nat_mod of_nat_add)
    then have "unat ?a = (4096 * q + ?d) mod 4294967296"
      using q unat_of_nat_u32 [OF assms] by (simp add: unat_word_ariths del: of_nat_mod of_nat_add)
    then show ?thesis by (simp add: mod_mod_cancel)
  qed
  have le: "of_nat (?d mod 4096) \<le> (of_nat ?d :: addr)"
    using assms by (simp add: word_le_nat_alt unat_of_nat_u32 le_less_trans [OF mod_less_eq_dividend] del: of_nat_mod of_nat_add)
  have "?a mod 4096 = of_nat (?d mod 4096)"
    using m assms by (simp add: word_unat_eq_iff unat_mod_distrib unat_of_nat_u32 le_less_trans [OF mod_less_eq_dividend]
        del: of_nat_mod of_nat_add)
  then have "lower_page ?a = ?a - of_nat (?d mod 4096)"
    by (simp add: lower_page_def paging_align_to_lower_page_def PAGING_PAGE_SIZE_def del: of_nat_mod of_nat_add)
  then have "lower_page ?a - lower_page v = of_nat ?d - of_nat (?d mod 4096)"
    using a by (simp add: algebra_simps del: of_nat_mod of_nat_add)
  then have "unat (lower_page ?a - lower_page v) = ?d - ?d mod 4096"
    using le assms by (simp add: unat_sub unat_of_nat_u32 le_less_trans [OF mod_less_eq_dividend] del: of_nat_mod of_nat_add)
  then show "unat (lower_page ?a - lower_page v) \<le> ?d" by simp
qed

lemma phdr_bytes_ge:
  assumes "k_inv s" "k_live s mem = Some n" "length c \<le> n * 4096" "0 < p_memsz g"
    "unat (p_offset g) + unat (p_memsz g) \<le> length c"
  shows "unat (p_offset g) mod 4096 + unat (p_memsz g) \<le> phdr_bytes mem g"
    "unat (mem + p_offset g) = unat mem + unat (p_offset g)" "unat mem mod 4096 = 0"
proof -
  have l: "unat mem mod 4096 = 0" "unat mem + n * 4096 < 4294967296" using kz.live_aligned [OF assms(1,2)] by simp_all
  have o: "unat (mem + p_offset g) = unat mem + unat (p_offset g)"
    using l(2) assms(3,5) by (intro unat_add_u32) linarith
  have e: "unat (mem + p_offset g + p_memsz g) = unat mem + unat (p_offset g) + unat (p_memsz g)"
    using l(2) assms(3,5) by (subst unat_add_u32) (simp_all add: o)
  obtain q where q: "unat mem = 4096 * q" using l(1) by auto
  have k: "(q + n) * 4096 = unat mem + n * 4096" using q by simp
  have "unat (mem + p_offset g + p_memsz g) \<le> (q + n) * 4096" "(q + n) * 4096 < 4294967296"
    unfolding k e using assms(3,5) l(2) by linarith+
  note a = align_upper(2) [OF this]
  have m: "unat (mem + p_offset g) mod 4096 = unat (p_offset g) mod 4096" by (simp add: o q)
  note r = phdr_range(2) [OF assms]
  have "unat (paging_align_address (mem + p_offset g + p_memsz g) - lower_page (mem + p_offset g)) =
      unat (paging_align_address (mem + p_offset g + p_memsz g)) - unat (lower_page (mem + p_offset g))"
    using r by (intro unat_sub) simp
  then show "unat (p_offset g) mod 4096 + unat (p_memsz g) \<le> phdr_bytes mem g"
    using a m o e mod_less_eq_dividend [of "unat (mem + p_offset g)" 4096] unfolding phdr_bytes_def lower_page_le by linarith
  show "unat (mem + p_offset g) = unat mem + unat (p_offset g)" by (rule o)
  show "unat mem mod 4096 = 0" by (rule l(1))
qed

lemma phdr_flags_small: "phdr_flags g AND 0xFFFFF000 = 0" "phdr_flags g AND 7 = phdr_flags g"
  by (simp_all add: phdr_flags_def paging_consts Let_def)

lemma page_low_bits: "page_aligned p \<Longrightarrow> (p OR f) AND 7 = f AND 7"
proof -
  assume "page_aligned p"
  then have "take_bit 12 p = 0" by (simp add: page_aligned_take_bit)
  then have "\<not> bit p n" if "n < 12" for n
    using that by (metis bit_0_eq bit_take_bit_iff bot_apply bot_bool_def)
  moreover have "n < 12" if "bit (7 :: u32) n" for n
    using that bit_mask_iff [where 'a = "32 word", of 3 n] by (simp add: mask_eq_exp_minus_1)
  ultimately show ?thesis by (intro bit_word_eqI) (auto simp: bit_simps)
qed

text \<open>
  C15. A loaded program sees its file. Byte \<open>j\<close> of a segment that lies at the same place within
  its page in the file and in the address space, on a page that no later header and not the stack
  covers, is found through the page tables of the process at its virtual address, and the page has the
  access that the header asks for.
\<close>

theorem process_sees_file:
  assumes "process_loaded path c s proc fl mem stk task chunk" "k_inv s" "phdrs_inside c"
    "i < length (all_phdrs c)" "g = all_phdrs c ! i" "j < unat (p_memsz g)"
    "unat (p_vaddr g) mod 4096 = unat (p_offset g) mod 4096"
    "\<forall>k < length (all_phdrs c). i < k \<longrightarrow> \<not> maps_page mem (all_phdrs c ! k) (lower_page (p_vaddr g + of_nat j))"
    "\<not> unat (lower_page (p_vaddr g + of_nat j) - 0x3FB000) < 16384"
  shows "ram s (paging_get_phys_addr s (chunk_dir s chunk) (p_vaddr g + of_nat j)) = c ! (unat (p_offset g) + j) \<and>
    page_of s chunk (lower_page (p_vaddr g + of_nat j)) AND 7 = phdr_flags g"
proof -
  let ?a = "p_vaddr g + of_nat j"
  obtain n where n: "k_live s mem = Some n" "length c \<le> n * 4096" "ram_bytes (ram s) mem (length c) = c"
    using assms(1) by (auto simp: process_loaded_def file_at_def)
  have gi: "0 < p_memsz g" "unat (p_offset g) + unat (p_memsz g) \<le> length c"
    using assms(3-5) by (auto simp: phdrs_inside_def)
  note b = phdr_bytes_ge [OF assms(2) n(1,2) gi]
  have nb: "n * 4096 < 4294967296" using kz.live_aligned [OF assms(2) n(1)] by simp
  have sm: "unat (p_vaddr g) mod 4096 + j < 4294967296" 
    using gi(2) assms(6) n(2) nb b(1) mod_less_eq_dividend [of "unat (p_offset g)" 4096] unfolding assms(7) by linarith
  note u = page_offset_unat [OF sm]
  let ?w = "lower_page ?a" and ?l = "lower_page (mem + p_offset g)"
  have "maps_page mem g ?w" using u(2) b(1) assms(6) unfolding maps_page_def assms(7) by linarith
  from elf_space_at [OF assms(4) this [unfolded assms(5)], folded assms(5), OF assms(8)]
  have pg: "page_of s chunk ?w = (?l + (?w - lower_page (p_vaddr g))) OR phdr_flags g"
    using assms(1,9) by (simp add: process_loaded_def stack_space_def)
  have al: "page_aligned (?l + (?w - lower_page (p_vaddr g)))"
    using page_aligned_diff page_aligned_lower by simp
  have "paging_get_phys_addr s (chunk_dir s chunk) ?a = ?l + (?a - lower_page (p_vaddr g))"
    using page_mask_flags [OF al phdr_flags_small(1)] pg
    by (simp add: phys_of_page lower_page_def [symmetric])
  also have "\<dots> = mem + p_offset g + of_nat j"
  proof -
    have "unat (mem + p_offset g) mod 4096 = unat (p_offset g) mod 4096"
      using b(3) by (simp add: b(2) mod_add_left_eq [of "unat mem" 4096, symmetric])
    then have "(mem + p_offset g) mod 4096 = p_vaddr g mod 4096"
      using assms(7) by (simp add: word_unat_eq_iff unat_mod_distrib)
    then show ?thesis
      by (simp add: lower_page_def paging_align_to_lower_page_def PAGING_PAGE_SIZE_def algebra_simps)
  qed
  also have "\<dots> = mem + of_nat (unat (p_offset g) + j)" by simp
  finally have ph: "paging_get_phys_addr s (chunk_dir s chunk) ?a = mem + of_nat (unat (p_offset g) + j)" .
  have "unat (p_offset g) + j < length c" using gi(2) assms(6) by linarith
  from nth_ram_bytes [OF this, of "ram s" mem] have "ram s (mem + of_nat (unat (p_offset g) + j)) = c ! (unat (p_offset g) + j)"
    using n(3) by simp
  then show ?thesis using ph pg page_low_bits [OF al] phdr_flags_small(2) by simp
qed

text \<open>
  C14. Loading a program. For an ELF file that \<open>elf_load\<close> accepts and whose program headers
  describe parts of the file, with enough memory, a well-formed list of tasks and a free first slot, \<open>process_load\<close> succeeds: it returns a process
  that is loaded from the file (the contents in memory, every header and a zeroed stack of 16 KiB mapped
  over the identity mapping, a task at the end of the task list that starts at the entry point); it
  writes no block that was allocated before, closes the file, and allocates as many blocks as the sum
  says. The table of processes stays as it was.
\<close>

theorem process_load_ok:
  assumes "loadable dev s path c i" "k_inv s" "load_room s (path_nodes path) (blocks_of (word_of_nat (length c)))"
    "elf_accepted c" "headers_inside c" "phdrs_inside c" "process_table s = 0 # pts"
    "task_list s xs" "prev_ok s xs" "tasks_live s"
  shows "\<exists>proc fl mem stk task chunk ps s'. process_load dev s path = Some (Inr (0, Some proc, s')) \<and>
    process_loaded path c s' proc fl mem stk task chunk \<and> keeps s s' \<and> acquired s ps s' \<and>
    blocks ps = path_nodes path + blocks_of (word_of_nat (length c)) + 1035 \<and>
    task_list s' (xs @ [task]) \<and> process_table s' = process_table s \<and> file_descriptors s' = file_descriptors s"
  using process_load_run [OF assms] by (fastforce simp: load_frame_def)

subsection \<open>A process on the boot disk\<close>

definition process_state :: "byte list \<Rightarrow> pstate" where
  "process_state d = estate.extend (elf_state d)
     \<lparr>processes = Map.empty, process_table = replicate BENOS_MAX_PROCESSES 0, curr_process = 0,
      screen = small_terminal 0 0\<rparr>"

lemma process_state_fields:
  "kernel_heap (process_state d) = kernel_heap fresh_kmem" "volume (process_state d) = volume (elf_state d)"
  "file_descriptors (process_state d) = file_descriptors (elf_state d)"
  "tasks (process_state d) = Map.empty" "task_head (process_state d) = 0" "processes (process_state d) = Map.empty"
  "process_table (process_state d) = 0 # replicate 11 0"
  by (simp_all add: process_state_def elf_state_def mounted_state_def estate.defs fstate.defs tstate.defs fresh_tstate_def
      kmem.defs volume_def BENOS_MAX_PROCESSES_def numeral_eq_Suc)

lemma process_state:
  "k_inv (process_state d)" "0 < n \<Longrightarrow> run_count n (process_state d) = 25600 div n" "free_blocks (process_state d) = 25600"
  "loadable (elf_disk d) (process_state d) blank_path (elf_contents d) 0"
  "task_list (process_state d) []" "prev_ok (process_state d) []" "tasks_live (process_state d)"
  "load_room (process_state d) (path_nodes blank_path) (blocks_of (word_of_nat (length (elf_contents d))))"
proof -
  show "k_inv (process_state d)" "free_blocks (process_state d) = 25600"
    using fresh_kmem by (simp_all add: k_inv_def free_blocks_def process_state_fields(1))
  note f = this(2)
  show r: "run_count n (process_state d) = 25600 div n" if "0 < n" for n
    using fresh_runs [OF process_state_fields(1) that] .
  show "loadable (elf_disk d) (process_state d) blank_path (elf_contents d) 0"
    using loadable_cong [OF process_state_fields(2,3), where dev = "elf_disk d" and path = blank_path and i = 0]
      elf_loadable by blast
  show "task_list (process_state d) []" "prev_ok (process_state d) []" "tasks_live (process_state d)"
    by (simp_all add: task_list_def prev_ok_def tasks_live_def process_state_fields)
  have "blocks_of (word_of_nat (length (elf_contents d)) :: u32) = 1"
    by (simp add: elf_contents_def disk_bytes_def blocks_of_def)
  then show "load_room (process_state d) (path_nodes blank_path) (blocks_of (word_of_nat (length (elf_contents d))))"
    using r [of 1] r [of 3] r [of 4] f by (simp add: load_room_def path_nodes_def blank_path(5))
qed

lemma small_elf_length: "length small_elf \<le> 512"
  by (simp add: small_elf_def)

lemma small_elf_phdrs:
  "all_phdrs (elf_contents small_elf) = [\<lparr>p_type = 1, p_offset = 0, p_vaddr = 0x400000, p_paddr = 0x400000,
     p_filesz = 84, p_memsz = 4096, p_flags = 5, p_align = 4096\<rparr>]"
  "phdrs_inside (elf_contents small_elf)" "le32 (elf_contents small_elf) 24 = 0x400000" "elf_contents small_elf ! 1 = 0x45"
proof -
  obtain r where r: "elf_contents small_elf = small_elf @ r" by (rule small_elf)
  show a: "all_phdrs (elf_contents small_elf) = [\<lparr>p_type = 1, p_offset = 0, p_vaddr = 0x400000, p_paddr = 0x400000,
     p_filesz = 84, p_memsz = 4096, p_flags = 5, p_align = 4096\<rparr>]"
    by (simp add: all_phdrs_def r small_elf_fields)
  show "phdrs_inside (elf_contents small_elf)"
    using elf_contents(1) [of small_elf] small_elf_length by (simp add: phdrs_inside_def a)
  show "le32 (elf_contents small_elf) 24 = 0x400000" "elf_contents small_elf ! 1 = 0x45"
    unfolding r by (simp_all add: small_elf_def le32_def)
qed

text \<open>The process that is loaded from the small file.\<close>

lemma small_process:
  obtains proc fl mem stk task chunk ps s where
    "process_load (elf_disk small_elf) (process_state small_elf) blank_path = Some (Inr (0, Some proc, s))"
    "process_loaded blank_path (elf_contents small_elf) s proc fl mem stk task chunk"
    "acquired (process_state small_elf) ps s" "blocks ps = 1039" "task_list s [task]"
    "processes s = [proc \<mapsto> new_process blank_path fl stk task]" "process_table s = replicate BENOS_MAX_PROCESSES 0"
    "prev_ok s [task]" "load_blocks 1 proc fl mem stk task (space_pages s chunk) ps"
proof -
  have b1: "blocks_of (word_of_nat (length (elf_contents small_elf)) :: u32) = 1"
    by (simp add: elf_contents_def disk_bytes_def blocks_of_def)
  obtain proc fl mem stk task chunk ps s where r:
    "process_load (elf_disk small_elf) (process_state small_elf) blank_path = Some (Inr (0, Some proc, s))"
    "process_loaded blank_path (elf_contents small_elf) s proc fl mem stk task chunk"
    "acquired (process_state small_elf) ps s"
    "blocks ps = path_nodes blank_path + blocks_of (word_of_nat (length (elf_contents small_elf))) + 1035"
    "task_list s ([] @ [task])" "load_frame (elf_disk small_elf) (process_state small_elf) s"
    "processes s = (processes (process_state small_elf))(proc \<mapsto> new_process blank_path fl stk task)"
    "prev_ok s ([] @ [task])"
    "load_blocks (blocks_of (word_of_nat (length (elf_contents small_elf)))) proc fl mem stk task (space_pages s chunk) ps"
    using process_load_run [OF process_state(4,1,8) small_elf_segments(3,1) small_elf_phdrs(2) process_state_fields(7)
        process_state(5-7)] by blast
  have "blocks ps = 1039" using r(4) by (simp add: b1 path_nodes_def blank_path(5))
  moreover have "process_table s = replicate BENOS_MAX_PROCESSES 0"
    using r(6) by (simp add: load_frame_def process_state_def estate.defs)
  moreover have "processes s = [proc \<mapsto> new_process blank_path fl stk task]" using r(7) by (simp add: process_state_fields)
  ultimately show ?thesis using that r(1-3,5,8,9) b1 by simp
qed

subsection \<open>Memory on request\<close>

text \<open>What was allocated can be released: the state after \<open>process_free\<close>.\<close>

lemma process_free_new:
  assumes "runs_in s proc (with_allocation p i ptr sz) chunk" "k_inv s" "k_live s ptr = Some (blocks_of sz)"
    "i < length (allocations p)" "\<forall>a \<in> set (allocations p). alloc_ptr a \<noteq> ptr" "ok_size sz"
    "ptr \<notin> set (space_pages s chunk)"
  obtains s' where "process_free s proc ptr = Some s'" "k_inv s'" "k_live s' = (k_live s)(ptr := None)"
    "runs_in s' proc (with_allocation p i 0 0) chunk"
    "\<And>w. page_aligned w \<Longrightarrow> page_of s' chunk w =
       (if unat (w - ptr) < blocks_of sz * 4096 then w else page_of s chunk w)"
proof -
  let ?q = "with_allocation p i ptr sz" and ?a = "\<lparr>alloc_ptr = ptr, alloc_size = sz\<rparr>"
  have al: "allocation_loop (allocations ?q) ptr = Some ?a"
    using allocation_loop_update [OF assms(4,5), of sz] by (simp add: with_allocation_def)
  have pos: "0 < alloc_size ?a" using assms(6) by (simp add: ok_size_def word_neq_0_conv)
  obtain h m where f: "process_free s proc ptr =
      Some ((set_process s proc (process_allocation_ujoin ?q ptr))\<lparr>kernel_heap := h, ram := m\<rparr>)"
    "k_inv (s\<lparr>kernel_heap := h, ram := m\<rparr>)" "k_live (s\<lparr>kernel_heap := h, ram := m\<rparr>) = (k_live s)(ptr := None)"
    "space_ok (s\<lparr>kernel_heap := h, ram := m\<rparr>) chunk"
    "\<And>w. page_aligned w \<Longrightarrow> page_of (s\<lparr>kernel_heap := h, ram := m\<rparr>) chunk w =
       (if unat (w - ptr) < blocks_of (alloc_size ?a) * 4096 then w else page_of s chunk w)"
    by (rule process_free_run [OF assms(1,2) al pos _ assms(7)]) (use assms(3) in auto)
  have e: "(set_process s proc (process_allocation_ujoin ?q ptr))\<lparr>kernel_heap := h, ram := m\<rparr> =
      set_process (s\<lparr>kernel_heap := h, ram := m\<rparr>) proc (with_allocation p i 0 0)"
    using ujoin_update [OF assms(4,5)] by (simp add: set_process_def)
  have "runs_in (set_process (s\<lparr>kernel_heap := h, ram := m\<rparr>) proc (with_allocation p i 0 0)) proc (with_allocation p i 0 0) chunk"
    using f(4) assms(1) unfolding runs_in_def by (auto simp: with_allocation_def)
  then show ?thesis using that [OF f(1)] f(2,3,5) unfolding e by simp
qed

text \<open>
  C17. A process asks for memory and gives it back. With a free slot and enough memory
  \<open>process_malloc\<close> returns a fresh block that is filled with zeros, maps its pages in the address space
  of the process with user access (flags 7), changes no other page and no other live block, and records
  the block in the slot; \<open>process_free\<close> of the pointer then releases exactly that block, takes the
  mapping away (flags 0) and empties the slot.
\<close>

theorem process_malloc_free:
  assumes "runs_in s proc p chunk" "k_inv s" "ok_size sz" "0 < run_count (blocks_of sz) s"
    "process_find_free_alloc_index p = int i" "allocations_live s p"
  shows "\<exists>ptr s1 s2. process_malloc s proc sz = Some (ptr, s1) \<and> ptr \<noteq> 0 \<and>
    k_live s1 = (k_live s)(ptr \<mapsto> blocks_of sz) \<and> k_live s ptr = None \<and>
    runs_in s1 proc (with_allocation p i ptr sz) chunk \<and> keeps_but (set (space_pages s chunk)) s s1 \<and>
    (\<forall>a. unat (a - ptr) < unat sz \<longrightarrow> ram s1 a = 0) \<and>
    (\<forall>w. page_aligned w \<longrightarrow> page_of s1 chunk w =
       (if unat (w - ptr) < blocks_of sz * 4096 then w OR 7 else page_of s chunk w)) \<and>
    process_free s1 proc ptr = Some s2 \<and> k_inv s2 \<and> k_live s2 = k_live s \<and>
    runs_in s2 proc (with_allocation p i 0 0) chunk \<and>
    (\<forall>w. page_aligned w \<longrightarrow> page_of s2 chunk w =
       (if unat (w - ptr) < blocks_of sz * 4096 then w else page_of s chunk w))"
proof -
  obtain ptr h m where r: "process_malloc s proc sz =
      Some (ptr, (set_process s proc (with_allocation p i ptr sz))\<lparr>kernel_heap := h, ram := m\<rparr>)"
    "ptr \<noteq> 0" "acquired s [(ptr, blocks_of sz)] (s\<lparr>kernel_heap := h, ram := m\<rparr>)"
    "space_ok (s\<lparr>kernel_heap := h, ram := m\<rparr>) chunk"
    "space_pages (s\<lparr>kernel_heap := h, ram := m\<rparr>) chunk = space_pages s chunk"
    "keeps_but (set (space_pages s chunk)) s (s\<lparr>kernel_heap := h, ram := m\<rparr>)"
    "\<And>w. page_aligned w \<Longrightarrow> page_of (s\<lparr>kernel_heap := h, ram := m\<rparr>) chunk w =
       (if unat (w - ptr) < blocks_of sz * 4096 then w OR 7 else page_of s chunk w)"
    "\<And>a. unat (a - ptr) < unat sz \<Longrightarrow> m a = 0"
    by (rule process_malloc_run [OF assms(1-5)]) (rule that)
  let ?s0 = "s\<lparr>kernel_heap := h, ram := m\<rparr>" and ?q = "with_allocation p i ptr sz"
  let ?s1 = "(set_process s proc ?q)\<lparr>kernel_heap := h, ram := m\<rparr>"
  have e1: "?s1 = set_process ?s0 proc ?q" by (simp add: set_process_def)
  have live: "k_live s ptr = None" "k_live ?s1 = (k_live s)(ptr \<mapsto> blocks_of sz)" "k_inv ?s1"
    using acquiredD(1,4,5) [OF r(3)] unfolding e1 by (simp_all add: map_add_def fun_eq_iff)
  have r1: "runs_in ?s1 proc ?q chunk"
    using r(4) assms(1) unfolding runs_in_def e1 by (auto simp: with_allocation_def)
  have i: "i < length (allocations p)" using find_free_alloc_index(1) [of p] assms(5) by simp
  have fresh: "\<forall>a \<in> set (allocations p). alloc_ptr a \<noteq> ptr"
    using assms(6) live(1) r(2) by (fastforce simp: allocations_live_def)
  have out: "ptr \<notin> set (space_pages ?s1 chunk)"
    using assms(1) live(1) r(5) unfolding e1 by (auto simp: runs_in_def space_ok_def)
  have l1: "k_live ?s1 ptr = Some (blocks_of sz)" using live(2) by simp
  obtain s2 where s2: "process_free ?s1 proc ptr = Some s2" "k_inv s2" "k_live s2 = (k_live ?s1)(ptr := None)"
      "runs_in s2 proc (with_allocation p i 0 0) chunk"
      "\<And>w. page_aligned w \<Longrightarrow> page_of s2 chunk w = (if unat (w - ptr) < blocks_of sz * 4096 then w else page_of ?s1 chunk w)"
    by (rule process_free_new [OF r1 live(3) l1 i fresh assms(3) out]) (rule that)
  have "k_live s2 = k_live s" unfolding s2(3) live(2) using live(1) by (simp add: fun_upd_idem)
  moreover have "page_of ?s1 chunk w = (if unat (w - ptr) < blocks_of sz * 4096 then w OR 7 else page_of s chunk w)"
    if "page_aligned w" for w
    using r(7) [OF that] unfolding e1 by simp
  moreover have "keeps_but (set (space_pages s chunk)) s ?s1" using r(6) unfolding e1 by simp
  ultimately show ?thesis
    using r(1,2,8) live r1 s2(1,2,4,5) by (intro exI [of _ ptr] exI [of _ ?s1] exI [of _ s2]) simp
qed

theorem process_load_ok_witness:
  "\<exists>proc s fl mem stk task chunk. process_load (elf_disk small_elf) (process_state small_elf) blank_path = Some (Inr (0, Some proc, s)) \<and>
     process_loaded blank_path (elf_contents small_elf) s proc fl mem stk task chunk \<and> task_list s [task]"
  using process_load_ok [OF process_state(4,1,8) small_elf_segments(3,1) small_elf_phdrs(2) process_state_fields(7)
        process_state(5-7)] by fastforce

theorem process_sees_file_witness:
  "\<exists>proc s chunk. process_load (elf_disk small_elf) (process_state small_elf) blank_path = Some (Inr (0, Some proc, s)) \<and>
     ram s (paging_get_phys_addr s (chunk_dir s chunk) 0x400001) = 0x45"
proof -
  obtain proc fl mem stk task chunk ps s where
    p: "process_load (elf_disk small_elf) (process_state small_elf) blank_path = Some (Inr (0, Some proc, s))"
    "process_loaded blank_path (elf_contents small_elf) s proc fl mem stk task chunk"
    "acquired (process_state small_elf) ps s" by (rule small_process) (rule that)
  have lp: "lower_page (0x400000 + of_nat 1) = 0x400000"
    by (simp add: lower_page_def paging_align_to_lower_page_def PAGING_PAGE_SIZE_def)
  have "ram s (paging_get_phys_addr s (chunk_dir s chunk) (0x400000 + of_nat 1)) = elf_contents small_elf ! (unat (0 :: u32) + 1)"
    using process_sees_file [OF p(2) acquiredD(1) [OF p(3)] small_elf_phdrs(2), of 0 _ 1] lp
    by (simp add: small_elf_phdrs(1))
  then show ?thesis using p(1) small_elf_phdrs(4) by auto
qed

theorem process_malloc_free_witness:
  "\<exists>proc s ptr s1 s2. process_load (elf_disk small_elf) (process_state small_elf) blank_path = Some (Inr (0, Some proc, s)) \<and>
     process_malloc s proc 5000 = Some (ptr, s1) \<and> process_free s1 proc ptr = Some s2 \<and> k_live s2 = k_live s"
proof -
  obtain proc fl mem stk task chunk ps s where
    p: "process_load (elf_disk small_elf) (process_state small_elf) blank_path = Some (Inr (0, Some proc, s))"
    "process_loaded blank_path (elf_contents small_elf) s proc fl mem stk task chunk"
    "acquired (process_state small_elf) ps s" "blocks ps = 1039" by (rule small_process) (rule that)
  let ?p = "new_process blank_path fl stk task"
  have r: "runs_in s proc ?p chunk" using p(2) by (simp add: process_loaded_def)
  have k: "k_inv s" by (rule acquiredD(1) [OF p(3)])
  have b: "ok_size (5000 :: u32)" "blocks_of (5000 :: u32) = 2" by (simp_all add: ok_size_def blocks_of_def)
  have rc: "0 < run_count (blocks_of 5000) s"
    using run_count_acquired [OF process_state(1) p(3), of 2] process_state(2) [of 2 small_elf] p(4) b(2) by simp
  have al: "allocations ?p = \<lparr>alloc_ptr = 0, alloc_size = 0\<rparr> # replicate 1023 \<lparr>alloc_ptr = 0, alloc_size = 0\<rparr>"
    by (simp add: new_process_def zero_process_def BENOS_MAX_PROGRAM_ALLOCATIONS_def numeral_eq_Suc)
  have i: "process_find_free_alloc_index ?p = int 0" by (simp add: process_find_free_alloc_index_def al)
  have live: "allocations_live s ?p" by (auto simp: allocations_live_def al)
  from process_malloc_free [OF r k b(1) rc i live] show ?thesis using p(1) by blast
qed

subsection \<open>Counting the arguments\<close>

lemma count_args_reach:
  "(arg_next m ^^ k) cur = 0 \<Longrightarrow> \<forall>j < k. (arg_next m ^^ j) cur \<noteq> 0 \<Longrightarrow>
   count_args_loop m cur res = Some (res + int k)"
proof (induction k arbitrary: cur res)
  case 0
  then show ?case by (subst count_args_loop.simps) simp
next
  case (Suc k)
  have "cur \<noteq> 0" using Suc.prems(2) by (metis funpow_0 zero_less_Suc)
  moreover have "(arg_next m ^^ j) (arg_next m cur) \<noteq> 0" if "j < k" for j
    using Suc.prems(2) that by (metis Suc_mono comp_apply funpow_Suc_right)
  ultimately show ?case
    using Suc.IH [of "arg_next m cur" "res + 1"] Suc.prems(1)
    by (subst count_args_loop.simps) (simp add: funpow_Suc_right del: funpow.simps)
qed

lemma count_args_ends:
  assumes "count_args_loop m cur res = Some n"
  shows "\<exists>k. (arg_next m ^^ k) cur = 0"
proof (rule count_args_loop.raw_induct [where P = "\<lambda>m cur res n. \<exists>k. (arg_next m ^^ k) cur = 0", OF _ assms])
  fix f m cur res n
  assume 1: "\<And>m cur res n. f m cur res = Some n \<Longrightarrow> \<exists>k. (arg_next m ^^ k) cur = 0"
    "(if cur = 0 then Some res else f m (arg_next m cur) (res + 1)) = Some n"
  show "\<exists>k. (arg_next m ^^ k) cur = 0"
  proof (cases "cur = 0")
    case True
    then show ?thesis by (intro exI [of _ 0]) simp
  next
    case False
    then have "f m (arg_next m cur) (res + 1) = Some n" using 1(2) by simp
    then obtain k where "(arg_next m ^^ k) (arg_next m cur) = 0" using 1(1) by blast
    then show ?thesis by (intro exI [of _ "Suc k"]) (simp add: funpow_Suc_right del: funpow.simps)
  qed
qed

text \<open>
  C26. Counting the arguments of a command. \<open>process_count_command_args\<close> returns exactly when
  following the \<open>next\<close> pointers from the root reaches null, and then it returns the number of
  steps; for a cyclic list, which a program can pass to system call 7, it does not return.
\<close>

theorem count_args_terminates:
  "process_count_command_args m root =
    (if \<exists>k. (arg_next m ^^ k) root = 0 then Some (int (LEAST k. (arg_next m ^^ k) root = 0)) else None)"
proof (cases "\<exists>k. (arg_next m ^^ k) root = 0")
  case True
  let ?k = "LEAST k. (arg_next m ^^ k) root = 0"
  have "(arg_next m ^^ ?k) root = 0" using True by (rule LeastI_ex)
  moreover have "\<forall>j < ?k. (arg_next m ^^ j) root \<noteq> 0" using not_less_Least by blast
  ultimately show ?thesis
    using count_args_reach [of ?k m root 0] True by (simp add: process_count_command_args_def)
next
  case False
  then have "process_count_command_args m root = None"
    using count_args_ends [of m root 0] by (cases "process_count_command_args m root") (auto simp: process_count_command_args_def)
  then show ?thesis using False by simp
qed

subsection \<open>The end of a process\<close>

lemma switch_to_any_none: "switch_to_any_loop (replicate n 0) = None"
  by (induction n) simp_all

lemma allocation_loop_mem: "allocation_loop xs ptr = Some a \<Longrightarrow> a \<in> set xs"
  by (induction xs ptr rule: allocation_loop.induct) (auto split: if_splits)

lemma process_free_none:
  assumes "runs_in s proc p chunk" "\<forall>a \<in> set (allocations p). alloc_ptr a = 0 \<and> alloc_size a = 0"
  shows "process_free s proc 0 = Some s"
proof -
  obtain t where pr: "processes s proc = Some p" "tasks s (proc_task p) = Some t"
    using assms(1) by (auto simp: runs_in_def)
  have r: "paging_map_to s (page_directory t) 0 0 0 0 = (- EINVARG, s)"
    using paging_map_to_refuses [of s "page_directory t" 0 0 0 0] by simp
  have "paging_align_address 0 = 0" by (simp add: paging_align_address_def)
  moreover have "a = \<lparr>alloc_ptr = 0, alloc_size = 0\<rparr>" if "allocation_loop (allocations p) 0 = Some a" for a
  proof -
    have "a \<in> set (allocations p)" using that by (rule allocation_loop_mem)
    then show ?thesis using assms(2) by (cases a) auto
  qed
  ultimately show ?thesis
    using pr r by (auto simp: process_free_def process_get_allocation_by_addr_def status_simps split: option.splits)
qed

end
