(* ===== verification/Frames.thy ===== *)
theory Frames
  imports ProcessOk
begin

text \<open>
  What the operations of the layers below leave alone: the state above the file system and the ELF loader.
\<close>

subsection \<open>What the lower layers leave alone\<close>

text \<open>The processes and everything above them: the operations of the layers below do not touch them.\<close>

definition upper :: "'z estate_scheme \<Rightarrow> 'z" where
  "upper s = estate.more s"

lemma upper_kframe: "kframe s' = kframe s \<Longrightarrow> upper s' = upper s"
  by (cases s; cases s'; drule kframe_more) (simp add: upper_def)

lemma upper_updates [simp]:
  "upper (s\<lparr>kernel_heap := h\<rparr>) = upper s" "upper (s\<lparr>ram := m\<rparr>) = upper s" "upper (s\<lparr>cr3 := a\<rparr>) = upper s"
  "upper (s\<lparr>curr_dir := a\<rparr>) = upper s" "upper (s\<lparr>tasks := ts\<rparr>) = upper s" "upper (s\<lparr>current_task := a\<rparr>) = upper s"
  "upper (s\<lparr>task_head := a\<rparr>) = upper s" "upper (s\<lparr>task_tail := a\<rparr>) = upper s" "upper (s\<lparr>data_segment := w\<rparr>) = upper s"
  "upper (s\<lparr>cpu := r\<rparr>) = upper s" "upper (s\<lparr>file_descriptors := ds\<rparr>) = upper s"
  "upper (s\<lparr>disk_private := fp\<rparr>) = upper s" "upper (s\<lparr>elf_files := es\<rparr>) = upper s"
  by (simp_all add: upper_def)

lemma upper_kzalloc: "kzalloc s sz = Some (p, s') \<Longrightarrow> upper s' = upper s"
  by (rule upper_kframe) simp

lemma upper_kfree: "kfree s p = Some s' \<Longrightarrow> upper s' = upper s"
  by (rule upper_kframe) simp

lemma upper_set_task [simp]: "upper (set_task s p t) = upper s"
  by (simp add: set_task_def)

lemma upper_paging [simp]: "upper (paging_switch s c) = upper s" "upper (kernel_page s) = upper s"
  "upper (task_return s w r) = upper s" "upper (set_elf s p f) = upper s"
  by (simp_all add: paging_switch_def kernel_page_def task_return_def set_elf_def Let_def)

lemma upper_paging_set: "paging_set s d v x = (r, s') \<Longrightarrow> upper s' = upper s"
  by (auto simp: paging_set_def Let_def split: if_splits prod.splits)

lemma upper_paging_map: "paging_map s c v p f = (r, s') \<Longrightarrow> upper s' = upper s"
  by (auto simp: paging_map_def split: if_splits dest: upper_paging_set)

lemma upper_map_range_loop: "map_range_loop n r s c v p f = (r', s') \<Longrightarrow> upper s' = upper s"
  by (induction n arbitrary: r s v p) (auto simp: Let_def split: prod.splits if_splits dest!: upper_paging_map)

lemma upper_paging_map_to: "paging_map_to s c v p e f = (r, s') \<Longrightarrow> upper s' = upper s"
  by (auto simp: paging_map_to_def paging_map_range_def Let_def split: if_splits dest: upper_map_range_loop)

lemma upper_task_switch: "task_switch s t = Some s' \<Longrightarrow> upper s' = upper s"
  by (auto simp: task_switch_def split: bind_splits)

lemma upper_task_page: "task_page s = Some s' \<Longrightarrow> upper s' = upper s"
  by (auto simp: task_page_def dest!: upper_task_switch)

lemma upper_task_list_remove: "task_list_remove s t = Some s' \<Longrightarrow> upper s' = upper s"
  by (auto simp: task_list_remove_def Let_def split: bind_splits if_splits)

lemma upper_task_free: "task_free s t = Some s' \<Longrightarrow> upper s' = upper s"
  by (auto simp: task_free_def split: bind_splits dest!: upper_kfree upper_task_list_remove
      upper_kframe [OF paging_free_4gb_more])

lemma upper_task_init: "task_init s t p e = Some (r, s') \<Longrightarrow> upper s' = upper s"
  by (auto simp: task_init_def Let_def split: bind_splits if_splits dest!: upper_kframe [OF paging_new_4gb_more])

lemma upper_task_new: "task_new s p e = Some (t, s') \<Longrightarrow> upper s' = upper s"
  by (auto simp: task_new_def Let_def split: bind_splits if_splits dest!: upper_task_free upper_task_init upper_kzalloc)

lemma upper_task_next: "task_next s fl = Some (Inr s') \<Longrightarrow> upper s' = upper s"
  by (auto simp: task_next_def split: bind_splits if_splits dest!: upper_task_switch)

lemma upper_save_state: "task_current_save_state s fr = Some (Inr s') \<Longrightarrow> upper s' = upper s"
  by (auto simp: task_current_save_state_def split: bind_splits if_splits)

lemma upper_stack_item: "task_get_stack_item s t i = Some (v, s') \<Longrightarrow> upper s' = upper s"
  by (auto simp: task_get_stack_item_def task_page_task_def split: bind_splits)

lemma upper_vstrncpy: "vstrncpy n s d c = Some s' \<Longrightarrow> upper s' = upper s"
  by (induction n s d c rule: vstrncpy.induct) (auto simp: vstore_def split: bind_splits if_splits)

lemma upper_copy_string: "copy_string_from_task s t v p n = Some (r, s') \<Longrightarrow> upper s' = upper s"
  by (auto simp: copy_string_from_task_def Let_def split: bind_splits if_splits prod.splits
      dest!: upper_vstrncpy upper_kfree upper_kzalloc upper_paging_map upper_paging_set)


lemma kframe_k: "kzalloc s sz = Some (p, s') \<Longrightarrow> kframe s' = kframe s" "kfree s p = Some t \<Longrightarrow> kframe t = kframe s"
  by simp_all

lemma kframe_free_dir: "fat16_free_dir s x = Some s' \<Longrightarrow> kframe s' = kframe s"
  by (auto simp: fat16_free_dir_def split: dir_ptr.splits bind_splits if_splits dest!: kframe_k)

lemma kframe_item_free: "fat16_fat_item_free s x = Some s' \<Longrightarrow> kframe s' = kframe s"
  by (auto simp: fat16_fat_item_free_def split: fat_item_body.splits bind_splits dest!: kframe_k kframe_free_dir)

lemma kframe_load_dir: "fat16_load_fat_dir dev d s fp it = Some (x, s', fp') \<Longrightarrow> kframe s' = kframe s"
  by (auto simp: fat16_load_fat_dir_def Let_def split: bind_splits if_splits dest!: kframe_k kframe_free_dir)

lemma kframe_new_item: "fat16_new_fat_item_for_dir_item dev d s fp it = Some (x, s', fp') \<Longrightarrow> kframe s' = kframe s"
  by (auto simp: fat16_new_fat_item_for_dir_item_def fat16_clone_dir_item_def Let_def split: bind_splits if_splits
      dest!: kframe_k kframe_load_dir)

lemma kframe_find_loop: "find_item_loop n i dev d s fp dir name tmp f = Some (x, s', fp') \<Longrightarrow> kframe s' = kframe s"
  by (induction n arbitrary: i s fp tmp f)
    (auto split: bind_splits if_splits dest!: kframe_new_item)

lemma kframe_walk: "walk_path dev d s fp c path = Some (x, s', fp') \<Longrightarrow> kframe s' = kframe s"
  by (induction path arbitrary: s fp c)
    (auto simp: fat16_find_item_in_dir_def split: option.splits fat_item_body.splits dir_ptr.splits bind_splits
      dest!: kframe_find_loop kframe_item_free)

lemma kframe_fat_open: "fat16_open dev d s fp path m = Some (r, s', fp') \<Longrightarrow> kframe s' = kframe s"
  by (auto simp: fat16_open_def fat16_get_dir_entry_def fat16_find_item_in_dir_def
      split: option.splits list.splits bind_splits if_splits dest!: kframe_k kframe_find_loop kframe_walk)

lemma kframe_fat_close: "fat16_close s x = Some (r, s') \<Longrightarrow> kframe s' = kframe s"
  by (auto simp: fat16_close_def fat16_free_file_descriptor_def split: bind_splits dest!: kframe_k kframe_item_free)

lemma upper_fopen: "fopen (kernel_fs dev) s path m = Some (fd, s') \<Longrightarrow> upper s' = upper s"
  by (auto simp: fopen_def fopen_res_def file_new_descriptor_def kernel_fs_def fat16_fs_def Let_def
      split: option.splits sum.splits bind_splits if_splits
      dest!: upper_kzalloc upper_kframe [OF pathparser_parse_more] upper_kframe [OF kframe_fat_open])

lemma upper_fclose: "fclose (kernel_fs dev) s fd = Some (r, s') \<Longrightarrow> upper s' = upper s"
  by (auto simp: fclose_def file_free_descriptor_def kernel_fs_def fat16_fs_def
      split: option.splits bind_splits if_splits dest!: upper_kfree upper_kframe [OF kframe_fat_close])

lemma upper_fread: "fread (kernel_fs dev) s p sz n fd = Some (r, s') \<Longrightarrow> upper s' = upper s"
  by (auto simp: fread_def kernel_fs_def fat16_fs_def split: option.splits bind_splits if_splits)

lemma upper_elf_load: "elf_load dev s path = Some (r, f, s') \<Longrightarrow> upper s' = upper s"
  by (auto simp: elf_load_def elf_load_file_def Let_def split: bind_splits if_splits prod.splits
      dest!: upper_kzalloc upper_fopen upper_fread upper_fclose)

lemma upper_elf_close: "elf_close s p = Some s' \<Longrightarrow> upper s' = upper s"
  by (auto simp: elf_close_def split: bind_splits if_splits dest!: upper_kfree)

end
