(* ===== verification/ProcessEnd.thy ===== *)
theory ProcessEnd
  imports Frames
begin

text \<open>
  The end of a process (\<open>task/process.c\<close>): what the operations on processes keep of the table and of the
  sizes of the structures, and why ending the current process halts the kernel.
\<close>

subsection \<open>What the operations on processes leave alone\<close>

text \<open>The table of processes, the current process, the screen and the state above.\<close>

definition outside :: "'z pstate_scheme \<Rightarrow> addr list \<times> addr \<times> terminal \<times> 'z" where
  "outside s = (process_table s, curr_process s, screen s, pstate.more s)"

text \<open>The sizes of the arrays of a process.\<close>

definition process_wf :: "process \<Rightarrow> bool" where
  "process_wf p \<longleftrightarrow> length (proc_filename p) = BENOS_MAX_PATH \<and>
     length (allocations p) = BENOS_MAX_PROGRAM_ALLOCATIONS \<and>
     length (buffer (keyboard p)) = BENOS_KEYBOARD_BUFFER_SIZE"

definition processes_wf :: "'z pstate_scheme \<Rightarrow> bool" where
  "processes_wf s \<longleftrightarrow> (\<forall>a p. processes s a = Some p \<longrightarrow> process_wf p)"

lemma upper_eq:
  assumes "upper s' = upper (s :: 'z pstate_scheme)"
  shows "processes s' = processes s \<and> outside s' = outside s"
  using upper_fields [of s' s] assms by (simp add: upper_def outside_def)

lemma processes_wf_upper: "upper s' = upper (s :: 'z pstate_scheme) \<Longrightarrow> processes_wf s' = processes_wf s"
  by (drule upper_eq) (simp add: processes_wf_def)

lemma outside_upper: "upper s' = upper (s :: 'z pstate_scheme) \<Longrightarrow> outside s' = outside s"
  by (drule upper_eq) simp

lemma outside_set_process [simp]: "outside (set_process s a p) = outside s"
  by (simp add: outside_def set_process_def)

lemma processes_wf_set [simp]: "processes_wf s \<Longrightarrow> process_wf p \<Longrightarrow> processes_wf (set_process s a p)"
  by (simp add: processes_wf_def)

lemma processes_wfD: "processes_wf s \<Longrightarrow> processes s a = Some p \<Longrightarrow> process_wf p"
  by (auto simp: processes_wf_def)

lemma zero_process_wf [simp]: "process_wf zero_process"
  by (simp add: process_wf_def zero_process_def)

lemma process_wf_updates [simp]:
  "process_wf (p\<lparr>proc_task := t\<rparr>) = process_wf p" "process_wf (p\<lparr>filetype := ft\<rparr>) = process_wf p"
  "process_wf (p\<lparr>proc_data := d\<rparr>) = process_wf p" "process_wf (p\<lparr>proc_stack := d\<rparr>) = process_wf p"
  "process_wf (p\<lparr>proc_size := n\<rparr>) = process_wf p" "process_wf (p\<lparr>proc_id := i\<rparr>) = process_wf p"
  "process_wf (p\<lparr>args := as\<rparr>) = process_wf p"
  by (simp_all add: process_wf_def)

text \<open>An operation keeps the processes well formed and leaves the rest alone.\<close>

definition keeps_wf :: "'z pstate_scheme \<Rightarrow> 'z pstate_scheme \<Rightarrow> bool" where
  "keeps_wf s s' \<longleftrightarrow> outside s' = outside s \<and> (processes_wf s \<longrightarrow> processes_wf s')"

lemma keeps_wf_refl [simp]: "keeps_wf s s"
  by (simp add: keeps_wf_def)

lemma keeps_wf_trans [trans]: "keeps_wf s t \<Longrightarrow> keeps_wf t u \<Longrightarrow> keeps_wf s u"
  by (simp add: keeps_wf_def)

lemma keeps_wf_upper: "upper s' = upper (s :: 'z pstate_scheme) \<Longrightarrow> keeps_wf s s'"
  using processes_wf_upper outside_upper by (auto simp: keeps_wf_def)

lemmas upper_eqs = upper_eq [OF upper_kzalloc] upper_eq [OF upper_kfree] upper_eq [OF upper_paging_map_to]
  upper_eq [OF upper_elf_load] upper_eq [OF upper_elf_close] upper_eq [OF upper_task_new] upper_eq [OF upper_task_free]
  upper_eq [OF upper_fopen] upper_eq [OF upper_fread] upper_eq [OF upper_fclose]

lemma process_malloc_wf: "process_malloc s proc sz = Some (ptr, s') \<Longrightarrow> keeps_wf s s'"
  by (auto simp: process_malloc_def Let_def keeps_wf_def processes_wf_def process_wf_def
      split: bind_splits if_splits prod.splits dest!: upper_eqs wr_length)

lemma process_free_wf: "process_free s proc ptr = Some s' \<Longrightarrow> keeps_wf s s'"
  by (auto simp: process_free_def Let_def keeps_wf_def processes_wf_def process_wf_def process_allocation_ujoin_def
      split: option.splits bind_splits if_splits prod.splits dest!: upper_eqs)


lemma keeps_wf_set:
  assumes "keeps_wf s t" "processes t a = Some p" "process_wf p \<Longrightarrow> process_wf p'"
  shows "keeps_wf s (set_process t a p')"
  using assms by (simp add: keeps_wf_def) (metis processes_wfD processes_wf_set)

lemma keeps_wf_up: "keeps_wf s t \<Longrightarrow> upper u = upper t \<Longrightarrow> keeps_wf s u"
  using keeps_wf_trans keeps_wf_upper by blast

lemma load_binary_data_wf:
  assumes "load_binary_data dev s proc fd = Some (r, d, s')"
  shows "keeps_wf s s'"
  using assms
  by (auto simp: load_binary_data_def Let_def split: bind_splits if_splits prod.splits
      intro: keeps_wf_set [OF keeps_wf_upper] keeps_wf_upper dest!: upper_kzalloc upper_fread)

lemma process_load_binary_wf:
  assumes "process_load_binary dev s path proc = Some (r, s')"
  shows "keeps_wf s s'"
proof -
  obtain fd s1 d s2 s3 where a: "fopen (kernel_fs dev) s path [0x72, 0] = Some (fd, s1)"
      "(if fd = 0 then Some (- EIO, 0, s1) else load_binary_data dev s1 proc fd) = Some (r, d, s2)"
      "(if r < 0 \<and> d \<noteq> 0 then kfree s2 d else Some s2) = Some s3" "upper s' = upper s3"
    using assms by (auto simp: process_load_binary_def split: bind_splits dest!: upper_fclose)
  have "keeps_wf s s1" by (rule keeps_wf_upper [OF upper_fopen [OF a(1)]])
  moreover have "keeps_wf s1 s2" using a(2) load_binary_data_wf by (auto split: if_splits)
  moreover have "keeps_wf s2 s3" using a(3) keeps_wf_upper [OF upper_kfree] by (auto split: if_splits)
  ultimately show ?thesis using keeps_wf_trans keeps_wf_upper [OF a(4)] by blast
qed

lemma process_load_elf_wf:
  assumes "process_load_elf dev s path proc = Some (r, s')"
  shows "keeps_wf s s'"
  using assms
  by (auto simp: process_load_elf_def split: bind_splits if_splits prod.splits
      intro: keeps_wf_set [OF keeps_wf_upper] keeps_wf_upper dest!: upper_elf_load)

lemma process_load_data_wf:
  assumes "process_load_data dev s path proc = Some (r, s')"
  shows "keeps_wf s s'"
proof -
  obtain q s1 where "process_load_elf dev s path proc = Some (q, s1)"
      "s' = s1 \<or> process_load_binary dev s1 path proc = Some (r, s')"
    using assms by (auto simp: process_load_data_def split: bind_splits if_splits)
  then show ?thesis using process_load_elf_wf process_load_binary_wf keeps_wf_trans by blast
qed

lemma upper_map_elf_loop: "map_elf_loop i r s c f ph = (r', s') \<Longrightarrow> upper s' = upper s"
proof (induction i r s c f ph rule: map_elf_loop.induct)
  case (1 i r s c f ph)
  let ?g = "elf32_phdr_at (ram s) (ph + word_of_int (32 * i))"
  show ?case
  proof (cases "i < uint (e_phnum (elf32_header_at (ram s) (elf_header f)))")
    case True
    obtain q s1 where m: "paging_map_to s c (paging_align_to_lower_page (p_vaddr ?g))
        (paging_align_to_lower_page (elf_phdr_phys_address f ?g))
        (paging_align_address (elf_phdr_phys_address f ?g + p_memsz ?g)) (phdr_flags ?g) = (q, s1)" by force
    have "(if q < 0 then (q, s1) else map_elf_loop (i + 1) q s1 c f ph) = (r', s')"
      using "1.prems" True m by (subst (asm) map_elf_loop.simps) (simp add: Let_def)
    then have "upper s' = upper s1"
      using "1.IH" [OF True refl refl refl m [symmetric]] by (auto split: if_splits)
    then show ?thesis using upper_paging_map_to [OF m] by simp
  next
    case False
    then show ?thesis using "1.prems" by (subst (asm) map_elf_loop.simps) simp
  qed
qed

lemma process_map_elf_wf: "process_map_elf s proc = Some (r, s') \<Longrightarrow> upper s' = upper s"
  by (auto simp: process_map_elf_def split: bind_splits dest!: upper_map_elf_loop)

lemma process_map_binary_wf: "process_map_binary s proc = Some (r, s') \<Longrightarrow> upper s' = upper s"
  by (auto simp: process_map_binary_def Let_def split: bind_splits prod.splits dest!: upper_paging_map_to)

lemma process_map_memory_wf: "process_map_memory s proc = Some (Inr (r, s')) \<Longrightarrow> upper s' = upper s"
  by (auto simp: process_map_memory_def Let_def split: bind_splits if_splits prod.splits
      dest!: process_map_elf_wf process_map_binary_wf upper_paging_map_to)

lemma inject_args_loop_wf:
  assumes "inject_args_loop s proc av sz cur i = Some y"
  shows "keeps_wf s (snd y)"
proof (rule inject_args_loop.raw_induct [where P = "\<lambda>s proc av sz cur i y. keeps_wf s (snd y)", OF _ assms])
  fix f :: "'a pstate_scheme \<Rightarrow> addr \<Rightarrow> addr \<Rightarrow> u32 \<Rightarrow> addr \<Rightarrow> int \<Rightarrow> (int \<times> 'a pstate_scheme) option"
    and s proc av sz cur i y
  assume ih: "\<And>s proc av sz cur i y. f s proc av sz cur i = Some y \<Longrightarrow> keeps_wf s (snd y)"
    and y: "(if cur = 0 then Some (0, s)
      else do {
        (arg_str, s1) \<leftarrow> process_malloc s proc 512;
        if arg_str = 0 then Some (- ENOMEM, s1)
        else if uint sz < 4 * i + 4 then None
        else
          (let m = store32 (ram_strncpy (ram s1) arg_str cur 512) (av + word_of_int (4 * i)) arg_str
           in f (s1\<lparr>ram := m\<rparr>) proc av sz (arg_next m cur) (i + 1)) }) = Some y"
  show "keeps_wf s (snd y)"
  proof (cases "cur = 0")
    case True
    then show ?thesis using y by auto
  next
    case False
    then obtain p s1 where m: "process_malloc s proc 512 = Some (p, s1)" "y = (- ENOMEM, s1) \<or>
        (\<exists>m c j. f (s1\<lparr>ram := m\<rparr>) proc av sz c j = Some y)"
      using y by (auto simp: Let_def split: bind_splits if_splits) blast
    have "keeps_wf s1 (s1\<lparr>ram := m\<rparr>)" for m by (rule keeps_wf_upper) simp
    then show ?thesis using m process_malloc_wf [OF m(1)] ih keeps_wf_trans by (metis snd_conv)
  qed
qed

lemma process_inject_args_wf:
  assumes "process_inject_args s proc root = Some (r, s')"
  shows "keeps_wf s s'"
proof -
  consider "s' = s" | n av where "process_malloc s proc n = Some (av, s')"
    | n k av s1 t where "process_malloc s proc n = Some (av, s1)" "inject_args_loop s1 proc av (4 * word_of_int k) root 0 = Some t"
        "s' = snd t \<or> (\<exists>p as. processes (snd t) proc = Some p \<and> s' = set_process (snd t) proc (p\<lparr>args := as\<rparr>))"
    using assms by (auto simp: process_inject_args_def split: bind_splits if_splits) fastforce+
  then show ?thesis
  proof cases
    case 3
    then have "keeps_wf s (snd t)" using keeps_wf_trans process_malloc_wf inject_args_loop_wf by blast
    then show ?thesis using 3(3) by (auto intro: keeps_wf_set)
  qed (auto intro: process_malloc_wf)
qed

lemma terminate_allocations_loop_wf:
  "terminate_allocations_loop n i s proc = Some s' \<Longrightarrow> keeps_wf s s'"
proof (induction n arbitrary: i s)
  case (Suc n)
  then obtain a s1 where "process_free s proc a = Some s1" "terminate_allocations_loop n (i + 1) s1 proc = Some s'"
    by (auto split: bind_splits)
  then show ?case using process_free_wf Suc.IH keeps_wf_trans by blast
qed simp

lemma process_free_data_wf: "process_free_progran_data s p = Some (r, s') \<Longrightarrow> upper s' = upper s"
  by (auto simp: process_free_progran_data_def process_free_binary_data_def process_free_elf_data_def
      split: if_splits bind_splits dest!: upper_kfree upper_elf_close)

text \<open>The file type of a process stays while its allocations are released.\<close>

lemma process_free_filetype:
  assumes "process_free s proc ptr = Some s'" "processes s proc = Some p"
  shows "\<exists>p'. processes s' proc = Some p' \<and> filetype p' = filetype p"
  using assms by (auto simp: process_free_def Let_def process_allocation_ujoin_def split: option.splits bind_splits if_splits
      prod.splits dest!: upper_eqs)

lemma terminate_allocations_filetype:
  assumes "terminate_allocations_loop n i s proc = Some s'" "processes s proc = Some p"
  shows "\<exists>p'. processes s' proc = Some p' \<and> filetype p' = filetype p"
  using assms
proof (induction n arbitrary: i s p)
  case (Suc n)
  then obtain a s1 where s1: "process_free s proc a = Some s1" "terminate_allocations_loop n (i + 1) s1 proc = Some s'"
    by (auto split: bind_splits)
  then show ?case using process_free_filetype [OF s1(1) Suc.prems(2)] Suc.IH by metis
qed simp

lemma wr_replicate: "wr (replicate n x) i x = Some ys \<Longrightarrow> ys = replicate n x"
proof -
  have "(replicate n x)[k := x] = replicate n x" for k
    using list_update_id [of "replicate n x" k] by (cases "k < n") (simp_all add: list_update_beyond)
  then show "wr (replicate n x) i x = Some ys \<Longrightarrow> ys = replicate n x" by (auto simp: wr_def split: if_splits)
qed

text \<open>
  C18. Ending the current process. If the table of processes is empty, as the loader leaves it (\<open>process_load_ok\<close>,
  \<open>kernel_keeps_types\<close>), and \<open>process_terminate\<close> gets to the end for the process that is the current one
  (\<open>process_current\<close>), it finds no process to switch to and halts the kernel with a panic, no matter how many
  processes are left. A process that is not the current one is not concerned.
\<close>

theorem process_terminate_halts:
  assumes "process_terminate s proc = Some r" "processes s proc = Some p"
    "filetype p = PROCESS_FILETYPE_ELF \<or> filetype p = PROCESS_FILETYPE_BINARY"
    "process_table s = replicate n 0" "curr_process s = proc"
  shows "r = Inl (Panic ''No processes left to switch to'')"
proof -
  obtain s1 where s1: "terminate_allocations_loop BENOS_MAX_PROGRAM_ALLOCATIONS 0 s proc = Some s1"
    using assms(1) by (auto simp: process_terminate_def process_terminate_allocations_def split: bind_splits)
  obtain p1 where p1: "processes s1 proc = Some p1" "filetype p1 = filetype p"
    using terminate_allocations_filetype [OF s1 assms(2)] by blast
  have "outside s1 = outside s" using terminate_allocations_loop_wf [OF s1] by (simp add: keeps_wf_def)
  then have o1: "process_table s1 = replicate n 0" "curr_process s1 = proc"
    using assms(4,5) by (simp_all add: outside_def)
  obtain s2 where s2: "process_free_progran_data s1 p1 = Some (0, s2)" "upper s2 = upper s1"
  proof -
    obtain q s2 where "process_free_progran_data s1 p1 = Some (q, s2)"
      using assms(1) s1 p1 by (auto simp: process_terminate_def process_terminate_allocations_def split: bind_splits)
    moreover from this have "q = 0"
      using assms(3) p1(2) by (auto simp: process_free_progran_data_def process_free_binary_data_def process_free_elf_data_def
          PROCESS_FILETYPE_ELF_def PROCESS_FILETYPE_BINARY_def split: if_splits bind_splits)
    ultimately show ?thesis using that process_free_data_wf by metis
  qed
  obtain s3 s4 q where s4: "kfree s2 (proc_stack p1) = Some s3" "task_free s3 (proc_task p1) = Some s4"
      "process_unlink s4 proc = Some q" "r = (case q of Inl m \<Rightarrow> Inl m | Inr _ \<Rightarrow> r)"
    using assms(1) s1 p1(1) s2(1)
    by (auto simp: process_terminate_def process_terminate_allocations_def split: bind_splits sum.splits)
  have "upper s4 = upper s1" using s2(2) upper_kfree [OF s4(1)] upper_task_free [OF s4(2)] by simp
  then have o4: "process_table s4 = replicate n 0" "curr_process s4 = proc" "processes s4 = processes s1"
    using o1 upper_eq [of s4 s1] by (auto simp: outside_def)
  have "q = Inl (Panic ''No processes left to switch to'')"
    using s4(3) o4 p1(1)
    by (auto simp: process_unlink_def process_switch_to_any_def switch_to_any_none split: bind_splits if_splits
        dest!: wr_replicate)
  then show ?thesis using s4(4) by simp
qed

lemma terminate_allocations_none:
  assumes "runs_in s proc p chunk" "\<forall>a \<in> set (allocations p). alloc_ptr a = 0 \<and> alloc_size a = 0"
  shows "int (n + i) \<le> int (length (allocations p)) \<Longrightarrow> terminate_allocations_loop n (int i) s proc = Some s"
proof (induction n arbitrary: i)
  case (Suc n)
  have "i < length (allocations p)" using Suc.prems by simp
  then have "rd (allocations p) (int i) = Some (allocations p ! i)" "alloc_ptr (allocations p ! i) = 0"
    using assms(2) by (simp_all add: rd_def)
  then show ?case
    using Suc.IH [of "Suc i"] Suc.prems assms(1) process_free_none [OF assms] by (simp add: runs_in_def algebra_simps)
qed simp

lemma space_pages_distinct:
  assumes "chunk_wf chunk s"
  shows "distinct (space_pages s chunk)"
proof -
  have "inj_on (table_of (ram s) (chunk_dir s chunk)) {0..<1024}"
    using assms by (intro inj_onI) (auto simp: chunk_wf_def pd_wf_def)
  moreover have "chunk_dir s chunk \<noteq> chunk" using assms by (simp add: chunk_wf_def)
  moreover have "chunk \<notin> table_of (ram s) (chunk_dir s chunk) ` {0..<1024}"
      "chunk_dir s chunk \<notin> table_of (ram s) (chunk_dir s chunk) ` {0..<1024}"
    using assms by (fastforce simp: chunk_wf_def pd_wf_def)+
  ultimately show ?thesis by (simp add: space_pages_def distinct_map del: upt_rec_numeral)
qed

lemma paging_free_4gb_run:
  assumes "k_inv s" "space_ok s chunk"
  obtains s' where "paging_free_4gb s chunk = Some s'" "k_inv s'" "k_live s' = k_live s |` (- set (space_pages s chunk))"
proof -
  let ?ps = "map (table_of (ram s) (chunk_dir s chunk)) [0..<1024] @ [chunk_dir s chunk, chunk]"
  have d: "distinct (space_pages s chunk)" "set (space_pages s chunk) \<subseteq> dom (k_live s)"
    using assms(2) space_pages_distinct by (auto simp: space_ok_def)
  have e: "set ?ps = set (space_pages s chunk)" "length ?ps = length (space_pages s chunk)"
    by (auto simp: space_pages_def simp del: upt_rec_numeral)
  have "distinct ?ps" using d(1) e by (metis card_distinct distinct_card)
  moreover have "set ?ps \<subseteq> dom (k_live s)" unfolding e(1) by (rule d(2))
  ultimately show ?thesis
    using that kz.release_all_live [OF assms(1), of ?ps] unfolding e(1) paging_free_4gb_eq by blast
qed

lemma kframe_frame: "kframe s' = kframe s \<Longrightarrow> ram s' = ram s \<Longrightarrow> s' = s\<lparr>kernel_heap := kernel_heap s'\<rparr>"
  by (drule kframe_more) (cases s; cases s'; simp)

lemma task_list_remove_k:
  assumes "task_list_remove s t = Some s'"
  shows "k_inv s' = k_inv s" "k_live s' = k_live s"
  using assms by (auto simp: task_list_remove_def Let_def k_inv_def k_live_def set_task_def split: bind_splits if_splits)

text \<open>The process that was loaded is ended up to the point where another process has to be found.\<close>

lemma process_terminate_reaches:
  assumes k: "k_inv s" and r: "runs_in s proc p chunk"
    and p: "filetype p = PROCESS_FILETYPE_ELF" "\<forall>a \<in> set (allocations p). alloc_ptr a = 0 \<and> alloc_size a = 0"
      "length (allocations p) = BENOS_MAX_PROGRAM_ALLOCATIONS" "proc_id p = 0" "0 < length (process_table s)"
    and f: "elf_files s (proc_data p) = Some f"
    and d: "distinct ([elf_mem f, proc_data p, proc_stack p] @ proc_task p # space_pages s chunk)"
      "{elf_mem f, proc_data p, proc_stack p, proc_task p} \<subseteq> dom (k_live s)"
    and t: "task_list s xs" "prev_ok s xs" "i < length xs" "xs ! i = proc_task p"
    and c: "curr_process s = proc" "process_table s = replicate n 0"
  shows "process_terminate s proc = Some (Inl (Panic ''No processes left to switch to''))"
proof -
  let ?m = "elf_mem f" and ?fl = "proc_data p" and ?stk = "proc_stack p" and ?task = "proc_task p"
  obtain tk where pr: "processes s proc = Some p" "space_ok s chunk" "tasks s ?task = Some tk" "page_directory tk = chunk"
    using r by (auto simp: runs_in_def)
  have loop: "terminate_allocations_loop BENOS_MAX_PROGRAM_ALLOCATIONS 0 s proc = Some s"
    using terminate_allocations_none [OF r p(2), of BENOS_MAX_PROGRAM_ALLOCATIONS 0] p(3) by simp
  have nz: "?fl \<noteq> 0" using kz.live_aligned [OF k] d(2) by blast
  obtain s1 where s1: "kfree s ?m = Some s1" "k_inv s1" "k_live s1 = (k_live s)(?m := None)"
    using kz.release_live [OF k] d(2) by blast
  obtain s2 where s2: "kfree s1 ?fl = Some s2" "k_inv s2" "k_live s2 = (k_live s1)(?fl := None)"
    using kz.release_live [OF s1(2), of ?fl] d s1(3) by auto
  let ?e = "s2\<lparr>elf_files := (elf_files s2)(?fl := None)\<rparr>"
  have close: "elf_close s ?fl = Some ?e" using nz f s1(1) s2(1) by (simp add: elf_close_def)
  have e: "k_inv ?e" "k_live ?e = k_live s2" using s2(2) by (simp_all add: k_inv_def k_live_def)
  have "k_live s2 ?stk \<noteq> None" using d s1(3) s2(3) by auto
  then obtain s3 where s3: "kfree ?e ?stk = Some s3" "k_inv s3" "k_live s3 = (k_live s2)(?stk := None)"
    using kz.release_live [OF e(1), of ?stk] e(2) by auto
  note fr = kfree_frame [OF s1(1)] kfree_frame [OF s2(1)] kfree_frame [OF s3(1)]
  have s3': "s3 = s\<lparr>kernel_heap := kernel_heap s3, elf_files := elf_files s3\<rparr>"
  proof -
    obtain h1 h2 h3 where "s1 = s\<lparr>kernel_heap := h1\<rparr>" "s2 = s1\<lparr>kernel_heap := h2\<rparr>"
        "s3 = ?e\<lparr>kernel_heap := h3\<rparr>" using fr by blast
    then show ?thesis by simp
  qed
  have tk3: "tasks s3 ?task = Some tk" using pr(3) by (subst s3') simp
  have l3: "k_live s3 = (k_live s)(?m := None, ?fl := None, ?stk := None)" using s1(3) s2(3) s3(3) by simp
  have "ram s3 = ram s" by (subst s3') simp
  then have sp: "space_pages s3 chunk = space_pages s chunk" "chunk_wf chunk s3 = chunk_wf chunk s"
    by (simp_all add: space_pages_def chunk_wf_def chunk_dir_def)
  have "space_ok s3 chunk" using pr(2) d(1) unfolding space_ok_def sp l3 by auto
  then obtain s4 where s4: "paging_free_4gb s3 chunk = Some s4" "k_inv s4"
      "k_live s4 = k_live s3 |` (- set (space_pages s chunk))"
    using paging_free_4gb_run [OF s3(2)] sp(1) by metis
  have lt: "task_list s4 xs" "prev_ok s4 xs" "tasks s4 = tasks s" "outside s4 = outside s" "processes s4 = processes s"
  proof -
    have s4': "s4 = s3\<lparr>kernel_heap := kernel_heap s4\<rparr>" by (rule kframe_frame [OF paging_free_4gb_more [OF s4(1)]])
      (use s4(1) release_all_ram in \<open>simp add: paging_free_4gb_eq del: upt_rec_numeral\<close>)
    obtain h e where 1: "s3 = s\<lparr>kernel_heap := h, elf_files := e\<rparr>" using s3' by blast
    obtain h4 where 2: "s4 = s3\<lparr>kernel_heap := h4\<rparr>" using s4' by blast
    have q: "s4 = s\<lparr>kernel_heap := kernel_heap s4, elf_files := elf_files s3\<rparr>" unfolding 2 1 by simp
    have hd: "task_head s4 = task_head s" "task_tail s4 = task_tail s" "tasks s4 = tasks s"
      by (subst q; simp)+
    show "task_list s4 xs" using task_list_cong [OF hd] t(1) by simp
    show "prev_ok s4 xs" using t(2) hd by (simp add: prev_ok_def)
    show "tasks s4 = tasks s" by (rule hd(3))
    show "outside s4 = outside s" by (subst q) (simp add: outside_def)
    show "processes s4 = processes s" by (subst q) simp
  qed
  obtain s5 where s5: "task_list_remove s4 ?task = Some s5"
    using task_list_remove_eq [OF lt(1,2) t(3)] t(4) by auto
  have up5: "upper s5 = upper s4" "k_inv s5" "k_live s5 = k_live s4"
    using s5 s4(2) upper_task_list_remove [OF s5] by (simp_all add: task_list_remove_k)
  have "k_live s5 ?task \<noteq> None" using d unfolding up5(3) s4(3) l3 by auto
  then obtain s6 where s6: "kfree s5 ?task = Some s6" using kz.release_live [OF up5(2)] by blast
  let ?s6 = "s6\<lparr>tasks := (tasks s6)(?task := None)\<rparr>"
  have tf: "task_free s3 ?task = Some ?s6"
    using tk3 pr(4) s4(1) s5 s6 by (simp add: task_free_def)
  have "upper ?s6 = upper s4" using upper_kfree [OF s6] up5(1) by simp
  then have o6: "process_table ?s6 = replicate n 0" "curr_process ?s6 = proc" "processes ?s6 = processes s"
    using upper_eq [of ?s6 s4] lt(4,5) c by (simp_all add: outside_def)
  have "process_unlink ?s6 proc = Some (Inl (Panic ''No processes left to switch to''))"
  proof -
    have w: "wr (replicate n (0 :: addr)) 0 0 = Some (replicate n 0)"
      using wr_replicate [of n "0 :: addr" 0] p(5) c(2) by (auto simp: wr_def)
    show ?thesis
      using o6 pr(1) p(4) c(1) w by (simp add: process_unlink_def process_switch_to_any_def switch_to_any_none)
  qed
  then show ?thesis
    using pr(1) loop p(1) close s3(1) tf
    by (simp add: process_terminate_def process_terminate_allocations_def process_free_progran_data_def
        process_free_elf_data_def PROCESS_FILETYPE_ELF_def PROCESS_FILETYPE_BINARY_def)
qed


theorem process_terminate_halts_witness:
  "\<exists>proc p s. process_load (elf_disk small_elf) (process_state small_elf) blank_path = Some (Inr (0, Some proc, s)) \<and>
     processes s proc = Some p \<and>
     process_terminate (s\<lparr>curr_process := proc\<rparr>) proc = Some (Inl (Panic ''No processes left to switch to''))"
proof -
  obtain proc fl mem stk task chunk ps s where
    p: "process_load (elf_disk small_elf) (process_state small_elf) blank_path = Some (Inr (0, Some proc, s))"
    "process_loaded blank_path (elf_contents small_elf) s proc fl mem stk task chunk"
    "acquired (process_state small_elf) ps s" "blocks ps = 1039" "task_list s [task]"
    "processes s = [proc \<mapsto> new_process blank_path fl stk task]" "process_table s = replicate BENOS_MAX_PROCESSES 0"
    "prev_ok s [task]" "load_blocks 1 proc fl mem stk task (space_pages s chunk) ps"
    by (rule small_process) (rule that)
  let ?s = "s\<lparr>curr_process := proc\<rparr>" and ?p = "new_process blank_path fl stk task"
  obtain f where f: "elf_files s fl = Some f" "elf_mem f = mem" using p(2) by (auto simp: process_loaded_def)
  have r: "runs_in ?s proc ?p chunk"
    using p(2) by (simp add: process_loaded_def runs_in_def space_ok_def space_pages_def chunk_wf_def chunk_dir_def k_live_def)
  have pg: "space_pages ?s chunk = space_pages s chunk" by (simp add: space_pages_def chunk_dir_def)
  have ch: "chunk_wf chunk s" using p(2) by (simp add: process_loaded_def runs_in_def space_ok_def)
  obtain ns qs where ps: "ps = ((proc, 3) # (fl, 1) # singles ns @ [(mem, 1), (stk, 4)]) @ singles qs"
      "set qs = insert task (set (space_pages s chunk))" "length qs = 1027" using p(9) by (auto simp: load_blocks_def)
  note ac = acquiredD [OF p(3)]
  have dq: "distinct qs" "set qs \<inter> {fl, mem, stk} = {}" "distinct [fl, mem, stk]"
    using ac(3) unfolding ps(1) by auto
  have "card (insert task (set (space_pages s chunk))) = 1027" using distinct_card [OF dq(1)] ps(2,3) by simp
  moreover have "card (set (space_pages s chunk)) = 1026"
    using distinct_card [OF space_pages_distinct [OF ch]] by (simp add: space_pages_def del: upt_rec_numeral)
  ultimately have "task \<notin> set (space_pages s chunk)" by (cases "task \<in> set (space_pages s chunk)") (simp_all add: insert_absorb)
  then have d: "distinct ([mem, fl, stk] @ task # space_pages s chunk)"
    using space_pages_distinct [OF ch] dq(2,3) unfolding ps(2) by auto
  have live: "{mem, fl, stk, task} \<subseteq> dom (k_live ?s)"
  proof -
    have "(mem, 1) \<in> set ps" "(fl, 1) \<in> set ps" "(stk, 4) \<in> set ps" "(task, 1) \<in> set ps"
      unfolding ps(1) using ps(2) by (auto simp: singles_def)
    then show ?thesis using ac(6) by (fastforce simp: k_live_def)
  qed
  have k: "k_inv ?s" using ac(1) by (simp add: k_inv_def)
  have lists: "task_list ?s [task]" "prev_ok ?s [task]" using p(5,8) by (simp_all add: task_list_def prev_ok_def)
  have "process_terminate ?s proc = Some (Inl (Panic ''No processes left to switch to''))"
    by (rule process_terminate_reaches [OF k r, of f "[task]" 0])
      (use f d live lists p(7) pg in \<open>simp_all add: new_process_def zero_process_def BENOS_MAX_PROCESSES_def\<close>)
  with process_terminate_halts [of ?s proc _ ?p BENOS_MAX_PROCESSES] show ?thesis
    using p(1,6,7) by (fastforce simp: new_process_def)
qed

end
