(* ===== verification/KernelOk.thy ===== *)
theory KernelOk
  imports Kernel ProcessEnd
begin

text \<open>
  The types of the kernel's structures: what every system call and every interrupt preserves, whatever the
  programs compute in between. One lemma per operation, and a step relation of the whole machine.
\<close>

subsection \<open>Processes\<close>

lemma keeps_wf_processes: "keeps_wf s t \<Longrightarrow> keeps_wf s (t\<lparr>processes := (processes t)(a := None)\<rparr>)"
  by (auto simp: keeps_wf_def outside_def processes_wf_def)

lemma process_load_fail_wf:
  assumes "process_load_fail s proc = Some s'"
  shows "keeps_wf s s'"
proof -
  obtain s1 s2 where s: "s1 = s \<or> (\<exists>t. task_free s t = Some s1)" "kfree s1 proc = Some s2"
      "s' = s2\<lparr>processes := (processes s2)(proc := None)\<rparr>"
    using assms by (auto simp: process_load_fail_def split: bind_splits if_splits)
  have "keeps_wf s s1" using s(1) keeps_wf_upper [OF upper_task_free] by auto
  then have "keeps_wf s s2" using keeps_wf_up [OF _ upper_kfree [OF s(2)]] by blast
  then show ?thesis unfolding s(3) by (rule keeps_wf_processes)
qed

lemma strncpy_length: "strncpy dest src n = Some ys \<Longrightarrow> length ys = length dest"
proof -
  assume a: "strncpy dest src n = Some ys"
  have l: "strncpy_loop d src n i = Some (j, zs) \<Longrightarrow> length zs = length d" for d i j zs
  proof (induction d src n i rule: strncpy_loop.induct)
    case (1 d src n i)
    show ?case
      using "1.prems" "1.IH"
      by (subst (asm) strncpy_loop.simps) (auto split: if_splits bind_splits dest!: wr_length)
  qed
  show ?thesis using a l by (auto simp: strncpy_def split: bind_splits dest!: wr_length)
qed

lemma process_load_for_slot_wf:
  assumes "process_load_for_slot dev s path slot = Some (Inr (r, new, s'))"
  shows "keeps_wf s s'"
proof -
  obtain proc s1 where z: "kzalloc s sizeof_process = Some (proc, s1)"
    using assms by (auto simp: process_load_for_slot_def split: if_splits bind_splits)
  have k1: "keeps_wf s s1" by (rule keeps_wf_upper [OF upper_kzalloc [OF z]])
  show ?thesis
  proof (cases "proc = 0")
    case True
    then obtain s2 where "process_load_fail s1 proc = Some s2" "s' = s2"
      using assms z by (auto simp: process_load_for_slot_def split: if_splits bind_splits)
    then show ?thesis using keeps_wf_trans [OF k1 process_load_fail_wf] by blast
  next
    case nz: False
    let ?i = "process_init s1 proc"
    have ki: "keeps_wf s ?i" using k1 by (simp add: keeps_wf_def process_init_def)
    obtain res s2 where d: "process_load_data dev ?i path proc = Some (res, s2)"
      using assms z nz by (auto simp: process_load_for_slot_def split: if_splits bind_splits)
    have k2: "keeps_wf s s2" by (rule keeps_wf_trans [OF ki process_load_data_wf [OF d]])
    show ?thesis
    proof (cases "res < 0")
      case True
      then obtain s3 where "process_load_fail s2 proc = Some s3" "s' = s3"
        using assms z nz d by (auto simp: process_load_for_slot_def split: if_splits bind_splits)
      then show ?thesis using keeps_wf_trans [OF k2 process_load_fail_wf] by blast
    next
      case ok: False
      obtain stk s3 where st: "kzalloc s2 BENOS_USER_PROGRAM_STACK_SIZE = Some (stk, s3)"
        using assms z nz d ok by (auto simp: process_load_for_slot_def split: if_splits bind_splits)
      have k3: "keeps_wf s s3" by (rule keeps_wf_up [OF k2 upper_kzalloc [OF st]])
      show ?thesis
      proof (cases "stk = 0")
        case True
        then obtain s4 where "process_load_fail s3 proc = Some s4" "s' = s4"
          using assms z nz d ok st by (auto simp: process_load_for_slot_def split: if_splits bind_splits)
        then show ?thesis using keeps_wf_trans [OF k3 process_load_fail_wf] by blast
      next
        case sk: False
        obtain p fn entry task s5 where p: "processes s3 proc = Some p" "strncpy (proc_filename p) path (int BENOS_MAX_PATH) = Some fn"
            and t: "task_new (set_process s3 proc (p\<lparr>proc_filename := fn, proc_stack := stk, proc_id := word_of_int slot\<rparr>)) proc entry = Some (task, s5)"
            and rest: "(if task = 0 then Some (Inr (0, None, s5))
              else do {
                p \<leftarrow> processes s5 proc;
                r \<leftarrow> process_map_memory (set_process s5 proc (p\<lparr>proc_task := task\<rparr>)) proc;
                case r of
                  Inl m \<Rightarrow> Some (Inl m)
                | Inr (res, s6) \<Rightarrow>
                    if res < 0 then do { s7 \<leftarrow> process_load_fail s6 proc; Some (Inr (res, None, s7)) }
                    else if slot = 0 then Some (Inr (res, Some proc, s6))
                    else None }) = Some (Inr (r, new, s'))"
          using assms z nz d ok st sk by (auto simp: process_load_for_slot_def Let_def split: if_splits bind_splits)
        have "keeps_wf s (set_process s3 proc (p\<lparr>proc_filename := fn, proc_stack := stk, proc_id := word_of_int slot\<rparr>))"
          by (rule keeps_wf_set [OF k3 p(1)]) (use strncpy_length [OF p(2)] in \<open>simp add: process_wf_def\<close>)
        then have k5: "keeps_wf s s5" by (rule keeps_wf_up [OF _ upper_task_new [OF t]])
        show ?thesis
        proof (cases "task = 0")
          case True
          then show ?thesis using rest k5 by simp
        next
          case False
          then obtain p5 r6 s6 where m: "processes s5 proc = Some p5"
              "process_map_memory (set_process s5 proc (p5\<lparr>proc_task := task\<rparr>)) proc = Some (Inr (r6, s6))"
              "s' = s6 \<or> process_load_fail s6 proc = Some s'"
            using rest by (auto split: bind_splits sum.splits if_splits)
          have "keeps_wf s (set_process s5 proc (p5\<lparr>proc_task := task\<rparr>))" by (rule keeps_wf_set [OF k5 m(1)]) simp
          then have "keeps_wf s s6" by (rule keeps_wf_up [OF _ process_map_memory_wf [OF m(2)]])
          then show ?thesis using m(3) keeps_wf_trans process_load_fail_wf by blast
        qed
      qed
    qed
  qed
qed

text \<open>Loading and switching: the current process may change.\<close>

lemma process_load_switch_wf:
  assumes "process_load_switch dev s path old = Some (Inr (r, proc, s'))"
  obtains t where "keeps_wf s t" "s' = t \<or> s' = t\<lparr>curr_process := proc\<rparr>"
proof -
  obtain new t where l: "process_load dev s path = Some (Inr (r, new, t))" "s' = t \<or> s' = t\<lparr>curr_process := proc\<rparr>"
    using assms by (auto simp: process_load_switch_def process_switch_def Let_def split: bind_splits sum.splits)
  have "keeps_wf s t"
    using l(1) process_load_for_slot_wf by (auto simp: process_load_def Let_def split: if_splits)
  then show ?thesis using that l(2) by blast
qed

subsection \<open>Types of the whole kernel\<close>

text \<open>
  What holds of the kernel's structures while programs run: the arrays of every process have their sizes,
  the table of processes is empty, the screen has all of its cells, the interrupts have the callbacks and
  the system calls the commands that were registered at the start.
\<close>

definition SCREEN_CELLS :: nat where "SCREEN_CELLS = 16384"

definition tables_ok :: "'z kstate_scheme \<Rightarrow> bool" where
  "tables_ok s \<longleftrightarrow> length (interrupt_callbacks s) = 512 \<and>
     (\<forall>i < 512. interrupt_callbacks s ! i =
        (if i < 0x20 then Some Idt_handle_exception else if i = 0x20 then Some Idt_clock
         else if i = 0x21 then Some Classic_keyboard_handle_interrupt else None)) \<and>
     (\<forall>n. isr80h_find_command (isr80h_commands s) n = Some (map_of system_commands n))"

definition kernel_wf :: "'z kstate_scheme \<Rightarrow> bool" where
  "kernel_wf s \<longleftrightarrow> processes_wf s \<and> process_table s = replicate BENOS_MAX_PROCESSES 0 \<and>
     length (video_memory (screen s)) = SCREEN_CELLS \<and> tables_ok s"

lemma kernel_wf_keeps:
  assumes "keeps_wf s s'" "kernel_wf (s :: 'z kstate_scheme)"
  shows "kernel_wf s'"
proof -
  have o: "process_table s' = process_table s" "screen s' = screen s" "pstate.more s' = pstate.more s"
      "processes_wf s \<Longrightarrow> processes_wf s'"
    using assms(1) by (simp_all add: keeps_wf_def outside_def)
  have "interrupt_callbacks s' = interrupt_callbacks s" "isr80h_commands s' = isr80h_commands s"
    using o(3) by (cases s; cases s'; simp)+
  then show ?thesis using assms(2) o by (simp add: kernel_wf_def tables_ok_def)
qed

lemma kernel_wf_upper: "upper s' = upper s \<Longrightarrow> kernel_wf (s :: 'z kstate_scheme) \<Longrightarrow> kernel_wf s'"
  by (rule kernel_wf_keeps [OF keeps_wf_upper])

lemma kernel_wf_updates [simp]:
  "kernel_wf (s\<lparr>ram := m\<rparr>) = kernel_wf s" "kernel_wf (s\<lparr>cpu := r\<rparr>) = kernel_wf s" "kernel_wf (outb s p v) = kernel_wf s"
  "kernel_wf (s\<lparr>curr_process := a\<rparr>) = kernel_wf s" "kernel_wf (keyboard_set_capslock s c) = kernel_wf s"
  by (simp_all add: kernel_wf_def tables_ok_def processes_wf_def outb_def keyboard_set_capslock_def)

lemma kernel_wf_screen: "kernel_wf s \<Longrightarrow> length (video_memory t) = SCREEN_CELLS \<Longrightarrow> kernel_wf (s\<lparr>screen := t\<rparr>)"
  by (simp add: kernel_wf_def tables_ok_def processes_wf_def)

subsection \<open>The screen\<close>

lemma ter_putchar_length: "ter_putchar t x y c k = Some t' \<Longrightarrow> length (video_memory t') = length (video_memory t)"
  by (auto simp: ter_putchar_def split: bind_splits dest!: wr_length)

lemma ter_writeplain_length: "ter_writeplain t c k = Some t' \<Longrightarrow> length (video_memory t') = length (video_memory t)"
  by (auto simp: ter_writeplain_def Let_def split: bind_splits if_splits dest!: ter_putchar_length)

lemma ter_writechar_length: "ter_writechar t c k = Some t' \<Longrightarrow> length (video_memory t') = length (video_memory t)"
  by (auto simp: ter_writechar_def terminal_backspace_def Let_def split: bind_splits if_splits dest!: ter_writeplain_length)

lemma print_loop_length: "print_loop t str i = Some t' \<Longrightarrow> length (video_memory t') = length (video_memory t)"
proof (induction t str i rule: print_loop.induct)
  case (1 t str i)
  show ?case
    using "1.prems" "1.IH"
    by (subst (asm) print_loop.simps) (auto split: bind_splits if_splits dest!: ter_writechar_length)
qed

lemma kprint_wf: "kprint s str = Some s' \<Longrightarrow> kernel_wf s \<Longrightarrow> kernel_wf s'"
  by (auto simp: kprint_def print_def kernel_wf_def tables_ok_def processes_wf_def split: bind_splits dest!: print_loop_length)

subsection \<open>System calls\<close>

lemma kernel_wf_set_process: "kernel_wf s \<Longrightarrow> process_wf p \<Longrightarrow> kernel_wf (set_process s a p)"
  by (simp add: kernel_wf_def tables_ok_def) (simp add: set_process_def)

lemma kernel_wf_process: "kernel_wf s \<Longrightarrow> processes s a = Some p \<Longrightarrow> process_wf p"
  by (auto simp: kernel_wf_def dest: processes_wfD)

lemma keyboard_push_wf: "keyboard_push (Some kb) c = Some kb' \<Longrightarrow> length (buffer (the kb')) = length (buffer kb)"
  by (auto simp: keyboard_push_def split: if_splits bind_splits dest!: wr_length)

lemma keyboard_pop_wf: "keyboard_pop (Some kb) = Some (c, kb') \<Longrightarrow> length (buffer (the kb')) = length (buffer kb)"
  by (auto simp: keyboard_pop_def Let_def split: if_splits bind_splits dest!: wr_length)

lemma kernel_wf_keyboard:
  assumes "kernel_wf s" "processes s a = Some p" "length (buffer kb) = length (buffer (keyboard p))"
  shows "kernel_wf (set_process s a (p\<lparr>keyboard := kb\<rparr>))"
  using kernel_wf_process [OF assms(1,2)] assms(3) by (intro kernel_wf_set_process [OF assms(1)]) (simp add: process_wf_def)

lemma kernel_keyboard_push_wf: "kernel_keyboard_push s c = Some s' \<Longrightarrow> kernel_wf s \<Longrightarrow> kernel_wf s'"
  by (auto simp: kernel_keyboard_push_def split: if_splits bind_splits intro: kernel_wf_keyboard dest!: keyboard_push_wf)

lemma kernel_keyboard_pop_wf: "kernel_keyboard_pop s = Some (c, s') \<Longrightarrow> kernel_wf s \<Longrightarrow> kernel_wf s'"
  by (auto simp: kernel_keyboard_pop_def split: if_splits bind_splits intro: kernel_wf_keyboard dest!: keyboard_pop_wf)

text \<open>How a handler may end while the kernel runs on.\<close>

definition ends_wf :: "'z kstate_scheme control \<Rightarrow> bool" where
  "ends_wf r \<longleftrightarrow> (case r of Halted m \<Rightarrow> True | In_task s \<Rightarrow> kernel_wf s | Returned v s \<Rightarrow> kernel_wf s)"

lemma ends_wf_simps [simp]: "ends_wf (Halted m)" "ends_wf (In_task s) = kernel_wf s" "ends_wf (Returned v s) = kernel_wf s"
  by (simp_all add: ends_wf_def)

lemma stack_item_wf: "task_get_stack_item s t i = Some (v, s') \<Longrightarrow> kernel_wf s \<Longrightarrow> kernel_wf s'"
  by (rule kernel_wf_upper [OF upper_stack_item])

lemma task_switch_wf: "task_switch s t = Some s' \<Longrightarrow> kernel_wf s \<Longrightarrow> kernel_wf s'"
  by (rule kernel_wf_upper [OF upper_task_switch])

lemma task_next_wf: "task_next s fl = Some (Inr s') \<Longrightarrow> kernel_wf s \<Longrightarrow> kernel_wf s'"
  by (rule kernel_wf_upper [OF upper_task_next])

lemma task_page_wf: "task_page s = Some s' \<Longrightarrow> kernel_wf s \<Longrightarrow> kernel_wf s'"
  by (rule kernel_wf_upper [OF upper_task_page])

lemma enter_process_wf: "enter_process s proc fl = Some r \<Longrightarrow> kernel_wf s \<Longrightarrow> ends_wf r"
proof -
  assume a: "enter_process s proc fl = Some r" "kernel_wf s"
  then obtain q s1 rs where e: "task_switch s q = Some s1" "r = In_task (task_return s1 fl rs)"
    by (auto simp: enter_process_def split: bind_splits)
  have "kernel_wf (task_return s1 fl rs)"
    by (rule kernel_wf_upper [OF _ task_switch_wf [OF e(1) a(2)]]) simp
  then show ?thesis using e(2) by simp
qed

lemma kernel_wf_load_switch:
  assumes "process_load_switch dev s path old = Some (Inr (r, proc, s'))" "kernel_wf s"
  shows "kernel_wf s'"
proof -
  obtain t where t: "keeps_wf s t" "s' = t \<or> s' = t\<lparr>curr_process := proc\<rparr>" by (rule process_load_switch_wf [OF assms(1)])
  show ?thesis using t(2) kernel_wf_keeps [OF t(1) assms(2)] by auto
qed

lemma process_terminate_wf:
  assumes "process_terminate s proc = Some (Inr (r, s'))" "kernel_wf s"
  shows "kernel_wf s'"
proof -
  obtain s1 where s1: "terminate_allocations_loop BENOS_MAX_PROGRAM_ALLOCATIONS 0 s proc = Some s1"
    using assms(1) by (auto simp: process_terminate_def process_terminate_allocations_def split: bind_splits)
  have w1: "kernel_wf s1" by (rule kernel_wf_keeps [OF terminate_allocations_loop_wf [OF s1] assms(2)])
  obtain p q s2 where s2: "process_free_progran_data s1 p = Some (q, s2)" "s' = s2 \<or> (\<exists>s3 s4 s5. kfree s2 (proc_stack p) = Some s3 \<and>
      task_free s3 (proc_task p) = Some s4 \<and> process_unlink s4 proc = Some (Inr s5) \<and> kprint s5 (c_string ''Process was terminated'') = Some s')"
    using assms(1) s1
    by (auto simp: process_terminate_def process_terminate_allocations_def split: bind_splits if_splits sum.splits)
  have w2: "kernel_wf s2" by (rule kernel_wf_upper [OF process_free_data_wf [OF s2(1)] w1])
  show ?thesis
  proof (cases "s' = s2")
    case False
    then obtain s3 s4 s5 where e: "kfree s2 (proc_stack p) = Some s3" "task_free s3 (proc_task p) = Some s4"
        "process_unlink s4 proc = Some (Inr s5)" "kprint s5 (c_string ''Process was terminated'') = Some s'"
      using s2(2) by blast
    have w4: "kernel_wf s4" by (rule kernel_wf_upper [OF upper_task_free [OF e(2)] kernel_wf_upper [OF upper_kfree [OF e(1)] w2]])
    then have "process_table s4 = replicate BENOS_MAX_PROCESSES 0" by (simp add: kernel_wf_def)
    then obtain tb where "tb = replicate BENOS_MAX_PROCESSES 0" "s5 = s4\<lparr>process_table := tb\<rparr>"
      using e(3) by (auto simp: process_unlink_def process_switch_to_any_def switch_to_any_none Let_def
          split: bind_splits if_splits dest!: wr_replicate)
    then have "kernel_wf s5" using w4 by (simp add: kernel_wf_def tables_ok_def processes_wf_def)
    then show ?thesis by (rule kprint_wf [OF e(4)])
  qed (use w2 in simp)
qed

lemma end_process_wf: "end_process s fl = Some r \<Longrightarrow> kernel_wf s \<Longrightarrow> ends_wf r"
  by (auto simp: end_process_def split: bind_splits sum.splits dest!: process_terminate_wf task_next_wf)

lemma run_command_wf:
  assumes "run_command dev buf fl s c = Some r" "kernel_wf s"
  shows "ends_wf r"
proof (cases c)
  case command0_sum
  then show ?thesis using assms by (auto simp: run_command_def isr80h_command0_sum_def split: bind_splits dest!: stack_item_wf)
next
  case command1_print
  then obtain msg s1 q s2 s3 where p: "task_get_stack_item s (current_task s) 0 = Some (msg, s1)"
      "copy_string_from_task s1 (current_task s1) msg buf 1024 = Some (q, s2)"
      "kprint s2 (ram_bytes (ram s2) buf 1024) = Some s3" "r = Returned 0 s3"
    using assms(1) by (auto simp: run_command_def isr80h_command1_print_def split: bind_splits)
  have "kernel_wf s2" by (rule kernel_wf_upper [OF upper_copy_string [OF p(2)] stack_item_wf [OF p(1) assms(2)]])
  then show ?thesis using kprint_wf [OF p(3)] p(4) by simp
next
  case command2_getkey
  then show ?thesis using assms by (auto simp: run_command_def isr80h_command2_getkey_def split: bind_splits dest!: kernel_keyboard_pop_wf)
next
  case command3_putchar
  then obtain v s1 t where p: "task_get_stack_item s (current_task s) 0 = Some (v, s1)"
      "ter_writechar (screen s1) (ucast v) 15 = Some t" "r = Returned 0 (s1\<lparr>screen := t\<rparr>)"
    using assms(1) by (auto simp: run_command_def isr80h_command3_putchar_def split: bind_splits)
  have w: "kernel_wf s1" by (rule stack_item_wf [OF p(1) assms(2)])
  then have "kernel_wf (s1\<lparr>screen := t\<rparr>)"
    by (rule kernel_wf_screen) (use ter_writechar_length [OF p(2)] w in \<open>simp add: kernel_wf_def\<close>)
  then show ?thesis using p(3) by simp
next
  case command4_malloc
  then show ?thesis using assms kernel_wf_keeps [OF process_malloc_wf]
    by (auto simp: run_command_def isr80h_command4_malloc_def split: bind_splits dest!: stack_item_wf)
next
  case command5_free
  then show ?thesis using assms kernel_wf_keeps [OF process_free_wf]
    by (auto simp: run_command_def isr80h_command5_free_def split: bind_splits dest!: stack_item_wf)
next
  case command6_process_load_start
  then obtain ptr s1 q s2 where p: "task_get_stack_item s (current_task s) 0 = Some (ptr, s1)"
      "copy_string_from_task s1 (current_task s1) ptr buf (int BENOS_MAX_PATH) = Some (q, s2)"
      "r = Returned 0 s2 \<or> (\<exists>path l. process_load_switch dev s2 path 0 = Some l \<and>
        (case l of Inl m \<Rightarrow> r = Halted m
         | Inr (res, proc, s3) \<Rightarrow> if res < 0 then r = Returned 0 s3 else enter_process s3 proc fl = Some r))"
    using assms(1)
    by (auto simp: run_command_def isr80h_command6_process_load_start_def split: bind_splits if_splits sum.splits) fastforce+
  have w: "kernel_wf s2" by (rule kernel_wf_upper [OF upper_copy_string [OF p(2)] stack_item_wf [OF p(1) assms(2)]])
  have "ends_wf r" if "process_load_switch dev s2 path 0 = Some l" "case l of Inl m \<Rightarrow> r = Halted m
      | Inr (res, proc, s3) \<Rightarrow> if res < 0 then r = Returned 0 s3 else enter_process s3 proc fl = Some r" for path l
  proof (cases l)
    case (Inr q)
    obtain res proc s3 where q: "q = (res, proc, s3)" by (cases q)
    have "kernel_wf s3" using kernel_wf_load_switch [OF _ w] that(1) Inr q by blast
    then show ?thesis using that(2) Inr q by (auto split: if_splits intro: enter_process_wf)
  qed (use that(2) in simp)
  then show ?thesis using p(3) w by auto
next
  case command7_invoke_system_command
  then obtain ptr s1 where p: "task_get_stack_item s (current_task s) 0 = Some (ptr, s1)"
      "(\<exists>v. r = Returned v s1) \<or> (\<exists>path args l. process_load_switch dev s1 path 0 = Some l \<and>
        (case l of Inl m \<Rightarrow> r = Halted m
         | Inr (res, proc, s2) \<Rightarrow> if res < 0 then r = Returned (word_of_int res) s2
             else \<exists>q s3. process_inject_args s2 proc args = Some (q, s3) \<and> enter_process s3 proc fl = Some r))"
    using assms(1)
    by (auto simp: run_command_def isr80h_command7_invoke_system_command_def split: bind_splits if_splits sum.splits) fastforce+
  have w: "kernel_wf s1" by (rule stack_item_wf [OF p(1) assms(2)])
  have "ends_wf r" if "process_load_switch dev s1 path 0 = Some l" "case l of Inl m \<Rightarrow> r = Halted m
      | Inr (res, proc, s2) \<Rightarrow> if res < 0 then r = Returned (word_of_int res) s2
          else \<exists>q s3. process_inject_args s2 proc args = Some (q, s3) \<and> enter_process s3 proc fl = Some r" for path args l
  proof (cases l)
    case (Inr q)
    obtain res proc s2 where q: "q = (res, proc, s2)" by (cases q)
    have "kernel_wf s2" using kernel_wf_load_switch [OF _ w] that(1) Inr q by blast
    then show ?thesis
      using that(2) Inr q by (auto split: if_splits intro: enter_process_wf kernel_wf_keeps [OF process_inject_args_wf])
  qed (use that(2) in simp)
  then show ?thesis using p(2) w by auto
next
  case command8_get_program_arguments
  then show ?thesis using assms
    by (auto simp: run_command_def isr80h_command8_get_program_arguments_def Let_def split: bind_splits prod.splits if_splits dest!: stack_item_wf)
next
  case command9_exit
  then show ?thesis using assms end_process_wf by (simp add: run_command_def isr80h_command9_exit_def)
qed

subsection \<open>The handlers\<close>

lemma kernel_page_wf: "kernel_wf (kernel_page s) = kernel_wf s"
  using kernel_wf_upper [of "kernel_page s" s] kernel_wf_upper [of s "kernel_page s"] by auto

lemma save_state_wf: "task_current_save_state s fr = Some (Inr s') \<Longrightarrow> kernel_wf s \<Longrightarrow> kernel_wf s'"
  by (rule kernel_wf_upper [OF upper_save_state])

lemma isr80h_handler_wf:
  assumes "isr80h_handler dev buf fl s c fr = Some r" "kernel_wf s"
  shows "ends_wf r"
proof -
  obtain q where q: "task_current_save_state (kernel_page s) fr = Some q"
    using assms(1) by (auto simp: isr80h_handler_def split: bind_splits)
  show ?thesis
  proof (cases q)
    case (Inl m)
    then show ?thesis using assms(1) q by (auto simp: isr80h_handler_def)
  next
    case (Inr s1)
    have w: "kernel_wf s1" using save_state_wf [OF q [unfolded Inr]] assms(2) by (simp add: kernel_page_wf)
    obtain res where res: "isr80h_handle_command dev buf fl s1 c = Some res"
        "r = res \<or> (\<exists>v s2 s3. res = Returned v s2 \<and> task_page s2 = Some s3 \<and> r = Returned v s3)"
      using assms(1) q Inr by (auto simp: isr80h_handler_def split: bind_splits control.splits)
    have "ends_wf res"
      using res(1) w run_command_wf by (auto simp: isr80h_handle_command_def split: bind_splits option.splits)
    then show ?thesis using res(2) task_page_wf by auto
  qed
qed

lemma classic_keyboard_wf:
  assumes "classic_keyboard_handle_interrupt s sc = Some s'" "kernel_wf s"
  shows "kernel_wf s'"
proof -
  have k: "kernel_wf (kernel_page s)" using assms(2) by (simp add: kernel_page_wf)
  then show ?thesis
    using assms(1) kernel_keyboard_push_wf
    by (auto simp: classic_keyboard_handle_interrupt_def Let_def split: bind_splits if_splits dest!: task_page_wf)
qed

lemma run_callback_wf:
  assumes "run_callback fl sc s c = Some r" "kernel_wf s"
  shows "ends_wf r"
proof (cases c)
  case Idt_handle_exception
  then show ?thesis using assms end_process_wf by (simp add: run_callback_def idt_handle_exception_def)
next
  case Idt_clock
  have "kernel_wf (outb s 0x20 0x20)" using assms(2) by simp
  then show ?thesis
    using assms(1) Idt_clock by (auto simp: run_callback_def idt_clock_def split: bind_splits sum.splits dest!: task_next_wf)
next
  case Classic_keyboard_handle_interrupt
  then show ?thesis using assms classic_keyboard_wf by (auto simp: run_callback_def split: bind_splits)
qed

lemma interrupt_handler_wf:
  assumes "interrupt_handler fl sc s i fr = Some r" "kernel_wf s"
  shows "ends_wf r"
proof -
  let ?s1 = "kernel_page s"
  have k: "kernel_wf ?s1" using assms(2) by (simp add: kernel_page_wf)
  obtain res where res: "ends_wf res"
      "r = res \<or> (\<exists>v s2 s3. res = Returned v s2 \<and> task_page s2 = Some s3 \<and> r = Returned 0 (outb s3 0x20 0x20))"
  proof -
    obtain cb where cb: "rd (interrupt_callbacks ?s1) i = Some cb"
      using assms(1) by (auto simp: interrupt_handler_def Let_def split: bind_splits)
    show ?thesis
    proof (cases cb)
      case None
      then show ?thesis using assms(1) cb k that [of "Returned 0 ?s1"]
        by (auto simp: interrupt_handler_def Let_def split: bind_splits)
    next
      case (Some c)
      obtain q where q: "task_current_save_state ?s1 fr = Some q"
        using assms(1) cb Some by (auto simp: interrupt_handler_def Let_def split: bind_splits)
      show ?thesis
      proof (cases q)
        case (Inl m)
        then show ?thesis using assms(1) cb Some q that [of "Halted m"] by (auto simp: interrupt_handler_def Let_def)
      next
        case (Inr s2)
        have w: "kernel_wf s2" by (rule save_state_wf [OF q [unfolded Inr] k])
        obtain x where x: "run_callback fl sc s2 c = Some x"
            "r = x \<or> (\<exists>v s2 s3. x = Returned v s2 \<and> task_page s2 = Some s3 \<and> r = Returned 0 (outb s3 0x20 0x20))"
          using assms(1) cb Some q Inr
          by (auto simp: interrupt_handler_def Let_def split: bind_splits control.splits)
        have "ends_wf x" by (rule run_callback_wf [OF x(1) w])
        then show ?thesis using x(2) that by blast
      qed
    qed
  qed
  then show ?thesis using task_page_wf by auto
qed

text \<open>
  The kernel and the programs in turn: a program computes, in its registers and in memory, makes a system call, or
  is interrupted. A program may change any byte of \<open>ram\<close> here, but not the structures of the kernel that the model
  keeps as records and lists (tables of handlers and processes, tasks, processes, the heap table).
\<close>

inductive kernel_step :: "device \<Rightarrow> 'z kstate_scheme \<Rightarrow> 'z kstate_scheme \<Rightarrow> bool" for dev where
  program: "kernel_step dev s (s\<lparr>ram := m, cpu := r\<rparr>)"
| call_returns: "isr80h_handler dev buf fl s c fr = Some (Returned v s') \<Longrightarrow> kernel_step dev s s'"
| call_switches: "isr80h_handler dev buf fl s c fr = Some (In_task s') \<Longrightarrow> kernel_step dev s s'"
| interrupt_returns: "interrupt_handler fl sc s i fr = Some (Returned v s') \<Longrightarrow> kernel_step dev s s'"
| interrupt_switches: "interrupt_handler fl sc s i fr = Some (In_task s') \<Longrightarrow> kernel_step dev s s'"

lemma kernel_step_wf: "kernel_step dev s s' \<Longrightarrow> kernel_wf s \<Longrightarrow> kernel_wf s'"
  by (induction rule: kernel_step.induct) (fastforce dest: isr80h_handler_wf interrupt_handler_wf)+

text \<open>
  C2. The kernel keeps its types. In every sequence of system calls (with any number), interrupts and
  computations of programs, the arrays of each process keep their sizes, the screen keeps its cells, each
  interrupt and each system call number keeps its handler, and the table of processes stays as it was at the
  start, empty. Two limits: programs do not write to the kernel's own structures, and each call is one for which the
  handler is defined (no \<open>None\<close>): in particular, call 8 gets a pointer that leads to memory of the process, since the
  code writes the arguments through any pointer, also into those structures.
\<close>

theorem kernel_keeps_types:
  assumes "(kernel_step dev)\<^sup>*\<^sup>* s s'" "kernel_wf s"
  shows "kernel_wf s'"
  using assms by (induction rule: rtranclp_induct) (auto intro: kernel_step_wf)

end
