(* ===== verification/UserLib.thy ===== *)
theory UserLib
  imports Process
begin

text \<open>
  The library that programs are linked with (\<^verbatim>\<open>src/programs/stdlib/src\<close>). A program sees a flat
  address space, so a pointer is an address and the memory a function; an address that wraps around is
  the machine's. Loops over strings do not return (\<^term>\<open>None\<close>) when there is no terminator. The names of
  the user library carry the prefix \<open>usr_\<close>.
\<close>

subsection \<open>\<open>string.c\<close>\<close>

type_synonym mem = "addr \<Rightarrow> byte"

definition usr_tolower :: "byte \<Rightarrow> byte" where
  "usr_tolower c = (if sint c \<ge> 65 \<and> sint c \<le> 90 then c + 32 else c)"

partial_function (option) usr_strlen_loop :: "mem \<Rightarrow> addr \<Rightarrow> int \<Rightarrow> int option" where
  "usr_strlen_loop m ptr i = (if m ptr \<noteq> 0 then usr_strlen_loop m (ptr + 1) (i + 1) else Some i)"

definition usr_strlen :: "mem \<Rightarrow> addr \<Rightarrow> int option" where
  "usr_strlen m ptr = usr_strlen_loop m ptr 0"

function usr_strnlen_loop :: "mem \<Rightarrow> addr \<Rightarrow> int \<Rightarrow> int \<Rightarrow> int" where
  "usr_strnlen_loop m ptr maxlen i =
     (if i < maxlen then
        (if m (ptr + word_of_int i) = 0 then i else usr_strnlen_loop m ptr maxlen (i + 1))
      else i)"
  by pat_completeness auto
termination by (relation "measure (\<lambda>(m, ptr, maxlen, i). nat (maxlen - i))") auto

declare usr_strnlen_loop.simps [simp del]

definition usr_strnlen :: "mem \<Rightarrow> addr \<Rightarrow> int \<Rightarrow> int" where
  "usr_strnlen m ptr maxlen = usr_strnlen_loop m ptr maxlen 0"

function usr_strncmp :: "mem \<Rightarrow> addr \<Rightarrow> addr \<Rightarrow> int \<Rightarrow> int" where
  "usr_strncmp m str1 str2 len =
     (if len > 0 then
        (let u1 = m str1; u2 = m str2
         in if u1 \<noteq> u2 then uint u1 - uint u2
            else if u1 = 0 then 0
            else usr_strncmp m (str1 + 1) (str2 + 1) (len - 1))
      else 0)"
  by pat_completeness auto
termination by (relation "measure (\<lambda>(m, str1, str2, len). nat len)") auto

declare usr_strncmp.simps [simp del]

function usr_strnlen_terminator_loop :: "mem \<Rightarrow> addr \<Rightarrow> int \<Rightarrow> byte \<Rightarrow> int \<Rightarrow> int" where
  "usr_strnlen_terminator_loop m str maxlen terminator i =
     (if i < maxlen then
        (if m (str + word_of_int i) = terminator \<or> m (str + word_of_int i) = 0 then i
         else usr_strnlen_terminator_loop m str maxlen terminator (i + 1))
      else i)"
  by pat_completeness auto
termination by (relation "measure (\<lambda>(m, str, maxlen, t, i). nat (maxlen - i))") auto

declare usr_strnlen_terminator_loop.simps [simp del]

definition usr_strnlen_terminator :: "mem \<Rightarrow> addr \<Rightarrow> int \<Rightarrow> byte \<Rightarrow> int" where
  "usr_strnlen_terminator m str maxlen terminator = usr_strnlen_terminator_loop m str maxlen terminator 0"

function usr_istrncmp :: "mem \<Rightarrow> addr \<Rightarrow> addr \<Rightarrow> int \<Rightarrow> int" where
  "usr_istrncmp m str1 str2 len =
     (if len > 0 then
        (let u1 = m str1; u2 = m str2
         in if u1 \<noteq> u2 \<and> usr_tolower u1 \<noteq> usr_tolower u2 then uint u1 - uint u2
            else if u1 = 0 then 0
            else usr_istrncmp m (str1 + 1) (str2 + 1) (len - 1))
      else 0)"
  by pat_completeness auto
termination by (relation "measure (\<lambda>(m, str1, str2, len). nat len)") auto

declare usr_istrncmp.simps [simp del]

text \<open>The routine called \<open>strcmp\<close> copies, and does not write a terminator.\<close>

partial_function (option) usr_strcmp :: "mem \<Rightarrow> addr \<Rightarrow> addr \<Rightarrow> mem option" where
  "usr_strcmp m dest src = (if m src \<noteq> 0 then usr_strcmp (m(dest := m src)) (dest + 1) (src + 1) else Some m)"

partial_function (option) usr_strcpy :: "mem \<Rightarrow> addr \<Rightarrow> addr \<Rightarrow> mem option" where
  "usr_strcpy m dest src =
     (if m src \<noteq> 0 then usr_strcpy (m(dest := m src)) (dest + 1) (src + 1) else Some (m(dest := 0)))"

function usr_strncpy_loop :: "mem \<Rightarrow> addr \<Rightarrow> addr \<Rightarrow> int \<Rightarrow> int \<Rightarrow> int \<times> mem" where
  "usr_strncpy_loop m dest src count i =
     (if i < count - 1 then
        (if m (src + word_of_int i) = 0 then (i, m)
         else usr_strncpy_loop (m(dest + word_of_int i := m (src + word_of_int i))) dest src count (i + 1))
      else (i, m))"
  by pat_completeness auto
termination by (relation "measure (\<lambda>(m, dest, src, count, i). nat (count - i))") auto

declare usr_strncpy_loop.simps [simp del]

definition usr_strncpy :: "mem \<Rightarrow> addr \<Rightarrow> addr \<Rightarrow> int \<Rightarrow> mem" where
  "usr_strncpy m dest src count =
     (let (i, m1) = usr_strncpy_loop m dest src count 0 in m1(dest + word_of_int i := 0))"

definition usr_isdigit :: "byte \<Rightarrow> bool" where
  "usr_isdigit c = (sint c \<ge> 48 \<and> sint c \<le> 57)"

definition usr_tonum :: "byte \<Rightarrow> int" where
  "usr_tonum c = sint c - 48"

text \<open>
  \<open>strtok\<close>. The inner loops look for a character among the delimiters: the index of the first one that
  is equal, or their number. \<open>strtok_sp\<close> is the static pointer \<open>sp\<close>.
\<close>

function delim_loop :: "mem \<Rightarrow> byte \<Rightarrow> addr \<Rightarrow> int \<Rightarrow> int \<Rightarrow> int" where
  "delim_loop m c delimiters len i =
     (if i < len then (if c = m (delimiters + word_of_int i) then i else delim_loop m c delimiters len (i + 1))
      else i)"
  by pat_completeness auto
termination by (relation "measure (\<lambda>(m, c, delimiters, len, i). nat (len - i))") auto

declare delim_loop.simps [simp del]

partial_function (option) skip_loop :: "mem \<Rightarrow> addr \<Rightarrow> addr \<Rightarrow> int \<Rightarrow> addr option" where
  "skip_loop m p_start delimiters len =
     (if delim_loop m (m p_start) delimiters len 0 = len then Some p_start
      else skip_loop m (p_start + 1) delimiters len)"

partial_function (option) token_end_loop :: "mem \<Rightarrow> addr \<Rightarrow> addr \<Rightarrow> int \<Rightarrow> (mem \<times> addr) option" where
  "token_end_loop m strtok_sp delimiters len =
     (if m strtok_sp \<noteq> 0 then
        (if delim_loop m (m strtok_sp) delimiters len 0 < len then Some (m(strtok_sp := 0), strtok_sp + 1)
         else token_end_loop m (strtok_sp + 1) delimiters len)
      else Some (m, strtok_sp))"

definition usr_strtok :: "mem \<Rightarrow> addr \<Rightarrow> addr \<Rightarrow> addr \<Rightarrow> (addr \<times> mem \<times> addr) option" where
  "usr_strtok m strtok_sp str delimiters =
     do {
       len \<leftarrow> usr_strlen m delimiters;
       if str = 0 \<and> strtok_sp = 0 then Some (0, m, strtok_sp)
       else do {
         let sp1 = (if str \<noteq> 0 \<and> strtok_sp = 0 then str else strtok_sp);
         p_start \<leftarrow> skip_loop m sp1 delimiters len;
         if m p_start = 0 then Some (0, m, 0)
         else do {
           (m1, sp2) \<leftarrow> token_end_loop m p_start delimiters len;
           Some (p_start, m1, sp2) } } }"

subsection \<open>\<open>memory.c\<close>\<close>

fun usr_memset_loop :: "nat \<Rightarrow> mem \<Rightarrow> addr \<Rightarrow> byte \<Rightarrow> mem" where
  "usr_memset_loop 0 m ptr c = m"
| "usr_memset_loop (Suc n) m ptr c = usr_memset_loop n (m(ptr := c)) (ptr + 1) c"

definition usr_memset :: "mem \<Rightarrow> addr \<Rightarrow> int \<Rightarrow> u32 \<Rightarrow> mem" where
  "usr_memset m ptr c sz = usr_memset_loop (unat sz) m ptr (word_of_int c)"

function usr_memcmp :: "mem \<Rightarrow> addr \<Rightarrow> addr \<Rightarrow> int \<Rightarrow> int" where
  "usr_memcmp m s1 s2 count =
     (if count > 0 then
        (if m s1 \<noteq> m s2 then (if sint (m s1) < sint (m s2) then - 1 else 1)
         else usr_memcmp m (s1 + 1) (s2 + 1) (count - 1))
      else 0)"
  by pat_completeness auto
termination by (relation "measure (\<lambda>(m, s1, s2, count). nat count)") auto

declare usr_memcmp.simps [simp del]

text \<open>\<open>while (len--)\<close> stops only when \<open>len\<close> is 0.\<close>

partial_function (option) usr_memcpy :: "mem \<Rightarrow> addr \<Rightarrow> addr \<Rightarrow> int \<Rightarrow> mem option" where
  "usr_memcpy m dest src len =
     (if len \<noteq> 0 then usr_memcpy (m(dest := m src)) (dest + 1) (src + 1) (len - 1) else Some m)"

subsection \<open>System calls (\<open>benos.asm\<close>)\<close>

text \<open>
  The state of a program: its memory, the static pointer of \<open>strtok\<close>, the system calls made so far (the
  number in \<open>eax\<close> and the words on the stack, newest last) and the kernel's answers to the calls to come:
  the value in \<open>eax\<close> and the bytes that the kernel writes into the program's memory. A call without an
  answer does not return.
\<close>

record ustate =
  umem :: mem
  strtok_sp :: addr
  calls :: "(nat \<times> u32 list) list"
  replies :: "(u32 \<times> (addr \<times> byte) list) list"

definition int80 :: "ustate \<Rightarrow> nat \<Rightarrow> u32 list \<Rightarrow> (u32 \<times> ustate) option" where
  "int80 s command stack =
     (case replies s of
        [] \<Rightarrow> None
      | (ret, ws) # rs \<Rightarrow>
          Some (ret, s\<lparr>umem := fold (\<lambda>(a, b) m. m(a := b)) ws (umem s), calls := calls s @ [(command, stack)],
            replies := rs\<rparr>))"

definition usr_print :: "ustate \<Rightarrow> addr \<Rightarrow> ustate option" where
  "usr_print s str = map_option snd (int80 s 1 [str])"

definition benos_getkey :: "ustate \<Rightarrow> (u32 \<times> ustate) option" where
  "benos_getkey s = int80 s 2 []"

definition benos_putchar :: "ustate \<Rightarrow> byte \<Rightarrow> ustate option" where
  "benos_putchar s c = map_option snd (int80 s 3 [scast c])"

definition benos_malloc :: "ustate \<Rightarrow> u32 \<Rightarrow> (addr \<times> ustate) option" where
  "benos_malloc s sz = int80 s 4 [sz]"

definition benos_free :: "ustate \<Rightarrow> addr \<Rightarrow> ustate option" where
  "benos_free s ptr = map_option snd (int80 s 5 [ptr])"

definition benos_process_load_start :: "ustate \<Rightarrow> addr \<Rightarrow> ustate option" where
  "benos_process_load_start s path = map_option snd (int80 s 6 [path])"

definition benos_system :: "ustate \<Rightarrow> addr \<Rightarrow> (int \<times> ustate) option" where
  "benos_system s command_args = do { (r, s1) \<leftarrow> int80 s 7 [command_args]; Some (sint r, s1) }"

definition benos_process_get_args :: "ustate \<Rightarrow> addr \<Rightarrow> ustate option" where
  "benos_process_get_args s out = map_option snd (int80 s 8 [out])"

definition benos_exit :: "ustate \<Rightarrow> ustate option" where
  "benos_exit s = map_option snd (int80 s 9 [])"

subsection \<open>\<open>stdlib.c\<close>\<close>

text \<open>
  \<open>text\<close> is the address of the static array of twelve characters; the number is made negative first,
  so that the smallest \<open>int\<close> is printed like the others.
\<close>

lemma abs_cdiv_10: "\<bar>cdiv i 10\<bar> = \<bar>i\<bar> div 10"
  by (cases "i = 0") (simp_all add: cdiv_def abs_mult)

lemma cdiv_10_less: "i \<noteq> 0 \<Longrightarrow> \<bar>cdiv i 10\<bar> < \<bar>i\<bar>"
  using abs_cdiv_10 [of i] by linarith

function itoa_loop :: "mem \<Rightarrow> addr \<Rightarrow> int \<Rightarrow> int \<Rightarrow> int \<times> mem" where
  "itoa_loop m txt loc i =
     (if i \<noteq> 0 then
        itoa_loop (m(txt + word_of_int (loc - 1) := word_of_int (48 - cmod i 10))) txt (loc - 1) (cdiv i 10)
      else (loc, m))"
  by pat_completeness auto
termination by (relation "measure (\<lambda>(m, txt, loc, i). nat \<bar>i\<bar>)") (simp_all add: cdiv_10_less)

declare itoa_loop.simps [simp del]

definition itoa :: "mem \<Rightarrow> addr \<Rightarrow> int \<Rightarrow> addr \<times> mem" where
  "itoa m txt i =
     (let m1 = m(txt + 11 := 0);
          neg = \<not> i \<ge> 0;
          (loc, m2) = itoa_loop m1 txt 11 (if i \<ge> 0 then - i else i);
          (loc, m3) = (if loc = 11 then (loc - 1, m2(txt + word_of_int (loc - 1) := 48)) else (loc, m2));
          (loc, m4) = (if neg then (loc - 1, m3(txt + word_of_int (loc - 1) := 45)) else (loc, m3))
      in (txt + word_of_int loc, m4))"

definition usr_malloc :: "ustate \<Rightarrow> u32 \<Rightarrow> (addr \<times> ustate) option" where
  "usr_malloc s sz = benos_malloc s sz"

definition usr_free :: "ustate \<Rightarrow> addr \<Rightarrow> ustate option" where
  "usr_free s ptr = benos_free s ptr"

subsection \<open>\<open>stdio.c\<close>\<close>

definition putchar :: "ustate \<Rightarrow> int \<Rightarrow> ustate option" where
  "putchar s c = benos_putchar s (word_of_int c)"

text \<open>
  \<open>va\<close> are the variable arguments; reading more than there are is \<^term>\<open>None\<close>. After a \<open>%\<close> at the end of the
  format the loop goes on behind the terminator.
\<close>

partial_function (option) printf_loop :: "ustate \<Rightarrow> addr \<Rightarrow> addr \<Rightarrow> u32 list \<Rightarrow> ustate option" where
  "printf_loop s txt p va =
     (if umem s p = 0 then Some s
      else if umem s p \<noteq> 37 then do { s1 \<leftarrow> putchar s (sint (umem s p)); printf_loop s1 txt (p + 1) va }
      else if umem s (p + 1) = 105 then
        (case va of
           [] \<Rightarrow> None
         | v # va' \<Rightarrow> do {
             let (str, m) = itoa (umem s) txt (sint v);
             s1 \<leftarrow> usr_print (s\<lparr>umem := m\<rparr>) str;
             printf_loop s1 txt (p + 2) va' })
      else if umem s (p + 1) = 115 then
        (case va of
           [] \<Rightarrow> None
         | v # va' \<Rightarrow> do { s1 \<leftarrow> usr_print s v; printf_loop s1 txt (p + 2) va' })
      else do { s1 \<leftarrow> putchar s (sint (umem s (p + 1))); printf_loop s1 txt (p + 2) va })"

definition printf :: "ustate \<Rightarrow> addr \<Rightarrow> addr \<Rightarrow> u32 list \<Rightarrow> (int \<times> ustate) option" where
  "printf s txt fmt va = do { s1 \<leftarrow> printf_loop s txt fmt va; Some (0, s1) }"

end
