(* ===== verification/UserShell.thy ===== *)
theory UserShell
  imports UserLib
begin

text \<open>
  Commands and input lines in the user library (\<^verbatim>\<open>src/programs/stdlib/src/benos.c\<close>), the start of a
  program (\<^verbatim>\<open>start.c\<close>, \<^verbatim>\<open>start.asm\<close>) and the two programs, the shell and \<open>blank\<close>. The addresses of
  local arrays are arguments; \<open>lit\<close> gives the address of a string literal.
\<close>

subsection \<open>\<open>benos.c\<close>\<close>

definition strtok :: "ustate \<Rightarrow> addr \<Rightarrow> addr \<Rightarrow> (addr \<times> ustate) option" where
  "strtok s str delimiters =
     do {
       (p, m, sp) \<leftarrow> usr_strtok (umem s) (strtok_sp s) str delimiters;
       Some (p, s\<lparr>umem := m, strtok_sp := sp\<rparr>) }"

text \<open>A \<open>command_arg\<close> is 512 characters and the pointer to the next one.\<close>

definition sizeof_command_arg :: u32 where "sizeof_command_arg = 512 + 4"

definition new_command_arg :: "mem \<Rightarrow> addr \<Rightarrow> addr \<Rightarrow> mem" where
  "new_command_arg m cmd token = store32 (usr_strncpy m cmd token 512) (cmd + 512) 0"

partial_function (option) parse_command_loop :: "(string \<Rightarrow> addr) \<Rightarrow> ustate \<Rightarrow> addr \<Rightarrow> addr \<Rightarrow> ustate option" where
  "parse_command_loop lit s current token =
     (if token = 0 then Some s
      else do {
        (new_command, s1) \<leftarrow> benos_malloc s sizeof_command_arg;
        if new_command = 0 then Some s1
        else do {
          let m = new_command_arg (umem s1) new_command token;
          (token', s2) \<leftarrow> strtok (s1\<lparr>umem := store32 m (current + 512) new_command\<rparr>) 0 (lit '' '');
          parse_command_loop lit s2 new_command token' } })"

definition benos_parse_command ::
  "(string \<Rightarrow> addr) \<Rightarrow> addr \<Rightarrow> ustate \<Rightarrow> addr \<Rightarrow> int \<Rightarrow> (addr \<times> ustate) option" where
  "benos_parse_command lit scommand s command maxlen =
     (if maxlen \<ge> 1025 then Some (0, s)
      else do {
        (token, s1) \<leftarrow> strtok (s\<lparr>umem := usr_strncpy (umem s) scommand command 1025\<rparr>) scommand (lit '' '');
        if token = 0 then Some (0, s1)
        else do {
          (root_command, s2) \<leftarrow> benos_malloc s1 sizeof_command_arg;
          if root_command = 0 then Some (0, s2)
          else do {
            (token', s3) \<leftarrow> strtok (s2\<lparr>umem := new_command_arg (umem s2) root_command token\<rparr>) 0 (lit '' '');
            s4 \<leftarrow> parse_command_loop lit s3 root_command token';
            Some (root_command, s4) } } })"

partial_function (option) benos_getkeyblock :: "ustate \<Rightarrow> (u32 \<times> ustate) option" where
  "benos_getkeyblock s =
     do { (val, s1) \<leftarrow> benos_getkey s; if val = 0 then benos_getkeyblock s1 else Some (val, s1) }"

partial_function (option) readline_loop ::
  "ustate \<Rightarrow> addr \<Rightarrow> int \<Rightarrow> bool \<Rightarrow> int \<Rightarrow> (int \<times> ustate) option" where
  "readline_loop s out maxlen out_while_typing i =
     (if i < maxlen - 1 then do {
        (val, s1) \<leftarrow> benos_getkeyblock s;
        let key = (ucast val :: byte);
        if key = 13 then Some (i, s1)
        else do {
          s2 \<leftarrow> (if out_while_typing then benos_putchar s1 key else Some s1);
          if key = 8 \<and> i \<ge> 1
          then readline_loop (s2\<lparr>umem := (umem s2)(out + word_of_int (i - 1) := 0)\<rparr>) out maxlen out_while_typing (i - 1)
          else readline_loop (s2\<lparr>umem := (umem s2)(out + word_of_int i := key)\<rparr>) out maxlen out_while_typing (i + 1) } }
      else Some (i, s))"

definition benos_terminal_readline :: "ustate \<Rightarrow> addr \<Rightarrow> int \<Rightarrow> bool \<Rightarrow> ustate option" where
  "benos_terminal_readline s out maxlen out_while_typing =
     do {
       (i, s1) \<leftarrow> readline_loop s out maxlen out_while_typing 0;
       Some (s1\<lparr>umem := (umem s1)(out + word_of_int i := 0)\<rparr>) }"

definition benos_system_run :: "(string \<Rightarrow> addr) \<Rightarrow> addr \<Rightarrow> addr \<Rightarrow> ustate \<Rightarrow> addr \<Rightarrow> (int \<times> ustate) option" where
  "benos_system_run lit buf scommand s command =
     do {
       (root, s1) \<leftarrow> benos_parse_command lit scommand (s\<lparr>umem := usr_strncpy (umem s) buf command 1024\<rparr>) buf 1024;
       if root = 0 then Some (- 1, s1) else benos_system s1 root }"

subsection \<open>The start of a program\<close>

definition c_start ::
  "(ustate \<Rightarrow> int \<Rightarrow> addr \<Rightarrow> (int \<times> ustate) option) \<Rightarrow> addr \<Rightarrow> ustate \<Rightarrow> ustate option" where
  "c_start main process_args s =
     do {
       s1 \<leftarrow> benos_process_get_args s process_args;
       (_, s2) \<leftarrow> main s1 (sint (load32 (umem s1) process_args)) (load32 (umem s1) (process_args + 4));
       Some s2 }"

definition start ::
  "(ustate \<Rightarrow> int \<Rightarrow> addr \<Rightarrow> (int \<times> ustate) option) \<Rightarrow> addr \<Rightarrow> ustate \<Rightarrow> ustate option" where
  "start main process_args s = do { s1 \<leftarrow> c_start main process_args s; benos_exit s1 }"

subsection \<open>The programs\<close>

text \<open>One round of the shell; the shell repeats it for ever, so its \<open>main\<close> never returns.\<close>

definition shell_round :: "(string \<Rightarrow> addr) \<Rightarrow> addr \<Rightarrow> addr \<Rightarrow> addr \<Rightarrow> ustate \<Rightarrow> ustate option" where
  "shell_round lit line buf scommand s =
     do {
       s1 \<leftarrow> usr_print s (lit ''benos> '');
       s2 \<leftarrow> benos_terminal_readline s1 line 1024 True;
       s3 \<leftarrow> usr_print s2 (lit [CHR 0x0A]);
       (_, s4) \<leftarrow> benos_system_run lit buf scommand s3 line;
       usr_print s4 (lit [CHR 0x0A]) }"

partial_function (option) shell_loop ::
  "(string \<Rightarrow> addr) \<Rightarrow> addr \<Rightarrow> addr \<Rightarrow> addr \<Rightarrow> ustate \<Rightarrow> (int \<times> ustate) option" where
  "shell_loop lit line buf scommand s =
     do { s1 \<leftarrow> shell_round lit line buf scommand s; shell_loop lit line buf scommand s1 }"

definition shell_main ::
  "(string \<Rightarrow> addr) \<Rightarrow> addr \<Rightarrow> addr \<Rightarrow> addr \<Rightarrow> ustate \<Rightarrow> int \<Rightarrow> addr \<Rightarrow> (int \<times> ustate) option" where
  "shell_main lit line buf scommand s ac av =
     do {
       s1 \<leftarrow> usr_print s (lit (CHR 0x0A # ''Benos v1.0.0'' @ [CHR 0x0A, CHR 0x0A]));
       shell_loop lit line buf scommand s1 }"

partial_function (option) blank_loop :: "ustate \<Rightarrow> addr \<Rightarrow> (int \<times> ustate) option" where
  "blank_loop s av = do { s1 \<leftarrow> usr_print s (load32 (umem s) av); blank_loop s1 av }"

definition blank_main :: "ustate \<Rightarrow> int \<Rightarrow> addr \<Rightarrow> (int \<times> ustate) option" where
  "blank_main s ac av = blank_loop s av"

end
