(* ===== verification/UserOk.thy ===== *)
theory UserOk
  imports UserLib ElfOk
begin

text \<open>
  The user library (\<^verbatim>\<open>src/programs/stdlib/src\<close>): printing numbers, and the agreement of its string and
  memory routines with those of the kernel.
\<close>

subsection \<open>Writing bytes into memory\<close>

lemma store_bytes_Nil [simp]: "store_bytes m p [] = m"
  by (simp add: store_bytes_def)

lemma store_bytes_push:
  assumes "length bs < 4294967295"
  shows "(store_bytes m (p + 1) bs)(p := b) = store_bytes m p (b # bs)"
proof
  fix a
  show "((store_bytes m (p + 1) bs)(p := b)) a = store_bytes m p (b # bs) a"
  proof (cases "a = p")
    case False
    then have "a - p \<noteq> 0" by simp
    then have "unat (a - p) = Suc (unat (a - p - 1))" using unat_minus_one [of "a - p"] unat_gt_0 [of "a - p"] by linarith
    then have "unat (a - p) = Suc (unat (a - (p + 1)))" by (simp add: algebra_simps)
    then show ?thesis using False by (simp add: store_bytes_def)
  qed (simp add: store_bytes_def)
qed

lemma store_bytes_single: "store_bytes m p [b] = m(p := b)"
  using store_bytes_push [of "[]" m p b] by simp

lemma store_bytes_snoc:
  assumes "length bs < 4294967295"
  shows "(store_bytes m p bs)(p + of_nat (length bs) := b) = store_bytes m p (bs @ [b])"
proof
  fix a
  show "((store_bytes m p bs)(p + of_nat (length bs) := b)) a = store_bytes m p (bs @ [b]) a"
  proof (cases "a = p + of_nat (length bs)")
    case True
    then have "unat (a - p) = length bs" using assms by (simp add: unat_of_nat_u32)
    then show ?thesis using True by (simp add: store_bytes_def)
  next
    case False
    have "unat (a - p) \<noteq> length bs"
    proof
      assume "unat (a - p) = length bs"
      then have "of_nat (unat (a - p)) = (of_nat (length bs) :: addr)" by (rule arg_cong)
      then have "a - p = of_nat (length bs)" by simp
      then show False using False by (simp add: diff_eq_eq add.commute)
    qed
    then show ?thesis using False by (auto simp: store_bytes_def nth_append)
  qed
qed

lemma store_bytes_outside: "length bs \<le> unat (a - p) \<Longrightarrow> store_bytes m p bs a = m a"
  by (simp add: store_bytes_def)

subsection \<open>Printing numbers\<close>

text \<open>The decimal digits of a number, and its decimal notation.\<close>

fun digits :: "nat \<Rightarrow> byte list" where
  "digits n = (if n < 10 then [48 + of_nat n] else digits (n div 10) @ [48 + of_nat (n mod 10)])"

declare digits.simps [simp del]

definition decimal :: "int \<Rightarrow> byte list" where
  "decimal i = (if i < 0 then 45 # digits (nat (- i)) else digits (nat i))"

lemma digits_length: "n < 10 ^ k \<Longrightarrow> 0 < k \<Longrightarrow> length (digits n) \<le> k"
proof (induction k arbitrary: n)
  case (Suc k)
  show ?case
  proof (cases "n < 10")
    case False
    then have "0 < k" "n div 10 < 10 ^ k" using Suc.prems(1) by (auto intro!: Nat.gr0I)
    then show ?thesis using False Suc.IH [of "n div 10"] by (subst digits.simps) simp
  qed (simp add: digits.simps)
qed simp

lemma digits_pos: "digits n \<noteq> []"
  by (subst digits.simps) simp

lemma cmod_neg: "0 < n \<Longrightarrow> 48 - cmod (- int n) 10 = 48 + int (n mod 10)" "0 < n \<Longrightarrow> cdiv (- int n) 10 = - int (n div 10)"
  by (simp_all add: cmod_def cdiv_def zmod_int minus_div_mult_eq_mod [symmetric] of_nat_div) 

lemma itoa_loop_digits:
  assumes "0 < n" "length (digits n) + length bs < 4294967295"
  shows "itoa_loop (store_bytes m (txt + word_of_int loc) bs) txt loc (- int n) =
    (loc - int (length (digits n)),
     store_bytes m (txt + word_of_int (loc - int (length (digits n)))) (digits n @ bs))"
  using assms
proof (induction n arbitrary: loc bs rule: digits.induct)
  case (1 n)
  let ?d = "48 + of_nat (n mod 10) :: byte"
  have b: "length bs < 4294967295" using "1.prems"(2) by linarith
  have w: "(store_bytes m (txt + word_of_int loc) bs)(txt + word_of_int (loc - 1) := ?d) =
      store_bytes m (txt + word_of_int (loc - 1)) (?d # bs)"
    using store_bytes_push [OF b, of m "txt + word_of_int (loc - 1)" ?d] by simp
  have c: "word_of_int (48 - cmod (- int n) 10) = ?d" using "1.prems"(1) by (simp only: cmod_neg) simp
  have step: "itoa_loop (store_bytes m (txt + word_of_int loc) bs) txt loc (- int n) =
      itoa_loop (store_bytes m (txt + word_of_int (loc - 1)) (?d # bs)) txt (loc - 1) (- int (n div 10))"
    using "1.prems"(1) by (subst itoa_loop.simps) (simp only: c w cmod_neg(2) neg_equal_0_iff_equal of_nat_eq_0_iff neq0_conv if_False if_True simp_thms)
  show ?case
  proof (cases "n < 10")
    case True
    then have "n div 10 = 0" "digits n = [?d]" by (simp_all add: digits.simps)
    then show ?thesis unfolding step by (simp add: itoa_loop.simps)
  next
    case False
    then have d: "digits n = digits (n div 10) @ [?d]" by (simp add: digits.simps)
    have "0 < n div 10" "length (digits (n div 10)) + length (?d # bs) < 4294967295" using False "1.prems"(2) d by simp_all
    from "1.IH" [OF False this, of "loc - 1"] show ?thesis unfolding step d by (simp add: diff_diff_eq)
  qed
qed

text \<open>
  C24. Printing a number. For every 32-bit \<open>int\<close>, the smallest included, \<open>itoa\<close> leaves the decimal
  notation and a terminator at the end of its static array and returns where it starts; eleven characters
  are enough, so nothing outside of the array is written.
\<close>

theorem itoa_decimal:
  assumes "- (2 ^ 31) \<le> i" "i < 2 ^ 31"
  shows "length (decimal i) \<le> 11 \<and>
    itoa m txt i = (txt + word_of_int (11 - int (length (decimal i))),
      store_bytes m (txt + word_of_int (11 - int (length (decimal i)))) (decimal i @ [0]))"
proof -
  let ?n = "nat \<bar>i\<bar>"
  have "?n < 10 ^ 10" using assms by simp
  then have len: "length (digits ?n) \<le> 10" by (intro digits_length) simp_all
  have m1: "m(txt + 11 := 0) = store_bytes m (txt + word_of_int 11) [0]" by (simp add: store_bytes_single)
  have loop: "itoa_loop (m(txt + 11 := 0)) txt 11 (- int ?n) = (11 - int (length (digits ?n)),
      store_bytes m (txt + word_of_int (11 - int (length (digits ?n)))) (digits ?n @ [0]))" if "i \<noteq> 0"
    unfolding m1 by (rule itoa_loop_digits) (use that len in simp_all)
  have dl: "int (length (digits ?n)) \<noteq> 0" using digits_pos [of ?n] by simp
  show ?thesis
  proof (cases "i = 0")
    case True
    have "digits 0 = [48]" by (simp add: digits.simps)
    then show ?thesis
      using True store_bytes_push [of "[0]" m "txt + 10" 48]
      by (simp add: itoa_def itoa_loop.simps decimal_def store_bytes_single add.commute)
  next
    case False
    show ?thesis
    proof (cases "i < 0")
      case True
      let ?b = "digits ?n @ [0]" and ?l = "11 - int (length (digits ?n))"
      have "(store_bytes m (txt + word_of_int ?l) ?b)(txt + word_of_int (?l - 1) := 45) =
          store_bytes m (txt + word_of_int (?l - 1)) (45 # ?b)"
        using store_bytes_push [of ?b m "txt + word_of_int (?l - 1)" 45] len by (simp add: algebra_simps)
      then show ?thesis using loop [OF False] True dl len by (simp add: itoa_def decimal_def Let_def algebra_simps)
    next
      case f: False
      then show ?thesis using loop [OF False] dl len by (simp add: itoa_def decimal_def Let_def)
    qed
  qed
qed

theorem itoa_decimal_witness:
  "\<exists>m. itoa (\<lambda>a. 0) 0x1000 (- 2147483648) = (0x1000, m) \<and> m 0x1000 = 45 \<and> m 0x1001 = 50 \<and> m 0x100B = 0"
proof -
  have "decimal (- 2147483648) = [45, 50, 49, 52, 55, 52, 56, 51, 54, 52, 56]"
    by (simp add: decimal_def digits.simps)
  then show ?thesis using itoa_decimal [of "- 2147483648" "\<lambda>a. 0" "0x1000"] by (simp add: store_bytes_def)
qed

subsection \<open>The two copies of the string routines\<close>

lemma ram_bytes_0 [simp]: "ram_bytes m p 0 = []"
  by (simp add: ram_bytes_def)

lemma ram_bytes_Suc: "ram_bytes m p (Suc n) = m p # ram_bytes m (p + 1) n"
  by (rule nth_equalityI) (auto simp: nth_Cons algebra_simps split: nat.splits)

lemma rd_ram_bytes: "rd (ram_bytes m p n) i = Some c \<Longrightarrow> c = m (p + word_of_int i) \<and> 0 \<le> i \<and> i < int n"
  by (auto simp: rd_def split: if_splits)

text \<open>No byte of the object at \<open>src\<close> is one of the \<open>n\<close> bytes at \<open>dest\<close>.\<close>

definition apart :: "addr \<Rightarrow> nat \<Rightarrow> addr \<Rightarrow> nat \<Rightarrow> bool" where
  "apart dest n src k \<longleftrightarrow> (\<forall>j < k. n \<le> unat (src + of_nat j - dest))"

lemma usr_strlen_same: "strlen_loop (ram_bytes m p n) i = Some k \<Longrightarrow> usr_strlen_loop m p i = Some k"
proof (induction n arbitrary: p i)
  case (Suc n)
  then show ?case by (subst usr_strlen_loop.simps) (auto simp: ram_bytes_Suc split: if_splits)
qed simp

lemma usr_strnlen_same:
  "strnlen_loop (ram_bytes m p n) maxlen i = Some k \<Longrightarrow> usr_strnlen_loop m p maxlen i = k"
proof (induction "ram_bytes m p n" maxlen i rule: strnlen_loop.induct)
  case (1 maxlen i)
  show ?case
    using "1.prems" "1.hyps"
    by (subst usr_strnlen_loop.simps, subst (asm) strnlen_loop.simps)
      (auto split: if_splits bind_splits dest!: rd_ram_bytes)
qed

lemma usr_strnlen_terminator_same:
  "strnlen_terminator_loop (ram_bytes m p n) maxlen t i = Some k \<Longrightarrow> usr_strnlen_terminator_loop m p maxlen t i = k"
proof (induction "ram_bytes m p n" maxlen t i rule: strnlen_terminator_loop.induct)
  case (1 maxlen t i)
  show ?case
    using "1.prems" "1.hyps"
    by (subst usr_strnlen_terminator_loop.simps, subst (asm) strnlen_terminator_loop.simps)
      (auto split: if_splits bind_splits dest!: rd_ram_bytes)
qed

lemma usr_strncmp_same:
  "strncmp (ram_bytes m p a) (ram_bytes m q b) len = Some r \<Longrightarrow> usr_strncmp m p q len = r"
proof (induction a arbitrary: p q b len)
  case 0
  then show ?case by (subst usr_strncmp.simps) (auto split: if_splits)
next
  case (Suc a)
  show ?case
  proof (cases b)
    case 0
    then show ?thesis using Suc.prems by (subst usr_strncmp.simps) (auto simp: ram_bytes_Suc split: if_splits)
  next
    case (Suc b')
    then show ?thesis using Suc.prems Suc.IH
      by (subst usr_strncmp.simps) (auto simp: ram_bytes_Suc split: if_splits)
  qed
qed

lemma usr_tolower_same: "usr_tolower c = tolower c"
  by (simp add: usr_tolower_def tolower_def)

lemma usr_istrncmp_same:
  "istrncmp (ram_bytes m p a) (ram_bytes m q b) len = Some r \<Longrightarrow> usr_istrncmp m p q len = r"
proof (induction a arbitrary: p q b len)
  case 0
  then show ?case by (subst usr_istrncmp.simps) (auto split: if_splits)
next
  case (Suc a)
  show ?case
  proof (cases b)
    case 0
    then show ?thesis using Suc.prems by (subst usr_istrncmp.simps) (auto simp: ram_bytes_Suc split: if_splits)
  next
    case (Suc b')
    then show ?thesis using Suc.prems Suc.IH
      by (subst usr_istrncmp.simps) (auto simp: ram_bytes_Suc usr_tolower_same Let_def split: if_splits)
  qed
qed

lemma usr_memcmp_same:
  "memcmp (ram_bytes m p a) (ram_bytes m q b) len = Some r \<Longrightarrow> usr_memcmp m p q len = r"
proof (induction a arbitrary: p q b len)
  case 0
  then show ?case by (subst usr_memcmp.simps) (auto split: if_splits)
next
  case (Suc a)
  show ?case
  proof (cases b)
    case 0
    then show ?thesis using Suc.prems by (subst usr_memcmp.simps) (auto simp: ram_bytes_Suc split: if_splits)
  next
    case (Suc b')
    then show ?thesis using Suc.prems Suc.IH
      by (subst usr_memcmp.simps) (auto simp: ram_bytes_Suc split: if_splits)
  qed
qed

lemma store_bytes_Cons:
  assumes "length bs < 4294967295"
  shows "store_bytes (m(p := b)) (p + 1) bs = store_bytes m p (b # bs)"
proof -
  have "store_bytes (m(p := b)) (p + 1) bs = (store_bytes m (p + 1) bs)(p := b)"
  proof
    fix a
    have "p - (p + 1) = 4294967295" by simp
    then have "unat (p - (p + 1)) = 4294967295" by (simp only: unat_numeral) simp
    then show "store_bytes (m(p := b)) (p + 1) bs a = ((store_bytes m (p + 1) bs)(p := b)) a"
      using assms by (simp add: store_bytes_def)
  qed
  then show ?thesis using store_bytes_push [OF assms] by simp
qed

lemma store_bytes_update:
  assumes "i < length bs" "length bs \<le> 4294967296"
  shows "(store_bytes m p bs)(p + of_nat i := c) = store_bytes m p (bs[i := c])"
proof
  fix a
  have u: "unat (of_nat i :: addr) = i" using assms by (simp add: unat_of_nat_u32)
  show "((store_bytes m p bs)(p + of_nat i := c)) a = store_bytes m p (bs[i := c]) a"
  proof (cases "a = p + of_nat i")
    case True
    then show ?thesis using assms u by (simp add: store_bytes_def)
  next
    case False
    have "unat (a - p) \<noteq> i"
    proof
      assume "unat (a - p) = i"
      then have "of_nat (unat (a - p)) = (of_nat i :: addr)" by simp
      then show False using False by (simp add: diff_eq_eq add.commute)
    qed
    then show ?thesis using False by (simp add: store_bytes_def nth_list_update)
  qed
qed

lemma store_ram_bytes: "store_bytes m p (ram_bytes m p n) = m"
proof
  fix a
  show "store_bytes m p (ram_bytes m p n) a = m a"
    by (simp add: store_bytes_def)
qed

lemma ram_bytes_other: "\<forall>i < n. q \<noteq> p + of_nat i \<Longrightarrow> ram_bytes (m(q := c)) p n = ram_bytes m p n"
  by (rule nth_equalityI) auto

lemma ram_bytes_behind: "n \<le> 4294967295 \<Longrightarrow> ram_bytes (m(p := c)) (p + 1) n = ram_bytes m (p + 1) n"
proof (rule ram_bytes_other, intro allI impI)
  fix i assume "n \<le> 4294967295" "i < n"
  then have "unat (of_nat (Suc i) :: addr) = Suc i" by (intro unat_of_nat_u32) linarith
  then have "(of_nat (Suc i) :: addr) \<noteq> 0" by (metis Zero_not_Suc unat_0)
  then show "p \<noteq> p + 1 + of_nat i" by (simp add: add.assoc)
qed

lemma apart_first:
  assumes "apart d (Suc a) s (Suc b)"
  shows "ram_bytes (m(d := c)) (s + 1) b = ram_bytes m (s + 1) b" "s \<noteq> d" "a < 4294967295"
proof -
  have n: "Suc a \<le> unat (s + of_nat j - d)" if "j < Suc b" for j using assms that by (simp add: apart_def)
  show "ram_bytes (m(d := c)) (s + 1) b = ram_bytes m (s + 1) b"
  proof (rule ram_bytes_other, intro allI impI)
    fix i assume "i < b"
    then have "Suc a \<le> unat (s + of_nat (Suc i) - d)" by (intro n) simp
    then show "d \<noteq> s + 1 + of_nat i" by (auto simp: add.assoc)
  qed
  show "s \<noteq> d" using n [of 0] by auto
  have "unat (s - d) < 4294967296" by simp
  moreover have "Suc a \<le> unat (s - d)" using n [of 0] by simp
  ultimately show "a < 4294967295" by linarith
qed

lemma apart_next:
  assumes "apart d (Suc a) s (Suc b)"
  shows "apart (d + 1) a (s + 1) b"
  unfolding apart_def
proof (intro allI impI)
  fix j assume "j < b"
  then have "Suc j < Suc b" by simp
  then have le: "Suc a \<le> unat (s + of_nat (Suc j) - d)" using assms unfolding apart_def by blast
  then have "s + of_nat (Suc j) - d \<noteq> 0" by auto
  then have u: "unat (s + of_nat (Suc j) - d - 1) = unat (s + of_nat (Suc j) - d) - 1" by (rule unat_minus_one)
  have e: "s + 1 + of_nat j - (d + 1) = s + of_nat (Suc j) - d - 1" by (simp add: algebra_simps)
  show "a \<le> unat (s + 1 + of_nat j - (d + 1))" unfolding e u using le by linarith
qed

lemma usr_strcpy_same:
  "strcpy (ram_bytes m d a) (ram_bytes m s b) = Some xs \<Longrightarrow> apart d a s b \<Longrightarrow>
   usr_strcpy m d s = Some (store_bytes m d xs) \<and> length xs = a"
proof (induction a arbitrary: m d s b xs)
  case 0
  then show ?case by (cases b) (auto simp: ram_bytes_Suc)
next
  case (Suc a)
  obtain b' where b: "b = Suc b'" using Suc.prems(1) by (cases b) (auto simp: ram_bytes_Suc)
  note f = apart_first [OF Suc.prems(2) [unfolded b]]
  show ?case
  proof (cases "m s = 0")
    case True
    then have "xs = 0 # ram_bytes m (d + 1) a" using Suc.prems(1) b by (simp add: ram_bytes_Suc)
    moreover have "store_bytes m d (0 # ram_bytes m (d + 1) a) = m(d := 0)"
    proof -
      have "store_bytes (m(d := 0)) (d + 1) (ram_bytes (m(d := 0)) (d + 1) a) = m(d := 0)" by (rule store_ram_bytes)
      then show ?thesis using store_bytes_Cons [of "ram_bytes m (d + 1) a" m d 0] f(3) by (simp add: ram_bytes_behind)
    qed
    ultimately show ?thesis using True by (subst usr_strcpy.simps) simp
  next
    case False
    then obtain ys where ys: "strcpy (ram_bytes m (d + 1) a) (ram_bytes m (s + 1) b') = Some ys" "xs = m s # ys"
      using Suc.prems(1) b by (auto simp: ram_bytes_Suc)
    have "usr_strcpy (m(d := m s)) (d + 1) (s + 1) = Some (store_bytes (m(d := m s)) (d + 1) ys) \<and> length ys = a"
      by (rule Suc.IH [OF _ apart_next [OF Suc.prems(2) [unfolded b]]])
        (use ys(1) f(1,3) in \<open>simp only: ram_bytes_behind less_imp_le\<close>)
    then show ?thesis
      using False ys(2) f(3) store_bytes_Cons [of ys m d "m s"] by (subst usr_strcpy.simps) auto
  qed
qed

lemma store_bytes_wr:
  assumes "wr bs i c = Some ys" "length bs \<le> 4294967296"
  shows "(store_bytes m p bs)(p + word_of_int i := c) = store_bytes m p ys" "length ys = length bs"
proof -
  have i: "0 \<le> i" "nat i < length bs" "ys = bs[nat i := c]" using assms(1) by (auto simp: wr_def split: if_splits)
  have "word_of_int i = (of_nat (nat i) :: addr)" using i(1) by simp
  then show "(store_bytes m p bs)(p + word_of_int i := c) = store_bytes m p ys"
    using store_bytes_update [OF i(2) assms(2), of m p c] i(3) by simp
  show "length ys = length bs" using i(3) by simp
qed

lemma usr_strncpy_loop_same:
  assumes "apart d a s b" "a \<le> 4294967296"
  shows "strncpy_loop dest (ram_bytes m s b) count i = Some (j, xs) \<Longrightarrow> length dest = a \<Longrightarrow>
    usr_strncpy_loop (store_bytes m d dest) d s count i = (j, store_bytes m d xs) \<and> length xs = a"
proof (induction dest "ram_bytes m s b" count i rule: strncpy_loop.induct)
  case (1 dest count i)
  show ?case
  proof (cases "i < count - 1")
    case True
    then obtain c where c: "rd (ram_bytes m s b) i = Some c"
      using "1.prems"(1) by (subst (asm) strncpy_loop.simps) (auto split: bind_splits)
    have ci: "c = m (s + word_of_int i)" "0 \<le> i" "i < int b" using rd_ram_bytes [OF c] by simp_all
    have "nat i < b" using ci(2,3) by simp
    then have "a \<le> unat (s + of_nat (nat i) - d)" using assms(1) unfolding apart_def by blast
    moreover have "(of_nat (nat i) :: addr) = word_of_int i" using ci(2) by simp
    ultimately have src: "store_bytes m d dest (s + word_of_int i) = c"
      using ci(1,2) "1.prems"(2) by (simp add: store_bytes_outside)
    show ?thesis
    proof (cases "c = 0")
      case False
      obtain dest' where d: "wr dest i c = Some dest'" "strncpy_loop dest' (ram_bytes m s b) count (i + 1) = Some (j, xs)"
        using "1.prems"(1) True c False by (subst (asm) strncpy_loop.simps) (auto split: bind_splits)
      note w = store_bytes_wr [OF d(1)]
      have "usr_strncpy_loop (store_bytes m d dest') d s count (i + 1) = (j, store_bytes m d xs) \<and> length xs = a"
        using "1.hyps" [OF True c False d(1,2)] w(2) "1.prems"(2) assms(2) by simp
      then show ?thesis
        using True src False w(1) "1.prems"(2) assms(2) by (subst usr_strncpy_loop.simps) simp
    next
      case z: True
      then have "j = i" "xs = dest" using "1.prems"(1) True c by (subst (asm) strncpy_loop.simps, simp)+
      then show ?thesis using True src z "1.prems"(2) by (subst usr_strncpy_loop.simps) simp
    qed
  next
    case False
    then have "j = i" "xs = dest" using "1.prems"(1) by (subst (asm) strncpy_loop.simps, simp)+
    then show ?thesis using False "1.prems"(2) by (subst usr_strncpy_loop.simps) simp
  qed
qed

lemma usr_strncpy_same:
  assumes "strncpy (ram_bytes m d a) (ram_bytes m s b) count = Some xs" "apart d a s b" "a \<le> 4294967296"
  shows "usr_strncpy m d s count = store_bytes m d xs"
proof -
  obtain j ys where l: "strncpy_loop (ram_bytes m d a) (ram_bytes m s b) count 0 = Some (j, ys)" "wr ys j 0 = Some xs"
    using assms(1) by (auto simp: strncpy_def split: bind_splits)
  have "usr_strncpy_loop m d s count 0 = (j, store_bytes m d ys)" "length ys = a"
    using usr_strncpy_loop_same [OF assms(2,3) l(1)] by (simp_all add: store_ram_bytes)
  then show ?thesis using store_bytes_wr(1) [OF l(2)] assms(3) by (simp add: usr_strncpy_def)
qed

lemma usr_strcmp_same:
  "strcmp (ram_bytes m d a) (ram_bytes m s b) = Some xs \<Longrightarrow> apart d a s b \<Longrightarrow>
   usr_strcmp m d s = Some (store_bytes m d xs) \<and> length xs = a"
proof (induction a arbitrary: m d s b xs)
  case 0
  then obtain b' where b: "b = Suc b'" by (cases b) auto
  then show ?case using 0 by (subst usr_strcmp.simps) (auto simp: ram_bytes_Suc split: if_splits)
next
  case (Suc a)
  obtain b' where b: "b = Suc b'" using Suc.prems(1) by (cases b) (auto simp: ram_bytes_Suc)
  note f = apart_first [OF Suc.prems(2) [unfolded b]]
  show ?case
  proof (cases "m s = 0")
    case True
    then have "xs = ram_bytes m d (Suc a)" using Suc.prems(1) b by (simp add: ram_bytes_Suc)
    then show ?thesis using True store_ram_bytes [of m d "Suc a"] by (subst usr_strcmp.simps) simp
  next
    case False
    then obtain ys where ys: "strcmp (ram_bytes m (d + 1) a) (ram_bytes m (s + 1) b') = Some ys" "xs = m s # ys"
      using Suc.prems(1) b by (auto simp: ram_bytes_Suc)
    have "usr_strcmp (m(d := m s)) (d + 1) (s + 1) = Some (store_bytes (m(d := m s)) (d + 1) ys) \<and> length ys = a"
      by (rule Suc.IH [OF _ apart_next [OF Suc.prems(2) [unfolded b]]])
        (use ys(1) f(1,3) in \<open>simp only: ram_bytes_behind less_imp_le\<close>)
    then show ?thesis
      using False ys(2) f(3) store_bytes_Cons [of ys m d "m s"] by (subst usr_strcmp.simps) auto
  qed
qed

lemma usr_memcpy_same:
  "memcpy (ram_bytes m d a) (ram_bytes m s b) n = Some xs \<Longrightarrow> apart d a s b \<Longrightarrow>
   usr_memcpy m d s n = Some (store_bytes m d xs) \<and> length xs = a"
proof (induction a arbitrary: m d s b n xs)
  case 0
  then show ?case by (subst usr_memcpy.simps) (cases b; auto simp: ram_bytes_Suc split: if_splits)
next
  case (Suc a)
  show ?case
  proof (cases "n = 0")
    case True
    then have "xs = ram_bytes m d (Suc a)" using Suc.prems(1) by (cases b) (simp_all add: ram_bytes_Suc)
    then show ?thesis using True store_ram_bytes [of m d "Suc a"] by (subst usr_memcpy.simps) simp
  next
    case False
    obtain b' where b: "b = Suc b'" using Suc.prems(1) False by (cases b) (auto simp: ram_bytes_Suc)
    note f = apart_first [OF Suc.prems(2) [unfolded b]]
    obtain ys where ys: "memcpy (ram_bytes m (d + 1) a) (ram_bytes m (s + 1) b') (n - 1) = Some ys" "xs = m s # ys"
      using Suc.prems(1) b False by (auto simp: ram_bytes_Suc)
    have "usr_memcpy (m(d := m s)) (d + 1) (s + 1) (n - 1) = Some (store_bytes (m(d := m s)) (d + 1) ys) \<and> length ys = a"
      by (rule Suc.IH [OF _ apart_next [OF Suc.prems(2) [unfolded b]]])
        (use ys(1) f(1,3) in \<open>simp only: ram_bytes_behind less_imp_le\<close>)
    then show ?thesis
      using False ys(2) f(3) store_bytes_Cons [of ys m d "m s"] by (subst usr_memcpy.simps) auto
  qed
qed

lemma usr_memset_same:
  "memset_loop (ram_bytes m d a) c n = Some xs \<Longrightarrow> a \<le> 4294967295 \<Longrightarrow>
   usr_memset_loop n m d c = store_bytes m d xs \<and> length xs = a"
proof (induction n arbitrary: m d a xs)
  case 0
  then show ?case by (cases a) (auto simp: store_ram_bytes simp flip: ram_bytes_Suc)
next
  case (Suc n)
  obtain a' where a: "a = Suc a'" using Suc.prems(1) by (cases a) auto
  obtain ys where ys: "memset_loop (ram_bytes m (d + 1) a') c n = Some ys" "xs = c # ys"
    using Suc.prems(1) a by (auto simp: ram_bytes_Suc)
  have l: "a' \<le> 4294967295" "a' < 4294967295" using Suc.prems(2) a by simp_all
  have "usr_memset_loop n (m(d := c)) (d + 1) c = store_bytes (m(d := c)) (d + 1) ys \<and> length ys = a'"
    by (rule Suc.IH [OF _ l(1)]) (use ys(1) l(1) in \<open>simp only: ram_bytes_behind\<close>)
  then show ?case using ys(2) a l(2) store_bytes_Cons [of ys m d c] by simp
qed

text \<open>
  C23. The string and memory routines that programs are linked with are those of the kernel: whatever
  the routine of the kernel returns on the bytes of its objects, the routine of the user library
  computes on the memory that holds the objects. A routine that writes changes exactly its destination.
  The two objects must not overlap.
\<close>

theorem usr_string_routines:
  assumes "apart p a q b"
  shows
   "(\<forall>k. strlen (ram_bytes m q b) = Some k \<longrightarrow> usr_strlen m q = Some k) \<and>
    (\<forall>n k. strnlen (ram_bytes m q b) n = Some k \<longrightarrow> usr_strnlen m q n = k) \<and>
    (\<forall>n t k. strnlen_terminator (ram_bytes m q b) n t = Some k \<longrightarrow> usr_strnlen_terminator m q n t = k) \<and>
    (\<forall>n r. strncmp (ram_bytes m p a) (ram_bytes m q b) n = Some r \<longrightarrow> usr_strncmp m p q n = r) \<and>
    (\<forall>n r. istrncmp (ram_bytes m p a) (ram_bytes m q b) n = Some r \<longrightarrow> usr_istrncmp m p q n = r) \<and>
    (\<forall>n r. memcmp (ram_bytes m p a) (ram_bytes m q b) n = Some r \<longrightarrow> usr_memcmp m p q n = r) \<and>
    (\<forall>xs. strcpy (ram_bytes m p a) (ram_bytes m q b) = Some xs \<longrightarrow> usr_strcpy m p q = Some (store_bytes m p xs)) \<and>
    (\<forall>xs. strcmp (ram_bytes m p a) (ram_bytes m q b) = Some xs \<longrightarrow> usr_strcmp m p q = Some (store_bytes m p xs)) \<and>
    (\<forall>n xs. a \<le> 4294967295 \<longrightarrow> strncpy (ram_bytes m p a) (ram_bytes m q b) n = Some xs \<longrightarrow>
       usr_strncpy m p q n = store_bytes m p xs) \<and>
    (\<forall>n xs. memcpy (ram_bytes m p a) (ram_bytes m q b) n = Some xs \<longrightarrow>
       usr_memcpy m p q n = Some (store_bytes m p xs)) \<and>
    (\<forall>c n xs. a \<le> 4294967295 \<longrightarrow> memset (ram_bytes m p a) c n = Some xs \<longrightarrow> usr_memset m p c n = store_bytes m p xs)"
proof (intro conjI allI impI)
  show "strlen (ram_bytes m q b) = Some k \<Longrightarrow> usr_strlen m q = Some k" for k
    by (simp add: strlen_def usr_strlen_def usr_strlen_same)
  show "strnlen (ram_bytes m q b) n = Some k \<Longrightarrow> usr_strnlen m q n = k" for n k
    by (simp add: strnlen_def usr_strnlen_def usr_strnlen_same)
  show "strnlen_terminator (ram_bytes m q b) n t = Some k \<Longrightarrow> usr_strnlen_terminator m q n t = k" for n t k
    by (simp add: strnlen_terminator_def usr_strnlen_terminator_def usr_strnlen_terminator_same)
  show "strncmp (ram_bytes m p a) (ram_bytes m q b) n = Some r \<Longrightarrow> usr_strncmp m p q n = r" for n r
    by (rule usr_strncmp_same)
  show "istrncmp (ram_bytes m p a) (ram_bytes m q b) n = Some r \<Longrightarrow> usr_istrncmp m p q n = r" for n r
    by (rule usr_istrncmp_same)
  show "memcmp (ram_bytes m p a) (ram_bytes m q b) n = Some r \<Longrightarrow> usr_memcmp m p q n = r" for n r
    by (rule usr_memcmp_same)
  show "strcpy (ram_bytes m p a) (ram_bytes m q b) = Some xs \<Longrightarrow> usr_strcpy m p q = Some (store_bytes m p xs)" for xs
    using usr_strcpy_same assms by blast
  show "strcmp (ram_bytes m p a) (ram_bytes m q b) = Some xs \<Longrightarrow> usr_strcmp m p q = Some (store_bytes m p xs)" for xs
    using usr_strcmp_same assms by blast
  show "a \<le> 4294967295 \<Longrightarrow> strncpy (ram_bytes m p a) (ram_bytes m q b) n = Some xs \<Longrightarrow>
      usr_strncpy m p q n = store_bytes m p xs" for n xs
    using usr_strncpy_same assms by simp
  show "memcpy (ram_bytes m p a) (ram_bytes m q b) n = Some xs \<Longrightarrow> usr_memcpy m p q n = Some (store_bytes m p xs)" for n xs
    using usr_memcpy_same assms by blast
  show "a \<le> 4294967295 \<Longrightarrow> memset (ram_bytes m p a) c n = Some xs \<Longrightarrow> usr_memset m p c n = store_bytes m p xs" for c n xs
    using usr_memset_same by (simp add: memset_def usr_memset_def)
qed

theorem usr_string_routines_witness:
  "usr_strncpy ((\<lambda>a. 0)(0x2000 := 0x68, 0x2001 := 0x69)) 0x1000 0x2000 8 =
     store_bytes ((\<lambda>a. 0)(0x2000 := 0x68, 0x2001 := 0x69)) 0x1000 [0x68, 0x69, 0, 0]"
proof -
  let ?m = "(\<lambda>a. 0)(0x2000 := 0x68, 0x2001 := 0x69) :: mem"
  have "j = 0 \<or> j = 1 \<or> j = 2" if "j < 3" for j :: nat using that by linarith
  then have ap: "apart 0x1000 4 0x2000 3" by (fastforce simp: apart_def)
  have b: "ram_bytes ?m 0x1000 4 = [0, 0, 0, 0]" "ram_bytes ?m 0x2000 3 = [0x68, 0x69, 0]"
    by (simp_all add: ram_bytes_def upt_rec)
  have "strncpy [0, 0, 0, 0] [0x68, 0x69, 0] 8 = Some [0x68, 0x69, 0, 0 :: byte]"
    by (simp add: strncpy_eq strncpy_text_def)
  then show ?thesis using usr_string_routines [OF ap, of ?m] unfolding b by simp
qed

end
