(* ===== verification/UserShellOk.thy ===== *)
theory UserShellOk
  imports UserShell UserOk
begin

text \<open>
  Commands, input lines and the shell: \<open>strtok\<close> and \<open>benos_parse_command\<close> against a definition of the words
  of a text, \<open>benos_terminal_readline\<close> against a definition of line editing, and a round of the shell.
\<close>

subsection \<open>Tokens\<close>

text \<open>The text of a C string in memory, and the bytes at an address.\<close>

definition text_at :: "mem \<Rightarrow> addr \<Rightarrow> byte list \<Rightarrow> bool" where
  "text_at m p w \<longleftrightarrow> ram_bytes m p (length w) = w \<and> m (p + of_nat (length w)) = 0 \<and> 0 \<notin> set w"

definition region :: "addr \<Rightarrow> nat \<Rightarrow> addr set" where
  "region p n = {a. unat (a - p) < n}"

text \<open>The tokens of a text: its maximal parts without a delimiter.\<close>

function tokens :: "byte set \<Rightarrow> byte list \<Rightarrow> byte list list" where
  "tokens D w =
     (let u = dropWhile (\<lambda>c. c \<in> D) w
      in if u = [] then [] else takeWhile (\<lambda>c. c \<notin> D) u # tokens D (tl (dropWhile (\<lambda>c. c \<notin> D) u)))"
  by pat_completeness auto
termination
proof (relation "measure (\<lambda>(D, w). length w)")
  fix D w u
  assume "u = dropWhile (\<lambda>c. c \<in> D) w" "u \<noteq> []"
  then have "length u \<le> length w" "0 < length u" by (simp_all add: length_dropWhile_le)
  moreover have "length (tl (dropWhile (\<lambda>c. c \<notin> D) u)) < length u"
    using length_dropWhile_le [of "\<lambda>c. c \<notin> D" u] \<open>0 < length u\<close> unfolding length_tl by linarith
  ultimately show "((D, tl (dropWhile (\<lambda>c. c \<notin> D) u)), (D, w)) \<in> measure (\<lambda>(D, w). length w)" by simp
qed simp

declare tokens.simps [simp del]

lemma text_at_Nil [simp]: "text_at m p [] \<longleftrightarrow> m p = 0"
  by (simp add: text_at_def)

lemma text_at_Cons: "text_at m p (c # w) \<longleftrightarrow> m p = c \<and> c \<noteq> 0 \<and> text_at m (p + 1) w"
  by (auto simp: text_at_def ram_bytes_Suc add.assoc)

lemma text_at_append: "text_at m p (v @ w) \<longleftrightarrow> ram_bytes m p (length v) = v \<and> 0 \<notin> set v \<and> text_at m (p + of_nat (length v)) w"
  by (induction v arbitrary: p) (auto simp: text_at_Cons ram_bytes_Suc add.assoc)

lemma ram_bytes_cong: "(\<And>a. a \<in> region p n \<Longrightarrow> m' a = m a) \<Longrightarrow> n \<le> 4294967296 \<Longrightarrow> ram_bytes m' p n = ram_bytes m p n"
  by (rule nth_equalityI) (simp_all add: region_def unat_of_nat_u32)

lemma text_at_cong:
  assumes "\<And>a. a \<in> region p (Suc (length w)) \<Longrightarrow> m' a = m a" "length w < 4294967296" "text_at m p w"
  shows "text_at m' p w"
proof -
  have "ram_bytes m' p (length w) = ram_bytes m p (length w)"
    by (rule ram_bytes_cong) (use assms(1,2) in \<open>auto simp: region_def\<close>)
  moreover have "m' (p + of_nat (length w)) = m (p + of_nat (length w))"
    using assms(1) [of "p + of_nat (length w)"] assms(2) by (simp add: region_def unat_of_nat_u32)
  ultimately show ?thesis using assms(3) by (simp add: text_at_def)
qed

lemma usr_strlen_text: "text_at m p w \<Longrightarrow> usr_strlen m p = Some (int (length w))"
proof -
  have "text_at m p w \<Longrightarrow> usr_strlen_loop m p i = Some (i + int (length w))" for i
    by (induction w arbitrary: p i) (subst usr_strlen_loop.simps, auto simp: text_at_Cons)+
  then show "text_at m p w \<Longrightarrow> usr_strlen m p = Some (int (length w))" by (simp add: usr_strlen_def)
qed

lemma delim_loop_text:
  assumes "text_at m d D"
  shows "k \<le> length D \<Longrightarrow> (delim_loop m c d (int (length D)) (int k) < int (length D) \<longleftrightarrow> c \<in> set (drop k D)) \<and>
    delim_loop m c d (int (length D)) (int k) \<le> int (length D)"
proof (induction "length D - k" arbitrary: k)
  case 0
  then show ?case by (subst (1 2) delim_loop.simps) simp
next
  case (Suc n)
  then have k: "k < length D" by simp
  have "m (d + of_nat k) = D ! k"
  proof -
    have "ram_bytes m d (length D) ! k = D ! k" using assms by (simp add: text_at_def)
    then show ?thesis using k by simp
  qed
  moreover have "drop k D = D ! k # drop (Suc k) D" using k by (simp add: Cons_nth_drop_Suc)
  ultimately show ?case
    using Suc.hyps(1) [of "Suc k"] Suc.hyps(2) k by (subst (1 2) delim_loop.simps) (simp add: add.commute)
qed

lemma delim_text:
  assumes "text_at m d D"
  shows "delim_loop m c d (int (length D)) 0 < int (length D) \<longleftrightarrow> c \<in> set D"
    "delim_loop m c d (int (length D)) 0 = int (length D) \<longleftrightarrow> c \<notin> set D"
  using delim_loop_text [OF assms, of 0 c] by auto

lemma skip_loop_text:
  assumes "text_at m d D"
  shows "text_at m p w \<Longrightarrow> skip_loop m p d (int (length D)) =
    Some (p + of_nat (length (takeWhile (\<lambda>c. c \<in> set D) w)))"
proof (induction w arbitrary: p)
  case Nil
  have "0 \<notin> set D" using assms by (simp add: text_at_def)
  then show ?case using Nil by (subst skip_loop.simps) (simp add: delim_text [OF assms])
next
  case (Cons c w)
  then show ?case by (subst skip_loop.simps) (auto simp: delim_text [OF assms] text_at_Cons add.assoc)
qed

lemma token_end_loop_text:
  assumes "text_at m d D"
  shows "text_at m p w \<Longrightarrow> token_end_loop m p d (int (length D)) =
    (let t = takeWhile (\<lambda>c. c \<notin> set D) w
     in Some (m(p + of_nat (length t) := 0), p + of_nat (length t) + (if t = w then 0 else 1)))"
proof (induction w arbitrary: p)
  case Nil
  then show ?case by (subst token_end_loop.simps) (simp add: fun_upd_idem)
next
  case (Cons c w)
  then show ?case
    by (subst token_end_loop.simps) (auto simp: delim_text [OF assms] text_at_Cons add.assoc Let_def)
qed

text \<open>A pointer into an array of 1025 characters at \<open>S\<close>, with room for the text \<open>w\<close> behind it.\<close>

definition in_array :: "addr \<Rightarrow> addr \<Rightarrow> byte list \<Rightarrow> bool" where
  "in_array S p w \<longleftrightarrow> (\<exists>k. p = S + of_nat k \<and> k + length w \<le> 1024)"

definition array_ok :: "addr \<Rightarrow> bool" where
  "array_ok S \<longleftrightarrow> S \<noteq> 0 \<and> unat S + 1025 \<le> 4294967296"

lemma in_array_unat:
  assumes "array_ok S" "in_array S p w"
  shows "p \<noteq> 0" "unat p + length w < 4294967296" "i \<le> length w \<Longrightarrow> p + of_nat i \<in> region S 1025"
proof -
  obtain k where k: "p = S + of_nat k" "k + length w \<le> 1024" using assms(2) by (auto simp: in_array_def)
  have "unat S + k < 4294967296" using assms(1) k(2) by (simp add: array_ok_def)
  then have u: "unat p = unat S + k" using k by (simp add: unat_add_u32 unat_of_nat_u32)
  have "0 < unat S" using assms(1) by (simp add: array_ok_def unat_gt_0)
  then show "p \<noteq> 0" using u by auto
  show "unat p + length w < 4294967296" using u k(2) assms(1) by (simp add: array_ok_def)
  show "p + of_nat i \<in> region S 1025" if "i \<le> length w"
  proof -
    have "p + of_nat i - S = of_nat (k + i)" using k(1) by simp
    then show ?thesis using k(2) that by (simp add: region_def unat_of_nat_u32 del: of_nat_add)
  qed
qed

lemma in_array_step: "in_array S p (v @ w) \<Longrightarrow> in_array S (p + of_nat (length v)) w"
  unfolding in_array_def by (elim exE) (rule_tac x = "k + length v" in exI, auto simp: add.assoc)

lemma in_array_shorter: "in_array S p w \<Longrightarrow> length v \<le> length w \<Longrightarrow> in_array S p v"
  by (auto simp: in_array_def)

lemma text_at_update:
  "text_at m p w \<Longrightarrow> a \<notin> region p (Suc (length w)) \<Longrightarrow> length w < 4294967296 \<Longrightarrow> text_at (m(a := c)) p w"
  by (rule text_at_cong) auto

text \<open>
  What a call of \<open>strtok\<close> leaves: the token it returned and, at the static pointer, the text whose tokens
  are still to come.
\<close>

definition pending :: "mem \<Rightarrow> addr \<Rightarrow> byte set \<Rightarrow> addr \<Rightarrow> addr \<Rightarrow> byte list list \<Rightarrow> bool" where
  "pending m S D sp token ts \<longleftrightarrow>
     (case ts of [] \<Rightarrow> token = 0 \<and> sp = 0
      | t # ts' \<Rightarrow> token \<noteq> 0 \<and> sp \<noteq> 0 \<and> in_array S token t \<and> text_at m token t \<and>
          (\<exists>w. in_array S sp w \<and> text_at m sp w \<and> ts' = tokens D w))"

lemma pending_cong:
  assumes "\<And>a. a \<in> region S 1025 \<Longrightarrow> m' a = m a" "array_ok S" "pending m S D sp token ts"
  shows "pending m' S D sp token ts"
proof -
  have "text_at m' p w" if i: "in_array S p w" and t: "text_at m p w" for p w
  proof (rule text_at_cong [OF _ _ t])
    fix a assume a: "a \<in> region p (Suc (length w))"
    then have "a = p + of_nat (unat (a - p))" "unat (a - p) \<le> length w" by (auto simp: region_def)
    then have "a \<in> region S 1025" using in_array_unat(3) [OF assms(2) i] by metis
    then show "m' a = m a" by (rule assms(1))
  next
    show "length w < 4294967296" using in_array_unat(2) [OF assms(2) i] by linarith
  qed
  then show ?thesis using assms(3) by (auto simp: pending_def split: list.splits)
qed

lemma token_rest:
  assumes S: "array_ok S" and u: "in_array S p (t @ r)" "text_at m p (t @ r)" and e: "e = p + of_nat (length t)"
    and n: "n = e + (if r = [] then 0 else 1)"
  shows "in_array S p t" "text_at (m(e := 0)) p t" "in_array S n (tl r)" "text_at (m(e := 0)) n (tl r)" "e \<in> region S 1025"
proof -
  note l = in_array_unat [OF S u(1)]
  show "in_array S p t" by (rule in_array_shorter [OF u(1)]) simp
  show "e \<in> region S 1025" using l(3) [of "length t"] e by simp
  have tp: "ram_bytes m p (length t) = t" "0 \<notin> set t" "text_at m e r"
    using u(2) e by (simp_all add: text_at_append)
  have "length t < 4294967296" using l(2) by simp
  then have "ram_bytes (m(e := 0)) p (length t) = ram_bytes m p (length t)"
    using e by (intro ram_bytes_cong) (auto simp: region_def unat_of_nat_u32)
  then show "text_at (m(e := 0)) p t" using tp(1,2) e by (simp add: text_at_def)
  have er: "in_array S e r" using in_array_step [OF u(1)] e by simp
  show "in_array S n (tl r)" using er in_array_step [of S e "[hd r]" "tl r"] n by (cases r) simp_all
  show "text_at (m(e := 0)) n (tl r)"
  proof (cases r)
    case (Cons x r')
    have "e - (e + 1) = 4294967295" by simp
    then have "unat (e - (e + 1)) = 4294967295" by (simp only: unat_numeral) simp
    moreover have "Suc (length r') \<le> 1024" using er Cons by (auto simp: in_array_def)
    ultimately have "e \<notin> region (e + 1) (Suc (length r'))" by (simp add: region_def)
    moreover have "text_at m (e + 1) r'" using tp(3) Cons by (simp add: text_at_Cons)
    ultimately show ?thesis using text_at_update \<open>Suc (length r') \<le> 1024\<close> n Cons by simp
  qed (use n in simp)
qed

lemma usr_strtok_text:
  assumes S: "array_ok S" and d: "text_at m d D" "\<And>a. a \<in> region d (Suc (length D)) \<Longrightarrow> a \<notin> region S 1025" "length D < 4294967296"
    and w: "in_array S p w" "text_at m p w"
    and q: "(if str \<noteq> 0 \<and> sp = 0 then str else sp) = p"
  shows "\<exists>token m' sp'. usr_strtok m sp str d = Some (token, m', sp') \<and> pending m' S (set D) sp' token (tokens (set D) w) \<and>
    (\<forall>a. a \<notin> region S 1025 \<longrightarrow> m' a = m a)"
proof -
  let ?v = "takeWhile (\<lambda>c. c \<in> set D) w" and ?u = "dropWhile (\<lambda>c. c \<in> set D) w"
  let ?p = "p + of_nat (length ?v)"
  have vu: "w = ?v @ ?u" by simp
  have p0: "p \<noteq> 0" by (rule in_array_unat(1) [OF S w(1)])
  have pu: "in_array S ?p ?u" using in_array_step [of S p ?v ?u] w(1) by simp
  have tu: "text_at m ?p ?u" using w(2) text_at_append [of m p ?v ?u] unfolding takeWhile_dropWhile_id by blast
  have nz: "\<not> (str = 0 \<and> sp = 0)" using q p0 by auto
  have start: "usr_strtok m sp str d =
     (if m ?p = 0 then Some (0, m, 0)
      else do { (m1, sp2) \<leftarrow> token_end_loop m ?p d (int (length D)); Some (?p, m1, sp2) })"
    using nz q by (cases "sp = 0") (auto simp: usr_strtok_def usr_strlen_text [OF d(1)] Let_def skip_loop_text [OF d(1) w(2)])
  show ?thesis
  proof (cases "?u = []")
    case True
    then have "m ?p = 0" using tu by (simp only: text_at_Nil)
    moreover have "tokens (set D) w = []" using True by (simp add: tokens.simps Let_def)
    ultimately show ?thesis using start by (simp add: pending_def)
  next
    case False
    let ?t = "takeWhile (\<lambda>c. c \<notin> set D) ?u" and ?r = "dropWhile (\<lambda>c. c \<notin> set D) ?u"
    let ?e = "?p + of_nat (length ?t)"
    define n where "n = ?e + (if ?r = [] then 0 else 1)"
    have pu': "in_array S ?p (?t @ ?r)" and tu': "text_at m ?p (?t @ ?r)"
      unfolding takeWhile_dropWhile_id by (rule pu, rule tu)
    have "?t = ?u \<longleftrightarrow> ?r = []" by (metis append_self_conv takeWhile_dropWhile_id)
    moreover have "m ?p \<noteq> 0" using tu False by (cases ?u) (auto simp only: text_at_Cons)
    ultimately have r: "usr_strtok m sp str d = Some (?p, m(?e := 0), n)"
      using start token_end_loop_text [OF d(1) tu] unfolding n_def Let_def by (simp only: bind.bind_lunit split_conv if_False)
    have "tokens (set D) w = ?t # tokens (set D) (tl ?r)"
      using False by (subst tokens.simps) (simp add: Let_def)
    moreover note token_rest [OF S pu' tu' refl n_def]
    moreover have "?p \<noteq> 0" by (rule in_array_unat(1) [OF S pu])
    moreover from calculation have "n \<noteq> 0" using in_array_unat(1) [OF S] by blast
    ultimately show ?thesis unfolding r by (auto simp: pending_def)
  qed
qed

subsection \<open>Commands\<close>

lemma usr_strncpy_text:
  assumes "text_at m s t" "length t < 4294967295" "n \<le> 1025" "0 < n"
    "\<And>a. a \<in> region s (Suc (length t)) \<Longrightarrow> a \<notin> region d n"
  shows "usr_strncpy m d s (int n) = store_bytes m d (take (n - 1) t @ [0])"
proof -
  let ?t = "take (n - 1) t"
  have b: "ram_bytes m s (Suc (length t)) = t @ [0]"
    using assms(1) by (simp add: text_at_def ram_bytes_def)
  have z: "terminated (t @ [0])" "cstr (t @ [0]) = t" using assms(1) by (simp_all add: text_at_def)
  have l: "Suc (length ?t) \<le> n" using assms(4) by simp
  have "strncpy (ram_bytes m d (Suc (length ?t))) (ram_bytes m s (Suc (length t))) (int n) = Some (?t @ [0])"
    unfolding b using z assms(4) by (simp add: strncpy_eq strncpy_text_def Let_def nat_diff_distrib)
  moreover have "apart d (Suc (length ?t)) s (Suc (length t))"
    unfolding apart_def
  proof (intro allI impI)
    fix j assume j: "j < Suc (length t)"
    then have "s + of_nat j \<in> region s (Suc (length t))" using assms(2) by (simp add: region_def unat_of_nat_u32)
    then have "\<not> unat (s + of_nat j - d) < n" using assms(5) by (simp add: region_def)
    then show "Suc (length ?t) \<le> unat (s + of_nat j - d)" using l by linarith
  qed
  ultimately show ?thesis by (rule usr_strncpy_same) (use l assms(3) in linarith)
qed

text \<open>A list of arguments in memory, in the order of the \<open>next\<close> pointers.\<close>

fun command_list :: "mem \<Rightarrow> addr \<Rightarrow> byte list list \<Rightarrow> bool" where
  "command_list m p [] = (p = 0)"
| "command_list m p (t # ts) = (p \<noteq> 0 \<and> text_at m p t \<and> command_list m (load32 m (p + 512)) ts)"

text \<open>
  What the kernel promises of the calls of \<open>malloc\<close> to come: each answers with a block of the size of a
  \<open>command_arg\<close> outside of the addresses in use, and writes into this block only.
\<close>

fun mallocs_ok :: "addr set \<Rightarrow> (addr \<times> (addr \<times> byte) list) list \<Rightarrow> bool" where
  "mallocs_ok U [] = True"
| "mallocs_ok U ((b, ws) # rs) = (b \<noteq> 0 \<and> region b 516 \<inter> U = {} \<and> fst ` set ws \<subseteq> region b 516 \<and>
     mallocs_ok (U \<union> region b 516) rs)"

lemma fold_writes_other: "a \<notin> fst ` set ws \<Longrightarrow> fold (\<lambda>(a, b) m. m(a := b)) ws m a = m a"
  by (induction ws arbitrary: m) auto

lemma region_offset: "k + n \<le> 516 \<Longrightarrow> region (b + of_nat k) n \<subseteq> region b 516"
proof
  fix a assume k: "k + n \<le> 516" and a: "a \<in> region (b + of_nat k) n"
  let ?x = "a - (b + of_nat k)"
  have "unat ?x < n" using a by (simp add: region_def)
  moreover have "a - b = of_nat (unat ?x + k)" by simp
  ultimately show "a \<in> region b 516" using k unfolding region_def mem_Collect_eq by (simp add: unat_of_nat_u32 del: of_nat_add of_nat_unat word_of_nat_eq_iff)
qed

lemma store32_region: "a \<notin> region p 4 \<Longrightarrow> store32 m p v a = m a"
proof -
  assume "a \<notin> region p 4"
  then have "4 \<le> unat (a - p)" by (simp add: region_def)
  then have "a \<noteq> p" "a \<noteq> p + 1" "a \<noteq> p + 2" "a \<noteq> p + 3" by auto
  then show ?thesis by (simp add: store32_def)
qed

lemma load32_region: "(\<And>a. a \<in> region p 4 \<Longrightarrow> m' a = m a) \<Longrightarrow> load32 m' p = load32 m p"
  by (simp add: load32_def region_def)

text \<open>A new argument: its text, no successor, and nothing else is written.\<close>

lemma new_command_arg:
  assumes "text_at m s t" "length t < 4294967295" "\<And>a. a \<in> region s (Suc (length t)) \<Longrightarrow> a \<notin> region b 516"
  shows "text_at (new_command_arg m b s) b (take 511 t)" "load32 (new_command_arg m b s) (b + 512) = 0"
    "a \<notin> region b 516 \<Longrightarrow> new_command_arg m b s a = m a"
proof -
  let ?t = "take 511 t"
  have sub: "region b 512 \<subseteq> region b 516" "region (b + 512) 4 \<subseteq> region b 516"
    using region_offset [of 512 4 b] by (auto simp: region_def)
  have c: "usr_strncpy m b s 512 = store_bytes m b (?t @ [0])"
    using usr_strncpy_text [OF assms(1,2), of 512 b] assms(3) sub(1) by auto
  have t: "text_at (store_bytes m b (?t @ [0])) b ?t"
  proof -
    have "ram_bytes (store_bytes m b (?t @ [0])) b (length ?t) = ?t"
      by (rule nth_equalityI) (auto simp: store_bytes_def unat_of_nat_u32 nth_append)
    moreover have "0 \<notin> set ?t" using assms(1) by (auto simp: text_at_def dest: in_set_takeD)
    ultimately show ?thesis by (simp add: text_at_def store_bytes_def unat_of_nat_u32 nth_append)
  qed
  show "load32 (new_command_arg m b s) (b + 512) = 0" by (simp add: new_command_arg_def load_store_same)
  show "new_command_arg m b s a = m a" if "a \<notin> region b 516"
  proof -
    have "a \<notin> region (b + 512) 4" "a \<notin> region b 512" using that sub by blast+
    then show ?thesis by (auto simp: new_command_arg_def c store32_region store_bytes_def region_def)
  qed
  show "text_at (new_command_arg m b s) b ?t"
  proof (rule text_at_cong [OF _ _ t])
    fix a assume "a \<in> region b (Suc (length ?t))"
    then have "unat (a - b) < 512" by (simp add: region_def)
    moreover have "unat (a - b) = unat (a - (b + 512)) + 512" if "unat (a - (b + 512)) < 4"
    proof -
      have "a - b = of_nat (unat (a - (b + 512)) + 512)" by simp
      then have "unat (a - b) = unat (of_nat (unat (a - (b + 512)) + 512) :: addr)" by (rule arg_cong)
      also have "\<dots> = unat (a - (b + 512)) + 512" by (rule unat_of_nat_u32) (use that in linarith)
      finally show ?thesis .
    qed
    ultimately have "a \<notin> region (b + 512) 4" by (auto simp: region_def)
    then show "new_command_arg m b s a = store_bytes m b (?t @ [0]) a" by (simp add: new_command_arg_def c store32_region)
  qed simp
qed

lemma next_field: "region (b + 512) 4 \<subseteq> region b 516" "region b (Suc (length (take 511 t))) \<inter> region (b + 512) 4 = {}"
proof -
  show s: "region (b + 512) 4 \<subseteq> region b 516" using region_offset [of 512 4 b] by simp
  have "\<not> unat (a - b) < 512" if "unat (a - (b + 512)) < 4" for a
  proof -
    have "a - b = of_nat (unat (a - (b + 512)) + 512)" by simp
    then have "unat (a - b) = unat (of_nat (unat (a - (b + 512)) + 512) :: addr)" by (rule arg_cong)
    also have "\<dots> = unat (a - (b + 512)) + 512" by (rule unat_of_nat_u32) (use that in linarith)
    finally show ?thesis by simp
  qed
  then show "region b (Suc (length (take 511 t))) \<inter> region (b + 512) 4 = {}" by (fastforce simp: region_def)
qed

lemma in_array_region: "array_ok S \<Longrightarrow> in_array S p w \<Longrightarrow> region p (Suc (length w)) \<subseteq> region S 1025"
proof
  fix a assume S: "array_ok S" "in_array S p w" and "a \<in> region p (Suc (length w))"
  then have "a = p + of_nat (unat (a - p))" "unat (a - p) \<le> length w" by (auto simp: region_def)
  then show "a \<in> region S 1025" using in_array_unat(3) [OF S] by metis
qed

lemma parse_command_loop_ok:
  assumes S: "array_ok S" and L: "region S 1025 \<inter> region (lit '' '') 2 = {}"
  shows "pending (umem s) S {0x20} (strtok_sp s) token ts \<Longrightarrow> text_at (umem s) (lit '' '') [0x20] \<Longrightarrow>
    mallocs_ok U rep \<Longrightarrow> length rep = length ts \<Longrightarrow> replies s = rep @ rs \<Longrightarrow>
    region S 1025 \<union> region (lit '' '') 2 \<union> region current 516 \<subseteq> U \<Longrightarrow>
    region current 516 \<inter> (region S 1025 \<union> region (lit '' '') 2) = {} \<Longrightarrow>
    load32 (umem s) (current + 512) = 0 \<Longrightarrow>
    \<exists>s'. parse_command_loop lit s current token = Some s' \<and>
      command_list (umem s') (load32 (umem s') (current + 512)) (map (take 511) ts) \<and>
      (\<forall>a \<in> U. a \<notin> region S 1025 \<longrightarrow> a \<notin> region (current + 512) 4 \<longrightarrow> umem s' a = umem s a) \<and>
      strtok_sp s' = 0 \<and> replies s' = rs \<and> calls s' = calls s @ replicate (length ts) (4, [sizeof_command_arg])"
proof (induction ts arbitrary: s current token rep U)
  case Nil
  then show ?case by (subst parse_command_loop.simps) (simp add: pending_def)
next
  case (Cons t ts)
  let ?S = "region S 1025" and ?L = "region (lit '' '') 2" and ?c = "region (current + 512) 4"
  obtain b ws rep' where rep: "rep = (b, ws) # rep'" using Cons.prems(4) by (cases rep) auto
  let ?B = "region b 516"
  have b: "b \<noteq> 0" "?B \<inter> U = {}" "fst ` set ws \<subseteq> ?B" "mallocs_ok (U \<union> ?B) rep'" using Cons.prems(3) rep by simp_all
  obtain w where p: "token \<noteq> 0" "strtok_sp s \<noteq> 0" "in_array S token t" "text_at (umem s) token t"
      "in_array S (strtok_sp s) w" "text_at (umem s) (strtok_sp s) w" "ts = tokens {0x20} w"
    using Cons.prems(1) by (auto simp: pending_def)
  have cU: "?c \<subseteq> region current 516" by (rule next_field)
  define s1 where "s1 = s\<lparr>umem := fold (\<lambda>(a, b) m. m(a := b)) ws (umem s), calls := calls s @ [(4, [sizeof_command_arg])],
      replies := rep' @ rs\<rparr>"
  have mal: "benos_malloc s sizeof_command_arg = Some (b, s1)"
    using Cons.prems(5) rep by (simp add: benos_malloc_def int80_def s1_def)
  have m1: "umem s1 a = umem s a" if "a \<in> U" for a
    using that b(2,3) fold_writes_other [of a ws "umem s"] by (auto simp: s1_def)
  have SL: "?S \<subseteq> U" "?L \<subseteq> U" "region current 516 \<subseteq> U" using Cons.prems(6) by blast+
  have tok: "region token (Suc (length t)) \<subseteq> ?S" by (rule in_array_region [OF S p(3)])
  have lt: "length t < 4294967295" using in_array_unat(2) [OF S p(3)] p(3) by (auto simp: in_array_def)
  have t1: "text_at (umem s1) token t"
    by (rule text_at_cong [OF _ _ p(4)]) (use m1 tok SL lt in auto)
  have nb: "a \<notin> ?B" if "a \<in> region token (Suc (length t))" for a using that tok SL b(2) by blast
  note n = new_command_arg [OF t1 lt nb]
  let ?m2 = "new_command_arg (umem s1) b token"
  define m3 where "m3 = store32 ?m2 (current + 512) b"
  have m3: "m3 a = umem s a" if "a \<in> U" "a \<notin> ?c" for a
  proof -
    have "a \<notin> ?B" using that(1) b(2) by blast
    then show ?thesis using that m1 n(3) [of a] by (simp add: m3_def store32_region)
  qed
  have m3SL: "m3 a = umem s a" if "a \<in> ?S \<union> ?L" for a
  proof -
    have "a \<in> U" "a \<notin> ?c" using that SL cU Cons.prems(7) by blast+
    then show ?thesis by (rule m3)
  qed
  have d3: "text_at m3 (lit '' '') [0x20]"
    by (rule text_at_cong [OF _ _ Cons.prems(2)]) (use m3SL in \<open>auto simp: numeral_2_eq_2\<close>)
  have w3: "text_at m3 (strtok_sp s) w"
    by (rule text_at_cong [OF _ _ p(6)])
      (use m3SL in_array_region [OF S p(5)] p(5) in \<open>auto simp: in_array_def\<close>)
  have dl: "a \<notin> ?S" if "a \<in> region (lit '' '') (Suc (length [0x20 :: byte]))" for a
    using that L by (auto simp: numeral_2_eq_2)
  have q: "(if (0 :: addr) \<noteq> 0 \<and> strtok_sp s = 0 then 0 else strtok_sp s) = strtok_sp s" by simp
  obtain token' m4 sp' where r: "usr_strtok m3 (strtok_sp s) 0 (lit '' '') = Some (token', m4, sp')"
      "pending m4 S {0x20} sp' token' ts" "\<And>a. a \<notin> ?S \<Longrightarrow> m4 a = m3 a"
    using usr_strtok_text [OF S d3 dl _ p(5) w3 q] p(7) by auto
  define s2 where "s2 = s1\<lparr>umem := m4, strtok_sp := sp'\<rparr>"
  have st: "strtok (s1\<lparr>umem := m3\<rparr>) 0 (lit '' '') = Some (token', s2)"
    using r(1) by (simp add: strtok_def s2_def s1_def)
  have loop: "parse_command_loop lit s current token = parse_command_loop lit s2 b token'"
    using p(1) b(1) mal st by (subst parse_command_loop.simps) (simp add: m3_def Let_def)
  have d4: "text_at (umem s2) (lit '' '') [0x20]"
    by (rule text_at_cong [OF _ _ d3]) (use r(3) L in \<open>auto simp: s2_def numeral_2_eq_2\<close>)
  have bS: "?B \<inter> (?S \<union> ?L) = {}" "?B \<inter> ?c = {}" using b(2) SL cU by blast+
  have m4B: "m4 a = ?m2 a" if "a \<in> ?B" for a
  proof -
    have "a \<notin> ?S" "a \<notin> ?c" using that bS by blast+
    then show ?thesis using r(3) by (simp add: m3_def store32_region)
  qed
  have z4: "load32 (umem s2) (b + 512) = 0"
  proof -
    have "load32 m4 (b + 512) = load32 ?m2 (b + 512)"
      by (rule load32_region) (use m4B next_field(1) in blast)
    then show ?thesis using n(2) by (simp add: s2_def)
  qed
  obtain s' where s': "parse_command_loop lit s2 b token' = Some s'"
      "command_list (umem s') (load32 (umem s') (b + 512)) (map (take 511) ts)"
      "\<And>a. a \<in> U \<union> ?B \<Longrightarrow> a \<notin> ?S \<Longrightarrow> a \<notin> region (b + 512) 4 \<Longrightarrow> umem s' a = umem s2 a"
      "strtok_sp s' = 0" "replies s' = rs" "calls s' = calls s2 @ replicate (length ts) (4, [sizeof_command_arg])"
    using Cons.IH [of s2 token' "U \<union> ?B" rep' b] r(2) d4 b(4) Cons.prems(4,6) rep bS(1) z4
    by (auto simp: s2_def s1_def)
  have tb: "text_at (umem s') b (take 511 t)"
  proof (rule text_at_cong [OF _ _ n(1)])
    fix a assume a: "a \<in> region b (Suc (length (take 511 t)))"
    then have "a \<in> ?B" "a \<notin> region (b + 512) 4" using next_field(2) [of b t] by (auto simp: region_def)
    then show "umem s' a = ?m2 a" using s'(3) [of a] m4B bS by (auto simp: s2_def)
  qed simp
  have nx: "load32 (umem s') (current + 512) = b"
  proof -
    have "load32 (umem s') (current + 512) = load32 m3 (current + 512)"
    proof (rule load32_region)
      fix a assume a: "a \<in> ?c"
      then have "a \<in> U" "a \<notin> ?S" "a \<notin> region (b + 512) 4"
        using cU SL(3) Cons.prems(7) b(2) next_field(1) [of b] by blast+
      then show "umem s' a = m3 a" using s'(3) [of a] r(3) by (simp add: s2_def)
    qed
    then show ?thesis by (simp add: m3_def load_store_same)
  qed
  have "umem s' a = umem s a" if "a \<in> U" "a \<notin> ?S" "a \<notin> ?c" for a
  proof -
    have "a \<notin> region (b + 512) 4" using that(1) b(2) next_field(1) [of b] by blast
    then show ?thesis using s'(3) [of a] r(3) m3 that by (simp add: s2_def)
  qed
  moreover have "calls s' = calls s @ replicate (length (t # ts)) (4, [sizeof_command_arg])"
    using s'(6) by (simp add: s2_def s1_def)
  ultimately show ?case
    using loop s'(1,2,4,5) tb nx b(1) by (intro exI [of _ s']) simp
qed

lemma take_text: "text_at m p w \<Longrightarrow> 0 \<notin> set (take n w)"
  by (auto simp: text_at_def dest: in_set_takeD)

lemma text_at_store: "0 \<notin> set w \<Longrightarrow> length w < 4294967295 \<Longrightarrow> text_at (store_bytes m p (w @ [0])) p w"
proof -
  assume w: "0 \<notin> set w" "length w < 4294967295"
  have "ram_bytes (store_bytes m p (w @ [0])) p (length w) = w"
    by (rule nth_equalityI) (use w(2) in \<open>auto simp: store_bytes_def unat_of_nat_u32 nth_append\<close>)
  then show ?thesis using w by (simp add: text_at_def store_bytes_def unat_of_nat_u32 nth_append)
qed

lemma parse_command_run:
  assumes S: "array_ok S" "S = scommand" and w: "text_at (umem s) command w" "length w < 4294967295"
      "region command (Suc (length w)) \<inter> region S 1025 = {}"
    and L: "text_at (umem s) (lit '' '') [0x20]" "region S 1025 \<inter> region (lit '' '') 2 = {}"
    and c: "maxlen < 1025" "strtok_sp s = 0" "ts = tokens {0x20} (take 1024 w)"
    and rep: "mallocs_ok (region S 1025 \<union> region (lit '' '') 2) rep" "length rep = length ts" "replies s = rep @ rs"
  shows "\<exists>root s'. benos_parse_command lit scommand s command maxlen = Some (root, s') \<and>
    command_list (umem s') root (map (take 511) ts) \<and> strtok_sp s' = 0 \<and> replies s' = rs \<and>
    calls s' = calls s @ replicate (length ts) (4, [sizeof_command_arg])"
proof -
  let ?w = "take 1024 w" and ?S = "region S 1025" and ?L = "region (lit '' '') 2"
  let ?m0 = "usr_strncpy (umem s) S command 1025"
  have m0: "?m0 = store_bytes (umem s) S (?w @ [0])"
    using usr_strncpy_text [OF w(1,2), of 1025 S] w(3) by auto
  have t0: "text_at ?m0 S ?w" unfolding m0 by (rule text_at_store) (use take_text [OF w(1)] in simp_all)
  have out: "?m0 a = umem s a" if "a \<notin> ?S" for a
    unfolding m0 by (rule store_bytes_outside) (use that in \<open>simp add: region_def\<close>)
  have d0: "text_at ?m0 (lit '' '') [0x20]"
    by (rule text_at_cong [OF _ _ L(1)]) (use out L(2) in \<open>auto simp: numeral_2_eq_2\<close>)
  have dl: "a \<notin> ?S" if "a \<in> region (lit '' '') (Suc (length [0x20 :: byte]))" for a
    using that L(2) by (auto simp: numeral_2_eq_2)
  have i0: "in_array S S ?w" unfolding in_array_def by (rule exI [of _ 0]) simp
  have q: "(if S \<noteq> 0 \<and> strtok_sp s = 0 then S else strtok_sp s) = S" using S(1) c(2) by (simp add: array_ok_def)
  obtain token m1 sp where r: "usr_strtok ?m0 (strtok_sp s) S (lit '' '') = Some (token, m1, sp)"
      "pending m1 S {0x20} sp token ts" "\<And>a. a \<notin> ?S \<Longrightarrow> m1 a = ?m0 a"
    using usr_strtok_text [OF S(1) d0 dl _ i0 t0 q] c(3) by auto
  define s1 where "s1 = s\<lparr>umem := m1, strtok_sp := sp\<rparr>"
  have st: "strtok (s\<lparr>umem := ?m0\<rparr>) S (lit '' '') = Some (token, s1)" using r(1) by (simp add: strtok_def s1_def)
  show ?thesis
  proof (cases ts)
    case Nil
    then have "token = 0" "sp = 0" using r(2) by (simp_all add: pending_def)
    then have "benos_parse_command lit scommand s command maxlen = Some (0, s1)"
      using c(1) S(2) st by (simp add: benos_parse_command_def)
    then show ?thesis using Nil rep \<open>sp = 0\<close> by (simp add: s1_def)
  next
    case (Cons t ts')
    obtain b ws rep' where rp: "rep = (b, ws) # rep'" using rep(2) Cons by (cases rep) auto
    let ?B = "region b 516"
    have b: "b \<noteq> 0" "?B \<inter> (?S \<union> ?L) = {}" "fst ` set ws \<subseteq> ?B" "mallocs_ok (?S \<union> ?L \<union> ?B) rep'" using rep(1) rp by simp_all
    obtain v where p: "token \<noteq> 0" "sp \<noteq> 0" "in_array S token t" "text_at m1 token t"
        "in_array S sp v" "text_at m1 sp v" "ts' = tokens {0x20} v"
      using r(2) Cons by (auto simp: pending_def)
    define s2 where "s2 = s1\<lparr>umem := fold (\<lambda>(a, b) m. m(a := b)) ws m1, calls := calls s @ [(4, [sizeof_command_arg])],
        replies := rep' @ rs\<rparr>"
    have mal: "benos_malloc s1 sizeof_command_arg = Some (b, s2)"
      using rep(3) rp by (simp add: benos_malloc_def int80_def s2_def s1_def)
    have m2: "umem s2 a = m1 a" if "a \<in> ?S \<union> ?L" for a
      using that b(2,3) fold_writes_other [of a ws m1] by (auto simp: s2_def)
    have tok: "region token (Suc (length t)) \<subseteq> ?S" by (rule in_array_region [OF S(1) p(3)])
    have lt: "length t < 4294967295" using p(3) by (auto simp: in_array_def)
    have t2: "text_at (umem s2) token t"
      by (rule text_at_cong [OF _ _ p(4)]) (use m2 tok lt in auto)
    have nb: "a \<notin> ?B" if "a \<in> region token (Suc (length t))" for a using that tok b(2) by blast
    note n = new_command_arg [OF t2 lt nb]
    let ?m3 = "new_command_arg (umem s2) b token"
    have m3: "?m3 a = m1 a" if "a \<in> ?S \<union> ?L" for a
    proof -
      have "a \<notin> ?B" using that b(2) by blast
      then show ?thesis using that m2 n(3) [of a] by simp
    qed
    have d3: "text_at ?m3 (lit '' '') [0x20]"
      by (rule text_at_cong [OF _ _ d0]) (use m3 r(3) L(2) in \<open>auto simp: numeral_2_eq_2\<close>)
    have w3: "text_at ?m3 sp v"
      by (rule text_at_cong [OF _ _ p(6)]) (use m3 in_array_region [OF S(1) p(5)] p(5) in \<open>auto simp: in_array_def\<close>)
    have q2: "(if (0 :: addr) \<noteq> 0 \<and> sp = 0 then 0 else sp) = sp" by simp
    obtain token' m4 sp' where r2: "usr_strtok ?m3 sp 0 (lit '' '') = Some (token', m4, sp')"
        "pending m4 S {0x20} sp' token' ts'" "\<And>a. a \<notin> ?S \<Longrightarrow> m4 a = ?m3 a"
      using usr_strtok_text [OF S(1) d3 dl _ p(5) w3 q2] p(7) by auto
    define s3 where "s3 = s2\<lparr>umem := m4, strtok_sp := sp'\<rparr>"
    have st2: "strtok (s2\<lparr>umem := ?m3\<rparr>) 0 (lit '' '') = Some (token', s3)"
      using r2(1) by (simp add: strtok_def s3_def s2_def s1_def)
    have d4: "text_at (umem s3) (lit '' '') [0x20]"
      by (rule text_at_cong [OF _ _ d3]) (use r2(3) L(2) in \<open>auto simp: s3_def numeral_2_eq_2\<close>)
    have m4B: "m4 a = ?m3 a" if "a \<in> ?B" for a using that b(2) r2(3) by blast
    have z4: "load32 (umem s3) (b + 512) = 0"
    proof -
      have "load32 m4 (b + 512) = load32 ?m3 (b + 512)"
        by (rule load32_region) (use m4B next_field(1) in blast)
      then show ?thesis using n(2) by (simp add: s3_def)
    qed
    obtain s' where s': "parse_command_loop lit s3 b token' = Some s'"
        "command_list (umem s') (load32 (umem s') (b + 512)) (map (take 511) ts')"
        "\<And>a. a \<in> ?S \<union> ?L \<union> ?B \<Longrightarrow> a \<notin> ?S \<Longrightarrow> a \<notin> region (b + 512) 4 \<Longrightarrow> umem s' a = umem s3 a"
        "strtok_sp s' = 0" "replies s' = rs" "calls s' = calls s3 @ replicate (length ts') (4, [sizeof_command_arg])"
      using parse_command_loop_ok [where lit = lit, OF S(1) L(2), of s3 token' ts' "?S \<union> ?L \<union> ?B" rep' rs b] r2(2) d4 b(2,4) rep(2) rp Cons z4
      by (auto simp: s3_def s2_def s1_def)
    have tb: "text_at (umem s') b (take 511 t)"
    proof (rule text_at_cong [OF _ _ n(1)])
      fix a assume a: "a \<in> region b (Suc (length (take 511 t)))"
      then have "a \<in> ?B" "a \<notin> region (b + 512) 4" using next_field(2) [of b t] by (auto simp: region_def)
      then show "umem s' a = ?m3 a" using s'(3) [of a] m4B b(2) by (auto simp: s3_def)
    qed simp
    have "benos_parse_command lit scommand s command maxlen = Some (b, s')"
      using c(1) S(2) st p(1) mal b(1) st2 s'(1) by (simp add: benos_parse_command_def Let_def)
    then show ?thesis using s'(2,4,5,6) tb b(1) Cons by (simp add: s3_def s2_def s1_def)
  qed
qed

text \<open>
  C20. Parsing a command. With memory for the arguments, \<open>benos_parse_command\<close> returns the list of
  the words of the command: the maximal parts without spaces of its first 1024 characters, in order, each
  cut at 511 characters. It asks the kernel for exactly one block for each word, and \<open>strtok\<close> is ready
  for the next command.
\<close>

theorem benos_parse_command_tokens:
  assumes "array_ok scommand" "text_at (umem s) command w" "length w < 4294967295"
    "region command (Suc (length w)) \<inter> region scommand 1025 = {}"
    "text_at (umem s) (lit '' '') [0x20]" "region scommand 1025 \<inter> region (lit '' '') 2 = {}"
    "maxlen < 1025" "strtok_sp s = 0" "ts = tokens {0x20} (take 1024 w)"
    "mallocs_ok (region scommand 1025 \<union> region (lit '' '') 2) rep" "length rep = length ts" "replies s = rep @ rs"
  shows "\<exists>root s'. benos_parse_command lit scommand s command maxlen = Some (root, s') \<and>
    command_list (umem s') root (map (take 511) ts) \<and> strtok_sp s' = 0 \<and> replies s' = rs \<and>
    calls s' = calls s @ replicate (length ts) (4, [sizeof_command_arg])"
  by (rule parse_command_run [where lit = lit, OF assms(1) refl assms(2-)])

lemma region_apart:
  assumes "unat p + n \<le> unat q" "unat q + k \<le> 4294967296"
  shows "region p n \<inter> region q k = {}"
proof -
  have False if a: "unat (a - p) < n" "unat (a - q) < k" for a
  proof -
    have "unat (q + (a - q)) = unat q + unat (a - q)"
      using a(2) assms(2) by (intro unat_add_u32) linarith
    moreover have "unat (p + (a - p)) = unat p + unat (a - p)"
      using a(1) assms by (intro unat_add_u32) linarith
    ultimately show False using a(1) assms(1) by simp
  qed
  then show ?thesis by (auto simp: region_def)
qed

theorem benos_parse_command_tokens_witness:
  "\<exists>(lit :: string \<Rightarrow> addr) s root s'. text_at (umem s) 0x200 [0x61, 0x62, 0x20, 0x63] \<and>
     benos_parse_command lit 0x1000 s 0x200 1024 = Some (root, s') \<and>
     command_list (umem s') root [[0x61, 0x62], [0x63]]"
proof -
  let ?lit = "\<lambda>_ :: string. 0x100 :: addr" and ?w = "[0x61, 0x62, 0x20, 0x63] :: byte list"
  let ?rep = "[(0x2000, []), (0x3000, [])] :: (addr \<times> (addr \<times> byte) list) list"
  let ?m = "store_bytes (store_bytes (\<lambda>a. 0) 0x100 [0x20]) 0x200 ?w :: mem"
  let ?s = "\<lparr>umem = ?m, strtok_sp = 0, calls = [], replies = ?rep\<rparr>"
  have t: "text_at ?m 0x200 ?w" "text_at ?m 0x100 [0x20]"
    by (simp_all add: text_at_Cons store_bytes_def)
  have ts: "[[0x61, 0x62], [0x63]] = tokens {0x20} (take 1024 ?w)" by (simp add: tokens.simps)
  have r: "region 0x200 5 \<inter> region 0x1000 1025 = {}" "region 0x100 2 \<inter> region 0x1000 1025 = {}"
      "region 0x1000 1025 \<inter> region 0x2000 516 = {}" "region 0x100 2 \<inter> region 0x2000 516 = {}"
      "region 0x1000 1025 \<inter> region 0x3000 516 = {}" "region 0x100 2 \<inter> region 0x3000 516 = {}"
      "region 0x2000 516 \<inter> region 0x3000 516 = {}"
    by (rule region_apart; simp)+
  have "mallocs_ok (region 0x1000 1025 \<union> region (?lit '' '') 2) ?rep" using r by auto
  moreover have "Suc (length ?w) = 5" by simp
  then have "region 0x200 (Suc (length ?w)) \<inter> region 0x1000 1025 = {}" using r(1) by (simp only:)
  moreover have "region 0x1000 1025 \<inter> region (?lit '' '') 2 = {}" using r(2) by blast
  ultimately have "\<exists>root s'. benos_parse_command ?lit 0x1000 ?s 0x200 1024 = Some (root, s') \<and>
      command_list (umem s') root (map (take 511) [[0x61, 0x62], [0x63]])"
    using benos_parse_command_tokens [of "0x1000" ?s "0x200" ?w ?lit 1024 _ ?rep "[]", OF _ _ _ _ _ _ _ _ ts] t
    by (simp add: array_ok_def) blast
  then show ?thesis using t(1) by (intro exI [of _ ?lit] exI [of _ ?s]) simp
qed

subsection \<open>Input lines\<close>

text \<open>
  The line that the keys give: a zero is no key yet, 13 ends the line, 8 takes back the last character,
  and the line ends when it has \<open>n\<close> characters. The keys that are left over come second.
\<close>

fun edit_line :: "nat \<Rightarrow> byte list \<Rightarrow> byte list \<Rightarrow> (byte list \<times> byte list) option" where
  "edit_line n line [] = (if n \<le> length line then Some (line, []) else None)"
| "edit_line n line (k # ks) =
     (if n \<le> length line then Some (line, k # ks)
      else if k = 0 then edit_line n line ks
      else if k = 13 then Some (line, ks)
      else if k = 8 \<and> line \<noteq> [] then edit_line n (butlast line) ks
      else edit_line n (line @ [k]) ks)"

text \<open>The answers of the kernel while the keys are typed: each key, and one to the echo of a character.\<close>

fun typing :: "byte list \<Rightarrow> (u32 \<times> (addr \<times> byte) list) list" where
  "typing [] = []"
| "typing (k # ks) = (scast k, []) # (if k = 0 \<or> k = 13 then [] else [(0, [])]) @ typing ks"

lemma ucast_scast_key: "ucast (scast (k :: byte) :: u32) = k"
  by (rule bit_word_eqI) (auto simp: bit_simps)

lemma scast_key_0 [simp]: "(scast (k :: byte) :: u32) = 0 \<longleftrightarrow> k = 0"
  by (metis ucast_scast_key scast_0 ucast_0)

lemma getkeyblock_typing:
  "replies s = (scast (k :: byte), []) # r \<Longrightarrow> benos_getkeyblock s =
    (let s1 = s\<lparr>calls := calls s @ [(2, [])], replies := r\<rparr>
     in if k = 0 then benos_getkeyblock s1 else Some (scast k, s1))"
  by (subst benos_getkeyblock.simps) (simp add: benos_getkey_def int80_def Let_def)

lemma readline_loop_line:
  "edit_line n line ks = Some (line', ks') \<Longrightarrow> replies s = typing ks @ rs \<Longrightarrow>
   ram_bytes (umem s) out (length line) = line \<Longrightarrow> 0 \<notin> set line \<Longrightarrow> length line \<le> n \<Longrightarrow> n < 4294967295 \<Longrightarrow>
   \<exists>s'. readline_loop s out (int n + 1) True (int (length line)) = Some (int (length line'), s') \<and>
     replies s' = typing ks' @ rs \<and> ram_bytes (umem s') out (length line') = line' \<and> 0 \<notin> set line' \<and> length line' \<le> n \<and>
     (\<forall>a. a \<notin> region out n \<longrightarrow> umem s' a = umem s a) \<and> strtok_sp s' = strtok_sp s"
proof (induction n line ks arbitrary: s rule: edit_line.induct)
  case (1 n line)
  then show ?case by (subst readline_loop.simps) (auto split: if_splits)
next
  case (2 n line k ks)
  show ?case
  proof (cases "n \<le> length line")
    case True
    then show ?thesis using "2.prems" by (subst readline_loop.simps) (auto split: if_splits)
  next
    case False
    let ?i = "length line" and ?r = "(if k = 0 \<or> k = 13 then [] else [(0, [])]) @ typing ks @ rs"
    let ?s1 = "s\<lparr>calls := calls s @ [(2, [])], replies := ?r\<rparr>"
    have rp: "replies s = (scast k, []) # ?r" using "2.prems"(2) by simp
    note g = getkeyblock_typing [OF rp]
    consider (none) "k = 0" | (cr) "k = 13" | (bs) "k = 8" "line \<noteq> []" | (key) "k \<noteq> 0" "k \<noteq> 13" "\<not> (k = 8 \<and> line \<noteq> [])"
      by fastforce
    then show ?thesis
    proof cases
      case none
      have "readline_loop s out (int n + 1) True (int ?i) = readline_loop ?s1 out (int n + 1) True (int ?i)"
        using none g False by (subst (1 2) readline_loop.simps) (simp add: Let_def)
      then show ?thesis using "2.IH"(1) [OF False none, of ?s1] "2.prems" False none by simp
    next
      case cr
      then show ?thesis using "2.prems" False g by (subst readline_loop.simps) (simp add: Let_def ucast_scast_key)
    next
      case bs
      obtain v x where v: "line = v @ [x]" using bs(2) by (cases line rule: rev_cases) auto
      let ?m = "(umem s)(out + of_nat (length v) := 0)"
      let ?s2 = "s\<lparr>calls := calls s @ [(2, []), (3, [8])], replies := typing ks @ rs, umem := ?m\<rparr>"
      have l: "length v < n" using False v by simp
      have step: "readline_loop s out (int n + 1) True (int ?i) = readline_loop ?s2 out (int n + 1) True (int (length v))"
        using bs(1) v False g by (subst readline_loop.simps) (simp add: Let_def ucast_scast_key benos_putchar_def int80_def)
      have b: "ram_bytes ?m out (length v) = v"
      proof -
        have "ram_bytes ?m out (length v) = ram_bytes (umem s) out (length v)"
          by (rule ram_bytes_cong) (use l "2.prems"(6) in \<open>auto simp: region_def unat_of_nat_u32\<close>)
        moreover have "ram_bytes (umem s) out ?i = ram_bytes (umem s) out (length v) @ [umem s (out + of_nat (length v))]"
          unfolding v by (simp add: ram_bytes_def)
        ultimately show ?thesis using "2.prems"(3) v by simp
      qed
      have "out + of_nat (length v) \<in> region out n" using l "2.prems"(6) by (simp add: region_def unat_of_nat_u32)
      then have m: "a \<notin> region out n \<Longrightarrow> ?m a = umem s a" for a by auto
      have nz: "0 \<notin> set v" using "2.prems"(4) v by simp
      have "edit_line n v ks = Some (line', ks')" using "2.prems"(1) False bs(1) v by simp
      then show ?thesis
        using "2.IH"(2) [of ?s2] bs False b nz l m "2.prems"(6) v unfolding step by (simp del: fun_upd_apply)
    next
      case key
      let ?m = "(umem s)(out + of_nat ?i := k)"
      let ?s2 = "s\<lparr>calls := calls s @ [(2, []), (3, [scast k])], replies := typing ks @ rs, umem := ?m\<rparr>"
      have c: "k = 8 \<longrightarrow> line = []" using key(3) by blast
      have step: "readline_loop s out (int n + 1) True (int ?i) = readline_loop ?s2 out (int n + 1) True (int ?i + 1)"
        using key(1,2) c False g by (subst readline_loop.simps) (auto simp: Let_def ucast_scast_key benos_putchar_def int80_def)
      have b: "ram_bytes ?m out (length (line @ [k])) = line @ [k]"
      proof -
        have "ram_bytes ?m out ?i = ram_bytes (umem s) out ?i"
          by (rule ram_bytes_cong) (use False "2.prems"(6) in \<open>auto simp: region_def unat_of_nat_u32\<close>)
        moreover have "ram_bytes ?m out (length (line @ [k])) = ram_bytes ?m out ?i @ [k]" by (simp add: ram_bytes_def)
        ultimately show ?thesis using "2.prems"(3) by simp
      qed
      have "out + of_nat ?i \<in> region out n" using False "2.prems"(6) by (simp add: region_def unat_of_nat_u32)
      then have m: "a \<notin> region out n \<Longrightarrow> ?m a = umem s a" for a by auto
      have "edit_line n (line @ [k]) ks = Some (line', ks')" using "2.prems"(1) False key by auto
      moreover have "int ?i + 1 = int (length (line @ [k]))" by simp
      ultimately show ?thesis
        using "2.IH"(3) [OF False key, of ?s2] b m False "2.prems"(4,6) key(1) unfolding step by (simp add: add.commute del: fun_upd_apply)
    qed
  qed
qed

text \<open>
  C22. Reading a line with echo. Whatever keys are typed, \<open>benos_terminal_readline\<close> leaves the line that they
  give after the corrections (a backspace typed on an empty line stays as a character), terminated, in its array; it takes the keys up to the carriage return, or as
  many as fill the array, waits while there are none, and writes nothing outside of the array.
\<close>

theorem readline_edits:
  assumes "edit_line n [] ks = Some (line, ks')" "replies s = typing ks @ rs" "n < 4294967295"
  shows "\<exists>s'. benos_terminal_readline s out (int n + 1) True = Some s' \<and> text_at (umem s') out line \<and>
    length line \<le> n \<and> replies s' = typing ks' @ rs \<and>
    (\<forall>a. a \<notin> region out (Suc n) \<longrightarrow> umem s' a = umem s a)"
proof -
  obtain s1 where s1: "readline_loop s out (int n + 1) True 0 = Some (int (length line), s1)"
      "replies s1 = typing ks' @ rs" "ram_bytes (umem s1) out (length line) = line" "0 \<notin> set line" "length line \<le> n"
      "\<forall>a. a \<notin> region out n \<longrightarrow> umem s1 a = umem s a"
    using readline_loop_line [OF assms(1,2) _ _ _ assms(3), of out] by auto
  let ?m = "(umem s1)(out + of_nat (length line) := 0)"
  have "ram_bytes ?m out (length line) = ram_bytes (umem s1) out (length line)"
    by (rule ram_bytes_cong) (use s1(5) assms(3) in \<open>auto simp: region_def unat_of_nat_u32\<close>)
  then have "text_at ?m out line" using s1(3,4) by (simp add: text_at_def)
  moreover have "?m a = umem s a" if "a \<notin> region out (Suc n)" for a
  proof -
    have "a \<noteq> out + of_nat (length line)" "a \<notin> region out n"
      using that s1(5) assms(3) by (auto simp: region_def unat_of_nat_u32)
    then show ?thesis using s1(6) by simp
  qed
  ultimately show ?thesis using s1(1,2,5) by (simp add: benos_terminal_readline_def)
qed

theorem readline_edits_witness:
  "\<exists>s'. benos_terminal_readline
      \<lparr>umem = \<lambda>a. 1, strtok_sp = 0, calls = [], replies = typing [0, 0x68, 0x6A, 8, 0x69, 13]\<rparr> 0x1000 1024 True = Some s' \<and>
     text_at (umem s') 0x1000 [0x68, 0x69] \<and> umem s' 0x1400 = 1"
proof -
  have "edit_line 1023 [] [0, 0x68, 0x6A, 8, 0x69, 13] = Some ([0x68, 0x69], [])" by simp
  from readline_edits [OF this, of "\<lparr>umem = \<lambda>a. 1, strtok_sp = 0, calls = [],
      replies = typing [0, 0x68, 0x6A, 8, 0x69, 13]\<rparr>" "[]" "0x1000"]
  show ?thesis by (auto simp: region_def)
qed

subsection \<open>The shell\<close>

lemma usr_print_reply: "replies s = (r, []) # rs \<Longrightarrow>
    usr_print s p = Some (s\<lparr>calls := calls s @ [(1, [p])], replies := rs\<rparr>)"
  by (simp add: usr_print_def int80_def)

lemma region_mono: "n \<le> k \<Longrightarrow> region p n \<subseteq> region p k"
  by (auto simp: region_def)

text \<open>A line that fits is read as a text, and nothing outside the array is written.\<close>

lemma readline_text:
  assumes "edit_line 1023 [] ks = Some (line, [])" "replies s = typing ks @ rest"
  obtains s' where "benos_terminal_readline s out 1024 True = Some s'" "replies s' = rest" "strtok_sp s' = strtok_sp s"
    "text_at (umem s') out line" "length line \<le> 1023" "\<And>a. a \<notin> region out 1024 \<Longrightarrow> umem s' a = umem s a"
proof -
  have "\<exists>s2. readline_loop s out (int 1023 + 1) True (int (length ([] :: byte list))) = Some (int (length line), s2) \<and>
     replies s2 = typing [] @ rest \<and> ram_bytes (umem s2) out (length line) = line \<and>
     0 \<notin> set line \<and> length line \<le> 1023 \<and> (\<forall>a. a \<notin> region out 1023 \<longrightarrow> umem s2 a = umem s a) \<and> strtok_sp s2 = strtok_sp s"
    by (rule readline_loop_line [OF assms(1)]) (use assms(2) in simp_all)
  then obtain s2 where s2: "readline_loop s out 1024 True 0 = Some (int (length line), s2)"
      "replies s2 = rest" "ram_bytes (umem s2) out (length line) = line" "0 \<notin> set line"
      "length line \<le> 1023" "\<And>a. a \<notin> region out 1023 \<Longrightarrow> umem s2 a = umem s a" "strtok_sp s2 = strtok_sp s"
    by auto
  let ?m = "(umem s2)(out + of_nat (length line) := 0)"
  have "ram_bytes ?m out (length line) = ram_bytes (umem s2) out (length line)"
    by (rule ram_bytes_cong) (use s2(5) in \<open>auto simp: region_def unat_of_nat_u32\<close>)
  then have t: "text_at ?m out line" using s2(3,4) by (simp add: text_at_def)
  have e: "out + of_nat (length line) \<in> region out 1024" using s2(5) by (simp add: region_def unat_of_nat_u32)
  have same: "?m a = umem s a" if "a \<notin> region out 1024" for a
  proof -
    have "a \<noteq> out + of_nat (length line)" "a \<notin> region out 1023" using that e region_mono [of 1023 1024 out] by auto
    then show ?thesis using s2(6) by simp
  qed
  show ?thesis
    by (rule that [of "s2\<lparr>umem := ?m\<rparr>"]) (use s2 t same in \<open>simp_all add: benos_terminal_readline_def\<close>)
qed

text \<open>\<open>benos_system_run\<close> hands the words of a text to the kernel.\<close>

lemma system_run_words:
  assumes arrays: "array_ok scommand"
      "region out 1024 \<inter> region buf 1024 = {}" "region buf 1024 \<inter> region scommand 1025 = {}"
      "region (lit '' '') 2 \<inter> (region out 1024 \<union> region buf 1024 \<union> region scommand 1025) = {}"
      "text_at (umem s) (lit '' '') [0x20]" "strtok_sp s = 0"
    and line: "text_at (umem s) out line" "length line \<le> 1023" "tokens {0x20} line = ts" "ts \<noteq> []"
    and kernel: "mallocs_ok (region scommand 1025 \<union> region (lit '' '') 2) rep" "length rep = length ts"
      "replies s = rep @ (r, []) # rest"
  obtains s' root pre where "benos_system_run lit buf scommand s out = Some (sint r, s')" "root \<noteq> 0"
    "command_list (umem s') root (map (take 511) ts)" "strtok_sp s' = 0" "replies s' = rest" "calls s' = pre @ [(7, [root])]"
proof -
  let ?m = "usr_strncpy (umem s) buf out 1024" and ?L = "region (lit '' '') 2"
  have ro: "region out (Suc (length line)) \<subseteq> region out 1024" by (rule region_mono) (use line(2) in simp)
  have c: "?m = store_bytes (umem s) buf (line @ [0])"
    using usr_strncpy_text [OF line(1), of 1024 buf] line(2) ro arrays(2) by auto
  have t: "text_at ?m buf line" unfolding c by (rule text_at_store) (use line(1,2) in \<open>auto simp: text_at_def\<close>)
  have d: "text_at ?m (lit '' '') [0x20]"
  proof (rule text_at_cong [OF _ _ arrays(5)])
    fix a assume "a \<in> region (lit '' '') (Suc (length [0x20 :: byte]))"
    then have "a \<in> ?L" by (simp add: numeral_2_eq_2)
    then have "a \<notin> region buf 1024" using arrays(4) by blast
    then have "\<not> unat (a - buf) < length (line @ [0])" using line(2) by (simp add: region_def)
    then show "?m a = umem s a" by (simp add: c store_bytes_def)
  qed simp
  have rb: "region buf (Suc (length line)) \<inter> region scommand 1025 = {}"
    using region_mono [of "Suc (length line)" 1024 buf] line(2) arrays(3) by auto
  have "\<exists>root s'. benos_parse_command lit scommand (s\<lparr>umem := ?m\<rparr>) buf 1024 = Some (root, s') \<and>
      command_list (umem s') root (map (take 511) ts) \<and> strtok_sp s' = 0 \<and> replies s' = (r, []) # rest \<and>
      calls s' = calls (s\<lparr>umem := ?m\<rparr>) @ replicate (length ts) (4, [sizeof_command_arg])"
    by (rule parse_command_run [where lit = lit and w = line and rep = rep, OF arrays(1) refl])
      (use t d rb arrays(4,6) line(2,3) kernel in auto)
  then obtain root s' where s': "benos_parse_command lit scommand (s\<lparr>umem := ?m\<rparr>) buf 1024 = Some (root, s')"
      "command_list (umem s') root (map (take 511) ts)" "strtok_sp s' = 0" "replies s' = (r, []) # rest" by blast
  have root: "root \<noteq> 0" using s'(2) line(4) by (cases ts) auto
  show ?thesis
    by (rule that [of "s'\<lparr>calls := calls s' @ [(7, [root])], replies := rest\<rparr>" root "calls s'"])
      (use s' root in \<open>simp_all add: benos_system_run_def benos_system_def int80_def\<close>)
qed

text \<open>
  C21. A round of the shell. When the keys give a line with at least one word, the shell passes the kernel,
  in system call 7, the list of the words of this line (each cut to 511 characters), and prints its line breaks; it is then ready for
  the next round (the static pointer of \<open>strtok\<close> is null again).
\<close>

theorem shell_round_runs:
  assumes keys: "edit_line 1023 [] ks = Some (line, [])" "tokens {0x20} line = ts" "ts \<noteq> []"
    and arrays: "array_ok scommand"
      "region out 1024 \<inter> region buf 1024 = {}" "region buf 1024 \<inter> region scommand 1025 = {}"
      "region (lit '' '') 2 \<inter> (region out 1024 \<union> region buf 1024 \<union> region scommand 1025) = {}"
      "text_at (umem s) (lit '' '') [0x20]" "strtok_sp s = 0"
    and kernel: "mallocs_ok (region scommand 1025 \<union> region (lit '' '') 2) rep" "length rep = length ts"
      "replies s = (r1, []) # typing ks @ (r2, []) # rep @ [(r3, []), (r4, [])]"
  shows "\<exists>s' root pre. shell_round lit out buf scommand s = Some s' \<and>
    calls s' = pre @ [(7, [root]), (1, [lit [CHR 0x0A]])] \<and> root \<noteq> 0 \<and>
    command_list (umem s') root (map (take 511) ts) \<and> strtok_sp s' = 0 \<and> replies s' = []"
proof -
  let ?s1 = "s\<lparr>calls := calls s @ [(1, [lit ''benos> ''])], replies := typing ks @ (r2, []) # rep @ [(r3, []), (r4, [])]\<rparr>"
  have p1: "usr_print s (lit ''benos> '') = Some ?s1" by (rule usr_print_reply [OF kernel(3)])
  obtain s2 where s2: "benos_terminal_readline ?s1 out 1024 True = Some s2"
      "replies s2 = (r2, []) # rep @ [(r3, []), (r4, [])]" "strtok_sp s2 = 0" "text_at (umem s2) out line" "length line \<le> 1023"
      "\<And>a. a \<notin> region out 1024 \<Longrightarrow> umem s2 a = umem s a"
    by (rule readline_text [OF keys(1), of ?s1]) (use arrays(6) that in auto)
  let ?s3 = "s2\<lparr>calls := calls s2 @ [(1, [lit [CHR 0x0A]])], replies := rep @ [(r3, []), (r4, [])]\<rparr>"
  have p3: "usr_print s2 (lit [CHR 0x0A]) = Some ?s3" by (rule usr_print_reply [OF s2(2)])
  have "text_at (umem s2) (lit '' '') [0x20]"
    by (rule text_at_cong [OF _ _ arrays(5)]) (use s2(6) arrays(4) in \<open>auto simp: numeral_2_eq_2\<close>)
  then have ready: "text_at (umem ?s3) (lit '' '') [0x20]" "strtok_sp ?s3 = 0" "text_at (umem ?s3) out line"
    using s2(3,4) by simp_all
  have replies: "replies ?s3 = rep @ (r3, []) # [(r4, [])]" by simp
  obtain s4 root pre where s4: "benos_system_run lit buf scommand ?s3 out = Some (sint r3, s4)" "root \<noteq> 0"
      "command_list (umem s4) root (map (take 511) ts)" "strtok_sp s4 = 0" "replies s4 = [(r4, [])]" "calls s4 = pre @ [(7, [root])]"
    by (rule system_run_words [where lit = lit, OF arrays(1-4) ready s2(5) keys(2,3) kernel(1,2) replies]) (rule that)
  have "usr_print s4 (lit [CHR 0x0A]) = Some (s4\<lparr>calls := calls s4 @ [(1, [lit [CHR 0x0A]])], replies := []\<rparr>)"
    by (rule usr_print_reply [OF s4(5)])
  then show ?thesis using p1 s2(1) p3 s4 by (simp add: shell_round_def)
qed

theorem shell_round_runs_witness:
  "\<exists>(lit :: string \<Rightarrow> addr) s s' root pre. replies s = (0, []) # typing [0x68, 0x69, 13] @ (0, []) # [(0x4000, [])] @ [(0, []), (0, [])] \<and>
     shell_round lit 0x1000 0x2000 0x3000 s = Some s' \<and> calls s' = pre @ [(7, [root]), (1, [lit [CHR 0x0A]])] \<and>
     command_list (umem s') root [[0x68, 0x69]]"
proof -
  let ?lit = "\<lambda>_ :: string. 0x100 :: addr" and ?rep = "[(0x4000, [])] :: (addr \<times> (addr \<times> byte) list) list"
  let ?m = "store_bytes (\<lambda>a. 0) 0x100 [0x20] :: mem"
  let ?s = "\<lparr>umem = ?m, strtok_sp = 0, calls = [], replies = (0, []) # typing [0x68, 0x69, 13] @ (0, []) # ?rep @ [(0, []), (0, [])]\<rparr>"
  have k: "edit_line 1023 [] [0x68, 0x69, 13] = Some ([0x68, 0x69], [])" by simp
  have ts: "tokens {0x20} [0x68, 0x69] = [[0x68, 0x69 :: byte]]" by (simp add: tokens.simps)
  have t: "text_at ?m 0x100 [0x20]" by (simp add: text_at_Cons store_bytes_def)
  have r: "region 0x1000 1024 \<inter> region 0x2000 1024 = {}" "region 0x2000 1024 \<inter> region 0x3000 1025 = {}"
      "region 0x100 2 \<inter> region 0x1000 1024 = {}" "region 0x100 2 \<inter> region 0x2000 1024 = {}"
      "region 0x100 2 \<inter> region 0x3000 1025 = {}" "region 0x3000 1025 \<inter> region 0x4000 516 = {}"
      "region 0x100 2 \<inter> region 0x4000 516 = {}"
    by (rule region_apart; simp)+
  have m: "mallocs_ok (region 0x3000 1025 \<union> region (?lit '' '') 2) ?rep" using r by auto
  have d: "region (?lit '' '') 2 \<inter> (region 0x1000 1024 \<union> region 0x2000 1024 \<union> region 0x3000 1025) = {}" using r by auto
  have a: "array_ok 0x3000" by (simp add: array_ok_def)
  have "\<exists>s' root pre. shell_round ?lit 0x1000 0x2000 0x3000 ?s = Some s' \<and>
      calls s' = pre @ [(7, [root]), (1, [?lit [CHR 0x0A]])] \<and> root \<noteq> 0 \<and>
      command_list (umem s') root (map (take 511) [[0x68, 0x69]]) \<and> strtok_sp s' = 0 \<and> replies s' = []"
    by (rule shell_round_runs [OF k ts _ a r(1,2) d _ _ m]) (use t in simp_all)
  then obtain s' root pre where s': "shell_round ?lit 0x1000 0x2000 0x3000 ?s = Some s'"
      "calls s' = pre @ [(7, [root]), (1, [?lit [CHR 0x0A]])]" "command_list (umem s') root (map (take 511) [[0x68, 0x69]])"
    by blast
  show ?thesis
    by (rule exI [of _ ?lit], rule exI [of _ ?s], rule exI [of _ s'], rule exI [of _ root], rule exI [of _ pre])
      (use s' in simp_all)
qed

end
