(* ===== verification/ProcessArgs.thy ===== *)
theory ProcessArgs
  imports ProcessEnd UserShellOk
begin

text \<open>
  Passing arguments to a program (\<open>process_inject_args\<close> of \<^verbatim>\<open>src/task/process.c\<close>): the list of
  arguments that \<open>benos_parse_command\<close> or \<open>kernel_main\<close> builds is copied into memory of the new process.
  Which bytes an allocation leaves alone is stated with the addresses of the heap, since the list may lie in the
  heap or on the stack of the kernel.
\<close>

subsection \<open>Bytes that an operation leaves alone\<close>

text \<open>The addresses that the heap manages.\<close>

definition in_heap :: "'z kmem_scheme \<Rightarrow> addr \<Rightarrow> bool" where
  "in_heap s a \<longleftrightarrow> (case pool s of (base, n) \<Rightarrow> unat base \<le> unat a \<and> unat a < unat base + unat n * 4096)"

text \<open>A byte outside of the heap, or in a live block that is not in \<open>X\<close>.\<close>

definition stays :: "'z kmem_scheme \<Rightarrow> addr set \<Rightarrow> addr \<Rightarrow> bool" where
  "stays s X a \<longleftrightarrow> \<not> in_heap s a \<or> (\<exists>q n. k_live s q = Some n \<and> q \<notin> X \<and> unat (a - q) < n * 4096)"

definition preserves :: "addr set \<Rightarrow> 'z kmem_scheme \<Rightarrow> 'z kmem_scheme \<Rightarrow> bool" where
  "preserves X s s' \<longleftrightarrow> (\<forall>a. stays s X a \<longrightarrow> ram s' a = ram s a)"

lemma preservesD: "preserves X s s' \<Longrightarrow> stays s X a \<Longrightarrow> ram s' a = ram s a"
  by (simp add: preserves_def)

lemma live_in_heap:
  assumes "k_inv s" "k_live s p = Some n" "unat (a - p) < n * 4096"
  shows "in_heap s a"
proof -
  let ?h = "kernel_heap s"
  obtain ss where h: "heap_shape ?h ss" using assms(1) by (auto simp: k_inv_def heap_inv_def)
  obtain j where j: "j < length (render ss)" "p = heap_block_to_address ?h (int j)" "seg_map 0 ss j = Some n"
    using live_SomeD [OF h] assms(2) unfolding k_live_def by blast
  have b: "j + n \<le> length (render ss)" using seg_map_bounds [OF _ j(3)] h by (auto simp: heap_shape_def)
  have u: "unat p = unat (saddr ?h) + j * 4096" using block_offset(2) [OF h j(1)] j(2) by simp
  have "unat p + n * 4096 \<le> 4294967296" using kz.live_aligned [OF assms(1,2)] by simp
  from unat_in_region [OF this assms(3)] have "unat a = unat p + unat (a - p)" .
  moreover have "length (render ss) = unat (total (table ?h))" using h by (auto simp: heap_shape_def)
  ultimately show ?thesis using u b assms(3) by (simp add: in_heap_def pool_def)
qed

lemma stays_mono: "stays s X a \<Longrightarrow> k_live s \<subseteq>\<^sub>m k_live s' \<Longrightarrow> pool s' = pool s \<Longrightarrow> Y \<subseteq> X \<Longrightarrow> stays s' Y a"
  by (fastforce simp: stays_def in_heap_def map_le_def dom_def)

lemma stays_live: "k_live s q = Some n \<Longrightarrow> q \<notin> X \<Longrightarrow> unat (a - q) < n * 4096 \<Longrightarrow> stays s X a"
  by (auto simp: stays_def)

lemma stays_new:
  assumes "stays s X a" "k_live s p = None" "k_live s \<subseteq>\<^sub>m k_live s'" "pool s' = pool s"
  shows "stays s' (insert p X) a"
  using assms by (fastforce simp: stays_def in_heap_def map_le_def dom_def)

lemma preserves_mono: "preserves X s s' \<Longrightarrow> X \<subseteq> Y \<Longrightarrow> preserves Y s s'"
  using stays_mono [of s Y _ s X] by (auto simp: preserves_def)

lemma preserves_keeps_but: "preserves X s s' \<Longrightarrow> keeps_but X s s'"
  unfolding keeps_but_def preserves_def by (metis stays_live)

lemma preserves_trans:
  assumes "preserves X s s1" "preserves X s1 s2" "k_live s \<subseteq>\<^sub>m k_live s1" "pool s1 = pool s"
  shows "preserves X s s2"
  unfolding preserves_def using stays_mono [OF _ assms(3,4) order_refl] preservesD [OF assms(1)] preservesD [OF assms(2)]
  by metis

text \<open>Writing into a live block of \<open>X\<close>, or into a new block.\<close>

lemma preserves_write:
  assumes "k_inv s'" "k_live s' p = Some n" "k_live s p = None \<or> p \<in> X" "k_live s \<subseteq>\<^sub>m k_live s'" "pool s' = pool s"
    "\<And>a. \<not> unat (a - p) < n * 4096 \<Longrightarrow> ram s' a = ram s a"
  shows "preserves X s s'"
  unfolding preserves_def
proof (intro allI impI)
  fix a assume "stays s X a"
  then have "\<not> unat (a - p) < n * 4096"
    unfolding stays_def
  proof (elim disjE exE conjE)
    assume "\<not> in_heap s a"
    then show ?thesis using live_in_heap [OF assms(1,2)] assms(5) by (auto simp: in_heap_def)
  next
    fix q k assume q: "k_live s q = Some k" "q \<notin> X" "unat (a - q) < k * 4096"
    then have "q \<noteq> p" "k_live s' q = Some k" using assms(3,4) by (auto simp: map_le_def dom_def)
    then show ?thesis using live_regions_apart [OF assms(1) _ assms(2), of q k a] q(3) by blast
  qed
  then show "ram s' a = ram s a" by (rule assms(6))
qed

lemma kzalloc_preserves:
  assumes "k_inv s" "ok_size sz" "kzalloc s sz = Some (p, s')" "p \<noteq> 0"
  shows "preserves X s s'"
proof -
  have ac: "acquired s [(p, blocks_of sz)] s'" by (rule acquired_alloc [OF assms])
  show ?thesis
  proof (rule preserves_write)
    show "k_inv s'" "k_live s' p = Some (blocks_of sz)" "k_live s p = None \<or> p \<in> X"
      using acquiredD(1,5,6) [OF ac] by simp_all
    show "k_live s \<subseteq>\<^sub>m k_live s'" "pool s' = pool s" by (rule acquired_keeps_le [OF ac], rule acquiredD(2) [OF ac])
    show "ram s' a = ram s a" if "\<not> unat (a - p) < blocks_of sz * 4096" for a
      using kzalloc_ram [OF assms(3,4), of a] that blocks_of_covers [of sz] by (auto split: if_splits)
  qed
qed

lemma set_page_preserves:
  assumes "k_inv s" "space_ok s chunk" "page_aligned v"
  shows "preserves (set (space_pages s chunk)) s (set_page (chunk_dir s chunk) s v x)"
proof -
  let ?d = "chunk_dir s chunk" and ?s' = "set_page (chunk_dir s chunk) s v x"
  let ?t = "table_of (ram s) ?d (pd_index v)"
  have e: "?s' = s\<lparr>ram := store32 (ram s) (pte_addr (ram s) ?d v) x\<rparr>"
    by (simp add: set_page_def paging_set_aligned [OF assms(3)])
  obtain n where n: "k_live s ?t = Some n" using space_okD(4) [OF assms(2), of "pd_index v"] by auto
  have "0 < n" using kz.live_aligned [OF assms(1) n] by simp
  have in_t: "unat (pte_addr (ram s) ?d v + of_nat i - ?t) < n * 4096" if "i < 4" for i
    using unat_word_offset [of "pt_index v" i ?t] that \<open>0 < n\<close> by (simp add: pte_addr_def)
  show ?thesis
  proof (rule preserves_write)
    show "k_inv ?s'" "k_live ?s' ?t = Some n" "k_live s ?t = None \<or> ?t \<in> set (space_pages s chunk)"
      "k_live s \<subseteq>\<^sub>m k_live ?s'" "pool ?s' = pool s"
      using assms(1) n unfolding e by (simp_all add: space_pages_def pool_def)
    show "ram ?s' a = ram s a" if a: "\<not> unat (a - ?t) < n * 4096" for a
      using in_t [of 0] in_t [of 1] in_t [of 2] in_t [of 3] a unfolding e by (auto simp: store32_def)
  qed
qed

lemma set_pages_preserves:
  assumes "k_inv s" "space_ok s chunk" "page_aligned v" "d = chunk_dir s chunk"
  shows "preserves (set (space_pages s chunk)) s (set_pages (set_page d) n s v p f)"
  using assms
proof (induction n arbitrary: s v p)
  case (Suc n)
  let ?t = "set_page d s v (p OR f)"
  note t = set_page_space [OF Suc.prems(1-3), of ?t "p OR f", folded Suc.prems(4), OF refl]
  have k: "k_inv ?t" "k_live ?t = k_live s" "pool ?t = pool s"
    by (subst t(1), simp add: Suc.prems(1) pool_def)+
  have d: "d = chunk_dir ?t chunk" using t(3) Suc.prems(4) by (simp add: space_pages_def)
  have v: "page_aligned (v + 4096)" using Suc.prems(3) by simp
  have "preserves (set (space_pages s chunk)) ?t (set_pages (set_page d) n ?t (v + 4096) (p + 4096) f)"
    using Suc.IH [OF k(1) t(2) v d, of "p + 4096"] t(3) by simp
  moreover have "preserves (set (space_pages s chunk)) s ?t"
    using set_page_preserves [OF Suc.prems(1-3)] Suc.prems(4) by simp
  ultimately show ?case using preserves_trans [of "set (space_pages s chunk)" s ?t] k(2,3) by simp
qed (simp add: preserves_def)

lemma paging_map_to_preserves:
  assumes "k_inv s" "space_ok s chunk" "page_aligned v" "page_aligned p" "page_aligned e" "p < e"
    "paging_map_to s chunk v p e f = (r, s')"
  shows "preserves (set (space_pages s chunk)) s s'"
  using paging_map_to_eq [OF space_okD(1) [OF assms(2)] assms(3-6)] assms(7)
    set_pages_preserves [OF assms(1-3) refl] by auto

text \<open>\<open>process_malloc\<close> writes its new block and the entries of the address space.\<close>

lemma process_malloc_preserves:
  assumes "runs_in s proc p chunk" "k_inv s" "ok_size sz" "process_malloc s proc sz = Some (ptr, s')" "ptr \<noteq> 0"
  shows "preserves (set (space_pages s chunk)) s s'"
proof -
  obtain t where pr: "processes s proc = Some p" "space_ok s chunk" "tasks s (proc_task p) = Some t" "page_directory t = chunk"
    using assms(1) by (auto simp: runs_in_def)
  obtain s1 where z: "kzalloc s sz = Some (ptr, s1)"
    using assms(4,5) by (auto simp: process_malloc_def Let_def split: bind_splits if_splits prod.splits)
  have f1: "s1 = s\<lparr>kernel_heap := kernel_heap s1, ram := ram s1\<rparr>" by (rule kzalloc_frame [OF z])
  have pr1: "processes s1 = processes s" "tasks s1 = tasks s" by (subst f1, simp)+
  have ac: "acquired s [(ptr, blocks_of sz)] s1" by (rule acquired_alloc [OF assms(2,3) z assms(5)])
  have k1: "k_inv s1" "k_live s1 ptr = Some (blocks_of sz)" using acquiredD(1,6) [OF ac] by simp_all
  have p1: "preserves X s s1" for X by (rule kzalloc_preserves [OF assms(2,3) z assms(5)])
  have le: "k_live s \<subseteq>\<^sub>m k_live s1" "pool s1 = pool s" by (rule acquired_keeps_le [OF ac], rule acquiredD(2) [OF ac])
  note sp1 = space_keeps_but [OF assms(2) pr(2) preserves_keeps_but [OF p1 [of "{}"]] _ le(1)]
  have al: "unat ptr mod 4096 = 0" "unat ptr + blocks_of sz * 4096 < 4294967296"
    using kz.live_aligned [OF k1] by simp_all
  have pos: "0 < sz" using assms(3) by (simp add: ok_size_def word_neq_0_conv)
  note e = aligned_sum [OF al pos]
  have pa: "page_aligned ptr" using al(1) by (simp add: page_aligned_def)
  obtain r s2 where mp: "paging_map_to s1 chunk ptr ptr (paging_align_address (ptr + sz)) 7 = (r, s2)" by force
  have p2: "preserves (set (space_pages s chunk)) s1 s2"
    using paging_map_to_preserves [OF k1(1) sp1(1) pa pa e(1,2) mp] sp1(2) by simp
  have "ram s' = ram s2"
    using assms(4,5) z pr pr1 mp by (auto simp: process_malloc_def flags_7 Let_def split: bind_splits if_splits)
  then show ?thesis using preserves_trans [OF p1 p2 le] by (simp add: preserves_def)
qed

subsection \<open>Free slots for allocations\<close>

definition free_slots :: "process \<Rightarrow> nat" where
  "free_slots p = length (filter (\<lambda>a. alloc_ptr a = 0) (allocations p))"

lemma free_alloc_loop_found:
  "\<exists>a \<in> set xs. alloc_ptr a = 0 \<Longrightarrow> \<exists>k < length xs. free_alloc_loop xs i = i + int k \<and> alloc_ptr (xs ! k) = 0"
proof (induction xs i rule: free_alloc_loop.induct)
  case (2 a xs i)
  show ?case
  proof (cases "alloc_ptr a = 0")
    case False
    then obtain k where "k < length xs" "free_alloc_loop xs (i + 1) = i + 1 + int k" "alloc_ptr (xs ! k) = 0"
      using "2.IH" "2.prems" by auto
    then show ?thesis using False by (intro exI [of _ "Suc k"]) simp
  qed (auto intro!: exI [of _ 0])
qed simp

lemma free_slot_found:
  assumes "0 < free_slots p"
  obtains i where "process_find_free_alloc_index p = int i" "i < length (allocations p)" "alloc_ptr (allocations p ! i) = 0"
proof -
  have "\<exists>a \<in> set (allocations p). alloc_ptr a = 0"
    using assms by (auto simp: free_slots_def filter_empty_conv)
  from free_alloc_loop_found [OF this, of 0] show ?thesis
    using that by (auto simp: process_find_free_alloc_index_def)
qed

lemma filter_update_length:
  "i < length xs \<Longrightarrow> P (xs ! i) \<Longrightarrow> \<not> P y \<Longrightarrow> length (filter P xs) = Suc (length (filter P (xs[i := y])))"
proof (induction xs arbitrary: i)
  case (Cons x xs)
  then show ?case by (cases i) auto
qed simp

lemma free_slots_with:
  assumes "i < length (allocations p)" "alloc_ptr (allocations p ! i) = 0" "ptr \<noteq> 0"
  shows "free_slots p = Suc (free_slots (with_allocation p i ptr sz))"
  using filter_update_length [of i "allocations p" "\<lambda>a. alloc_ptr a = 0" "\<lparr>alloc_ptr = ptr, alloc_size = sz\<rparr>"] assms
  by (simp add: free_slots_def with_allocation_def)

subsection \<open>Copying an argument\<close>

lemma unat_pred: "x \<noteq> 0 \<Longrightarrow> unat x = Suc (unat (x - 1))" for x :: u32
proof -
  assume x: "x \<noteq> 0"
  then have "0 < unat x" by (simp add: unat_gt_0)
  then show ?thesis using unat_minus_one [OF x] by simp
qed

lemma unat_pred_diff: "a \<noteq> d \<Longrightarrow> unat (a - d) = Suc (unat (a - (d + 1)))" for a d :: u32
  using unat_pred [of "a - d"] by (simp add: diff_diff_eq)

lemma ram_strncpy_loop_frame:
  "a \<notin> region d (Suc n) \<Longrightarrow> n < 4294967295 \<Longrightarrow> ram_strncpy_loop n m d src a = m a"
proof (induction n m d src rule: ram_strncpy_loop.induct)
  case (1 m d src)
  then show ?case by (auto simp: region_def)
next
  case (2 n m d src)
  have "a \<noteq> d" using "2.prems" by (auto simp: region_def)
  moreover have "a \<notin> region (d + 1) (Suc n)"
  proof
    assume "a \<in> region (d + 1) (Suc n)"
    then show False using unat_pred_diff [OF \<open>a \<noteq> d\<close>] "2.prems"(1) by (simp add: region_def)
  qed
  ultimately show ?case using "2.IH" "2.prems" by (simp add: fun_upd_other del: fun_upd_apply)
qed

lemma region_Suc: "region p (Suc n) = insert p (region (p + 1) n)"
proof (intro set_eqI)
  fix a
  show "a \<in> region p (Suc n) \<longleftrightarrow> a \<in> insert p (region (p + 1) n)"
    using unat_pred_diff [of a p] by (cases "a = p") (simp_all add: region_def)
qed

lemma ram_strncpy_loop_text:
  "text_at m src t \<Longrightarrow> length t \<le> n \<Longrightarrow> n < 4294967295 \<Longrightarrow> region d (Suc n) \<inter> region src (Suc (length t)) = {} \<Longrightarrow>
    text_at (ram_strncpy_loop n m d src) d t"
proof (induction n m d src arbitrary: t rule: ram_strncpy_loop.induct)
  case (1 m d src)
  then show ?case by (simp add: text_at_def ram_bytes_def)
next
  case (2 n m d src)
  show ?case
  proof (cases t)
    case Nil
    then show ?thesis using "2.prems" by (simp add: text_at_def ram_bytes_def)
  next
    case (Cons x w)
    have x: "m src = x" "x \<noteq> 0" "text_at m (src + 1) w" using "2.prems"(1) Cons by (simp_all add: text_at_Cons)
    have rs: "region src (Suc (length t)) = insert src (region (src + 1) (Suc (length w)))"
      using region_Suc [of src "Suc (length w)"] Cons by simp
    have rd: "region d (Suc (Suc n)) = insert d (region (d + 1) (Suc n))" by (rule region_Suc)
    have d: "d \<notin> region src (Suc (length t))" using "2.prems"(4) rd by blast
    have t1: "text_at (m(d := m src)) (src + 1) w"
      by (rule text_at_cong [OF _ _ x(3)]) (use d rs "2.prems"(2,3) Cons in auto)
    have "region (d + 1) (Suc n) \<inter> region (src + 1) (Suc (length w)) = {}"
      using "2.prems"(4) rs rd by blast
    then have ih: "text_at (ram_strncpy_loop n (m(d := m src)) (d + 1) (src + 1)) (d + 1) w"
      using "2.IH" [OF _ t1] x "2.prems"(2,3) Cons by (simp del: fun_upd_apply)
    have "unat (- 1 :: u32) = 4294967295" by (simp add: unsigned_minus_1_eq_mask mask_eq_exp_minus_1)
    then have "d \<notin> region (d + 1) (Suc n)" using "2.prems"(3) by (simp add: region_def)
    then have "ram_strncpy_loop n (m(d := m src)) (d + 1) (src + 1) d = x"
      using ram_strncpy_loop_frame [of d "d + 1" n "m(d := m src)" "src + 1"] x(1) "2.prems"(3) by simp
    then show ?thesis using ih x Cons by (simp add: text_at_Cons)
  qed
qed

subsection \<open>One allocation\<close>

text \<open>
  \<open>s'\<close> is \<open>s\<close> after the process \<open>proc\<close> has got the blocks \<open>ps\<close> and is now \<open>q\<close>.
\<close>

definition given :: "'z pstate_scheme \<Rightarrow> addr \<Rightarrow> addr list \<Rightarrow> process \<Rightarrow> addr \<Rightarrow> 'z pstate_scheme \<Rightarrow> bool" where
  "given s proc ps q chunk s' \<longleftrightarrow> acquired s (singles ps) s' \<and> runs_in s' proc q chunk \<and>
     space_pages s' chunk = space_pages s chunk \<and>
     (\<forall>w. page_aligned w \<longrightarrow> page_of s' chunk w = (if w \<in> set ps then w OR 7 else page_of s chunk w)) \<and>
     (\<exists>h m. s' = (set_process s proc q)\<lparr>kernel_heap := h, ram := m\<rparr>)"

lemma givenD:
  assumes "given s proc ps q chunk s'"
  shows "acquired s (singles ps) s'" "runs_in s' proc q chunk" "space_pages s' chunk = space_pages s chunk"
    "page_aligned w \<Longrightarrow> page_of s' chunk w = (if w \<in> set ps then w OR 7 else page_of s chunk w)"
  using assms by (simp_all add: given_def)

lemma given_trans:
  assumes "given s proc ps q chunk s1" "given s1 proc qs q' chunk s2"
  shows "given s proc (ps @ qs) q' chunk s2"
proof -
  obtain h m h' m' where "s1 = (set_process s proc q)\<lparr>kernel_heap := h, ram := m\<rparr>"
      "s2 = (set_process s1 proc q')\<lparr>kernel_heap := h', ram := m'\<rparr>"
    using assms by (auto simp: given_def)
  then have "s2 = (set_process s proc q')\<lparr>kernel_heap := h', ram := m'\<rparr>" by (simp add: set_process_def)
  then show ?thesis
    using acquired_trans [OF givenD(1) [OF assms(1)] givenD(1) [OF assms(2)]] givenD(2,3) [OF assms(2)] givenD(3) [OF assms(1)]
      givenD(4) [OF assms(1)] givenD(4) [OF assms(2)]
    unfolding given_def by (fastforce simp: singles_def)
qed

text \<open>\<open>process_malloc\<close> of one block, with what it preserves.\<close>

lemma process_malloc_steps:
  assumes r: "runs_in s proc p chunk" and k: "k_inv s" "ok_size sz" "blocks_of sz = 1" "0 < free_blocks s" and f: "0 < free_slots p"
  obtains ptr q s1 where "process_malloc s proc sz = Some (ptr, s1)" "given s proc [ptr] q chunk s1" "ptr \<noteq> 0"
    "q = p\<lparr>allocations := allocations q\<rparr>" "free_slots p = Suc (free_slots q)" "preserves (set (space_pages s chunk)) s s1"
proof -
  obtain i where i: "process_find_free_alloc_index p = int i" "i < length (allocations p)" "alloc_ptr (allocations p ! i) = 0"
    using free_slot_found [OF f] by blast
  have rc: "0 < run_count (blocks_of sz) s" using k(3,4) run_count_1 [OF k(1)] by simp
  obtain ptr h m where a: "process_malloc s proc sz =
      Some (ptr, (set_process s proc (with_allocation p i ptr sz))\<lparr>kernel_heap := h, ram := m\<rparr>)"
    "ptr \<noteq> 0" "acquired s [(ptr, blocks_of sz)] (s\<lparr>kernel_heap := h, ram := m\<rparr>)"
    "space_ok (s\<lparr>kernel_heap := h, ram := m\<rparr>) chunk"
    "space_pages (s\<lparr>kernel_heap := h, ram := m\<rparr>) chunk = space_pages s chunk"
    "\<And>w. page_aligned w \<Longrightarrow> page_of (s\<lparr>kernel_heap := h, ram := m\<rparr>) chunk w =
       (if unat (w - ptr) < blocks_of sz * 4096 then w OR 7 else page_of s chunk w)"
    by (rule process_malloc_run [OF r k(1,2) rc i(1)]) (rule that)
  let ?q = "with_allocation p i ptr sz" and ?s0 = "s\<lparr>kernel_heap := h, ram := m\<rparr>"
  let ?s1 = "(set_process s proc ?q)\<lparr>kernel_heap := h, ram := m\<rparr>"
  have e: "?s1 = set_process ?s0 proc ?q" by (simp add: set_process_def)
  have "k_live ?s0 ptr = Some 1" "k_inv ?s0" using acquiredD(1,6) [OF a(3)] k(3) by simp_all
  then have pa: "page_aligned ptr" using kz.live_aligned by (fastforce simp: page_aligned_def)
  have pg: "page_of ?s1 chunk w = (if w \<in> set [ptr] then w OR 7 else page_of s chunk w)" if w: "page_aligned w" for w
  proof -
    have "unat (w - ptr) mod 4096 = 0" using page_aligned_diff [OF w pa] by (simp add: page_aligned_def)
    then have "unat (w - ptr) < 4096 \<longleftrightarrow> w = ptr" by (auto simp: unat_eq_0)
    then show ?thesis using a(6) [OF w] k(3) unfolding e by simp
  qed
  have ac: "acquired s (singles [ptr]) ?s1" using a(3) k(3) unfolding e by (simp add: singles_def)
  have run: "runs_in ?s1 proc ?q chunk" unfolding e using r a(4) by (auto simp: runs_in_def with_allocation_def)
  have sp: "space_pages ?s1 chunk = space_pages s chunk" using a(5) unfolding e by simp
  have g: "given s proc [ptr] ?q chunk ?s1" unfolding given_def using ac run sp pg by blast
  show ?thesis
    by (rule that [OF a(1) g a(2) _ free_slots_with [OF i(2,3) a(2)] process_malloc_preserves [OF r k(1,2) a(1,2)]])
      (simp add: with_allocation_def)
qed

text \<open>The addresses of the elements of a list of arguments.\<close>

fun list_region :: "mem \<Rightarrow> addr \<Rightarrow> byte list list \<Rightarrow> addr set" where
  "list_region m p [] = {}"
| "list_region m p (t # ts) = region p 516 \<union> list_region m (load32 m (p + 512)) ts"

lemma next_in_region: "region (p + 512) 4 \<subseteq> region p 516"
  using region_offset [of 512 4 p] by simp

lemma command_list_cong:
  assumes "\<And>a. a \<in> list_region m p ts \<Longrightarrow> m' a = m a" "\<forall>t \<in> set ts. length t \<le> 511"
  shows "command_list m p ts \<Longrightarrow> command_list m' p ts" "list_region m' p ts = list_region m p ts"
proof -
  have "(command_list m p ts \<longrightarrow> command_list m' p ts) \<and> list_region m' p ts = list_region m p ts"
    using assms
  proof (induction ts arbitrary: p)
    case (Cons t ts)
    have n: "load32 m' (p + 512) = load32 m (p + 512)"
      by (rule load32_region) (use Cons.prems(1) next_in_region in auto)
    have "text_at m' p t" if "text_at m p t"
      by (rule text_at_cong [OF _ _ that]) (use Cons.prems in \<open>auto simp: region_def\<close>)
    then show ?case using Cons.IH [of "load32 m (p + 512)"] Cons.prems n by auto
  qed simp
  then show "command_list m p ts \<Longrightarrow> command_list m' p ts" "list_region m' p ts = list_region m p ts" by simp_all
qed

lemma command_list_count:
  "command_list m p ts \<Longrightarrow> count_args_loop m p k = Some (k + int (length ts))"
proof (induction ts arbitrary: p k)
  case Nil
  then show ?case by (subst count_args_loop.simps) simp
next
  case (Cons t ts)
  then show ?case by (subst count_args_loop.simps) (simp add: arg_next_def)
qed

subsection \<open>The loop over the arguments\<close>

text \<open>Writing into live blocks outside of the address space.\<close>

lemma given_ram:
  assumes "given s proc ps q chunk s1" "preserves X s1 (s1\<lparr>ram := m\<rparr>)" "X \<inter> set (space_pages s chunk) = {}"
  shows "given s proc ps q chunk (s1\<lparr>ram := m\<rparr>)"
proof -
  note g = givenD [OF assms(1)]
  have k: "k_inv s1" by (rule acquiredD(1) [OF g(1)])
  obtain t where t: "processes s1 proc = Some q" "space_ok s1 chunk" "tasks s1 (proc_task q) = Some t" "page_directory t = chunk"
    using g(2) by (auto simp: runs_in_def)
  have X: "X \<inter> set (space_pages s1 chunk) = {}" using assms(3) g(3) by simp
  note sp = space_keeps_but [OF k t(2) preserves_keeps_but [OF assms(2)] X]
  have le: "k_live s1 \<subseteq>\<^sub>m k_live (s1\<lparr>ram := m\<rparr>)" by simp
  obtain h m' where "s1 = (set_process s proc q)\<lparr>kernel_heap := h, ram := m'\<rparr>" using assms(1) by (auto simp: given_def)
  then have e: "s1\<lparr>ram := m\<rparr> = (set_process s proc q)\<lparr>kernel_heap := h, ram := m\<rparr>" by simp
  have "acquired s (singles ps) (s1\<lparr>ram := m\<rparr>)" using g(1) by simp
  moreover have "runs_in (s1\<lparr>ram := m\<rparr>) proc q chunk" using t sp(1) [OF le] by (simp add: runs_in_def)
  moreover have "space_pages (s1\<lparr>ram := m\<rparr>) chunk = space_pages s chunk" using sp(2) [OF le] g(3) by simp
  moreover have "page_of (s1\<lparr>ram := m\<rparr>) chunk w = (if w \<in> set ps then w OR 7 else page_of s chunk w)" if "page_aligned w" for w
    using sp(4) [OF le that] g(4) [OF that] by simp
  ultimately show ?thesis unfolding given_def using e by blast
qed

text \<open>Copying one argument into a new block, and its address into the array.\<close>

lemma store_argument:
  assumes k: "k_inv s" "k_live s ptr = Some 1" "k_live s av = Some 1" "ptr \<noteq> av" "j < 1024"
    and t: "text_at (ram s) src t" "length t \<le> 511" "\<forall>a \<in> region src 516. stays s {ptr, av} a"
    and m_def: "m = store32 (ram_strncpy (ram s) ptr src 512) (word_at av j) v"
  shows "preserves {ptr, av} s (s\<lparr>ram := m\<rparr>)" "text_at m ptr t" "load32 m (word_at av j) = v"
    "i < 1024 \<Longrightarrow> i \<noteq> j \<Longrightarrow> load32 m (word_at av i) = load32 (ram s) (word_at av i)"
proof -
  let ?c = "ram_strncpy (ram s) ptr src 512"
  have al: "page_aligned ptr" "page_aligned av"
    using kz.live_aligned [OF k(1)] k(2,3) by (auto simp: page_aligned_def)
  have c: "?c a = ram s a" if "\<not> unat (a - ptr) < 1 * 4096" for a
    using ram_strncpy_loop_frame [of a ptr 511 "ram s" src] that by (simp add: ram_strncpy_def region_def)
  have w: "store32 f (word_at av i) v a = f a" if "\<not> unat (a - av) < 1 * 4096" "i < 1024" for f a i
    using store32_frame [of a av i f v] that by simp
  have p1: "preserves {ptr, av} s (s\<lparr>ram := ?c\<rparr>)"
    by (rule preserves_write [of _ ptr 1]) (use k c in \<open>simp_all add: pool_def\<close>)
  have p2: "preserves {ptr, av} (s\<lparr>ram := ?c\<rparr>) (s\<lparr>ram := m\<rparr>)"
    by (rule preserves_write [of _ av 1]) (use k w in \<open>simp_all add: pool_def m_def\<close>)
  show "preserves {ptr, av} s (s\<lparr>ram := m\<rparr>)"
    by (rule preserves_trans [OF p1 p2]) (simp_all add: pool_def)
  have apart: "\<not> unat (a - av) < 1 * 4096" if "unat (a - ptr) < 1 * 4096" for a
    by (rule live_regions_apart [OF k(1,2,3,4) that])
  have src: "\<not> unat (a - ptr) < 1 * 4096" if "a \<in> region src 516" for a
  proof -
    have "stays s {ptr, av} a" using t(3) that by blast
    then show ?thesis
      unfolding stays_def
      using live_in_heap [OF k(1,2)] live_regions_apart [OF k(1) _ k(2), of _ _ a] by (metis insertI1)
  qed
  have tc: "text_at ?c ptr t"
    unfolding ram_strncpy_def
  proof (rule ram_strncpy_loop_text [OF t(1)])
    have "a \<notin> region ptr 512" if "a \<in> region src (Suc (length t))" for a
      using src [of a] that t(2) by (auto simp: region_def)
    then show "region ptr (Suc (512 - 1)) \<inter> region src (Suc (length t)) = {}" by auto
  qed (use t(2) in simp_all)
  show "text_at m ptr t"
  proof (rule text_at_cong [OF _ _ tc])
    fix a assume "a \<in> region ptr (Suc (length t))"
    then have "unat (a - ptr) < 1 * 4096" using t(2) by (simp add: region_def)
    then show "m a = ?c a" using w [OF apart k(5)] by (simp add: m_def)
  qed (use t(2) in simp)
  show "load32 m (word_at av j) = v" by (simp add: m_def load_store_same)
  show "load32 m (word_at av i) = load32 (ram s) (word_at av i)" if i: "i < 1024" "i \<noteq> j"
  proof -
    have "load32 m (word_at av i) = load32 ?c (word_at av i)"
      unfolding m_def using load_store_word [OF al(2,2) k(5) i(1)] i(2) by simp
    also have "\<dots> = load32 (ram s) (word_at av i)"
    proof (rule load32_cong)
      fix n :: nat assume "n < 4"
      from unat_word_offset [OF i(1) this, of av] have "unat (word_at av i + of_nat n - av) < 1 * 4096" by simp
      then have "\<not> unat (word_at av i + of_nat n - ptr) < 1 * 4096" using apart by blast
      then show "?c (word_at av i + of_nat n) = ram s (word_at av i + of_nat n)" by (rule c)
    qed
    finally show ?thesis .
  qed
qed

lemma only_allocations:
  assumes "r = q\<lparr>allocations := a\<rparr>" "q = p\<lparr>allocations := b\<rparr>"
  shows "r = p\<lparr>allocations := allocations r\<rparr>"
  unfolding assms by simp

lemma inject_loop_run:
  assumes "runs_in s proc p chunk" "k_inv s" "length ts \<le> free_slots p" "length ts \<le> free_blocks s"
    "i + length ts \<le> 1024" "k_live s av = Some 1" "av \<notin> set (space_pages s chunk)" "command_list (ram s) cur ts"
    "\<forall>t \<in> set ts. length t \<le> 511"
    "\<forall>a \<in> list_region (ram s) cur ts. stays s (insert av (set (space_pages s chunk))) a"
    "4 * (i + length ts) \<le> unat sz"
  shows "\<exists>ps q s'. inject_args_loop s proc av sz cur (int i) = Some (0, s') \<and> given s proc ps q chunk s' \<and>
    length ps = length ts \<and> q = p\<lparr>allocations := allocations q\<rparr> \<and>
    preserves (insert av (set (space_pages s chunk))) s s' \<and>
    (\<forall>j < i. load32 (ram s') (word_at av j) = load32 (ram s) (word_at av j)) \<and>
    (\<forall>j < length ts. load32 (ram s') (word_at av (i + j)) = ps ! j \<and> text_at (ram s') (ps ! j) (ts ! j))"
  using assms
proof (induction ts arbitrary: s p cur i)
  case Nil
  have "given s proc [] p chunk s"
    using Nil(1,2) by (auto simp: given_def singles_def acquired_refl runs_in_def set_process_def fun_upd_idem intro!: exI [of _ "kernel_heap s"] exI [of _ "ram s"])
  then show ?case using Nil by (subst inject_args_loop.simps) (auto simp: preserves_def)
next
  case (Cons t ts)
  let ?D = "set (space_pages s chunk)"
  have slots: "0 < free_slots p" "0 < free_blocks s" using Cons.prems(3,4) by auto
  obtain ptr q s1 where a: "process_malloc s proc 512 = Some (ptr, s1)" "given s proc [ptr] q chunk s1" "ptr \<noteq> 0"
      "q = p\<lparr>allocations := allocations q\<rparr>" "free_slots p = Suc (free_slots q)" "preserves ?D s s1"
    by (rule process_malloc_steps [OF Cons.prems(1,2) _ _ slots(2,1), of 512])
      (simp add: ok_size_def, simp add: blocks_of_def, rule that)
  note g1 = givenD [OF a(2)]
  have le: "k_live s \<subseteq>\<^sub>m k_live s1" and pl: "pool s1 = pool s" by (rule acquired_keeps_le [OF g1(1)], rule acquiredD(2) [OF g1(1)])
  have k1: "k_inv s1" "k_live s1 ptr = Some 1" "k_live s ptr = None"
    using acquiredD(1) [OF g1(1)] acquiredD(5,6) [OF g1(1), of ptr 1] by (simp_all add: singles_def)
  have av: "k_live s1 av = Some 1" "ptr \<noteq> av" using le Cons.prems(6) k1(3) by (auto simp: map_le_def dom_def)
  have pD: "ptr \<notin> ?D" using Cons.prems(1) k1(3) by (auto simp: runs_in_def space_ok_def)
  let ?X = "insert av ?D"
  have same: "ram s1 x = ram s x" if "stays s ?X x" for x
    using preservesD [OF preserves_mono [OF a(6), of ?X] that] by blast
  have st1: "stays s1 (insert ptr ?X) x" if "stays s ?X x" for x
    by (rule stays_new [OF that k1(3) le pl])
  define m where "m = store32 (ram_strncpy (ram s1) ptr cur 512) (word_at av i) ptr"
  let ?s2 = "s1\<lparr>ram := m\<rparr>"
  have c: "text_at (ram s) cur t" "command_list (ram s) (load32 (ram s) (cur + 512)) ts" "cur \<noteq> 0" "length t \<le> 511"
    using Cons.prems(8,9) by simp_all
  have in_cur: "stays s ?X x" if "x \<in> region cur 516" for x using Cons.prems(10) that by auto
  have tx: "text_at (ram s1) cur t"
    by (rule text_at_cong [OF _ _ c(1)]) (use c(4) same in_cur in \<open>auto simp: region_def\<close>)
  have i: "i < 1024" using Cons.prems(5) by simp
  have src: "\<forall>x \<in> region cur 516. stays s1 {ptr, av} x"
    using stays_mono [OF st1 map_le_refl refl, of _ "{ptr, av}"] in_cur by blast
  note sa = store_argument [OF k1(1,2) av(1,2) i tx c(4) src m_def]
  have g2: "given s proc [ptr] q chunk ?s2"
    by (rule given_ram [OF a(2) sa(1)]) (use pD Cons.prems(7) in simp)
  have p2: "preserves ?X s ?s2"
    unfolding preserves_def
  proof (intro allI impI)
    fix x assume x: "stays s ?X x"
    have "stays s1 {ptr, av} x" by (rule stays_mono [OF st1 [OF x] map_le_refl refl]) simp
    then show "ram ?s2 x = ram s x" using preservesD [OF sa(1)] same [OF x] by simp
  qed
  note g2' = givenD [OF g2]
  have le2: "k_live s \<subseteq>\<^sub>m k_live ?s2" and pl2: "pool ?s2 = pool s" by (rule acquired_keeps_le [OF g2'(1)], rule acquiredD(2) [OF g2'(1)])
  have reg: "\<And>x. x \<in> list_region (ram s) (load32 (ram s) (cur + 512)) ts \<Longrightarrow> ram ?s2 x = ram s x"
    using Cons.prems(10) preservesD [OF p2] by auto
  have nx: "load32 m (cur + 512) = load32 (ram s) (cur + 512)"
    by (rule load32_region) (use preservesD [OF p2] in_cur next_in_region in fastforce)
  have cl: "command_list (ram ?s2) (load32 m (cur + 512)) ts"
      "list_region (ram ?s2) (load32 m (cur + 512)) ts = list_region (ram s) (load32 (ram s) (cur + 512)) ts"
    using command_list_cong [OF reg] c(2) Cons.prems(9) unfolding nx by auto
  have fb: "length ts \<le> free_blocks ?s2"
    using free_blocks_acquired [OF Cons.prems(2) g2'(1)] Cons.prems(4) by (simp add: singles_def)
  have st2: "\<forall>x \<in> list_region (ram ?s2) (load32 m (cur + 512)) ts. stays ?s2 (insert av (set (space_pages ?s2 chunk))) x"
    unfolding cl(2) g2'(3) using Cons.prems(10) stays_mono [OF _ le2 pl2 order_refl] by auto
  obtain ps r s3 where ih: "inject_args_loop ?s2 proc av sz (load32 m (cur + 512)) (int (Suc i)) = Some (0, s3)"
      "given ?s2 proc ps r chunk s3" "length ps = length ts" "r = q\<lparr>allocations := allocations r\<rparr>"
      "preserves ?X ?s2 s3"
      "\<forall>j < Suc i. load32 (ram s3) (word_at av j) = load32 (ram ?s2) (word_at av j)"
      "\<forall>j < length ts. load32 (ram s3) (word_at av (Suc i + j)) = ps ! j \<and> text_at (ram s3) (ps ! j) (ts ! j)"
  proof -
    have "k_inv ?s2" "k_live ?s2 av = Some 1" "length ts \<le> free_slots q" "Suc i + length ts \<le> 1024" "\<forall>t \<in> set ts. length t \<le> 511"
      using k1(1) av(1) a(5) Cons.prems(3,5,9) by simp_all
    from Cons.IH [OF g2'(2) this(1,3) fb this(4,2) _ cl(1) this(5) st2] Cons.prems(7,11) g2'(3) that
    show ?thesis by auto
  qed
  have "int (4 * (i + length (t # ts))) \<le> int (unat sz)" using Cons.prems(11) by (simp only: zle_int)
  then have room: "\<not> uint sz < 4 * int i + 4" by simp
  have run: "inject_args_loop s proc av sz cur (int i) = Some (0, s3)"
    using ih(1) a(1,3) c(3) room by (subst inject_args_loop.simps) (simp add: m_def word_at_def arg_next_def Let_def ac_simps)
  have tp: "text_at (ram s3) ptr t"
  proof (rule text_at_cong [OF _ _ sa(2)])
    fix x assume "x \<in> region ptr (Suc (length t))"
    then have "unat (x - ptr) < 1 * 4096" using c(4) by (simp add: region_def)
    then have "stays ?s2 ?X x" using stays_live [of ?s2 ptr 1 ?X x] k1(2) av(2) pD by simp
    then show "ram s3 x = m x" using preservesD [OF ih(5)] by simp
  qed (use c(4) in simp)
  have "load32 (ram s3) (word_at av (i + j)) = (ptr # ps) ! j \<and> text_at (ram s3) ((ptr # ps) ! j) ((t # ts) ! j)"
    if "j < length (t # ts)" for j
    using ih(6,7) sa(3) tp that by (cases j) auto
  moreover have "load32 (ram s3) (word_at av j) = load32 (ram s) (word_at av j)" if j: "j < i" for j
  proof -
    have "load32 m (word_at av j) = load32 (ram s1) (word_at av j)" by (rule sa(4)) (use j i in simp_all)
    also have "\<dots> = load32 (ram s) (word_at av j)"
      by (rule keeps_but_load [OF Cons.prems(2) preserves_keeps_but [OF a(6)] _ Cons.prems(7)]) (use Cons.prems(6) j i in auto)
    finally show ?thesis using ih(6) j by simp
  qed
  moreover have "given s proc (ptr # ps) r chunk s3" using given_trans [OF g2 ih(2)] by simp
  moreover have "preserves ?X s s3" by (rule preserves_trans [OF p2 ih(5) le2 pl2])
  moreover have "r = p\<lparr>allocations := allocations r\<rparr>" by (rule only_allocations [OF ih(4) a(4)])
  ultimately show ?case using run ih(3) by (intro exI [of _ "ptr # ps"]) auto
qed

lemma only_args:
  assumes "r' = r\<lparr>args := b\<rparr>" "r = p\<lparr>allocations := a\<rparr>"
  shows "r' = p\<lparr>args := args r', allocations := allocations r'\<rparr>"
  unfolding assms by simp

lemma process_inject_args_run:
  assumes "runs_in s proc p chunk" "k_inv s" "length ts < free_slots p" "length ts < free_blocks s"
    "ts \<noteq> []" "length ts \<le> 1023" "command_list (ram s) root ts" "\<forall>t \<in> set ts. length t \<le> 511"
    "\<forall>a \<in> list_region (ram s) root ts. stays s (set (space_pages s chunk)) a"
  shows "\<exists>av ps q s'. process_inject_args s proc root = Some (0, s') \<and> given s proc (av # ps) q chunk s' \<and>
    process_get_args q = (int (length ts), av) \<and> q = p\<lparr>args := args q, allocations := allocations q\<rparr> \<and> length ps = length ts \<and>
    preserves (set (space_pages s chunk)) s s' \<and>
    (\<forall>j < length ts. load32 (ram s') (word_at av j) = ps ! j \<and> text_at (ram s') (ps ! j) (ts ! j))"
proof -
  let ?n = "length ts" and ?D = "set (space_pages s chunk)"
  let ?sz = "4 * word_of_int (int ?n) :: u32"
  have n: "0 < ?n" "?n \<le> 1023" using assms(5,6) by simp_all
  then have n1: "1 \<le> ?n" by linarith
  have "?sz = of_nat (4 * ?n)" by simp
  moreover have "unat (of_nat (4 * ?n) :: u32) = 4 * ?n" using n by (intro unat_of_nat_u32) linarith
  ultimately have u: "unat ?sz = 4 * ?n" by simp
  have b: "4096 * 1 \<le> 4 * ?n + 4095" using n1 by linarith
  have "4 * ?n + 4095 < 4096 * Suc 1" using n(2) by simp
  with b have bz: "blocks_of ?sz = 1" unfolding blocks_of_def u by (rule div_nat_eqI)
  have ok: "ok_size ?sz" unfolding ok_size_def using u n by (auto simp: word_le_nat_alt simp flip: unat_eq_0)
  have cnt: "process_count_command_args (ram s) root = Some (int ?n)"
    using command_list_count [OF assms(7), of 0] by (simp add: process_count_command_args_def)
  have room: "0 < free_blocks s" "0 < free_slots p" using assms(3,4) by simp_all
  obtain av q s1 where a: "process_malloc s proc ?sz = Some (av, s1)" "given s proc [av] q chunk s1" "av \<noteq> 0"
      "q = p\<lparr>allocations := allocations q\<rparr>" "free_slots p = Suc (free_slots q)" "preserves ?D s s1"
    by (rule process_malloc_steps [OF assms(1,2) ok bz room]) (rule that)
  note g = givenD [OF a(2)]
  have le: "k_live s \<subseteq>\<^sub>m k_live s1" and pl: "pool s1 = pool s" by (rule acquired_keeps_le [OF g(1)], rule acquiredD(2) [OF g(1)])
  have k1: "k_inv s1" "k_live s1 av = Some 1" "k_live s av = None"
    using acquiredD(1) [OF g(1)] acquiredD(5,6) [OF g(1), of av 1] by (simp_all add: singles_def)
  have avD: "av \<notin> ?D" using assms(1) k1(3) by (auto simp: runs_in_def space_ok_def)
  have reg: "ram s1 x = ram s x" if "x \<in> list_region (ram s) root ts" for x
    by (rule preservesD [OF a(6) bspec [OF assms(9) that]])
  note cl = command_list_cong [where m = "ram s" and m' = "ram s1" and p = root and ts = ts, OF reg assms(8)]
  have st: "stays s1 (insert av (set (space_pages s1 chunk))) x" if "x \<in> list_region (ram s1) root ts" for x
    unfolding g(3) by (rule stays_new [OF bspec [OF assms(9)] k1(3) le pl]) (use that in \<open>simp only: cl(2)\<close>)
  have fb: "?n \<le> free_blocks s1"
    using free_blocks_acquired [OF assms(2) g(1)] assms(4) by (simp add: singles_def)
  have fs: "?n \<le> free_slots q" using a(5) assms(3) by simp
  have av1: "av \<notin> set (space_pages s1 chunk)" using avD g(3) by simp
  obtain ps r s2 where l: "inject_args_loop s1 proc av ?sz root (int 0) = Some (0, s2)" "given s1 proc ps r chunk s2"
      "length ps = ?n" "r = q\<lparr>allocations := allocations r\<rparr>" "preserves (insert av ?D) s1 s2"
      "\<forall>j < ?n. load32 (ram s2) (word_at av j) = ps ! j \<and> text_at (ram s2) (ps ! j) (ts ! j)"
    using inject_loop_run [OF g(2) k1(1) fs fb _ k1(2) av1 cl(1) [OF _ assms(7)] assms(8), of 0 ?sz] st n(2) g(3) u by auto
  note g2 = given_trans [OF a(2) l(2)]
  have pr: "processes s2 proc = Some r" using givenD(2) [OF l(2)] by (simp add: runs_in_def)
  let ?r = "r\<lparr>args := \<lparr>argc = int ?n, argv = av\<rparr>\<rparr>" and ?s' = "set_process s2 proc (r\<lparr>args := \<lparr>argc = int ?n, argv = av\<rparr>\<rparr>)"
  have "process_inject_args s proc root = Some (0, ?s')"
    using cnt n(1) a(1,3) l(1) pr by (simp add: process_inject_args_def)
  moreover have "given s proc (av # ps) ?r chunk ?s'"
  proof -
    obtain h m where e: "s2 = (set_process s proc r)\<lparr>kernel_heap := h, ram := m\<rparr>" using g2 by (auto simp: given_def)
    have e': "?s' = (set_process s proc ?r)\<lparr>kernel_heap := h, ram := m\<rparr>" unfolding e by (simp add: set_process_def)
    have "runs_in ?s' proc ?r chunk" using givenD(2) [OF g2] by (auto simp: runs_in_def)
    moreover have "acquired s (singles (av # ps)) ?s'" "space_pages ?s' chunk = space_pages s chunk"
      using givenD(1,3) [OF g2] by simp_all
    moreover have "page_of ?s' chunk w = (if w \<in> set (av # ps) then w OR 7 else page_of s chunk w)" if "page_aligned w" for w
      using givenD(4) [OF g2 that] by simp
    ultimately show ?thesis unfolding given_def using e' by blast
  qed
  moreover have "preserves ?D s ?s'"
    unfolding preserves_def
  proof (intro allI impI)
    fix x assume x: "stays s ?D x"
    have "stays s1 (insert av ?D) x" by (rule stays_new [OF x k1(3) le pl])
    then show "ram ?s' x = ram s x" using preservesD [OF l(5)] preservesD [OF a(6) x] by simp
  qed
  moreover have "process_get_args ?r = (int ?n, av)" by (simp add: process_get_args_def)
  moreover have "\<forall>j < ?n. load32 (ram ?s') (word_at av j) = ps ! j \<and> text_at (ram ?s') (ps ! j) (ts ! j)" using l(6) by simp
  moreover have "?r = p\<lparr>args := args ?r, allocations := allocations ?r\<rparr>"
    by (rule only_args [OF refl only_allocations [OF l(4) a(4)]])
  ultimately show ?thesis using l(3) by blast
qed

text \<open>
  C16. Passing arguments. For a list of 1 to 1023 arguments of at most 511 characters that lies where the allocations do not
  write, with enough memory and free slots, \<open>process_inject_args\<close> succeeds: the process gets the number of
  arguments and an array of pointers to copies of their texts, in this order, all of it in new blocks that its address
  space maps for the user (flags 7); no other page and no other byte in use changes.
\<close>

theorem process_inject_args_ok:
  assumes "runs_in s proc p chunk" "k_inv s" "length ts < free_slots p" "length ts < free_blocks s"
    "ts \<noteq> []" "length ts \<le> 1023" "command_list (ram s) root ts" "\<forall>t \<in> set ts. length t \<le> 511"
    "\<forall>a \<in> list_region (ram s) root ts. stays s (set (space_pages s chunk)) a"
  shows "\<exists>av ps q s'. process_inject_args s proc root = Some (0, s') \<and> given s proc (av # ps) q chunk s' \<and>
    process_get_args q = (int (length ts), av) \<and> q = p\<lparr>args := args q, allocations := allocations q\<rparr> \<and> length ps = length ts \<and>
    preserves (set (space_pages s chunk)) s s' \<and>
    (\<forall>j < length ts. load32 (ram s') (word_at av j) = ps ! j \<and> text_at (ram s') (ps ! j) (ts ! j))"
  by (rule process_inject_args_run [OF assms])

subsection \<open>The argument on the stack of the kernel\<close>

lemma write_outside:
  assumes "k_inv s" "\<And>a. in_heap s a \<Longrightarrow> m a = ram s a"
  shows "keeps s (s\<lparr>ram := m\<rparr>)"
  using live_in_heap [OF assms(1)] assms(2) by (auto simp: keeps_def)

lemma stored_node:
  fixes old :: mem and arg :: addr and v :: u32
  assumes "length t \<le> 511" "0 \<notin> set t"
  defines "m \<equiv> store32 (store_bytes old arg (t @ [0])) (arg + 512) v"
  shows "text_at m arg t" "load32 m (arg + 512) = v" "a \<notin> region arg 516 \<Longrightarrow> m a = old a"
proof -
  have "text_at (store_bytes old arg (t @ [0])) arg t" by (rule text_at_store) (use assms in simp_all)
  moreover have "m a = store_bytes old arg (t @ [0]) a" if "a \<in> region arg (Suc (length t))" for a
  proof -
    have "region arg (Suc (length (take 511 t))) \<inter> region (arg + 512) 4 = {}" by (rule next_field(2))
    then show ?thesis using that assms(1) unfolding m_def by (intro store32_region) auto
  qed
  ultimately show "text_at m arg t" using text_at_cong [of arg t m] assms(1) by simp
  show "load32 m (arg + 512) = v" by (simp add: m_def load_store_same)
  show "m a = old a" if a: "a \<notin> region arg 516"
  proof -
    have "a \<notin> region (arg + 512) 4" using a next_in_region by blast
    moreover have "\<not> unat (a - arg) < Suc (length t)" using a assms(1) by (simp add: region_def)
    ultimately show ?thesis by (simp add: m_def store32_region store_bytes_def)
  qed
qed

lemma stored_arg:
  fixes old :: mem
  assumes "length t \<le> 511" "0 \<notin> set t" "arg \<noteq> 0"
  defines "m \<equiv> store32 (store_bytes old arg (t @ [0])) (arg + 512) 0"
  shows "command_list m arg [t]" "list_region m arg [t] = region arg 516" "a \<notin> region arg 516 \<Longrightarrow> m a = old a"
  using stored_node [OF assms(1,2), where old = old and arg = arg and v = 0] assms(3) by (simp_all add: m_def)


text \<open>The arguments \<open>hi\<close> and \<open>there\<close>, below the heap.\<close>

definition two_args :: "mem \<Rightarrow> mem" where
  "two_args m = (let m1 = store32 (store_bytes m 0x5000 (map of_char ''hi'' @ [0])) 0x5200 0x6000
     in store32 (store_bytes m1 0x6000 (map of_char ''there'' @ [0])) 0x6200 0)"

lemma two_args:
  "command_list (two_args m) 0x5000 [map of_char ''hi'', map of_char ''there'']"
  "list_region (two_args m) 0x5000 [map of_char ''hi'', map of_char ''there''] = region 0x5000 516 \<union> region 0x6000 516"
  "a \<notin> region 0x5000 516 \<union> region 0x6000 516 \<Longrightarrow> two_args m a = m a"
proof -
  let ?m1 = "store32 (store_bytes m 0x5000 (map of_char ''hi'' @ [0])) (0x5000 + 512) 0x6000"
  have e: "two_args m = store32 (store_bytes ?m1 0x6000 (map of_char ''there'' @ [0])) (0x6000 + 512) 0"
    by (simp add: two_args_def)
  have t: "length (map of_char ''hi'' :: byte list) \<le> 511" "0 \<notin> set (map of_char ''hi'' :: byte list)"
    "length (map of_char ''there'' :: byte list) \<le> 511" "0 \<notin> set (map of_char ''there'' :: byte list)" by simp_all
  note n1 = stored_node [OF t(1,2), where old = m and arg = "0x5000" and v = "0x6000"] and n2 = stored_node [OF t(3,4), where old = ?m1 and arg = "0x6000" and v = 0, folded e]
  have apart: "a \<notin> region 0x6000 516" if "a \<in> region 0x5000 516" for a
    using that unat_in_region [where q = "0x5000" and k = 516 and a = a] unat_in_region [where q = "0x6000" and k = 516 and a = a]
    by (auto simp: region_def)
  have hi: "text_at (two_args m) 0x5000 (map of_char ''hi'')"
    by (rule text_at_cong [OF _ _ n1(1)]) (use n2(3) apart in \<open>auto simp: region_def\<close>)
  have nx: "load32 (two_args m) (0x5000 + 512) = 0x6000"
  proof -
    have "two_args m a = ?m1 a" if "a \<in> region (0x5000 + 512) 4" for a
      by (rule n2(3)) (use that apart next_in_region in blast)
    then have "load32 (two_args m) (0x5000 + 512) = load32 ?m1 (0x5000 + 512)" by (rule load32_region)
    then show ?thesis using n1(2) by simp
  qed
  show "command_list (two_args m) 0x5000 [map of_char ''hi'', map of_char ''there'']"
    "list_region (two_args m) 0x5000 [map of_char ''hi'', map of_char ''there''] = region 0x5000 516 \<union> region 0x6000 516"
    using hi nx n2(1,2) by simp_all
  show "two_args m a = m a" if "a \<notin> region 0x5000 516 \<union> region 0x6000 516"
    using n1(3) n2(3) that by auto
qed

theorem process_inject_args_ok_witness:
  "\<exists>proc s s' q av p0 p1. process_load (elf_disk small_elf) (process_state small_elf) blank_path = Some (Inr (0, Some proc, s)) \<and>
     process_inject_args (s\<lparr>ram := two_args (ram s)\<rparr>) proc 0x5000 = Some (0, s') \<and> processes s' proc = Some q \<and>
     process_get_args q = (2, av) \<and> load32 (ram s') (av + 4) = p1 \<and> text_at (ram s') p1 (map of_char ''there'')"
proof -
  obtain proc fl mem stk task chunk ps s where
    p: "process_load (elf_disk small_elf) (process_state small_elf) blank_path = Some (Inr (0, Some proc, s))"
    "process_loaded blank_path (elf_contents small_elf) s proc fl mem stk task chunk"
    "acquired (process_state small_elf) ps s" "blocks ps = 1039" by (rule small_process) (rule that)
  let ?q = "new_process blank_path fl stk task" and ?s = "s\<lparr>ram := two_args (ram s)\<rparr>"
  let ?ts = "[map of_char ''hi'', map of_char ''there''] :: byte list list"
  have k: "k_inv s" by (rule acquiredD(1) [OF p(3)])
  have pool: "pool s = (0x01000000, 25600)"
    using acquiredD(2) [OF p(3)] by (simp add: pool_def process_state_fields(1) fresh_kmem_def status_simps)
  have out: "\<not> in_heap s a" if "a \<in> region 0x5000 516 \<union> region 0x6000 516" for a
  proof -
    have "unat a < 0x5000 + 516 \<or> unat a < 0x6000 + 516"
      using that unat_in_region [where q = "0x5000" and k = 516 and a = a] unat_in_region [where q = "0x6000" and k = 516 and a = a]
      by (auto simp: region_def)
    then show ?thesis by (auto simp: in_heap_def pool)
  qed
  have r: "runs_in s proc ?q chunk" using p(2) by (simp add: process_loaded_def)
  have kp: "keeps s ?s" by (rule write_outside [OF k]) (use out two_args(3) in blast)
  have so: "space_ok s chunk" using r by (simp add: runs_in_def)
  note sp = space_keeps_but [OF k so keeps_keeps_but [OF kp, of "{}"]]
  have rs: "runs_in ?s proc ?q chunk" using r sp(1) by (auto simp: runs_in_def)
  have slots: "length ?ts < free_slots ?q"
    by (simp add: free_slots_def new_process_def zero_process_def BENOS_MAX_PROGRAM_ALLOCATIONS_def)
  have fb: "length ?ts < free_blocks ?s"
    using free_blocks_acquired [OF process_state(1) p(3)] process_state(3) [of small_elf] p(4) by simp
  have ks: "k_inv ?s" using k by simp
  have lr: "list_region (ram ?s) 0x5000 ?ts = region 0x5000 516 \<union> region 0x6000 516" using two_args(2) [of "ram s"] by simp
  have "in_heap ?s a = in_heap s a" for a by (simp add: in_heap_def pool_def)
  then have st: "\<forall>a \<in> list_region (ram ?s) 0x5000 ?ts. stays ?s (set (space_pages ?s chunk)) a"
    unfolding lr using out by (auto simp: stays_def)
  have cl: "command_list (ram ?s) 0x5000 ?ts" using two_args(1) by simp
  obtain av qs q s' where j: "process_inject_args ?s proc 0x5000 = Some (0, s')" "given ?s proc (av # qs) q chunk s'"
      "process_get_args q = (int (length ?ts), av)"
      "\<forall>j < length ?ts. load32 (ram s') (word_at av j) = qs ! j \<and> text_at (ram s') (qs ! j) (?ts ! j)"
    using process_inject_args_ok [OF rs ks slots fb _ _ cl _ st] by auto
  have "processes s' proc = Some q" using givenD(2) [OF j(2)] by (simp add: runs_in_def)
  moreover have "load32 (ram s') (av + 4) = qs ! 1 \<and> text_at (ram s') (qs ! 1) (map of_char ''there'')"
    using j(4) [rule_format, of 1] by (simp add: word_at_def)
  ultimately show ?thesis using p(1) j(1,3) by auto
qed

end
