(* ===== verification/KernelBoot.thy ===== *)
theory KernelBoot
  imports KernelOk ProcessArgs
begin

text \<open>
  From the machine as the boot code leaves it to the first instruction of a program: every initialisation of
  \<open>kernel_main\<close> succeeds, and the two programs it loads are ready to run.
\<close>

subsection \<open>A process that is ready to run\<close>

text \<open>
  The process \<open>proc\<close> has been loaded from the file \<open>c\<close> and has the single argument \<open>t\<close>: its task starts
  at the entry point; its address space is the identity mapping with the file, the stack, the array of
  arguments and the argument mapped over it.
\<close>

definition ready :: "'z pstate_scheme \<Rightarrow> byte list \<Rightarrow> byte list \<Rightarrow> addr \<Rightarrow> addr \<Rightarrow> bool" where
  "ready s c t proc task \<longleftrightarrow> proc \<in> dom (k_live s) \<and>
     (\<exists>q mem stk chunk av str. runs_in s proc q chunk \<and> proc_task q = task \<and> file_at s mem c chunk \<and>
        process_get_args q = (1, av) \<and> {av, str} \<inter> set (space_pages s chunk) = {} \<and>
        k_live s av = Some 1 \<and> k_live s str = Some 1 \<and> load32 (ram s) av = str \<and> text_at (ram s) str t \<and> length t \<le> 511 \<and>
        (\<exists>u. tasks s task = Some u \<and> registers u = initial_registers (Some (le32 c 24)) \<and> Task.task.process u = proc) \<and>
        (\<forall>w. page_aligned w \<longrightarrow> page_of s chunk w = (if w = av \<or> w = str then w OR 7
           else stack_space stk (elf_space mem (all_phdrs c) (\<lambda>w. w OR 5)) w)))"

lemma ready_kept:
  assumes "ready s c t proc task" "k_inv s" "keeps s s'" "k_live s \<subseteq>\<^sub>m k_live s'" "tasks_kept s s'"
    "processes s' proc = processes s proc"
  shows "ready s' c t proc task"
proof -
  obtain q mem stk chunk av str u where r: "runs_in s proc q chunk" "proc_task q = task" "file_at s mem c chunk"
      "process_get_args q = (1, av)" "{av, str} \<inter> set (space_pages s chunk) = {}" "k_live s av = Some 1" "k_live s str = Some 1"
      "load32 (ram s) av = str" "text_at (ram s) str t" "length t \<le> 511" "tasks s task = Some u"
      "registers u = initial_registers (Some (le32 c 24))" "Task.task.process u = proc"
      "\<And>w. page_aligned w \<Longrightarrow> page_of s chunk w = (if w = av \<or> w = str then w OR 7
           else stack_space stk (elf_space mem (all_phdrs c) (\<lambda>w. w OR 5)) w)"
    and p: "proc \<in> dom (k_live s)"
    using assms(1) unfolding ready_def by blast
  have rs: "processes s proc = Some q" "space_ok s chunk" "page_directory u = chunk"
    using r(1,2,11) by (auto simp: runs_in_def)
  obtain u' where u': "tasks s' task = Some u'" "registers u' = registers u" "page_directory u' = page_directory u"
      "Task.task.process u' = Task.task.process u"
    by (rule tasks_keptD [OF assms(5) r(11)])
  note sp = space_keeps_but [OF assms(2) rs(2) keeps_keeps_but [OF assms(3), of "{}"] _ assms(4)]
  have f: "file_at s' mem c chunk"
    using file_at_keeps [OF assms(2) r(3) keeps_keeps_but [OF assms(3)] _ assms(4)] sp(2) by simp
  have live: "k_live s' av = Some 1" "k_live s' str = Some 1" "proc \<in> dom (k_live s')"
    using r(6,7) p assms(4) by (auto simp: map_le_def dom_def)
  have ld: "load32 (ram s') av = str"
    using keeps_but_load [OF assms(2) keeps_keeps_but [OF assms(3), of "{}"], of av 0] r(6,8) by (simp add: word_at_0 domI)
  have tx: "text_at (ram s') str t"
  proof (rule text_at_cong [OF _ _ r(9)])
    fix a assume "a \<in> region str (Suc (length t))"
    then have "unat (a - str) < 1 * 4096" using r(10) by (simp add: region_def)
    then show "ram s' a = ram s a" by (rule keepsD [OF assms(3) r(7)])
  qed (use r(10) in simp)
  have "runs_in s' proc q chunk" using rs sp(1) u' assms(6) r(2) by (simp add: runs_in_def)
  moreover have "page_of s' chunk w = (if w = av \<or> w = str then w OR 7
           else stack_space stk (elf_space mem (all_phdrs c) (\<lambda>w. w OR 5)) w)" if "page_aligned w" for w
    using sp(4) [OF _ that] r(14) [OF that] by simp
  moreover have "{av, str} \<inter> set (space_pages s' chunk) = {}" using r(5) sp(2) by simp
  ultimately show ?thesis
    unfolding ready_def using r(2,4,10,12,13) f live ld tx u' by metis
qed

subsection \<open>Starting a program with an argument\<close>

lemma given_frame:
  assumes "given s proc ps q chunk s'"
  shows "tasks s' = tasks s" "task_head s' = task_head s" "task_tail s' = task_tail s" "current_task s' = current_task s"
    "kernel_chunk s' = kernel_chunk s" "cr3 s' = cr3 s" "volume s' = volume s" "file_descriptors s' = file_descriptors s"
    "processes s' = (processes s)(proc \<mapsto> q)" "process_table s' = process_table s" "curr_process s' = curr_process s"
    "pstate.more s' = pstate.more s"
proof -
  obtain h m where "s' = (set_process s proc q)\<lparr>kernel_heap := h, ram := m\<rparr>" using assms by (auto simp: given_def)
  then show "tasks s' = tasks s" "task_head s' = task_head s" "task_tail s' = task_tail s" "current_task s' = current_task s"
    "kernel_chunk s' = kernel_chunk s" "cr3 s' = cr3 s" "volume s' = volume s" "file_descriptors s' = file_descriptors s"
    "processes s' = (processes s)(proc \<mapsto> q)" "process_table s' = process_table s" "curr_process s' = curr_process s"
    "pstate.more s' = pstate.more s"
    by (simp_all add: set_process_def volume_def)
qed

text \<open>What \<open>start_shell\<close> leaves of the rest of the kernel.\<close>

definition boot_frame :: "device \<Rightarrow> 'z pstate_scheme \<Rightarrow> 'z pstate_scheme \<Rightarrow> bool" where
  "boot_frame dev s s' \<longleftrightarrow> keeps s s' \<and> process_table s' = process_table s \<and> pstate.more s' = pstate.more s \<and>
     file_descriptors s' = file_descriptors s \<and> disk_filesystem s' = disk_filesystem s \<and> kernel_chunk s' = kernel_chunk s \<and>
     cr3 s' = cr3 s \<and> tasks_kept s s' \<and> (\<forall>q c'. fat_file dev (volume s) q c' \<longrightarrow> fat_file dev (volume s') q c')"

lemma start_shell_run:
  assumes l: "loadable dev s shell_path c i" and k: "k_inv s"
    and room: "load_room s (path_nodes shell_path) (blocks_of (word_of_nat (length c)))"
    and fb: "path_nodes shell_path + blocks_of (word_of_nat (length c)) + 1037 \<le> free_blocks s"
    and c: "elf_accepted c" "headers_inside c" "phdrs_inside c" and pt: "process_table s = 0 # pts"
    and ts: "task_list s xs" "prev_ok s xs" "tasks_live s"
    and arg: "arg \<noteq> 0" "\<forall>a \<in> region arg 516. \<not> in_heap s a"
    and t: "c_string txt = t @ [0]" "0 \<notin> set t" "length t \<le> 511"
  shows "\<exists>proc task ps q s'. start_shell dev arg s old txt = Some (Inr (proc, s')) \<and> ready s' c t proc task \<and>
    boot_frame dev s s' \<and> acquired s ps s' \<and> blocks ps = path_nodes shell_path + blocks_of (word_of_nat (length c)) + 1037 \<and>
    task_list s' (xs @ [task]) \<and> prev_ok s' (xs @ [task]) \<and> tasks_live s' \<and>
    current_task s' = (if xs = [] then task else current_task s) \<and> curr_process s' = proc \<and>
    processes s' = (processes s)(proc \<mapsto> q) \<and> k_live s proc = None"
proof -
  let ?k = "path_nodes shell_path" and ?n = "blocks_of (word_of_nat (length c))"
  obtain proc fl mem stk task chunk ps s1 where p: "process_load dev s shell_path = Some (Inr (0, Some proc, s1))"
      "process_loaded shell_path c s1 proc fl mem stk task chunk" "keeps s s1"
      "acquired s ps s1" "blocks ps = ?k + ?n + 1035"
      "task_list s1 (xs @ [task])" "prev_ok s1 (xs @ [task])" "tasks_live s1"
      "current_task s1 = (if xs = [] then task else current_task s)" "load_frame dev s s1"
      "processes s1 = (processes s)(proc \<mapsto> new_process shell_path fl stk task)"
      "load_blocks ?n proc fl mem stk task (space_pages s1 chunk) ps"
    using process_load_run [OF l k room c pt ts] by blast
  note ac1 = acquiredD [OF p(4)]
  have le1: "k_live s \<subseteq>\<^sub>m k_live s1" by (rule acquired_keeps_le [OF p(4)])
  have pages: "set (space_pages s1 chunk) \<inter> dom (k_live s) = {}"
  proof -
    obtain ns qs where "ps = ((proc, 3) # (fl, 1) # singles ns @ [(mem, ?n), (stk, 4)]) @ singles qs"
        "set qs = insert task (set (space_pages s1 chunk))"
      using p(12) by (auto simp: load_blocks_def)
    then have "set (space_pages s1 chunk) \<subseteq> fst ` set ps" by (auto simp: image_Un)
    then show ?thesis using p(4) unfolding acquired_def by blast
  qed
  have "(proc, 3) \<in> set ps" using p(12) by (auto simp: load_blocks_def)
  then have pl: "k_live s proc = None" "k_live s1 proc = Some 3" using ac1(5,6) by blast+
  let ?q0 = "new_process shell_path fl stk task"
  have r1: "runs_in s1 proc ?q0 chunk" "file_at s1 mem c chunk"
      "\<And>w. page_aligned w \<Longrightarrow> page_of s1 chunk w = stack_space stk (elf_space mem (all_phdrs c) (\<lambda>w. w OR 5)) w"
    using p(2) by (simp_all add: process_loaded_def)
  obtain u where u: "tasks s1 task = Some u" "registers u = initial_registers (Some (le32 c 24))" "Task.task.process u = proc"
    using p(2) by (auto simp: process_loaded_def)
  let ?m = "store32 (store_bytes (ram s1) arg (t @ [0])) (arg + 512) 0"
  note sa = stored_arg [OF t(3,2) arg(1), where old = "ram s1"]
  have heap: "in_heap s1 a = in_heap s a" for a using ac1(2) by (simp add: in_heap_def)
  let ?s2 = "s1\<lparr>curr_process := proc, ram := ?m\<rparr>"
  have k2: "kernel_heap ?s2 = kernel_heap s1" by simp
  have f2: "k_inv ?s2" "k_live ?s2 = k_live s1" "pool ?s2 = pool s1" "free_blocks ?s2 = free_blocks s1" "in_heap ?s2 a = in_heap s1 a" for a
    using ac1(1) by (simp_all add: k_inv_def k_live_def pool_def free_blocks_def in_heap_def)
  have m: "?m a = ram s1 a" if "in_heap s1 a" for a
    by (rule sa(3)) (use that arg(2) heap in blast)
  have kp2: "keeps s1 ?s2"
    using write_outside [OF ac1(1) m] by (simp add: keeps_def)
  have le2: "k_live s1 \<subseteq>\<^sub>m k_live ?s2" using f2(2) by simp
  have so1: "space_ok s1 chunk" using r1(1) by (simp add: runs_in_def)
  note sp2 = space_keeps_but [OF ac1(1) so1 keeps_keeps_but [OF kp2, of "{}"] _ le2, simplified]
  have r2: "runs_in ?s2 proc ?q0 chunk" using r1(1) sp2(1) by (auto simp: runs_in_def)
  have slots: "length [t] < free_slots ?q0"
    by (simp add: free_slots_def new_process_def zero_process_def BENOS_MAX_PROGRAM_ALLOCATIONS_def)
  have fb2: "length [t] < free_blocks ?s2"
    using free_blocks_acquired [OF k p(4)] p(5) fb f2(4) by simp
  have st: "\<forall>a \<in> list_region (ram ?s2) arg [t]. stays ?s2 (set (space_pages ?s2 chunk)) a"
    using arg(2) heap f2(5) by (auto simp: stays_def)
  have cl: "command_list (ram ?s2) arg [t]" using sa(1) by simp
  obtain av qs q s3 where j: "process_inject_args ?s2 proc arg = Some (0, s3)" "given ?s2 proc (av # qs) q chunk s3"
      "process_get_args q = (int (length [t]), av)" "q = ?q0\<lparr>args := args q, allocations := allocations q\<rparr>" "length qs = length [t]" "preserves (set (space_pages ?s2 chunk)) ?s2 s3"
      "\<forall>j < length [t]. load32 (ram s3) (word_at av j) = qs ! j \<and> text_at (ram s3) (qs ! j) ([t] ! j)"
    using process_inject_args_run [OF r2 f2(1) slots fb2 _ _ cl _ st] t(3) by auto
  obtain str where qs: "qs = [str]" using j(5) by (cases qs) auto
  note g = givenD [OF j(2)] and fr = given_frame [OF j(2)]
  have ld: "load32 (ram s3) av = str" "text_at (ram s3) str t" using j(7) qs by (simp_all add: word_at_0)
  have pg2: "space_pages ?s2 chunk = space_pages s1 chunk" using sp2(2) by simp
  let ?D = "set (space_pages s1 chunk)"
  have pv: "preserves ?D ?s2 s3" using j(6) pg2 by simp
  have le3: "k_live ?s2 \<subseteq>\<^sub>m k_live s3" by (rule acquired_keeps_le [OF g(1)])
  have live3: "k_live s3 av = Some 1" "k_live s3 str = Some 1" "k_live ?s2 av = None" "k_live ?s2 str = None"
    using acquiredD(5,6) [OF g(1), of _ 1] qs by (simp_all add: singles_def)
  have D2: "?D \<subseteq> dom (k_live ?s2)" using so1 f2(2) by (simp add: space_ok_def)
  have kb: "keeps_but ?D ?s2 s3" by (rule preserves_keeps_but [OF pv])
  have "keeps s s3"
  proof -
    have "ram s3 a = ram ?s2 a" if "k_live s x = Some y" "unat (a - x) < y * 4096" for x y a
    proof (rule keeps_butD [OF kb _ _ that(2)])
      show "k_live ?s2 x = Some y" using that(1) le1 f2(2) by (auto simp: map_le_def dom_def)
      show "x \<notin> ?D" using pages that(1) by auto
    qed
    moreover have "keeps s ?s2" by (rule keeps_trans [OF p(3) kp2 le1])
    ultimately show ?thesis unfolding keeps_def by metis
  qed
  have file3: "file_at s3 mem c chunk"
  proof -
    have "file_at ?s2 mem c chunk"
      using file_at_keeps [OF ac1(1) r1(2) keeps_keeps_but [OF kp2] pg2 le2] .
    from file_at_keeps [OF f2(1) this _ _ le3] show ?thesis using kb pg2 g(3) by simp
  qed
  have pg3: "page_of s3 chunk w = (if w = av \<or> w = str then w OR 7
      else stack_space stk (elf_space mem (all_phdrs c) (\<lambda>w. w OR 5)) w)" if w: "page_aligned w" for w
    using g(4) [OF w] sp2(4) [OF w] r1(3) [OF w] qs by simp
  have tasks3: "tasks s3 = tasks s1" using fr(1) by simp
  have ptask: "proc_task q = task" by (subst j(4)) (simp add: new_process_def)
  have dp: "proc \<in> dom (k_live s3)" using pl(2) f2(2) le3 by (auto simp: map_le_def dom_def)
  have ga: "process_get_args q = (1, av)" using j(3) by simp
  have dis: "{av, str} \<inter> set (space_pages s3 chunk) = {}" using live3(3,4) D2 pg2 g(3) by auto
  have tu: "\<exists>u. tasks s3 task = Some u \<and> registers u = initial_registers (Some (le32 c 24)) \<and> Task.task.process u = proc"
    using u tasks3 by simp
  have "ready s3 c t proc task"
    unfolding ready_def
  proof (intro conjI dp exI)
    show "runs_in s3 proc q chunk" "proc_task q = task" "file_at s3 mem c chunk" by (rule g(2), rule ptask, rule file3)
    show "process_get_args q = (1, av)" "{av, str} \<inter> set (space_pages s3 chunk) = {}" by (rule ga, rule dis)
    show "\<forall>w. page_aligned w \<longrightarrow> page_of s3 chunk w = (if w = av \<or> w = str then w OR 7
      else stack_space stk (elf_space mem (all_phdrs c) (\<lambda>w. w OR 5)) w)" using pg3 by blast
  qed (use live3(1,2) ld t(3) u tasks3 in simp_all)
  moreover have "start_shell dev arg s old txt = Some (Inr (proc, s3))"
    using p(1) j(1) t(1) by (simp add: start_shell_def process_load_switch_def process_switch_def status_simps Let_def)
  moreover have "boot_frame dev s s3"
  proof -
    have "volume s3 = volume s1" "disk_filesystem s3 = disk_filesystem s1" using fr(7) by (simp_all add: volume_def)
    then show ?thesis
      using p(10) fr(5,6,8,10,12) tasks3 \<open>keeps s s3\<close> by (simp add: boot_frame_def load_frame_def tasks_kept_def)
  qed
  moreover have "acquired s (ps @ singles (av # qs)) s3"
  proof -
    have "acquired s ps ?s2" using p(4) acquired_cong [of ?s2 s1] by simp
    then show ?thesis by (rule acquired_trans [OF _ g(1)])
  qed
  moreover have "blocks (ps @ singles (av # qs)) = ?k + ?n + 1037" using p(5) qs by simp
  moreover have "task_list s3 (xs @ [task])" "prev_ok s3 (xs @ [task])"
    using p(6,7) tasks3 fr(2,3) by (simp_all add: task_list_def prev_ok_def)
  moreover have "tasks_live s3"
    using p(8) tasks3 le3 f2(2) by (auto simp: tasks_live_def map_le_def dom_def)
  moreover have "current_task s3 = (if xs = [] then task else current_task s)" "curr_process s3 = proc"
    "processes s3 = (processes s)(proc \<mapsto> q)"
    using p(9,11) fr by simp_all
  ultimately show ?thesis using pl(1) by blast
qed

subsection \<open>Mounting the boot disk\<close>

text \<open>
  The file \<open>path\<close> of the disk holds \<open>c\<close>: the disk has the FAT16 signature and a root directory, and with this directory
  loaded the file is \<open>c\<close>.
\<close>

definition mounted_private :: "device \<Rightarrow> nat \<Rightarrow> nat \<Rightarrow> nat \<Rightarrow> fat_private" where
  "mounted_private dev p n k = \<lparr>private_addr = 0, header = fat_h_of (disk_bytes dev 0 62),
     root_dir = loaded_root dev (fat_h_of (disk_bytes dev 0 62)) 0 0 p n k,
     cluster_read_stream = Some (boot_stream 0), fat_read_stream = Some (boot_stream 0), dir_stream = Some (boot_stream 0)\<rparr>"

definition disk_file :: "device \<Rightarrow> byte list list \<Rightarrow> byte list \<Rightarrow> bool" where
  "disk_file dev path c \<longleftrightarrow> signature (extended_header (fat_h_of (disk_bytes dev 0 62))) = 0x29 \<and>
     (\<exists>p n k. root_ok dev (fat_h_of (disk_bytes dev 0 62)) p n k \<and>
        fat_file dev (boot_drive, Some 0, Some (mounted_private dev p n k)) path c)"

lemma fat_file_mounted:
  assumes f: "fat_file dev (boot_drive, x, Some fp0) path c"
    and m: "mounting fp0 b h" "mounting fp a h" "root_dir fp0 = loaded_root dev h 0 q0 p n k" "root_dir fp = loaded_root dev h 0 q p n k"
  shows "fat_file dev (boot_drive, y, Some fp) path c"
proof -
  have e: "entry_at (root_dir fp) j = entry_at (root_dir fp0) j" "dir_total (root_dir fp) = dir_total (root_dir fp0)"
      "items (root_dir fp) = items (root_dir fp0)" "header fp = header fp0"
      "ending_sector_pos (root_dir fp) = ending_sector_pos (root_dir fp0)" for j
    using m by (simp_all add: loaded_root_def entry_at_def mounting_def)
  have s: "dir_ok (root_dir fp) = dir_ok (root_dir fp0)" "only_entry (root_dir fp) t j = only_entry (root_dir fp0) t j"
      "cluster_bytes fp = cluster_bytes fp0" "data_pos fp cl = data_pos fp0 cl" for t j cl
    by (simp_all add: dir_ok_def only_entry_def cluster_bytes_def data_pos_def e)
  have g: "cluster_ok boot_drive fp cl" if "cluster_ok boot_drive fp0 cl" for cl
    using that m(2) by (auto simp: cluster_ok_def s e mounting_def)
  show ?thesis
    using f g unfolding fat_file_def prod.case by (auto simp: s e)
qed

lemma mounting_reference: "mounting (mounted_private dev p n k) 0 (fat_h_of (disk_bytes dev 0 62))"
  "root_dir (mounted_private dev p n k) = loaded_root dev (fat_h_of (disk_bytes dev 0 62)) 0 0 p n k"
  by (simp_all add: mounting_def mounted_private_def loaded_root_def boot_stream_def)

lemma mount_run:
  assumes "filesystems s = Some 0 # replicate m None" "k_inv s" "6 \<le> free_blocks s" "disk_file dev path c" "sectors_512 dev"
  obtains h r fp s' ps where "disk_search_and_init (kernel_fs dev) s = Some s'"
    "s' = s\<lparr>kernel_heap := h, ram := r, the_disk := boot_drive, disk_filesystem := Some 0, disk_private := Some fp\<rparr>"
    "fat_file dev (volume s') path c" "acquired s (singles ps) s'" "length ps = 5"
proof -
  let ?h = "fat_h_of (disk_bytes dev 0 62)"
  obtain p n k where d: "signature (extended_header ?h) = 0x29" "root_ok dev ?h p n k"
      "fat_file dev (boot_drive, Some 0, Some (mounted_private dev p n k)) path c"
    using assms(4) by (auto simp: disk_file_def)
  let ?s1 = "s\<lparr>the_disk := boot_drive, disk_filesystem := None, disk_private := None\<rparr>"
  have k1: "k_inv ?s1" "6 \<le> free_blocks ?s1" using assms(2,3) by (simp_all add: k_inv_def free_blocks_def)
  have bd: "disk_id boot_drive = 0" "sector_size boot_drive = 512" by (simp_all add: boot_drive_def)
  obtain s2 fp q ps where r: "fat16_resolve dev boot_drive ?s1 = Some (0, s2, Some fp)" "mounting fp (private_addr fp) ?h"
      "root_dir fp = loaded_root dev ?h 0 q p n k" "grown k_live k_inv ?s1 ps s2" "length ps = 5"
    using fat16_resolve_run [OF assms(5) k1 bd refl d(1,2)] by blast
  have kf: "kframe s2 = kframe ?s1" by (rule fat16_resolve_more [OF r(1)])
  have e2: "s2 = ?s1\<lparr>kernel_heap := kernel_heap s2, ram := ram s2\<rparr>"
    using kframe_more [OF kf] by (cases s; cases s2) simp
  let ?s' = "s2\<lparr>disk_filesystem := Some 0, disk_private := Some fp\<rparr>"
  have "disk_search_and_init (kernel_fs dev) s = Some ?s'"
    using r(1) assms(1)
    by (simp add: disk_search_and_init_def fs_resolve_def kernel_fs_def fat16_fs_def fat16_init_def boot_drive_def
        BENOS_SECTOR_SIZE_def)
  moreover have "?s' = s\<lparr>kernel_heap := kernel_heap s2, ram := ram s2, the_disk := boot_drive, disk_filesystem := Some 0,
      disk_private := Some fp\<rparr>"
    by (subst e2) simp
  moreover have "fat_file dev (volume ?s') path c"
  proof -
    have "volume ?s' = (boot_drive, Some 0, Some fp)" by (subst e2) (simp add: volume_def)
    then show ?thesis using fat_file_mounted [OF d(3) mounting_reference(1) r(2) mounting_reference(2) r(3)] by simp
  qed
  moreover have "acquired s (singles ps) ?s'"
  proof -
    have "acquired ?s1 (singles ps) s2" by (rule acquired_grown [OF r(4) kframe_pool [OF kf]])
    then show ?thesis using acquired_cong_left [of ?s1 s] acquired_cong [of ?s' s2] by simp
  qed
  ultimately show ?thesis using that r(5) by blast
qed

subsection \<open>The initialisation of the kernel\<close>

text \<open>The machine as the boot code leaves it: the kernel's variables are zero, and the stack of the kernel lies below the heap.\<close>

definition power_on :: "image \<Rightarrow> 'z bstate_scheme \<Rightarrow> bool" where
  "power_on im s \<longleftrightarrow> length (heap_table_bytes im) = 25600 \<and> length (interrupt_pointer_table im) = 512 \<and>
     arg_addr im \<noteq> 0 \<and> unat (arg_addr im) + 516 \<le> 0x01000000 \<and>
     length (video_memory (screen s)) = SCREEN_CELLS \<and> interrupt_callbacks s = replicate 512 None \<and>
     isr80h_commands s = replicate 1024 None \<and> tasks s = Map.empty \<and> task_head s = 0 \<and> current_task s = 0 \<and>
     processes s = Map.empty \<and> process_table s = replicate BENOS_MAX_PROCESSES 0"

lemma paging_start:
  assumes "k_inv s" "1026 \<le> free_blocks s"
  obtains h r d chunk s' ps where "start_paging s = Some s'"
    "s' = s\<lparr>kernel_heap := h, ram := r, kernel_chunk := chunk, cr3 := d, curr_dir := d, paging_enabled := True\<rparr>"
    "acquired s (singles ps) s'" "length ps = 1026" "space_ok s' chunk" "\<And>v. page_aligned v \<Longrightarrow> page_of s' chunk v = v OR 7"
proof -
  have f: "ucast (PAGING_IS_WRITABLE OR PAGING_IS_PRESENT OR PAGING_ACCESS_FROM_ALL) = (7 :: byte)"
    by (simp add: paging_consts)
  obtain chunk dir ts s1 where n: "paging_new_4gb s 7 = Some (chunk, s1)" "space_built s (ucast (7 :: byte)) chunk dir ts s1"
    using paging_new_4gb_result [OF assms, of 7] by blast
  note kf = paging_new_4gb_more [OF n(1)]
  have e1: "s1 = s\<lparr>kernel_heap := kernel_heap s1, ram := ram s1\<rparr>"
    using kframe_more [OF kf] by (cases s; cases s1) simp
  note sb = space_built_ok [OF n(2)]
  let ?d = "chunk_dir s1 chunk"
  let ?s' = "s1\<lparr>kernel_chunk := chunk, cr3 := ?d, curr_dir := ?d, paging_enabled := True\<rparr>"
  have same: "chunk_dir ?s' chunk = ?d" "space_pages ?s' chunk = space_pages s1 chunk" "space_ok ?s' chunk = space_ok s1 chunk"
      "page_of ?s' chunk v = page_of s1 chunk v" for v
    by (simp_all add: chunk_dir_def space_pages_def space_ok_def chunk_wf_def page_of_def paging_get_def k_live_def)
  have "start_paging s = Some ?s'"
    using n(1) f by (simp add: start_paging_def paging_switch_def paging_4g_chunk_get_dir_def chunk_dir_def Let_def)
  moreover have "?s' = s\<lparr>kernel_heap := kernel_heap s1, ram := ram s1, kernel_chunk := chunk, cr3 := ?d, curr_dir := ?d,
      paging_enabled := True\<rparr>"
    by (rule arg_cong [where f = "\<lambda>x. x\<lparr>kernel_chunk := chunk, cr3 := ?d, curr_dir := ?d, paging_enabled := True\<rparr>", OF e1, simplified])
  moreover have "acquired s (singles (ts @ [dir, chunk])) ?s'"
    using space_built_acquired [OF n(2) kf] acquired_cong [of ?s' s1] by simp
  moreover have "length (ts @ [dir, chunk]) = 1026" using space_builtD(2) [OF n(2)] by simp
  moreover have "space_ok ?s' chunk" using sb(1) same(3) by simp
  moreover have "page_of ?s' chunk v = v OR 7" if "page_aligned v" for v using sb(3) [OF that] same(4) by simp
  ultimately show ?thesis using that by blast
qed

lemma kernel_init_run:
  assumes s: "power_on im s" and d: "disk_file dev path c" "sectors_512 dev"
  obtains s' ps where "kernel_init dev im s = Some (Inr s')" "kernel_wf s'" "k_inv s'" "pool s' = pool fresh_kmem"
    "\<And>n. 0 < n \<Longrightarrow> 25600 div n \<le> run_count n s' + 1031" "fat_file dev (volume s') path c" "disk_filesystem s' = Some 0"
    "file_descriptors s' = replicate 512 None" "tasks s' = Map.empty" "task_head s' = 0" "current_task s' = 0"
    "processes s' = Map.empty" "process_table s' = replicate BENOS_MAX_PROCESSES 0"
    "space_ok s' (kernel_chunk s')" "\<And>v. page_aligned v \<Longrightarrow> page_of s' (kernel_chunk s') v = v OR 7"
proof -
  note p = s [unfolded power_on_def]
  obtain t where t: "ter_init (screen s) = Some t" "length (video_memory t) = SCREEN_CELLS"
    using ter_init_clears [of "screen s"] p by (auto simp: SCREEN_CELLS_def)
  obtain g where g: "gdt_structured_to_gdt (kernel_gdt (tss_addr im)) = Inr g" using kernel_gdt_encodes by blast
  let ?fh = "\<lparr>table = \<lparr>entries = replicate 25600 0, total = 25600\<rparr>, saddr = BENOS_HEAD_ADDRESS\<rparr>"
  have fh: "kernel_heap fresh_kmem = ?fh" by (simp add: fresh_kmem_def)
  let ?s1 = "s\<lparr>screen := t, gdt_real := g, gdtr := (48, gdt_addr im)\<rparr>"
  let ?s2 = "?s1\<lparr>kernel_heap := ?fh\<rparr>"
  have i2: "init_heap im ?s1 = Some ?s2"
    using kheap_init_result [of "heap_table_bytes im" ?s1] p by (simp add: init_heap_def)
  let ?s3 = "?s2\<lparr>filesystems := Some 0 # replicate 11 None, file_descriptors := replicate 512 None\<rparr>"
  have i3: "fs_init ?s2 = Some ?s3"
  proof -
    have r: "replicate BENOS_MAX_FILESYSTEMS None = (None :: nat option) # replicate 11 None"
      by (simp add: status_simps numeral_eq_Suc)
    show ?thesis
      by (simp add: fs_init_def fs_load_def fs_static_load_def fs_insert_filesystem_def fs_get_free_filesystem_def
          r fat16_init_def BENOS_MAX_FILE_DESCRIPTORS_def)
  qed
  have k3: "k_inv ?s3" "free_blocks ?s3 = 25600" "pool ?s3 = pool fresh_kmem"
    using fresh_kmem by (simp_all add: k_inv_def free_blocks_def pool_def fh)
  have r3: "run_count n ?s3 = 25600 div n" if "0 < n" for n by (rule fresh_runs [OF _ that]) (simp add: fh)
  have k3': "6 \<le> free_blocks ?s3" using k3(2) by simp
  obtain h r fp s4 ps where i4: "disk_search_and_init (kernel_fs dev) ?s3 = Some s4"
      "s4 = ?s3\<lparr>kernel_heap := h, ram := r, the_disk := boot_drive, disk_filesystem := Some 0, disk_private := Some fp\<rparr>"
      "fat_file dev (volume s4) path c" "acquired ?s3 (singles ps) s4" "length ps = 5"
    by (rule mount_run [OF _ k3(1) k3' d, of 11]) (simp, rule that)
  have f4: "tasks s4 = Map.empty" "task_head s4 = 0" "current_task s4 = 0" "processes s4 = Map.empty"
      "process_table s4 = replicate BENOS_MAX_PROCESSES 0" "screen s4 = t" "interrupt_callbacks s4 = replicate 512 None"
      "isr80h_commands s4 = replicate 1024 None" "disk_filesystem s4 = Some 0" "file_descriptors s4 = replicate 512 None"
    unfolding i4(2) using p by simp_all
  have k4: "k_inv s4" "pool s4 = pool fresh_kmem" using acquiredD(1,2) [OF i4(4)] k3(3) by simp_all
  let ?idt = "(map gate_for (interrupt_pointer_table im))[0 := gate_for (idt_zero_addr im), 0x80 := gate_for (isr80h_wrapper_addr im)]"
  let ?cs = "(replicate 32 (Some Idt_handle_exception) @ drop 32 (replicate 512 None))[32 := Some Idt_clock]"
  let ?s5 = "load_tss (s4\<lparr>idt_descriptors := ?idt, idtr := \<lparr>idtr_limit = 4095, idtr_base = idt_addr im\<rparr>, interrupt_callbacks := ?cs\<rparr>)"
  have i5: "load_idt im s4 =
      Some (s4\<lparr>idt_descriptors := ?idt, idtr := \<lparr>idtr_limit = 4095, idtr_base = idt_addr im\<rparr>, interrupt_callbacks := ?cs\<rparr>)"
    using idt_init_eq [of "interrupt_pointer_table im" "replicate 512 (None :: interrupt_callback option)"] p
    by (simp add: load_idt_def f4(7))
  have h5: "kernel_heap ?s5 = kernel_heap s4" by (simp add: load_tss_def)
  have k5: "k_inv ?s5" "free_blocks ?s5 = free_blocks s4" using k4(1) h5 by (simp_all add: k_inv_def free_blocks_def)
  have "1026 \<le> free_blocks ?s5" using free_blocks_acquired [OF k3(1) i4(4)] i4(5) k3(2) k5(2) by simp
  then obtain h6 r6 d6 chunk s6 qs where i6: "start_paging ?s5 = Some s6"
      "s6 = ?s5\<lparr>kernel_heap := h6, ram := r6, kernel_chunk := chunk, cr3 := d6, curr_dir := d6, paging_enabled := True\<rparr>"
      "acquired ?s5 (singles qs) s6" "length qs = 1026" "space_ok s6 chunk" "\<And>v. page_aligned v \<Longrightarrow> page_of s6 chunk v = v OR 7"
    using paging_start [OF k5(1)] by metis
  have f6: "tasks s6 = Map.empty" "task_head s6 = 0" "current_task s6 = 0" "processes s6 = Map.empty"
      "process_table s6 = replicate BENOS_MAX_PROCESSES 0" "screen s6 = t" "interrupt_callbacks s6 = ?cs"
      "isr80h_commands s6 = replicate 1024 None" "disk_filesystem s6 = Some 0" "file_descriptors s6 = replicate 512 None"
      "kernel_chunk s6 = chunk" "volume s6 = volume s4"
    unfolding i6(2) using f4 by (simp_all add: load_tss_def volume_def)
  have ac6: "acquired ?s3 (singles ps @ singles qs) s6"
    by (rule acquired_trans [OF i4(4)]) (use i6(3) acquired_cong_left [OF h5] in blast)
  obtain fs where fs: "isr80h_register_commands (replicate 1024 None) = Some (Inr fs)"
      "\<And>n. isr80h_find_command fs n = Some (map_of system_commands n)"
    using isr80h_commands_registered by blast
  let ?s7 = "s6\<lparr>isr80h_commands := fs\<rparr>"
  have i7: "register_isr80h s6 = Some (Inr ?s7)" using fs(1) f6(8) by (simp add: register_isr80h_def)
  let ?cs8 = "?cs[33 := Some Classic_keyboard_handle_interrupt]"
  let ?s8 = "?s7\<lparr>keyboards := keyboards ?s7 @ [c_string ''classic''], interrupt_callbacks := ?cs8, caps_lock := KEYBOARD_CAPS_LOCK_OFF,
    ports := ports ?s7 @ [(PS2_PORT, PS2_COMMAND_ENABLE_FIRST_PORT)]\<rparr>"
  have i8: "keyboard_init ?s7 = Some ?s8"
    using f6(7)
    by (simp add: keyboard_init_def keyboard_insert_def classic_init_def classic_keyboard_def classic_keyboard_init_def
        idt_register_interrupt_callback_def ISR_KEYBOARD_INTERRUPT_def BENOS_TOTAL_INTERRUPTS_def wr_def Let_def
        keyboard_set_capslock_def outb_def)
  have r1: "kernel_init dev im s = Some (Inr ?s8)"
    using t(1) g i2 i3 i4(1) i5 i6(1) i7 i8 by (simp add: kernel_init_def load_gdt_def)
  have r2: "kernel_wf ?s8"
  proof -
    have "length ?cs8 = 512" by simp
    moreover have "?cs8 ! i = (if i < 0x20 then Some Idt_handle_exception else if i = 0x20 then Some Idt_clock
         else if i = 0x21 then Some Classic_keyboard_handle_interrupt else None)" if "i < 512" for i
      using that by (auto simp: nth_list_update nth_append)
    ultimately show ?thesis
      using f6(4-6) t(2) fs(2) by (simp add: kernel_wf_def tables_ok_def processes_wf_def)
  qed
  have r34: "k_inv ?s8" "pool ?s8 = pool fresh_kmem"
    using acquiredD(1,2) [OF ac6] k3(3) by (simp_all add: k_inv_def pool_def)
  have r5: "25600 div n \<le> run_count n ?s8 + 1031" if "0 < n" for n
  proof -
    have "run_count n ?s8 = run_count n s6" by (rule run_count_cong) simp
    then show ?thesis using run_count_acquired [OF k3(1) ac6 that] r3 [OF that] i4(5) i6(4) by simp
  qed
  have r6: "fat_file dev (volume ?s8) path c" using i4(3) f6(12) by (simp add: volume_def)
  have ch: "kernel_chunk ?s8 = chunk" using f6(11) by simp
  have r14: "space_ok ?s8 (kernel_chunk ?s8)"
    using i6(5) unfolding ch by (simp add: chunk_dir_def space_pages_def space_ok_def chunk_wf_def k_live_def)
  have r15: "page_of ?s8 (kernel_chunk ?s8) v = v OR 7" if "page_aligned v" for v
    using i6(6) [OF that] unfolding ch by (simp add: chunk_dir_def page_of_def paging_get_def)
  have r7: "disk_filesystem ?s8 = Some 0" "file_descriptors ?s8 = replicate 512 None" "tasks ?s8 = Map.empty"
      "task_head ?s8 = 0" "current_task ?s8 = 0" "processes ?s8 = Map.empty" "process_table ?s8 = replicate BENOS_MAX_PROCESSES 0"
    using f6 by simp_all
  show ?thesis by (rule that [OF r1 r2 r34 r5 r6 r7 r14 r15])
qed

lemma start_shell_wf:
  assumes "start_shell dev arg s old txt = Some (Inr (proc, s'))" "kernel_wf s"
  shows "kernel_wf s'"
proof -
  obtain p s1 q where r: "process_load_switch dev s shell_path old = Some (Inr (0, p, s1))"
      "process_inject_args (s1\<lparr>ram := store32 (store_bytes (ram s1) arg (c_string txt)) (arg + 512) 0\<rparr>) p arg = Some (q, s')"
    using assms(1) by (auto simp: start_shell_def status_simps Let_def split: bind_splits sum.splits if_splits prod.splits)
  show ?thesis
    by (rule kernel_wf_keeps [OF process_inject_args_wf [OF r(2)]]) (use kernel_wf_load_switch [OF r(1) assms(2)] in simp)
qed

lemma boot_frame_load:
  assumes "boot_frame dev s s'" "loadable dev s path c i"
  shows "loadable dev s' path c i"
  using assms by (simp add: boot_frame_def loadable_def)

lemma boot_rooms:
  assumes "1 \<le> n" "n \<le> 12" "\<And>m. 0 < m \<Longrightarrow> 25600 div m \<le> run_count m s + 2083" "k_inv s"
  shows "load_room s 3 n" "3 + n + 1037 \<le> free_blocks s"
proof -
  have "25600 div 12 \<le> 25600 div n" using assms(1,2) by (intro div_le_mono2) simp_all
  then show "load_room s 3 n"
    using assms(3) [of n] assms(3) [of 3] assms(3) [of 4] assms(3) [of 1] assms(1,2) run_count_1 [OF assms(4)]
    by (simp add: load_room_def)
  show "3 + n + 1037 \<le> free_blocks s" using assms(3) [of 1] assms(2) run_count_1 [OF assms(4)] by simp
qed

lemma shell_path: "terminated shell_path" "length (cstr shell_path) \<le> 108" "valid_path (cstr shell_path)"
  "tonum (cstr shell_path ! 0) = 0" "components (drop 3 (cstr shell_path)) = [map of_char ''blank.elf'']" "path_nodes shell_path = 3"
proof -
  have e: "shell_path = blank_path" by (simp add: shell_path_def blank_path_def c_string_def)
  show "terminated shell_path" "length (cstr shell_path) \<le> 108" "valid_path (cstr shell_path)" "tonum (cstr shell_path ! 0) = 0"
    unfolding e by (rule blank_path)+
  show c: "components (drop 3 (cstr shell_path)) = [map of_char ''blank.elf'']" unfolding e blank_path(5) by simp
  show "path_nodes shell_path = 3" by (simp add: path_nodes_def c)
qed

lemma kernel_boots_run:
  assumes "power_on im s" "disk_file dev [map of_char ''blank.elf''] c" "52 \<le> length c" "length c \<le> 49152"
    "elf_accepted c" "headers_inside c" "phdrs_inside c"
  shows "\<exists>p1 t1 p2 t2 s'. kernel_main dev im fl s = Some (In_task s') \<and> kernel_wf s' \<and> k_inv s' \<and>
    space_ok s' (kernel_chunk s') \<and> (\<forall>v. page_aligned v \<longrightarrow> page_of s' (kernel_chunk s') v = v OR 7) \<and>
    task_list s' [t1, t2] \<and> ready s' c (map of_char ''Testing!'') p1 t1 \<and> ready s' c (map of_char ''ABC!'') p2 t2 \<and>
    current_task s' = t1 \<and> curr_process s' = p2 \<and> p1 \<noteq> p2 \<and>
    cpu s' = (initial_registers (Some (le32 c 24)))\<lparr>flags := fl OR 0x200\<rparr> \<and>
    (\<exists>t. tasks s' t1 = Some t \<and> cr3 s' = chunk_dir s' (page_directory t))"
proof -
  let ?n = "blocks_of (word_of_nat (length c))"
  have sec: "sectors_512 dev" using assms(2) by (auto simp: disk_file_def fat_file_def)
  obtain s1 ps where i: "kernel_init dev im s = Some (Inr s1)" "kernel_wf s1" "k_inv s1" "pool s1 = pool fresh_kmem"
    "\<And>n. 0 < n \<Longrightarrow> 25600 div n \<le> run_count n s1 + 1031" "fat_file dev (volume s1) [map of_char ''blank.elf''] c"
    "disk_filesystem s1 = Some 0"
    "file_descriptors s1 = replicate 512 None" "tasks s1 = Map.empty" "task_head s1 = 0" "current_task s1 = 0"
    "processes s1 = Map.empty" "process_table s1 = replicate BENOS_MAX_PROCESSES 0"
    "space_ok s1 (kernel_chunk s1)" "\<And>v. page_aligned v \<Longrightarrow> page_of s1 (kernel_chunk s1) v = v OR 7"
    by (rule kernel_init_run [OF assms(1,2) sec]) (rule that)
  have fs0: "free_slot (file_descriptors s1) 0 = Some 0" unfolding i(8) by (simp add: free_slot_0)
  have l1: "loadable dev s1 shell_path c 0"
    using shell_path i(6,7) fs0 assms(3,4) by (simp add: loadable_def)
  have u: "unat (word_of_nat (length c) :: u32) = length c" using assms(4) by (intro unat_of_nat_u32) linarith
  have n: "1 \<le> ?n" "?n \<le> 12"
    using assms(3,4) div_le_mono [of "length c + 4095" 53247 4096] div_le_mono [of 4096 "length c + 4095" 4096]
    unfolding blocks_of_def u by simp_all
  have pt: "process_table s1 = 0 # replicate 11 0" using i(13) by (simp add: BENOS_MAX_PROCESSES_def numeral_eq_Suc)
  have tl: "task_list s1 []" "prev_ok s1 []" "tasks_live s1" using i(9,10) by (simp_all add: task_list_def prev_ok_def tasks_live_def)
  have arg: "arg_addr im \<noteq> 0" "unat (arg_addr im) + 516 \<le> 16777216" using assms(1) by (simp_all add: power_on_def)
  have out: "\<forall>a \<in> region (arg_addr im) 516. \<not> in_heap t a" if "pool t = pool s1" for t :: "'a bstate_scheme"
  proof
    fix a assume "a \<in> region (arg_addr im) 516"
    then have a: "unat (a - arg_addr im) < 516" by (simp add: region_def)
    have "unat a = unat (arg_addr im) + unat (a - arg_addr im)"
      by (rule unat_in_region [OF _ a]) (use arg(2) in simp)
    moreover have "pool t = (0x01000000, 25600)" using that i(4) by (simp add: pool_def fresh_kmem_def status_simps)
    ultimately show "\<not> in_heap t a" using a arg(2) by (simp add: in_heap_def)
  qed
  have t1: "c_string ''Testing!'' = map of_char ''Testing!'' @ [0]" "0 \<notin> set (map of_char ''Testing!'' :: byte list)"
      "length (map of_char ''Testing!'' :: byte list) \<le> 511" by (simp_all add: c_string_def)
  have t2: "c_string ''ABC!'' = map of_char ''ABC!'' @ [0]" "0 \<notin> set (map of_char ''ABC!'' :: byte list)"
      "length (map of_char ''ABC!'' :: byte list) \<le> 511" by (simp_all add: c_string_def)
  have "25600 div m \<le> run_count m s1 + 2083" if "0 < m" for m using i(5) [OF that] by simp
  note rm1 = boot_rooms [OF n this i(3), folded shell_path(6)]
  obtain p1 k1 ps1 q1 s2 where a: "start_shell dev (arg_addr im) s1 0 ''Testing!'' = Some (Inr (p1, s2))"
      "ready s2 c (map of_char ''Testing!'') p1 k1" "boot_frame dev s1 s2" "acquired s1 ps1 s2"
      "blocks ps1 = path_nodes shell_path + ?n + 1037" "task_list s2 [k1]" "prev_ok s2 [k1]" "tasks_live s2"
      "current_task s2 = k1" "curr_process s2 = p1" "processes s2 = (processes s1)(p1 \<mapsto> q1)" "k_live s1 p1 = None"
    using start_shell_run [OF l1 i(3) rm1 assms(5-7) pt tl arg(1) out [OF refl] t1, of 0] by auto
  note b = a(3) [unfolded boot_frame_def]
  have k2: "k_inv s2" "pool s2 = pool s1" using acquiredD(1,2) [OF a(4)] by simp_all
  have "25600 div m \<le> run_count m s2 + 2083" if "0 < m" for m
    using run_count_acquired [OF i(3) a(4) that] i(5) [OF that] a(5) shell_path(6) n(2) by simp
  note rm2 = boot_rooms [OF n this k2(1), folded shell_path(6)]
  have pt2: "process_table s2 = 0 # replicate 11 0" using b pt by simp
  obtain p2 k2' ps2 q2 s3 where c: "start_shell dev (arg_addr im) s2 p1 ''ABC!'' = Some (Inr (p2, s3))"
      "ready s3 c (map of_char ''ABC!'') p2 k2'" "boot_frame dev s2 s3" "acquired s2 ps2 s3"
      "task_list s3 [k1, k2']" "current_task s3 = k1" "curr_process s3 = p2" "processes s3 = (processes s2)(p2 \<mapsto> q2)"
      "k_live s2 p2 = None"
    using start_shell_run [OF boot_frame_load [OF a(3) l1] k2(1) rm2 assms(5-7) pt2 a(6-8) arg(1) out [OF k2(2)] t2, of p1] a(9)
    by auto
  note d = c(3) [unfolded boot_frame_def]
  have k3: "k_inv s3" "k_live s2 \<subseteq>\<^sub>m k_live s3" "k_live s1 \<subseteq>\<^sub>m k_live s2"
    using acquiredD(1) [OF c(4)] acquired_keeps_le [OF c(4)] acquired_keeps_le [OF a(4)] by simp_all
  have ne: "p1 \<noteq> p2" using a(2) c(9) by (auto simp: ready_def)
  have ready1: "ready s3 c (map of_char ''Testing!'') p1 k1"
    by (rule ready_kept [OF a(2) k2(1) _ k3(2)]) (use d c(8) ne in simp_all)
  obtain u1 where u1: "tasks s3 k1 = Some u1" "registers u1 = initial_registers (Some (le32 c 24))"
    using ready1 by (auto simp: ready_def)
  have hd: "k1 \<noteq> 0" "task_head s3 = k1" using c(5) by (auto simp: task_list_def)
  let ?dir = "chunk_dir s3 (page_directory u1)"
  let ?s4 = "task_return (paging_switch (s3\<lparr>current_task := k1\<rparr>) (page_directory u1)) fl (registers u1)"
  have e4: "?s4 = s3\<lparr>current_task := k1, cr3 := ?dir, curr_dir := ?dir, cpu := (registers u1)\<lparr>flags := fl OR 0x200\<rparr>,
      data_segment := ss (registers u1) AND 0xFFFF\<rparr>"
    by (simp add: task_return_def paging_switch_def paging_4g_chunk_get_dir_def chunk_dir_def Let_def)
  have "task_run_first_ever_task s3 fl = Some (Inr ?s4)"
    using hd u1(1) c(6) by (simp add: task_run_first_ever_task_def task_switch_def)
  then have "kernel_main dev im fl s = Some (In_task ?s4)"
    using i(1) a(1) c(1) by (simp add: kernel_main_def)
  moreover have "kernel_wf ?s4"
  proof -
    have "kernel_wf s3" by (rule start_shell_wf [OF c(1) start_shell_wf [OF a(1) i(2)]])
    then show ?thesis unfolding e4 by (simp add: kernel_wf_def tables_ok_def processes_wf_def)
  qed
  moreover have "k_inv ?s4" using k3(1) unfolding e4 by (simp add: k_inv_def)
  moreover have "kernel_chunk ?s4 = kernel_chunk s1" using b d unfolding e4 by simp
  moreover have ks: "space_ok s3 (kernel_chunk s1) \<and> (\<forall>v. page_aligned v \<longrightarrow> page_of s3 (kernel_chunk s1) v = v OR 7)"
  proof -
    note sp1 = space_keeps_but [OF i(3,14) keeps_keeps_but [of s1 s2 "{}"] _ k3(3)]
    have kp: "keeps s1 s2" "keeps s2 s3" using b d by simp_all
    note sp2 = space_keeps_but [OF k2(1) sp1(1) keeps_keeps_but [OF kp(2), of "{}"] _ k3(2)]
    show ?thesis using sp1 sp2 kp(1) i(15) by simp
  qed
  moreover have "space_ok ?s4 x = space_ok s3 x" "page_of ?s4 x v = page_of s3 x v" for x v
    unfolding e4 by (simp_all add: chunk_dir_def space_pages_def space_ok_def chunk_wf_def page_of_def paging_get_def k_live_def)
  moreover have "task_list ?s4 [k1, k2']" using c(5) unfolding e4 by (simp add: task_list_def)
  moreover have "ready ?s4 c w p k" if "ready s3 c w p k" for w p k
    by (rule ready_kept [OF that k3(1)]) (unfold e4, simp_all add: keeps_def tasks_kept_def k_live_def)
  moreover have "current_task ?s4 = k1" "curr_process ?s4 = p2" "cpu ?s4 = (initial_registers (Some (le32 c 24)))\<lparr>flags := fl OR 0x200\<rparr>"
    "tasks ?s4 k1 = Some u1" "cr3 ?s4 = chunk_dir ?s4 (page_directory u1)"
    using u1 c(7) unfolding e4 by (simp_all add: chunk_dir_def)
  ultimately show ?thesis using ready1 c(2) ne by metis
qed

text \<open>
  C1. The kernel boots. On a machine whose drive holds, as \<open>blank.elf\<close> in the root directory, an
  ELF file that the loader accepts, of at most 48 KiB and one cluster, whose entry the lookup visits and whose header
  and program headers describe parts of the file, \<open>kernel_main\<close> ends in user code: it has initialised every
  part of the kernel (the types of its structures and the heap invariant hold, the kernel's own address space is the identity), loaded the
  program twice, with the arguments \<open>Testing!\<close> and \<open>ABC!\<close>, and the processor runs the first of the two
  tasks from the entry point in its own address space, while the keyboard belongs to the second process.
\<close>

theorem kernel_boots:
  assumes "power_on im s" "disk_file dev [map of_char ''blank.elf''] c" "52 \<le> length c" "length c \<le> 49152"
    "elf_accepted c" "headers_inside c" "phdrs_inside c"
  shows "\<exists>p1 t1 p2 t2 s'. kernel_main dev im fl s = Some (In_task s') \<and> kernel_wf s' \<and> k_inv s' \<and>
    space_ok s' (kernel_chunk s') \<and> (\<forall>v. page_aligned v \<longrightarrow> page_of s' (kernel_chunk s') v = v OR 7) \<and>
    task_list s' [t1, t2] \<and> ready s' c (map of_char ''Testing!'') p1 t1 \<and> ready s' c (map of_char ''ABC!'') p2 t2 \<and>
    current_task s' = t1 \<and> curr_process s' = p2 \<and> p1 \<noteq> p2 \<and>
    cpu s' = (initial_registers (Some (le32 c 24)))\<lparr>flags := fl OR 0x200\<rparr> \<and>
    (\<exists>t. tasks s' t1 = Some t \<and> cr3 s' = chunk_dir s' (page_directory t))"
  by (rule kernel_boots_run [OF assms])

subsection \<open>A machine with the boot disk\<close>

definition small_image :: image where
  "small_image = \<lparr>gdt_addr = 0x8000, tss_addr = 0x8100, idt_addr = 0x9000, interrupt_pointer_table = replicate 512 0xA000,
     idt_zero_addr = 0xB000, isr80h_wrapper_addr = 0xC000, heap_table_bytes = replicate 25600 0, arg_addr = 0x200000\<rparr>"

definition small_machine :: bstate where
  "small_machine = kstate.extend (pstate.extend (process_state small_elf)
       \<lparr>keyboards = [], caps_lock = 0, interrupt_callbacks = replicate 512 None, isr80h_commands = replicate 1024 None, ports = []\<rparr>)
     \<lparr>gdt_real = [], gdtr = (0, 0), idt_descriptors = [], idtr = \<lparr>idtr_limit = 0, idtr_base = 0\<rparr>, tss_esp0 = 0, tss_ss0 = 0,
      tr = 0, paging_enabled = False\<rparr>\<lparr>screen := \<lparr>video_memory = replicate SCREEN_CELLS 0, ter_row = 0, ter_column = 0\<rparr>\<rparr>"

lemma small_machine: "power_on small_image small_machine"
proof -
  have "interrupt_callbacks small_machine = replicate 512 None" "isr80h_commands small_machine = replicate 1024 None"
    "screen small_machine = \<lparr>video_memory = replicate SCREEN_CELLS 0, ter_row = 0, ter_column = 0\<rparr>"
    "tasks small_machine = Map.empty" "task_head small_machine = 0" "current_task small_machine = 0"
    "processes small_machine = Map.empty" "process_table small_machine = replicate BENOS_MAX_PROCESSES 0"
    by (simp_all add: small_machine_def kstate.defs pstate.defs process_state_def estate.defs elf_state_def fstate.defs
        mounted_state_def tstate.defs fresh_tstate_def kmem.defs)
  then show ?thesis by (simp add: power_on_def small_image_def)
qed

lemma small_disk: "disk_file (elf_disk small_elf) [map of_char ''blank.elf''] (elf_contents small_elf)"
proof -
  have h: "fat_h_of (disk_bytes (elf_disk small_elf) 0 62) = fat_h_of boot_header"
    by (simp add: elf_disk_def boot_header_bytes)
  have "volume (mounted_state small_elf 0) = (boot_drive, Some 0, Some (boot_private (elf_disk small_elf) 1))"
    by (simp add: volume_def mounted_state_def tstate.defs elf_disk_def)
  moreover have "components (drop 3 (cstr blank_path)) = [map of_char ''blank.elf'']" by (simp add: blank_path(5))
  ultimately have f: "fat_file (elf_disk small_elf) (boot_drive, Some 0, Some (boot_private (elf_disk small_elf) 1))
      [map of_char ''blank.elf''] (elf_contents small_elf)"
    using mounted_state(6) [of small_elf 0] by (simp add: elf_contents_def elf_disk_def)
  have m: "mounting (boot_private (elf_disk small_elf) 1) 0x01000000 (fat_h_of boot_header)"
    "root_dir (boot_private (elf_disk small_elf) 1) = loaded_root (elf_disk small_elf) (fat_h_of boot_header) 0 0x01005000 364544 64 1"
    by (simp_all add: mounting_def boot_private_def loaded_root_def boot_stream_def)
  note r = mounting_reference [of "elf_disk small_elf" 364544 64 1, unfolded h]
  from fat_file_mounted [OF f m(1) r(1) m(2) r(2)] show ?thesis
    unfolding disk_file_def h using boot_header_fields(1) one_file(1) [of small_elf] by (auto simp: elf_disk_def)
qed

theorem kernel_boots_witness:
  "\<exists>p1 t1 p2 t2 s'. kernel_main (elf_disk small_elf) small_image 2 small_machine = Some (In_task s') \<and>
     task_list s' [t1, t2] \<and> ready s' (elf_contents small_elf) (map of_char ''ABC!'') p2 t2 \<and> ip (cpu s') = 0x400000 \<and>
     flags (cpu s') = 0x202"
proof -
  have e: "length (elf_contents small_elf) = 4096" by (simp add: elf_contents_def disk_bytes_def)
  show ?thesis
    using kernel_boots [OF small_machine small_disk _ _ small_elf_segments(3,1) small_elf_phdrs(2), of 2] e small_elf_phdrs(3)
    by (fastforce simp: initial_registers_def)
qed

end
