(* ===== verification/KeyboardOk.thy ===== *)
theory KeyboardOk
  imports KernelBoot
begin

text \<open>
  From a key to the program that reads it: the keyboard interrupt (\<^verbatim>\<open>src/idt/idt.c\<close> and
  \<^verbatim>\<open>src/keyboard/classic.c\<close>), the ring buffer of the process that owns the keyboard
  (\<^verbatim>\<open>src/keyboard/keyboard.c\<close>) and the system call \<open>getkey\<close> (\<^verbatim>\<open>src/isr80h/io.c\<close>)
  as one transmission of characters.
\<close>

subsection \<open>What is typed\<close>

text \<open>The character of a scan code, 0 for none, with caps lock off (0) or on (1).\<close>

definition key_char :: "int \<Rightarrow> byte \<Rightarrow> byte" where
  "key_char caps sc =
     (if 82 < unat sc then 0
      else let c = keyboard_scan_set_one ! unat sc
           in if caps = 0 \<and> 0x41 \<le> c \<and> c \<le> 0x5A then c + 32 else c)"

definition caps_after :: "int \<Rightarrow> byte \<Rightarrow> int" where
  "caps_after caps sc = (if sc = 0x3A then if caps = 1 then 0 else 1 else caps)"

text \<open>The characters of a sequence of scan codes; a code from 0x80 on is the release of a key.\<close>

fun typed :: "int \<Rightarrow> byte list \<Rightarrow> byte list" where
  "typed caps [] = []"
| "typed caps (sc # scs) =
     (if 0x80 \<le> sc then typed caps scs
      else (let c = key_char (caps_after caps sc) sc
            in (if c = 0 then [] else [c]) @ typed (caps_after caps sc) scs))"

text \<open>The keyboard interrupts of a sequence of scan codes, and \<open>n\<close> system calls \<open>getkey\<close>.\<close>

fun press_keys :: "u32 \<Rightarrow> interrupt_frame \<Rightarrow> byte list \<Rightarrow> 'z kstate_scheme \<Rightarrow> 'z kstate_scheme option" where
  "press_keys fl fr [] s = Some s"
| "press_keys fl fr (sc # scs) s =
     (case interrupt_handler fl sc s 0x21 fr of Some (Returned v s1) \<Rightarrow> press_keys fl fr scs s1 | _ \<Rightarrow> None)"

fun read_keys :: "device \<Rightarrow> addr \<Rightarrow> u32 \<Rightarrow> interrupt_frame \<Rightarrow> nat \<Rightarrow> 'z kstate_scheme \<Rightarrow> (u32 list \<times> 'z kstate_scheme) option" where
  "read_keys dev buf fl fr 0 s = Some ([], s)"
| "read_keys dev buf fl fr (Suc n) s =
     (case isr80h_handler dev buf fl s 2 fr of
        Some (Returned v s1) \<Rightarrow> do { (vs, s2) \<leftarrow> read_keys dev buf fl fr n s1; Some (v # vs, s2) }
      | _ \<Rightarrow> None)"

text \<open>
  The running task belongs to the process that has the keyboard; the characters \<open>ks\<close> wait in its buffer,
  which has room for \<open>r\<close> more.
\<close>

definition waiting :: "'z kstate_scheme \<Rightarrow> byte list \<Rightarrow> nat \<Rightarrow> bool" where
  "waiting s ks r \<longleftrightarrow> kernel_wf s \<and> current_task s \<noteq> 0 \<and> curr_process s \<noteq> 0 \<and>
     (\<exists>t. tasks s (current_task s) = Some t \<and> Task.task.process t = curr_process s) \<and>
     (\<exists>p. processes s (curr_process s) = Some p \<and> kb_ok (keyboard p) \<and> kb_contents (keyboard p) = ks \<and>
        r \<le> kb_room (keyboard p))"

subsection \<open>The steps of the handlers\<close>

lemma keyboard_fields [simp]:
  "current_task (kernel_page s) = current_task s" "tasks (kernel_page s) = tasks s"
  "curr_process (kernel_page s) = curr_process s" "processes (kernel_page s) = processes s"
  "caps_lock (kernel_page s) = caps_lock s" "caps_lock (outb s a v) = caps_lock s"
  "current_task (outb s a v) = current_task s" "tasks (outb s a v) = tasks s"
  "curr_process (outb s a v) = curr_process s" "processes (outb s a v) = processes s"
  "caps_lock (keyboard_set_capslock s c) = c"
  by (simp_all add: kernel_page_def paging_switch_def outb_def keyboard_set_capslock_def Let_def)

lemma waiting_page [simp]: "waiting (kernel_page s) ks r = waiting s ks r" "waiting (outb s a v) ks r = waiting s ks r"
  "waiting (keyboard_set_capslock s c) ks r = waiting s ks r"
  by (simp_all add: waiting_def kernel_page_wf) (simp_all add: keyboard_set_capslock_def waiting_def)

lemma waiting_task_page:
  assumes "waiting s ks r"
  obtains s' where "task_page s = Some s'" "waiting s' ks r" "caps_lock s' = caps_lock s"
proof -
  obtain t where t: "tasks s (current_task s) = Some t" using assms by (auto simp: waiting_def)
  obtain s' where s': "task_page s = Some s'" using t by (simp add: task_page_def task_switch_def)
  have "kernel_wf s'" using task_page_wf [OF s'] assms by (simp add: waiting_def)
  moreover have "current_task s' = current_task s" "tasks s' = tasks s" "curr_process s' = curr_process s"
    "processes s' = processes s" "caps_lock s' = caps_lock s"
    using s' t by (auto simp: task_page_def task_switch_def paging_switch_def Let_def)
  ultimately show ?thesis using that [OF s'] assms by (simp add: waiting_def)
qed

lemma waiting_save_state:
  assumes "waiting s ks r"
  obtains s' where "task_current_save_state s fr = Some (Inr s')" "waiting s' ks r" "caps_lock s' = caps_lock s"
proof -
  obtain t where t: "tasks s (current_task s) = Some t" "Task.task.process t = curr_process s" "current_task s \<noteq> 0"
    using assms by (auto simp: waiting_def)
  let ?s' = "set_task s (current_task s) (task_save_state t fr)"
  have s': "task_current_save_state s fr = Some (Inr ?s')" using t by (simp add: task_current_save_state_def)
  have "kernel_wf ?s'" using save_state_wf [OF s'] assms by (simp add: waiting_def)
  moreover have "Task.task.process (task_save_state t fr) = curr_process s" using t by (simp add: task_save_state_def)
  ultimately have "waiting ?s' ks r" using assms by (auto simp: waiting_def set_task_def)
  then show ?thesis using that [OF s'] by (simp add: set_task_def)
qed

lemma waiting_push:
  assumes "waiting s ks r" "c \<noteq> 0" "0 < r"
  obtains s' where "kernel_keyboard_push s c = Some s'" "waiting s' (ks @ [c]) (r - 1)" "caps_lock s' = caps_lock s"
proof -
  obtain p where p: "processes s (curr_process s) = Some p" "kb_ok (keyboard p)" "kb_contents (keyboard p) = ks" "r \<le> kb_room (keyboard p)"
    and c: "curr_process s \<noteq> 0" "kernel_wf s" using assms(1) by (auto simp: waiting_def)
  obtain kb where kb: "kb_push (keyboard p) c = Some kb" "kb_ok kb" "kb_contents kb = ks @ [c]" "kb_room kb = kb_room (keyboard p) - 1"
    using kbq.push_ok [OF p(2) assms(2)] p(3,4) assms(3) by auto
  obtain kb' where kb': "keyboard_push (Some (keyboard p)) c = Some kb'" "the kb' = kb" using kb(1) by (auto simp: kb_push_def)
  let ?s' = "set_process s (curr_process s) (p\<lparr>keyboard := kb\<rparr>)"
  have s': "kernel_keyboard_push s c = Some ?s'"
    using p(1) c(1) kb' by (simp add: kernel_keyboard_push_def process_current_def)
  have "kernel_wf ?s'" by (rule kernel_keyboard_push_wf [OF s' c(2)])
  then have "waiting ?s' (ks @ [c]) (r - 1)"
    using assms(1) kb(2-4) p(4) by (auto simp: waiting_def set_process_def)
  then show ?thesis using that [OF s'] by (simp add: set_process_def)
qed

lemma key_char_eq:
  assumes "unat sc \<noteq> 82"
  shows "classic_keyboad_scancode_to_char s sc = Some (key_char (caps_lock s) sc)"
proof -
  have l: "length keyboard_scan_set_one = 82" by (simp add: keyboard_scan_set_one_def)
  have u: "uint sc = int (unat sc)" by simp
  have "list_all (\<lambda>c. (65 \<le> sint c \<and> sint c \<le> 90) = (0x41 \<le> c \<and> c \<le> 0x5A)) keyboard_scan_set_one"
    by (simp add: keyboard_scan_set_one_def)
  then have cmp: "(65 \<le> sint (keyboard_scan_set_one ! i) \<and> sint (keyboard_scan_set_one ! i) \<le> 90) =
      (0x41 \<le> keyboard_scan_set_one ! i \<and> keyboard_scan_set_one ! i \<le> 0x5A)" if "i < 82" for i
    using that l by (simp add: list_all_length)
  consider "82 < unat sc" | "unat sc < 82" using assms by linarith
  then show ?thesis
  proof cases
    case 1
    then have "int 82 < uint sc" using u by linarith
    then show ?thesis using 1 by (simp add: classic_keyboad_scancode_to_char_def key_char_def l)
  next
    case 2
    then have "\<not> int 82 < uint sc" "\<not> 82 < unat sc" using u by linarith+
    moreover have "rd keyboard_scan_set_one (uint sc) = Some (keyboard_scan_set_one ! unat sc)"
      using 2 l by (simp only: u rd_nat) simp
    ultimately show ?thesis
      unfolding classic_keyboad_scancode_to_char_def key_char_def l Let_def
      using cmp [OF 2] by (simp add: keyboard_get_capslock_def KEYBOARD_CAPS_LOCK_OFF_def)
  qed
qed

lemma released_bit: "(sc AND CLASSIC_KEYBOARD_KEY_RELEASED \<noteq> 0) = (0x80 \<le> sc)" for sc :: byte
proof -
  have "unat sc < 2 ^ LENGTH(8)" by (rule unsigned_less)
  then have l: "unat sc < 256" by simp
  have "(sc AND 2 ^ 7 \<noteq> 0) = bit sc 7" by (simp only: and_exp_eq_0_iff_not_bit) simp
  then have "(sc AND CLASSIC_KEYBOARD_KEY_RELEASED \<noteq> 0) = bit sc 7" by (simp add: CLASSIC_KEYBOARD_KEY_RELEASED_def)
  also have "\<dots> = bit (unat sc) 7" by (simp add: bit_unsigned_iff)
  also have "\<dots> = odd (unat sc div 128)" by (simp add: bit_iff_odd)
  also have "\<dots> = (128 \<le> unat sc)"
  proof (cases "128 \<le> unat sc")
    case True
    then have "unat sc div 128 = 1" using l by (intro div_nat_eqI) simp_all
    then show ?thesis using True by simp
  qed simp
  also have "\<dots> = (0x80 \<le> sc)" by (simp add: word_le_nat_alt)
  finally show ?thesis .
qed

text \<open>One keyboard interrupt.\<close>

lemma press_one:
  assumes "waiting s ks r" "unat sc \<noteq> 82" "length (typed (caps_lock s) [sc]) \<le> r"
  obtains s' where "interrupt_handler fl sc s 0x21 fr = Some (Returned 0 s')"
    "waiting s' (ks @ typed (caps_lock s) [sc]) (r - length (typed (caps_lock s) [sc]))"
    "caps_lock s' = (if 0x80 \<le> sc then caps_lock s else caps_after (caps_lock s) sc)"
proof -
  have cb: "rd (interrupt_callbacks (kernel_page s)) 0x21 = Some (Some Classic_keyboard_handle_interrupt)"
  proof -
    have "tables_ok (kernel_page s)" using assms(1) kernel_page_wf [of s] by (simp add: waiting_def kernel_wf_def)
    then show ?thesis by (simp add: tables_ok_def rd_def)
  qed
  obtain s1 where s1: "task_current_save_state (kernel_page s) fr = Some (Inr s1)" "waiting s1 ks r" "caps_lock s1 = caps_lock s"
    using waiting_save_state [of "kernel_page s" ks r fr] assms(1) by auto
  let ?k = "kernel_page s1"
  let ?c2 = "caps_after (caps_lock s) sc"
  let ?s2 = "if sc = 0x3A then keyboard_set_capslock ?k ?c2 else ?k"
  obtain s3 where s3: "classic_keyboard_handle_interrupt s1 sc = Some s3"
      "waiting s3 (ks @ typed (caps_lock s) [sc]) (r - length (typed (caps_lock s) [sc]))"
      "caps_lock s3 = (if 0x80 \<le> sc then caps_lock s else ?c2)"
  proof (cases "0x80 \<le> sc")
    case True
    then show ?thesis
      using that [of ?k] s1(2,3) by (simp add: classic_keyboard_handle_interrupt_def released_bit)
  next
    case False
    have c2: "caps_lock ?s2 = ?c2" "waiting ?s2 ks r"
      using s1(2,3) by (simp_all add: caps_after_def)
    let ?c = "key_char ?c2 sc"
    have chr: "classic_keyboad_scancode_to_char ?s2 sc = Some ?c" using key_char_eq [OF assms(2), of ?s2] c2(1) by simp
    have h: "classic_keyboard_handle_interrupt s1 sc =
        (do { s3 \<leftarrow> (if ?c \<noteq> 0 then kernel_keyboard_push ?s2 ?c else Some ?s2); task_page s3 })"
      using False chr s1(3) 
      by (auto simp: classic_keyboard_handle_interrupt_def released_bit caps_after_def Let_def CLASSIC_KEYBOARD_CAPSLOCK_def
          KEYBOARD_CAPS_LOCK_ON_def KEYBOARD_CAPS_LOCK_OFF_def keyboard_get_capslock_def split: if_splits)
    show ?thesis
    proof (cases "?c = 0")
      case True
      obtain s3 where s3: "task_page ?s2 = Some s3" "waiting s3 ks r" "caps_lock s3 = ?c2"
        using waiting_task_page [OF c2(2)] c2(1) by metis
      then show ?thesis using that [of s3] h True False by (simp add: Let_def)
    next
      case nz: False
      have r: "0 < r" using assms(3) nz False by (simp add: Let_def)
      obtain s2' where p: "kernel_keyboard_push ?s2 ?c = Some s2'" "waiting s2' (ks @ [?c]) (r - 1)" "caps_lock s2' = ?c2"
        using waiting_push [OF c2(2) nz r] c2(1) by metis
      obtain s3 where s3: "task_page s2' = Some s3" "waiting s3 (ks @ [?c]) (r - 1)" "caps_lock s3 = ?c2"
        using waiting_task_page [OF p(2)] p(3) by metis
      show ?thesis using that [of s3] h p(1) s3 nz False by (simp add: Let_def)
    qed
  qed
  obtain s4 where s4: "task_page s3 = Some s4" "waiting s4 (ks @ typed (caps_lock s) [sc]) (r - length (typed (caps_lock s) [sc]))"
      "caps_lock s4 = caps_lock s3"
    using waiting_task_page [OF s3(2)] by metis
  have "interrupt_handler fl sc s 0x21 fr = Some (Returned 0 (outb s4 0x20 0x20))"
    using cb s1(1) s3(1) s4(1) by (simp add: interrupt_handler_def run_callback_def Let_def)
  then show ?thesis using that s4(2,3) s3(3) by simp
qed

text \<open>One \<open>getkey\<close>.\<close>

lemma waiting_pop:
  assumes "waiting s ks r"
  obtains s' where "kernel_keyboard_pop s = Some (case ks of [] \<Rightarrow> 0 | c # _ \<Rightarrow> c, s')" "waiting s' (tl ks) 0"
proof -
  obtain t p where t: "tasks s (current_task s) = Some t" "Task.task.process t = curr_process s" "current_task s \<noteq> 0"
      "processes s (curr_process s) = Some p" "kb_ok (keyboard p)" "kb_contents (keyboard p) = ks" "kernel_wf s"
    using assms by (auto simp: waiting_def)
  obtain kb where kb: "kb_pop (keyboard p) = Some (case ks of [] \<Rightarrow> 0 | c # _ \<Rightarrow> c, kb)" "kb_ok kb" "kb_contents kb = tl ks"
  proof (cases ks)
    case Nil
    then show ?thesis using that kbq.pop_empty [OF t(5)] t(5,6) by simp
  next
    case (Cons c ks')
    then show ?thesis using that kbq.pop_ok [OF t(5)] t(6) by auto
  qed
  obtain kb' where kb': "keyboard_pop (Some (keyboard p)) = Some (case ks of [] \<Rightarrow> 0 | c # _ \<Rightarrow> c, kb')" "the kb' = kb"
    using kb(1) by (auto simp: kb_pop_def split: prod.splits)
  let ?s' = "set_process s (curr_process s) (p\<lparr>keyboard := kb\<rparr>)"
  have s': "kernel_keyboard_pop s = Some (case ks of [] \<Rightarrow> 0 | c # _ \<Rightarrow> c, ?s')"
    using t kb' by (simp add: kernel_keyboard_pop_def)
  have "kernel_wf ?s'" by (rule kernel_keyboard_pop_wf [OF s' t(7)])
  then have "waiting ?s' (tl ks) 0" using assms kb(2,3) by (auto simp: waiting_def set_process_def)
  then show ?thesis using that s' by blast
qed

lemma read_one:
  assumes "waiting s ks r"
  obtains s' where "isr80h_handler dev buf fl s 2 fr = Some (Returned (scast (case ks of [] \<Rightarrow> 0 | c # _ \<Rightarrow> c)) s')"
    "waiting s' (tl ks) 0"
proof -
  obtain s1 where s1: "task_current_save_state (kernel_page s) fr = Some (Inr s1)" "waiting s1 ks r"
    using waiting_save_state [of "kernel_page s" ks r fr] assms by auto
  have find: "isr80h_find_command (isr80h_commands s1) 2 = Some (Some command2_getkey)"
    using s1(2) by (simp add: waiting_def kernel_wf_def tables_ok_def system_commands_def)
  obtain s2 where s2: "kernel_keyboard_pop s1 = Some (case ks of [] \<Rightarrow> 0 | c # _ \<Rightarrow> c, s2)" "waiting s2 (tl ks) 0"
    by (rule waiting_pop [OF s1(2)])
  obtain s3 where s3: "task_page s2 = Some s3" "waiting s3 (tl ks) 0" by (rule waiting_task_page [OF s2(2)])
  have "isr80h_handler dev buf fl s 2 fr = Some (Returned (scast (case ks of [] \<Rightarrow> 0 | c # _ \<Rightarrow> c)) s3)"
    using s1(1) find s2(1) s3(1)
    by (simp add: isr80h_handler_def isr80h_handle_command_def run_command_def isr80h_command2_getkey_def)
  then show ?thesis using that s3(2) by blast
qed

lemma press_keys_ok:
  "waiting s ks r \<Longrightarrow> 82 \<notin> set scs \<Longrightarrow> length (typed (caps_lock s) scs) \<le> r \<Longrightarrow>
    \<exists>s' r'. press_keys fl fr scs s = Some s' \<and> waiting s' (ks @ typed (caps_lock s) scs) r'"
proof (induction scs arbitrary: s ks r)
  case Nil
  then show ?case by auto
next
  case (Cons sc scs)
  have "sc \<noteq> 82" using Cons.prems(2) by auto
  then have n: "unat sc \<noteq> 82" using word_unat_eq_iff [of sc 82] by simp
  let ?caps = "if 0x80 \<le> sc then caps_lock s else caps_after (caps_lock s) sc"
  have t: "typed (caps_lock s) (sc # scs) = typed (caps_lock s) [sc] @ typed ?caps scs" by (simp add: Let_def)
  obtain s1 where s1: "interrupt_handler fl sc s 0x21 fr = Some (Returned 0 s1)"
      "waiting s1 (ks @ typed (caps_lock s) [sc]) (r - length (typed (caps_lock s) [sc]))" "caps_lock s1 = ?caps"
    by (rule press_one [OF Cons.prems(1) n]) (use Cons.prems(3) t in simp, rule that)
  obtain s' r' where "press_keys fl fr scs s1 = Some s'" "waiting s' ((ks @ typed (caps_lock s) [sc]) @ typed ?caps scs) r'"
  proof -
    have "82 \<notin> set scs" "length (typed (caps_lock s1) scs) \<le> r - length (typed (caps_lock s) [sc])"
      using Cons.prems(2,3) unfolding s1(3) t by (auto simp del: typed.simps)
    from Cons.IH [OF s1(2) this] show ?thesis using that unfolding s1(3) by blast
  qed
  then show ?case using s1(1) t by (intro exI [of _ s'] exI [of _ r']) simp
qed

lemma read_keys_ok:
  "waiting s (ks @ ks') r \<Longrightarrow> \<exists>s' r'. read_keys dev buf fl fr (length ks) s = Some (map scast ks, s') \<and> waiting s' ks' r'"
proof (induction ks arbitrary: s r)
  case Nil
  then show ?case by auto
next
  case (Cons k ks)
  obtain s1 where s1: "isr80h_handler dev buf fl s 2 fr = Some (Returned (scast k) s1)" "waiting s1 (ks @ ks') 0"
    using read_one [OF Cons.prems, of dev buf fl fr] by (metis append_Cons list.case(2) list.sel(3))
  obtain s' r' where "read_keys dev buf fl fr (length ks) s1 = Some (map scast ks, s')" "waiting s' ks' r'"
    using Cons.IH [OF s1(2)] by blast
  then show ?case using s1(1) by auto
qed

text \<open>
  C25. From the keyboard to the program. Whatever keys are pressed and released while a
  task of the process that owns the keyboard runs, the interrupts return to it, and the \<open>getkey\<close> system calls it makes
  then return the characters typed, in this order and with the state of caps lock at each of them, and 0 when
  there is no more; as long as they fit in the buffer and the scan code 82, which reads past the table of characters,
  does not occur.
\<close>

theorem keys_reach_program:
  assumes "waiting s [] r" "82 \<notin> set scs" "length (typed (caps_lock s) scs) \<le> r"
  shows "\<exists>s1 s2. press_keys fl fr scs s = Some s1 \<and>
    read_keys dev buf fl fr' (Suc (length (typed (caps_lock s) scs))) s1 = Some (map scast (typed (caps_lock s) scs) @ [0], s2)"
proof -
  let ?ks = "typed (caps_lock s) scs"
  obtain s1 r1 where s1: "press_keys fl fr scs s = Some s1" "waiting s1 ?ks r1"
    using press_keys_ok [OF assms, of fl fr] by auto
  have split: "read_keys dev buf fl fr' (m + n) s = (case read_keys dev buf fl fr' m s of None \<Rightarrow> None
      | Some (vs, s') \<Rightarrow> (case read_keys dev buf fl fr' n s' of None \<Rightarrow> None | Some (ws, s'') \<Rightarrow> Some (vs @ ws, s'')))" for m n s
    by (induction m arbitrary: s) (auto split: option.splits control.splits bind_splits)
  have "waiting s1 (?ks @ []) r1" using s1(2) by simp
  from read_keys_ok [OF this, of dev buf fl fr']
  obtain s2 r2 where s2: "read_keys dev buf fl fr' (length ?ks) s1 = Some (map scast ?ks, s2)" "waiting s2 [] r2" by blast
  obtain s3 where "isr80h_handler dev buf fl s2 2 fr' = Some (Returned 0 s3)"
    by (rule read_one [OF s2(2), of dev buf fl fr']) (auto intro: that)
  then have "read_keys dev buf fl fr' (length ?ks + 1) s1 = Some (map scast ?ks @ [0], s3)"
    unfolding split s2(1) by simp
  then show ?thesis using s1(1) by auto
qed

lemma typing_machine:
  obtains s :: bstate where "waiting s [] 1024" "caps_lock s = 0"
proof -
  have e: "52 \<le> length (elf_contents small_elf)" "length (elf_contents small_elf) \<le> 49152"
    by (simp_all add: elf_contents_def disk_bytes_def)
  obtain p1 t1 t2 and s :: bstate where s: "kernel_wf s" "task_list s [t1, t2]"
      "ready s (elf_contents small_elf) (map of_char ''Testing!'') p1 t1" "current_task s = t1" "k_inv s"
    using kernel_boots_run [OF small_machine small_disk e small_elf_segments(3,1) small_elf_phdrs(2), of 2] by blast
  obtain q t where q: "processes s p1 = Some q" "tasks s t1 = Some t" "Task.task.process t = p1" "p1 \<in> dom (k_live s)"
    using s(3) by (auto simp: ready_def runs_in_def)
  have nz: "t1 \<noteq> 0" "p1 \<noteq> 0" using s(2) q(4) kz.live_aligned [OF s(5)] by (auto simp: task_list_def)
  let ?s = "keyboard_set_capslock (set_process (s\<lparr>curr_process := p1\<rparr>) p1 (q\<lparr>keyboard := empty_keyboard\<rparr>)) 0"
  have "process_wf q" by (rule kernel_wf_process [OF s(1) q(1)])
  then have "process_wf (q\<lparr>keyboard := empty_keyboard\<rparr>)" by (simp add: process_wf_def empty_keyboard_def BENOS_KEYBOARD_BUFFER_SIZE_def)
  then have "kernel_wf ?s" using kernel_wf_set_process [of "s\<lparr>curr_process := p1\<rparr>"] s(1) by simp
  then have "waiting ?s [] 1024"
    using q s(4) nz empty_keyboard by (simp add: waiting_def keyboard_set_capslock_def set_process_def)
  moreover have "caps_lock ?s = 0" by (simp add: keyboard_set_capslock_def set_process_def)
  ultimately show ?thesis by (rule that)
qed

text \<open>The key A, and the system call that reads it, are two steps of the kernel.\<close>

theorem kernel_keeps_types_witness:
  "\<exists>s :: bstate. kernel_wf s \<and> (\<forall>fl fr. \<exists>s1 s2. interrupt_handler fl 0x1E s 0x21 fr = Some (Returned 0 s1) \<and>
     isr80h_handler numbered_disk 0 fl s1 2 fr = Some (Returned 0x61 s2) \<and> kernel_wf s2)"
proof -
  obtain s :: bstate where s: "waiting s [] 1024" "caps_lock s = 0" by (rule typing_machine)
  have t: "typed (caps_lock s) [0x1E] = [0x61]"
    by (simp add: s(2) key_char_def caps_after_def keyboard_scan_set_one_def Let_def)
  have w: "kernel_wf s" using s(1) by (simp add: waiting_def)
  have "\<exists>s1 s2. interrupt_handler fl 0x1E s 0x21 fr = Some (Returned 0 s1) \<and>
     isr80h_handler numbered_disk 0 fl s1 2 fr = Some (Returned 0x61 s2) \<and> kernel_wf s2" for fl fr
  proof -
    obtain s1 where s1: "interrupt_handler fl 0x1E s 0x21 fr = Some (Returned 0 s1)" "waiting s1 ([] @ [0x61]) (1024 - length [0x61 :: byte])"
      by (rule press_one [OF s(1), of "0x1E" fl fr, unfolded t]) (simp, simp, rule that)
    have r: "waiting s1 [0x61] 1023" using s1(2) by simp
    obtain s2 where s2: "isr80h_handler numbered_disk 0 fl s1 2 fr = Some (Returned (scast (case [0x61 :: byte] of [] \<Rightarrow> 0 | c # _ \<Rightarrow> c)) s2)"
      by (rule read_one [OF r, of numbered_disk 0 fl fr]) (rule that)
    have "(kernel_step numbered_disk)\<^sup>*\<^sup>* s s2"
      using kernel_step.interrupt_returns [OF s1(1)] kernel_step.call_returns [OF s2] by (meson rtranclp.simps)
    then have "kernel_wf s2" by (rule kernel_keeps_types [OF _ w])
    then show ?thesis using s1(1) s2 by (intro exI [of _ s1] exI [of _ s2]) simp
  qed
  then show ?thesis using w by blast
qed

text \<open>The keys A (pressed and released), caps lock and B: the program reads \<open>a\<close> and \<open>B\<close>.\<close>

theorem keys_reach_program_witness:
  "\<exists>s :: bstate. waiting s [] 1024 \<and> (\<forall>fl fr. \<exists>s1. press_keys fl fr [0x1E, 0x9E, 0x3A, 0x30] s = Some s1 \<and>
     (\<exists>s2. read_keys numbered_disk 0 fl fr 3 s1 = Some ([0x61, 0x42, 0], s2)))"
proof -
  obtain s :: bstate where s: "waiting s [] 1024" "caps_lock s = 0" by (rule typing_machine)
  have t: "typed (caps_lock s) [0x1E, 0x9E, 0x3A, 0x30] = [0x61, 0x42]"
    by (simp add: s(2) key_char_def caps_after_def keyboard_scan_set_one_def Let_def)
  have "\<exists>s1 s2. press_keys fl fr [0x1E, 0x9E, 0x3A, 0x30] s = Some s1 \<and>
      read_keys numbered_disk 0 fl fr 3 s1 = Some ([0x61, 0x42, 0], s2)" for fl fr
  proof -
    have "82 \<notin> set [0x1E, 0x9E, 0x3A, 0x30 :: byte]" by simp
    moreover have "length [0x61, 0x42 :: byte] \<le> 1024" by simp
    ultimately have "\<exists>s1 s2. press_keys fl fr [0x1E, 0x9E, 0x3A, 0x30] s = Some s1 \<and>
        read_keys numbered_disk 0 fl fr (Suc (length [0x61, 0x42 :: byte])) s1 = Some (map scast [0x61, 0x42 :: byte] @ [0], s2)"
      by (rule keys_reach_program [OF s(1), of "[0x1E, 0x9E, 0x3A, 0x30]", unfolded t])
    moreover have "Suc (length [0x61, 0x42 :: byte]) = 3" "map scast [0x61, 0x42 :: byte] @ [0] = [0x61, 0x42, 0 :: u32]" by simp_all
    ultimately show ?thesis by metis
  qed
  then show ?thesis using s(1) by blast
qed

end
