(* ===== verification/Spec2Isabelle.thy ===== *)
theory Spec2Isabelle
  imports Terminal Keyboard Gdt Isr80h KeyboardOk
begin

text \<open>
  benOS is a small 32-bit x86 operating system in C: a kernel (\<^verbatim>\<open>src/src\<close>) with a heap, paging, a FAT16 file
  system read through a virtual file system, an ELF loader, processes with one task each, a PS/2 keyboard, a text
  terminal and ten system calls, and a user library with a shell (\<^verbatim>\<open>src/programs\<close>). This development is a model of
  all of its C code and of the theorems that make its parts correct. This theory only gathers the others.

  \<^bold>\<open>How the parts interact.\<close>
  \<open>kernel_main\<close> initialises the descriptor tables, the heap, the file system, the disk, paging, the system calls and
  the keyboard, loads two processes and sends the processor to the first task. From there on the kernel runs
  only in two handlers: \<open>isr80h_handler\<close> for the system calls and \<open>interrupt_handler\<close> for the keyboard, the
  clock and the exceptions. Both switch to the kernel's address space, save the registers of the
  current task, run what is registered, and either return to the task or send the processor to another one.
  Everything dynamic is allocated on the heap in blocks of 4096 bytes: path nodes, directories, streams,
  descriptors, programs, stacks, tasks, page directories and page tables.

  \<^bold>\<open>The state.\<close>
  One record grows layer by layer, each theory adding the static variables of its C files:
  \<open>kmem\<close> (heap and physical memory, Heap), \<open>pmem\<close> (the current directory and CR3, Paging), \<open>tstate\<close> (tasks, the
  registers of the processor, Task), \<open>fstate\<close> (file descriptors and mounted disk, Vfs), \<open>estate\<close> (loaded ELF files,
  ElfLoader), \<open>pstate\<close> (processes, screen, Process), \<open>kstate\<close> (keyboards, handler tables, ports, ClassicKeyboard) and
  \<open>bstate\<close> (descriptor tables and their registers, Kernel). An operation of a lower layer is stated over the scheme
  of its record, so it applies unchanged to the states of the layers above. Page tables, directories, the
  loaded files, programs, stacks and arguments are bytes of the physical memory \<open>ram\<close>; the structures \<open>task\<close>,
  \<open>process\<close>, \<open>file_descriptor\<close>, \<open>fat_private\<close> and the path nodes are records kept with the addresses of
  their heap blocks.

  \<^bold>\<open>Conventions.\<close>
  \<open>None\<close> is undefined behaviour: a read or write outside an array, a null or dangling pointer where a structure
  is needed, a loop that does not end. \<open>Some r\<close> is a call that returns. An error code is an ordinary result, a kernel
  panic is \<open>Inl (Panic msg)\<close>. Addresses, sizes and table entries are 32-bit words that wrap around; \<open>char\<close> is a signed
  8-bit word; an \<open>int\<close> that only counts is an integer, reduced where it can overflow.

  \<^bold>\<open>The theories, bottom up.\<close>
  \<^item> Prelude: \<^verbatim>\<open>config.h\<close>, \<^verbatim>\<open>status.h\<close>; array access with bounds, C division. CString: \<^verbatim>\<open>string/string.c\<close>, \<^verbatim>\<open>memory/memory.c\<close>.
  \<^item> Heap: \<^verbatim>\<open>memory/heap/heap.c\<close>, \<^verbatim>\<open>kheap.c\<close>. Allocator: its invariant and the locales \<open>allocator\<close> and \<open>exact_allocator\<close>,
    interpreted on \<open>heap_malloc\<close>, \<open>kmalloc\<close> and \<open>kzalloc\<close>; Blocks: what sequences of allocations keep and when the next one
    succeeds.
  \<^item> PhysMem, Paging: \<^verbatim>\<open>memory/paging/paging.c\<close>, the locale \<open>page_map\<close>; Spaces: address spaces as blocks of the heap.
  \<^item> PathParser: \<^verbatim>\<open>fs/pparser.c\<close>. Terminal: the terminal of \<^verbatim>\<open>kernel.c\<close>. Keyboard: \<^verbatim>\<open>keyboard/keyboard.c\<close>, the ring buffer
    and the locale \<open>fifo\<close>. Gdt: \<^verbatim>\<open>gdt/gdt.c\<close>. Idt: the tables of \<^verbatim>\<open>idt/idt.c\<close> and \<^verbatim>\<open>isr80h/isr80h.c\<close>.
  \<^item> Task: \<^verbatim>\<open>task/task.c\<close> and \<open>task_return\<close> of \<^verbatim>\<open>task.asm\<close>, the locale \<open>round_robin\<close>. Disk: \<^verbatim>\<open>disk/disk.c\<close>, \<^verbatim>\<open>disk/streamer.c\<close>.
  \<^item> Fat16: \<^verbatim>\<open>fs/fat/fat16.c\<close>; FatDir (directories), FatFile (files), FatMount (mounting, the example disk with the
    header of \<^verbatim>\<open>boot/boot.asm\<close>).
  \<^item> Vfs: \<^verbatim>\<open>fs/file.c\<close>; VfsContract: the locale \<open>file_system\<close>, interpreted on FAT16; VfsOk: the descriptor table and
    reading files.
  \<^item> ElfLoader, ElfOk: \<^verbatim>\<open>loader/formats/elfloader.c\<close>, \<^verbatim>\<open>elf.c\<close>, \<^verbatim>\<open>elf.h\<close>.
  \<^item> Process: \<^verbatim>\<open>task/process.c\<close>; ProcessMem (memory of a process), ProcessMap (its address space), ProcessOk (loading),
    ProcessArgs (arguments), ProcessEnd (termination); Frames: what lower operations leave alone.
  \<^item> ClassicKeyboard: \<^verbatim>\<open>keyboard/classic.c\<close>. Isr80h: the ten system calls of \<^verbatim>\<open>isr80h/\<close> and the handlers of \<^verbatim>\<open>idt/idt.c\<close>.
  \<^item> Kernel: \<open>kernel_main\<close>. KernelOk: the types of the whole state, KernelBoot: the boot, KeyboardOk: from a key to the program.
  \<^item> UserLib: \<^verbatim>\<open>programs/stdlib\<close> without the commands; UserShell: \<^verbatim>\<open>benos.c\<close>, \<^verbatim>\<open>start.c\<close> and the programs \<open>shell\<close> and \<open>blank\<close>;
    UserOk and UserShellOk: their correctness.

  \<^bold>\<open>What the theorems show.\<close>
  \<^item> The whole: \<open>kernel_boots\<close> (from the machine as the boot code leaves it to the first instruction of a program,
    with two processes ready to run), \<open>kernel_keeps_types\<close> (system calls, interrupts and programs that leave the
    kernel's structures alone keep the types of these structures), \<open>keys_reach_program\<close> (what is typed is what \<open>getkey\<close>
    returns), \<open>shell_round_runs\<close> (the shell hands the words of a line to the kernel).
  \<^item> Memory: live allocations never overlap (\<open>heap_live_regions_disjoint\<close>), the search is first fit, a new address space is the
    identity, mapping changes exactly the pages asked for, and creating and freeing a space restores the heap.
  \<^item> Files: streams deliver the bytes of the disk, mounting, lookup, opening, reading and closing of
    FAT16, and the same through the virtual file system, for every file system that keeps the contract.
  \<^item> Processes: a program sees its file in its address space, memory on request, arguments, the fair
    scheduler, the saved and restored registers.
  \<^item> Text: path parser, print, string routines of kernel and user library against each other, decimal numbers, line editing,
    splitting a command into words against an independent definition.
  \<^item> Faults: several theorems state what the code does where it departs from its intention:
    \<open>fat_entry_misplaced\<close>, \<open>fat16_deleted_hides\<close>, \<open>heap_malloc_overrun\<close>, \<open>process_terminate_halts\<close>, \<open>count_args_terminates\<close> (a cyclic list
    never ends).

  \<^bold>\<open>Bounds.\<close>
  The loops over fixed tables recurse over the number of entries left; the search of the heap and the loops of
  paging have measures; loops whose end depends on memory (strings of a program, lists of arguments, \<open>getkeyblock\<close>,
  the main loops of the programs) are partial functions, and where a theorem speaks of them it proves that they
  return. \<open>kernel_boots\<close> covers files from 52 bytes (the ELF header) to 48 KiB: with 12 blocks for the file each,
  the kernel and two programs take fewer than 3200 of the 25600 blocks, which leaves the runs of free blocks that the
  hypotheses of the loader ask for. Reading a file is proved inside its first cluster, because the allocation table is
  read at the wrong place (\<open>fat_entry_misplaced\<close>). \<open>process_inject_args_ok\<close> covers every list whose array of pointers
  fits one block; \<open>keys_reach_program\<close> as many characters as the buffer of 1024 has room for.

  \<^bold>\<open>Parameters.\<close>
  The contents of the drive (\<open>device\<close>, the bytes of each sector; where needed a sector has 512), the scan code that the controller
  delivers, the flags of the processor, the addresses of local arrays and of string literals, the addresses chosen by the
  linker and the bytes found in memory at start (\<open>image\<close>), and for programs the replies of the system calls.

  \<^bold>\<open>Not modelled.\<close>
  The boot sector's code, the switch to protected mode and the reprogramming of the interrupt controller (\<^verbatim>\<open>boot.asm\<close>,
  \<^verbatim>\<open>kernel.asm\<close>), the entry stubs of \<^verbatim>\<open>idt.asm\<close>, and the instructions \<open>lgdt\<close>, \<open>lidt\<close>, \<open>ltr\<close> and those that set CR0 and CR3,
  which appear as the registers they set: assembly that no C function contains. \<open>task_return\<close>, \<open>outb\<close> and the system
  call stubs of the user library are modelled, since the C code is not meaningful without them. The polling of the disk
  controller and the timing of the ports belong to the drive. User code between two system calls is arbitrary: the
  steps of \<open>kernel_keeps_types\<close> let it change any byte of \<open>ram\<close> and any register. Writes that miss their object and hit a
  structure that is not kept as bytes (the static tables, tasks, processes, descriptors, the heap table) are not
  modelled as such: in the kernel they are \<open>None\<close> (a null destination, an array that is too short, a pointer of system
  call 8 outside of the memory of the process), and programs are taken not to make them.
\<close>

end
